(* ===== verification/Prelude.thy ===== *)
theory Prelude
  imports Main "HOL-Library.Word" "HOL-Library.Sublist"
begin

text \<open>
  Shared vocabulary of the development.

  A Go \<^verbatim>\<open>string\<close> is a sequence of bytes: it is a \<open>string\<close> (a list of \<open>char\<close>, each one byte).
  Text held in a \<^verbatim>\<open>[]byte\<close> (a log line) is a \<open>string\<close> too; binary data (keys, hashes, ciphertext)
  is a list of \<open>8 word\<close>. A \<^verbatim>\<open>time.Time\<close> is its distance in nanoseconds from the zero time, so
  \<^verbatim>\<open>IsZero\<close> is equality with 0, and a \<^verbatim>\<open>time.Duration\<close> is a number of nanoseconds; both are \<open>int\<close>.
  Go's unsigned integers keep their width (\<open>8 word\<close>, \<open>32 word\<close>, \<open>64 word\<close>) where the code
  compares, increments or serialises them.

  The theory also holds the list, option and string operations of Go's standard library that
  several components call, with the facts about them that the component proofs share.
\<close>

type_synonym byte = "8 word"
type_synonym bytes = "byte list"
type_synonym u8 = "8 word"
type_synonym u32 = "32 word"
type_synonym u64 = "64 word"
type_synonym time = int
type_synonym duration = int

named_theorems codec_simps \<open>round-trip facts of the text encodings\<close>
named_theorems be_simps \<open>big-endian serialisation\<close>
named_theorems op_defs \<open>definitions of the state-changing operations\<close>
named_theorems inv_intros \<open>preservation facts of the component invariants\<close>

definition second :: duration where "second = 1000000000"
definition minute :: duration where "minute = 60 * second"
definition hour :: duration where "hour = 60 * minute"

text \<open>\<^verbatim>\<open>t.Before(u)\<close> is \<open>t < u\<close>; \<^verbatim>\<open>!now.Before(expiresAt)\<close> is how the code says ``expired''.\<close>

definition expired :: "time \<Rightarrow> time \<Rightarrow> bool" where
  "expired now expiresAt \<longleftrightarrow> \<not> now < expiresAt"

section \<open>Strings\<close>

definition has_prefix :: "string \<Rightarrow> string \<Rightarrow> bool" where
  "has_prefix s p \<longleftrightarrow> take (length p) s = p"

definition has_suffix :: "string \<Rightarrow> string \<Rightarrow> bool" where
  "has_suffix s p \<longleftrightarrow> length p \<le> length s \<and> drop (length s - length p) s = p"

lemma has_prefix_append [simp]: "has_prefix (p @ s) p"
  by (simp add: has_prefix_def)

lemma has_prefix_iff: "has_prefix s p \<longleftrightarrow> (\<exists>t. s = p @ t)"
  by (metis append_take_drop_id has_prefix_append has_prefix_def)

lemma has_prefix_Nil [simp]: "has_prefix s []"
  by (simp add: has_prefix_def)

text \<open>\<^verbatim>\<open>strings.Trim(s, cutset)\<close> on a set of one-byte characters.\<close>

definition trim_set :: "char set \<Rightarrow> string \<Rightarrow> string" where
  "trim_set cs s = rev (dropWhile (\<lambda>c. c \<in> cs) (rev (dropWhile (\<lambda>c. c \<in> cs) s)))"

lemma dropWhile_pad:
  "\<forall>c \<in> set w. P c \<Longrightarrow> \<forall>c \<in> set s. \<not> P c \<Longrightarrow> s \<noteq> [] \<Longrightarrow> dropWhile P (w @ s @ t) = s @ t"
  by (cases s) (simp_all add: dropWhile_append)

lemma trim_set_pad:
  assumes "set w \<subseteq> cs" and "set w' \<subseteq> cs" and s: "\<forall>c \<in> set s. c \<notin> cs" "s \<noteq> []"
  shows "trim_set cs (w @ s @ w') = s"
proof -
  have "dropWhile (\<lambda>c. c \<in> cs) (w @ s @ w') = s @ w'"
    using assms by (intro dropWhile_pad) auto
  moreover have "dropWhile (\<lambda>c. c \<in> cs) (rev w' @ rev s @ []) = rev s @ []"
    using assms by (intro dropWhile_pad) auto
  ultimately show ?thesis by (simp add: trim_set_def)
qed

text \<open>\<^verbatim>\<open>strings.Cut(s, sep)\<close> for a one-byte separator: the text before and after the first one.\<close>

fun cut_at :: "char \<Rightarrow> string \<Rightarrow> string \<times> string \<times> bool" where
  "cut_at c [] = ([], [], False)"
| "cut_at c (x # xs) =
     (if x = c then ([], xs, True)
      else (case cut_at c xs of (a, b, ok) \<Rightarrow> (x # a, b, ok)))"

lemma cut_at_append: "c \<notin> set a \<Longrightarrow> cut_at c (a @ c # b) = (a, b, True)"
  by (induction a) auto

lemma cut_at_absent: "c \<notin> set a \<Longrightarrow> cut_at c a = (a, [], False)"
  by (induction a) auto

text \<open>\<^verbatim>\<open>strings.Split(s, sep)\<close> and \<^verbatim>\<open>bytes.Split\<close> for a one-byte separator: never empty.\<close>

fun split_on :: "char \<Rightarrow> string \<Rightarrow> string list" where
  "split_on c [] = [[]]"
| "split_on c (x # xs) =
     (if x = c then [] # split_on c xs
      else (case split_on c xs of [] \<Rightarrow> [[x]] | l # ls \<Rightarrow> (x # l) # ls))"

lemma split_on_ne [simp]: "split_on c s \<noteq> []"
  by (induction s) (auto split: list.splits)

lemma split_on_prefix:
  "c \<notin> set a \<Longrightarrow> split_on c (a @ c # b) = a # split_on c b"
  by (induction a) auto

lemma split_on_absent: "c \<notin> set a \<Longrightarrow> split_on c a = [a]"
  by (induction a) auto

text \<open>Joining with a separator is the inverse of splitting.\<close>

fun join_with :: "string \<Rightarrow> string list \<Rightarrow> string" where
  "join_with sep [] = []"
| "join_with sep [x] = x"
| "join_with sep (x # y # zs) = x @ sep @ join_with sep (y # zs)"

lemma join_with_Cons: "ls \<noteq> [] \<Longrightarrow> join_with sep (l # ls) = l @ sep @ join_with sep ls"
  by (cases ls) auto

lemma join_split [simp]: "join_with [c] (split_on c s) = s"
proof (induction s)
  case Nil
  then show ?case by simp
next
  case (Cons x xs)
  then obtain l ls where sp: "split_on c xs = l # ls"
    by (metis neq_Nil_conv split_on_ne)
  with Cons show ?case
    by (cases ls) auto
qed

lemma split_on_no_sep: "l \<in> set (split_on c s) \<Longrightarrow> c \<notin> set l"
  by (induction s arbitrary: l) (auto split: list.splits if_splits)

section \<open>Decimal numbers\<close>

text \<open>\<^verbatim>\<open>strconv.Itoa\<close> and \<^verbatim>\<open>strconv.FormatUint(_, 10)\<close>.\<close>

definition digit_char :: "nat \<Rightarrow> char" where
  "digit_char d = char_of (48 + d)"

fun show_nat :: "nat \<Rightarrow> string" where
  "show_nat n = (if n < 10 then [digit_char n] else show_nat (n div 10) @ [digit_char (n mod 10)])"

declare show_nat.simps [simp del]

definition is_digit :: "char \<Rightarrow> bool" where
  "is_digit c \<longleftrightarrow> 48 \<le> (of_char c :: nat) \<and> (of_char c :: nat) \<le> 57"

definition digit_val :: "char \<Rightarrow> nat" where
  "digit_val c = of_char c - 48"

text \<open>\<^verbatim>\<open>strconv.ParseUint(s, 10, bits)\<close>: a non-empty run of digits that fits.\<close>

definition parse_digits :: "string \<Rightarrow> nat option" where
  "parse_digits s =
     (if s = [] \<or> \<not> list_all is_digit s then None
      else Some (foldl (\<lambda>a c. 10 * a + digit_val c) 0 s))"

definition parse_uint :: "nat \<Rightarrow> string \<Rightarrow> nat option" where
  "parse_uint bits s =
     (case parse_digits s of
        None \<Rightarrow> None
      | Some n \<Rightarrow> if n < 2 ^ bits then Some n else None)"

lemma digit_char_simps [simp]:
  assumes "d < 10"
  shows "is_digit (digit_char d)" and "digit_val (digit_char d) = d"
  using assms by (auto simp: is_digit_def digit_val_def digit_char_def)

lemma show_nat_digits: "list_all is_digit (show_nat n)"
  by (induction n rule: show_nat.induct) (subst show_nat.simps, auto)

lemma show_nat_ne [simp]: "show_nat n \<noteq> []"
  by (subst show_nat.simps) simp

lemma show_nat_value: "foldl (\<lambda>a c. 10 * a + digit_val c) 0 (show_nat n) = n"
proof (induction n rule: show_nat.induct)
  case (1 n)
  show ?case
  proof (cases "n < 10")
    case True
    then show ?thesis by (simp add: show_nat.simps [of n])
  next
    case False
    with 1 show ?thesis by (simp add: show_nat.simps [of n])
  qed
qed

lemma parse_show_nat [simp]: "parse_digits (show_nat n) = Some n"
  using show_nat_digits by (simp add: parse_digits_def show_nat_value)

lemma parse_uint_show: "n < 2 ^ bits \<Longrightarrow> parse_uint bits (show_nat n) = Some n"
  by (simp add: parse_uint_def)

lemma show_nat_inj: "show_nat a = show_nat b \<longleftrightarrow> a = b"
  by (metis option.inject parse_show_nat)

lemma digit_not_char: "is_digit c \<Longrightarrow> (of_char d :: nat) < 48 \<or> 57 < (of_char d :: nat) \<Longrightarrow> c \<noteq> d"
  by (auto simp: is_digit_def)

text \<open>\<^verbatim>\<open>strconv.Atoi\<close>: an optional sign, then digits, in the range of a 64-bit \<^verbatim>\<open>int\<close>.\<close>

definition Atoi :: "string \<Rightarrow> int option" where
  "Atoi s =
     (let neg = (s \<noteq> [] \<and> hd s = CHR ''-'');
          ds = (if s \<noteq> [] \<and> (hd s = CHR ''-'' \<or> hd s = CHR ''+'') then tl s else s)
      in case parse_digits ds of
           None \<Rightarrow> None
         | Some n \<Rightarrow>
             if neg then (if n \<le> 2 ^ 63 then Some (- int n) else None)
             else (if n < 2 ^ 63 then Some (int n) else None))"

section \<open>Signed 64-bit arithmetic\<close>

text \<open>The value of an \<^verbatim>\<open>int64\<close> expression whose mathematical value is \<open>x\<close>.\<close>

definition wrap64 :: "int \<Rightarrow> int" where
  "wrap64 x = (x + 2 ^ 63) mod 2 ^ 64 - 2 ^ 63"

lemma wrap64_id: "\<bar>x\<bar> < 2 ^ 62 \<Longrightarrow> wrap64 x = x"
  by (simp add: wrap64_def)

section \<open>Splitting a list into blocks\<close>

fun chunks_of :: "nat \<Rightarrow> 'a list \<Rightarrow> 'a list list" where
  "chunks_of n xs = (if n = 0 \<or> xs = [] then [] else take n xs # chunks_of n (drop n xs))"

declare chunks_of.simps [simp del]

lemma chunks_of_Nil [simp]: "chunks_of n [] = []"
  by (simp add: chunks_of.simps)

lemma chunks_of_step: "0 < n \<Longrightarrow> xs \<noteq> [] \<Longrightarrow> chunks_of n xs = take n xs # chunks_of n (drop n xs)"
  by (subst chunks_of.simps) simp

lemma concat_chunks_of [simp]: "0 < n \<Longrightarrow> concat (chunks_of n xs) = xs"
  by (induction n xs rule: chunks_of.induct) (subst chunks_of.simps, auto)

lemma chunks_of_append:
  "0 < n \<Longrightarrow> length x = n \<Longrightarrow> chunks_of n (x @ xs) = x # chunks_of n xs"
  by (subst chunks_of.simps) auto

lemma chunks_of_concat:
  assumes "0 < n" and "\<forall>x \<in> set xss. length x = n"
  shows "chunks_of n (concat xss) = xss"
  using assms(2) by (induction xss) (auto simp: chunks_of_append assms(1))

lemma length_chunks_of: "0 < n \<Longrightarrow> length (chunks_of n xs) = (length xs + n - 1) div n"
proof (induction n xs rule: chunks_of.induct)
  case (1 n xs)
  show ?case
  proof (cases "xs = []")
    case True
    with 1 show ?thesis by simp
  next
    case False
    with 1 have "length (chunks_of n (drop n xs)) = (length xs - n + n - 1) div n" by simp
    moreover have "0 < length xs" using False by simp
    moreover have "(length xs + n - 1) div n = Suc ((length xs - 1) div n)"
    proof -
      have "n \<le> length xs + n - 1" and "length xs + n - 1 - n = length xs - 1"
        using \<open>0 < length xs\<close> by linarith+
      with 1(2) show ?thesis by (simp only: le_div_geq)
    qed
    moreover have "(length xs - n + n - 1) div n = (length xs - 1) div n"
      using \<open>0 < length xs\<close> by (cases "n \<le> length xs") auto
    ultimately show ?thesis using False 1(2) by (simp add: chunks_of_step)
  qed
qed

lemma chunks_of_last_partial:
  assumes "0 < n" and "i < length (chunks_of n xs)"
  shows "chunks_of n xs ! i = take n (drop (i * n) xs)"
  using assms(2)
proof (induction i arbitrary: xs)
  case 0
  with assms(1) show ?case by (cases "xs = []") (auto simp: chunks_of_step)
next
  case (Suc i)
  from Suc.prems have ne: "xs \<noteq> []" by auto
  with Suc assms(1) show ?case by (simp add: chunks_of_step add.commute)
qed

section \<open>Unsigned widths\<close>

lemma unat_u32_less: "unat (c :: u32) < 2 ^ 32"
  by (rule less_le_trans [OF unsigned_less]) simp

lemma unat_u64_less: "unat (c :: u64) < 2 ^ 64"
  by (rule less_le_trans [OF unsigned_less]) simp

lemma unat_widen [simp]: "unat (ucast (c :: u32) :: u64) = unat c"
  using unat_u32_less [of c] by (simp add: unsigned_ucast_eq take_bit_eq_mod)

lemma unat_index [simp]: "i < 2 ^ 32 \<Longrightarrow> unat (of_nat i :: u64) = i"
  by (simp add: unat_of_nat)

lemma unat_small32 [simp]: "i < 2 ^ 32 \<Longrightarrow> unat (of_nat i :: u32) = i"
  by (simp add: unat_of_nat)

lemma unat_succ: "unat (n :: u64) < 2 ^ 32 \<Longrightarrow> unat (n + 1) = Suc (unat n)"
  by (simp add: unat_word_ariths)

lemma upt_append: "i \<le> j \<Longrightarrow> j \<le> k \<Longrightarrow> [i..<j] @ [j..<k] = [i..<k]"
  by (metis le_add_diff_inverse upt_add_eq_append)

lemma unat_pred: "(c :: u32) \<noteq> 0 \<Longrightarrow> unat (c - 1) = unat c - 1"
  by (rule unat_minus_one)

section \<open>Big-endian words\<close>

text \<open>\<^verbatim>\<open>binary.BigEndian.PutUint64\<close> and \<^verbatim>\<open>PutUint32\<close>: \<open>k\<close> bytes, the most significant first.\<close>

definition put_be :: "nat \<Rightarrow> 'a::len word \<Rightarrow> bytes" where
  "put_be k w = map (\<lambda>i. ucast (drop_bit (8 * (k - 1 - i)) w)) [0..<k]"

lemma length_put_be [simp, be_simps]: "length (put_be k w) = k"
  by (simp add: put_be_def)

lemma put_be_bit:
  assumes "n < 8 * k"
  shows "bit w n = bit (put_be k w ! (k - 1 - n div 8)) (n mod 8)"
proof -
  have "k - 1 - (k - 1 - n div 8) = n div 8" using assms by auto
  moreover have "k - 1 - n div 8 < k" using assms by auto
  moreover have "8 * (n div 8) + n mod 8 = n" by simp
  moreover have "n mod 8 < LENGTH(8)" by simp
  ultimately show ?thesis
    by (simp add: put_be_def bit_simps add.commute del: len_num0 len_num1)
qed

lemma put_be_inj [be_simps]:
  fixes x y :: "'a::len word"
  assumes "LENGTH('a) \<le> 8 * k"
  shows "put_be k x = put_be k y \<longleftrightarrow> x = y"
proof
  assume eq: "put_be k x = put_be k y"
  show "x = y"
  proof (rule bit_word_eqI)
    fix n assume "n < LENGTH('a)"
    with assms have "n < 8 * k" by simp
    with eq show "bit x n = bit y n" by (simp add: put_be_bit)
  qed
qed simp

end
