(* ===== verification/Encoding.thy ===== *)
theory Encoding
  imports Prelude
begin

text \<open>
  The text encodings of binary values that the protocol uses: lower-case hexadecimal
  (\<^verbatim>\<open>encoding/hex\<close>), unpadded base32 (\<^verbatim>\<open>encoding/base32\<close>) and unpadded URL-safe base64
  (\<^verbatim>\<open>encoding/base64\<close>, lenient and strict). All three cut the bit string of the input into groups
  of \<open>k\<close> bits and write one letter per group, so they share one encoder and one decoder; the
  locale \<open>radix_codec\<close> states what an alphabet has to satisfy and proves the round trips once.
\<close>

section \<open>Bits\<close>

text \<open>The \<open>k\<close> low bits of a number, the most significant first, and back.\<close>

fun nat_bits :: "nat \<Rightarrow> nat \<Rightarrow> bool list" where
  "nat_bits 0 n = []"
| "nat_bits (Suc k) n = nat_bits k (n div 2) @ [odd n]"

definition bits_nat :: "bool list \<Rightarrow> nat" where
  "bits_nat bs = foldl (\<lambda>a b. 2 * a + (if b then 1 else 0)) 0 bs"

lemma length_nat_bits [simp]: "length (nat_bits k n) = k"
  by (induction k arbitrary: n) auto

lemma bits_nat_Nil [simp]: "bits_nat [] = 0"
  by (simp add: bits_nat_def)

lemma bits_nat_snoc [simp]: "bits_nat (bs @ [b]) = 2 * bits_nat bs + (if b then 1 else 0)"
  by (simp add: bits_nat_def)

lemma bits_nat_bits: "n < 2 ^ k \<Longrightarrow> bits_nat (nat_bits k n) = n"
proof (induction k arbitrary: n)
  case 0
  then show ?case by simp
next
  case (Suc k)
  then have "bits_nat (nat_bits k (n div 2)) = n div 2" by auto
  then show ?case by (simp; presburger)
qed

lemma nat_bits_nat [simp]: "nat_bits (length bs) (bits_nat bs) = bs"
  by (induction bs rule: rev_induct) auto

lemma bits_nat_less: "bits_nat bs < 2 ^ length bs"
  by (induction bs rule: rev_induct) auto

definition byte_bits :: "byte \<Rightarrow> bool list" where
  "byte_bits b = nat_bits 8 (unat b)"

definition bits_byte :: "bool list \<Rightarrow> byte" where
  "bits_byte bs = of_nat (bits_nat bs)"

lemma length_byte_bits [simp]: "length (byte_bits b) = 8"
  by (simp add: byte_bits_def)

lemma bits_byte_bits [simp]: "bits_byte (byte_bits b) = b"
proof -
  have "unat b < 2 ^ 8" by (rule less_le_trans [OF unsigned_less]) simp
  then show ?thesis by (simp add: bits_byte_def byte_bits_def bits_nat_bits)
qed

lemma byte_bits_byte: "length bs = 8 \<Longrightarrow> byte_bits (bits_byte bs) = bs"
proof -
  assume l: "length bs = 8"
  have "bits_nat bs < 2 ^ 8" using bits_nat_less [of bs] l by simp
  then have "unat (bits_byte bs) = bits_nat bs"
    by (simp add: bits_byte_def unat_of_nat)
  then show ?thesis using nat_bits_nat [of bs] l by (simp add: byte_bits_def)
qed

abbreviation data_bits :: "bytes \<Rightarrow> bool list" where
  "data_bits bs \<equiv> concat (map byte_bits bs)"

lemma length_data_bits: "length (data_bits bs) = 8 * length bs"
  by (induction bs) auto

lemma data_bits_bytes: "map bits_byte (chunks_of 8 (data_bits bs)) = bs"
  by (simp add: chunks_of_concat comp_def)

lemma bytes_of_bits:
  assumes "length bits = 8 * n"
  shows "data_bits (map bits_byte (chunks_of 8 bits)) = bits"
  using assms
proof (induction n arbitrary: bits)
  case 0
  then show ?case by simp
next
  case (Suc n)
  then have "chunks_of 8 bits = take 8 bits # chunks_of 8 (drop 8 bits)"
    by (intro chunks_of_step) auto
  with Suc show ?case by (simp add: byte_bits_byte)
qed

section \<open>The shared encoder and decoder\<close>

definition pad_group :: "nat \<Rightarrow> bool list \<Rightarrow> bool list" where
  "pad_group k g = g @ replicate (k - length g) False"

definition radix_encode :: "nat \<Rightarrow> string \<Rightarrow> bytes \<Rightarrow> string" where
  "radix_encode k alph bs = map (\<lambda>g. alph ! bits_nat (pad_group k g)) (chunks_of k (data_bits bs))"

text \<open>The letters' bits one after the other, or \<open>None\<close> at a letter outside the alphabet.\<close>

fun letter_bits :: "nat \<Rightarrow> (char \<Rightarrow> nat option) \<Rightarrow> string \<Rightarrow> bool list option" where
  "letter_bits k val [] = Some []"
| "letter_bits k val (c # cs) =
     (case val c of
        None \<Rightarrow> None
      | Some v \<Rightarrow> map_option (\<lambda>bs. nat_bits k v @ bs) (letter_bits k val cs))"

text \<open>The whole bytes of the letters and the bits that are left over.\<close>

definition radix_decode :: "nat \<Rightarrow> (char \<Rightarrow> nat option) \<Rightarrow> string \<Rightarrow> (bytes \<times> bool list) option" where
  "radix_decode k val s =
     map_option
       (\<lambda>bs. let n = 8 * (length bs div 8) in (map bits_byte (chunks_of 8 (take n bs)), drop n bs))
       (letter_bits k val s)"

text \<open>Groups of a bit string, padded: at most \<open>k - 1\<close> zero bits are added at the end.\<close>

lemma group_len: "g \<in> set (chunks_of n xs) \<Longrightarrow> length g \<le> n"
proof (induction n xs rule: chunks_of.induct)
  case (1 n xs)
  then show ?case by (cases "n = 0 \<or> xs = []") (auto simp: chunks_of.simps [of n xs])
qed

lemma concat_pad:
  "0 < n \<Longrightarrow>
   \<exists>r. length r < n \<and> list_all Not r \<and> concat (map (pad_group n) (chunks_of n xs)) = xs @ r"
proof (induction n xs rule: chunks_of.induct)
  case (1 n xs)
  show ?case
  proof (cases "length xs \<le> n")
    case True
    show ?thesis
    proof (cases "xs = []")
      case False
      with True 1(2) have "concat (map (pad_group n) (chunks_of n xs)) = xs @ replicate (n - length xs) False"
        by (simp add: chunks_of_step pad_group_def)
      moreover have "n - length xs < n" using False 1(2) by simp
      ultimately show ?thesis by (intro exI [of _ "replicate (n - length xs) False"])
          (simp add: list_all_iff)
    qed (use 1(2) in simp)
  next
    case False
    with 1 have ne: "xs \<noteq> []" by auto
    with 1 obtain r where r: "length r < n" "list_all Not r"
      "concat (map (pad_group n) (chunks_of n (drop n xs))) = drop n xs @ r"
      by auto
    with False ne 1(2) have "concat (map (pad_group n) (chunks_of n xs)) = xs @ r"
      by (simp add: chunks_of_step pad_group_def)
    with r show ?thesis by blast
  qed
qed

lemma length_pad_group: "g \<in> set (chunks_of n xs) \<Longrightarrow> length (pad_group n g) = n"
  by (drule group_len) (simp add: pad_group_def)

lemma length_concat_map: "\<forall>x \<in> set xs. length (f x) = n \<Longrightarrow> length (concat (map f xs)) = n * length xs"
  by (induction xs) auto

lemma length_pad_groups: "length (concat (map (pad_group n) (chunks_of n xs))) = n * length (chunks_of n xs)"
  by (rule length_concat_map) (simp add: length_pad_group)

lemma same_residue:
  fixes n l a b :: nat
  assumes "n dvd l + a" and "n dvd l + b" and "a < n" and "b < n"
  shows "a = b"
proof -
  have "a \<le> b" if "n dvd l + a" "n dvd l + b" "a < n" for a b :: nat
  proof -
    have "n dvd (l + a) - (l + b)" using that by (intro dvd_diff_nat)
    then have "a - b = 0" using that(3) by (metis add_diff_cancel_left dvd_imp_le gr0I leD less_imp_diff_less)
    then show ?thesis by simp
  qed
  with assms show ?thesis by (meson le_antisym)
qed

lemma all_false_eq: "list_all Not r \<Longrightarrow> list_all Not r' \<Longrightarrow> length r = length r' \<Longrightarrow> r = r'"
  by (intro nth_equalityI) (auto simp: list_all_length)

lemma pad_chunks:
  assumes n: "0 < n" and r: "length r < n" "list_all Not r" and dvd: "n dvd length (xs @ r)"
  shows "map (pad_group n) (chunks_of n xs) = chunks_of n (xs @ r)"
proof -
  from concat_pad [OF n, of xs] obtain r' where r': "length r' < n" "list_all Not r'"
    and eq: "concat (map (pad_group n) (chunks_of n xs)) = xs @ r'" by blast
  have "n dvd length (xs @ r')" using length_pad_groups [of n xs] eq by (metis dvd_triv_left)
  with dvd r r' have "length r = length r'" by (auto intro: same_residue)
  with r r' have "r = r'" by (simp add: all_false_eq)
  moreover have "chunks_of n (concat (map (pad_group n) (chunks_of n xs))) = map (pad_group n) (chunks_of n xs)"
    using n by (intro chunks_of_concat) (auto simp: length_pad_group)
  ultimately show ?thesis using eq by simp
qed

lemma letter_bits_length: "letter_bits k val s = Some bs \<Longrightarrow> length bs = k * length s"
  by (induction s arbitrary: bs) (auto split: option.splits)

locale radix_codec =
  fixes k :: nat and alph :: string and val :: "char \<Rightarrow> nat option"
  assumes k_pos: "0 < k" and k_le: "k \<le> 8"
    and alph_len: "length alph = 2 ^ k"
    and val_alph: "i < 2 ^ k \<Longrightarrow> val (alph ! i) = Some i"
    and val_range: "val c = Some v \<Longrightarrow> v < 2 ^ k"
begin

lemma length_encode: "length (radix_encode k alph bs) = (8 * length bs + k - 1) div k"
  using k_pos by (simp add: radix_encode_def length_chunks_of length_data_bits)

lemma set_encode: "set (radix_encode k alph bs) \<subseteq> set alph"
proof
  fix c assume "c \<in> set (radix_encode k alph bs)"
  then obtain g where g: "g \<in> set (chunks_of k (data_bits bs))" "c = alph ! bits_nat (pad_group k g)"
    by (auto simp: radix_encode_def)
  then have "length (pad_group k g) = k" by (simp add: length_pad_group)
  then have "bits_nat (pad_group k g) < length alph"
    using bits_nat_less [of "pad_group k g"] by (simp add: alph_len)
  with g show "c \<in> set alph" by simp
qed

lemma letter_bits_groups:
  assumes "\<forall>g \<in> set gs. length g \<le> k"
  shows "letter_bits k val (map (\<lambda>g. alph ! bits_nat (pad_group k g)) gs)
           = Some (concat (map (pad_group k) gs))"
  using assms
proof (induction gs)
  case Nil
  then show ?case by simp
next
  case (Cons g gs)
  then have l: "length (pad_group k g) = k" by (simp add: pad_group_def)
  then have "bits_nat (pad_group k g) < 2 ^ k" using bits_nat_less [of "pad_group k g"] by simp
  moreover have "nat_bits k (bits_nat (pad_group k g)) = pad_group k g"
    using nat_bits_nat [of "pad_group k g"] l by simp
  ultimately show ?case using Cons by (simp add: val_alph)
qed

lemma letter_bits_encode:
  "\<exists>r. length r < k \<and> list_all Not r \<and>
       letter_bits k val (radix_encode k alph bs) = Some (data_bits bs @ r)"
proof -
  have "\<forall>g \<in> set (chunks_of k (data_bits bs)). length g \<le> k" by (auto dest: group_len)
  from letter_bits_groups [OF this] concat_pad [OF k_pos, of "data_bits bs"] show ?thesis
    by (auto simp: radix_encode_def)
qed

lemma decode_encode:
  "\<exists>r. length r < k \<and> list_all Not r \<and> radix_decode k val (radix_encode k alph bs) = Some (bs, r)"
proof -
  from letter_bits_encode [of bs] obtain r where r: "length r < k" "list_all Not r"
    "letter_bits k val (radix_encode k alph bs) = Some (data_bits bs @ r)" by blast
  moreover have "length (data_bits bs @ r) div 8 = length bs"
    using r(1) k_le by (simp add: length_data_bits)
  ultimately show ?thesis
    by (simp add: radix_decode_def length_data_bits data_bits_bytes)
qed

text \<open>
  Decoding is injective on canonical text: letters of the alphabet proper, left-over bits zero and
  fewer than one letter's worth.
\<close>

lemma letter_bits_alph:
  assumes "letter_bits k val s = Some bs" and "\<forall>c \<in> set s. \<forall>v. val c = Some v \<longrightarrow> alph ! v = c"
  shows "map (\<lambda>g. alph ! bits_nat g) (chunks_of k bs) = s"
  using assms
proof (induction s arbitrary: bs)
  case Nil
  then show ?case by simp
next
  case (Cons c s)
  from Cons.prems obtain v bs' where v: "val c = Some v" and bs': "letter_bits k val s = Some bs'"
    and bs: "bs = nat_bits k v @ bs'"
    by (auto split: option.splits)
  from v have "v < 2 ^ k" by (rule val_range)
  with v bs Cons.IH [OF bs'] Cons.prems(2) k_pos show ?case
    by (simp add: chunks_of_append bits_nat_bits)
qed

lemma encode_decode:
  assumes dec: "radix_decode k val s = Some (bs, r)" and r: "length r < k" "list_all Not r"
    and canon: "\<forall>c \<in> set s. \<forall>v. val c = Some v \<longrightarrow> alph ! v = c"
  shows "radix_encode k alph bs = s"
proof -
  from dec obtain bits where bits: "letter_bits k val s = Some bits"
    and bs: "bs = map bits_byte (chunks_of 8 (take (8 * (length bits div 8)) bits))"
    and rd: "r = drop (8 * (length bits div 8)) bits"
    by (auto simp: radix_decode_def Let_def)
  have "length (take (8 * (length bits div 8)) bits) = 8 * (length bits div 8)" by simp
  then have "data_bits bs = take (8 * (length bits div 8)) bits"
    unfolding bs by (rule bytes_of_bits)
  then have db: "data_bits bs @ r = bits" by (simp add: rd)
  have "k dvd length (data_bits bs @ r)"
    unfolding db using letter_bits_length [OF bits] by simp
  from pad_chunks [OF k_pos r this] have "map (pad_group k) (chunks_of k (data_bits bs)) = chunks_of k bits"
    by (simp add: db)
  then have "map (\<lambda>g. alph ! bits_nat g) (map (pad_group k) (chunks_of k (data_bits bs)))
      = map (\<lambda>g. alph ! bits_nat g) (chunks_of k bits)"
    by simp
  then have "radix_encode k alph bs = map (\<lambda>g. alph ! bits_nat g) (chunks_of k bits)"
    by (simp add: radix_encode_def comp_def)
  also have "\<dots> = s" using bits canon by (rule letter_bits_alph)
  finally show ?thesis .
qed

end

section \<open>The three alphabets\<close>

definition letter_index :: "string \<Rightarrow> char \<Rightarrow> nat option" where
  "letter_index alph c = (if c \<in> set alph then Some (length (takeWhile (\<lambda>x. x \<noteq> c) alph)) else None)"

lemma letter_index_nth: "distinct alph \<Longrightarrow> i < length alph \<Longrightarrow> letter_index alph (alph ! i) = Some i"
proof (induction alph arbitrary: i)
  case (Cons a alph)
  then show ?case by (cases i) (fastforce simp: letter_index_def split: if_splits)+
qed simp

lemma letter_index_Some: "letter_index alph c = Some v \<Longrightarrow> v < length alph \<and> alph ! v = c"
proof (induction alph arbitrary: v)
  case (Cons a alph)
  then show ?case by (cases v) (fastforce simp: letter_index_def split: if_splits)+
qed (simp add: letter_index_def)

definition hex_letters :: string where "hex_letters = ''0123456789abcdef''"
definition hex_upper :: string where "hex_upper = ''0123456789ABCDEF''"

definition hex_val :: "char \<Rightarrow> nat option" where
  "hex_val c = (case letter_index hex_letters c of Some v \<Rightarrow> Some v | None \<Rightarrow> letter_index hex_upper c)"

definition b32_letters :: string where "b32_letters = ''ABCDEFGHIJKLMNOPQRSTUVWXYZ234567''"
definition b64_letters :: string where
  "b64_letters = ''ABCDEFGHIJKLMNOPQRSTUVWXYZabcdefghijklmnopqrstuvwxyz0123456789-_''"

lemma letter_codec:
  assumes "distinct alph" and "length alph = 2 ^ k" and "0 < k" and "k \<le> 8"
  shows "radix_codec k alph (letter_index alph)"
  using assms by unfold_locales (auto simp: letter_index_nth dest: letter_index_Some)

interpretation hex: radix_codec 4 hex_letters hex_val
proof unfold_locales
  have d: "distinct hex_letters" and l: "length hex_letters = 16" and u: "length hex_upper = 16"
    by (simp_all add: hex_letters_def hex_upper_def)
  show "hex_val (hex_letters ! i) = Some i" if "i < 2 ^ 4" for i
    using that d l by (simp add: hex_val_def letter_index_nth)
  show "v < 2 ^ 4" if "hex_val c = Some v" for c v
    using that l u letter_index_Some [of hex_letters c v] letter_index_Some [of hex_upper c v]
    by (auto simp: hex_val_def split: option.splits)
qed (simp_all add: hex_letters_def)

interpretation b32: radix_codec 5 b32_letters "letter_index b32_letters"
  by (rule letter_codec) (simp_all add: b32_letters_def)

interpretation b64: radix_codec 6 b64_letters "letter_index b64_letters"
  by (rule letter_codec) (simp_all add: b64_letters_def)

section \<open>The library functions the protocol calls\<close>

definition hex_encode :: "bytes \<Rightarrow> string" where
  "hex_encode bs = radix_encode 4 hex_letters bs"

definition hex_decode :: "string \<Rightarrow> bytes option" where
  "hex_decode s =
     (case radix_decode 4 hex_val s of Some (bs, r) \<Rightarrow> if r = [] then Some bs else None | None \<Rightarrow> None)"

abbreviation is_newline :: "char \<Rightarrow> bool" where
  "is_newline c \<equiv> c = CHR 0x0A \<or> c = CHR 0x0D"

definition b32_encode :: "bytes \<Rightarrow> string" where
  "b32_encode bs = radix_encode 5 b32_letters bs"

text \<open>
  Unpadded base32 skips line ends and gives no bytes for a last group of 1, 3 or 6 letters.
\<close>

definition b32_decode :: "string \<Rightarrow> bytes option" where
  "b32_decode s =
     (let t = filter (\<lambda>c. \<not> is_newline c) s; j = length t mod 8 in
      if letter_bits 5 (letter_index b32_letters) t = None then None
      else map_option fst
             (radix_decode 5 (letter_index b32_letters)
                (if j = 1 \<or> j = 3 \<or> j = 6 then take (length t - j) t else t)))"

definition b64_encode :: "bytes \<Rightarrow> string" where
  "b64_encode bs = radix_encode 6 b64_letters bs"

text \<open>
  Unpadded base64 skips line ends and refuses a last group of one letter; the strict decoder also
  refuses left-over bits that are not zero.
\<close>

definition b64_decode :: "bool \<Rightarrow> string \<Rightarrow> bytes option" where
  "b64_decode strict s =
     (let t = filter (\<lambda>c. \<not> is_newline c) s in
      if length t mod 4 = 1 then None
      else (case radix_decode 6 (letter_index b64_letters) t of
              None \<Rightarrow> None
            | Some (bs, r) \<Rightarrow> if strict \<and> \<not> list_all Not r then None else Some bs))"

lemma filter_no_newline: "set s \<subseteq> set alph \<Longrightarrow> list_all (\<lambda>c. \<not> is_newline c) alph \<Longrightarrow>
    filter (\<lambda>c. \<not> is_newline c) s = s"
  by (rule filter_True) (auto simp: list_all_iff)

lemma hex_decode_encode [codec_simps]: "hex_decode (hex_encode bs) = Some bs"
proof -
  from hex.decode_encode [of bs] obtain r where r: "length r < 4"
    "radix_decode 4 hex_val (hex_encode bs) = Some (bs, r)" by (auto simp: hex_encode_def)
  have "4 dvd length (data_bits bs)" by (simp add: length_data_bits)
  then have "map (pad_group 4) (chunks_of 4 (data_bits bs)) = chunks_of 4 (data_bits bs)"
    using pad_chunks [of 4 "[]" "data_bits bs"] by simp
  then have "letter_bits 4 hex_val (hex_encode bs) = Some (data_bits bs)"
    using hex.letter_bits_groups [of "chunks_of 4 (data_bits bs)"] group_len
    by (auto simp: hex_encode_def radix_encode_def)
  then show ?thesis
    by (simp add: hex_decode_def radix_decode_def length_data_bits data_bits_bytes)
qed

lemma length_hex_encode [codec_simps, simp]: "length (hex_encode bs) = 2 * length bs"
  using hex.length_encode [of bs] by (simp add: hex_encode_def)

lemma b32_decode_encode [codec_simps]:
  assumes "length bs = 32"
  shows "b32_decode (b32_encode bs) = Some bs"
proof -
  have len: "length (b32_encode bs) = 52"
    using b32.length_encode [of bs] assms by (simp add: b32_encode_def)
  have "filter (\<lambda>c. \<not> is_newline c) (b32_encode bs) = b32_encode bs"
    unfolding b32_encode_def by (rule filter_no_newline [OF b32.set_encode]) (simp add: b32_letters_def)
  moreover obtain r where "letter_bits 5 (letter_index b32_letters) (b32_encode bs) = Some r"
    using b32.letter_bits_encode [of bs] by (auto simp: b32_encode_def)
  ultimately show ?thesis
    using b32.decode_encode [of bs] len by (auto simp: b32_decode_def b32_encode_def)
qed

lemma length_b32_encode: "length (b32_encode bs) = (8 * length bs + 4) div 5"
  using b32.length_encode [of bs] by (simp add: b32_encode_def)

lemma length_b64_encode: "length (b64_encode bs) = (8 * length bs + 5) div 6"
  using b64.length_encode [of bs] by (simp add: b64_encode_def)

lemma b64_decode_encode [codec_simps]: "b64_decode strict (b64_encode bs) = Some bs"
proof -
  have "filter (\<lambda>c. \<not> is_newline c) (b64_encode bs) = b64_encode bs"
    unfolding b64_encode_def by (rule filter_no_newline [OF b64.set_encode]) (simp add: b64_letters_def)
  moreover have "length (b64_encode bs) mod 4 \<noteq> 1"
    unfolding length_b64_encode by presburger
  ultimately show ?thesis
    using b64.decode_encode [of bs] by (auto simp: b64_decode_def b64_encode_def)
qed

text \<open>Lower-case hexadecimal text of even length is the encoding of what it decodes to.\<close>

lemma hex_encode_decode:
  assumes "hex_decode s = Some bs" and "set s \<subseteq> set hex_letters"
  shows "hex_encode bs = s"
proof -
  from assms(1) have dec: "radix_decode 4 hex_val s = Some (bs, [])"
    by (auto simp: hex_decode_def split: option.splits if_splits)
  have "hex_letters ! v = c" if "c \<in> set s" "hex_val c = Some v" for c v
    using that assms(2) letter_index_Some [of hex_letters c v]
    by (auto simp: hex_val_def letter_index_def split: option.splits)
  with dec show ?thesis unfolding hex_encode_def by (intro hex.encode_decode) auto
qed

lemma hex_encode_inj: "hex_encode a = hex_encode b \<longleftrightarrow> a = b"
  by (metis hex_decode_encode option.inject)

lemma b64_encode_inj: "b64_encode a = b64_encode b \<longleftrightarrow> a = b"
  by (metis b64_decode_encode option.inject)

end
