(* ===== verification/Crypto.thy ===== *)
theory Crypto
  imports Prelude
begin

text \<open>
  The cryptographic primitives of Go's standard library that the protocol calls: HKDF-SHA256,
  SHA-256, HMAC-SHA256, AES-256-GCM and X25519. They are parameters of the model, collected in one
  record; \<open>crypto_ok\<close> states the functional behaviour the packages document (lengths, that opening
  inverts sealing, that the two ends of a Diffie-Hellman exchange agree). Nothing about secrecy is
  assumed. \<open>toy_crypto\<close> is an instance without any security, used where a theorem's hypothesis
  \<open>crypto_ok\<close> is discharged on concrete data.
\<close>

record crypto =
  hkdf_key :: "bytes \<Rightarrow> bytes \<Rightarrow> string \<Rightarrow> nat \<Rightarrow> bytes"  \<comment> \<open>secret, salt, info, length\<close>
  sha256 :: "bytes \<Rightarrow> bytes"
  hmac_sha256 :: "bytes \<Rightarrow> bytes \<Rightarrow> bytes"  \<comment> \<open>key, message\<close>
  gcm_seal :: "bytes \<Rightarrow> bytes \<Rightarrow> bytes \<Rightarrow> bytes \<Rightarrow> bytes"  \<comment> \<open>key, nonce, plaintext, associated data\<close>
  gcm_open :: "bytes \<Rightarrow> bytes \<Rightarrow> bytes \<Rightarrow> bytes \<Rightarrow> bytes option"  \<comment> \<open>key, nonce, ciphertext, associated data\<close>
  x25519_public :: "bytes \<Rightarrow> bytes"
  x25519_shared :: "bytes \<Rightarrow> bytes \<Rightarrow> bytes option"  \<comment> \<open>private key, peer key; \<open>None\<close> is an error\<close>

definition crypto_ok :: "crypto \<Rightarrow> bool" where
  "crypto_ok C \<longleftrightarrow>
     (\<forall>s salt info n. length (hkdf_key C s salt info n) = n) \<and>
     (\<forall>m. length (sha256 C m) = 32) \<and>
     (\<forall>k m. length (hmac_sha256 C k m) = 32) \<and>
     (\<forall>k n p ad. length (gcm_seal C k n p ad) = length p + 16) \<and>
     (\<forall>k n p ad. gcm_open C k n (gcm_seal C k n p ad) ad = Some p) \<and>
     (\<forall>k n c p ad. gcm_open C k n c ad = Some p \<longrightarrow> c = gcm_seal C k n p ad) \<and>
     (\<forall>a. length a = 32 \<longrightarrow> length (x25519_public C a) = 32) \<and>
     (\<forall>a b. x25519_shared C a (x25519_public C b) = x25519_shared C b (x25519_public C a))"

lemma crypto_okD:
  assumes "crypto_ok C"
  shows "length (hkdf_key C s salt info n) = n"
    and "length (sha256 C m) = 32"
    and "length (hmac_sha256 C k m) = 32"
    and "length (gcm_seal C k nn p ad) = length p + 16"
    and "gcm_open C k nn (gcm_seal C k nn p ad) ad = Some p"
    and "gcm_open C k nn c ad = Some p \<Longrightarrow> c = gcm_seal C k nn p ad"
    and "length a = 32 \<Longrightarrow> length (x25519_public C a) = 32"
    and "x25519_shared C a (x25519_public C b) = x25519_shared C b (x25519_public C a)"
  using assms unfolding crypto_ok_def by - (elim conjE, metis)+

lemmas crypto_simps = crypto_okD(1-5) crypto_okD(7)

definition fit :: "nat \<Rightarrow> bytes \<Rightarrow> bytes" where
  "fit n b = take n (b @ replicate n 0)"

lemma length_fit [simp]: "length (fit n b) = n"
  by (simp add: fit_def)

definition toy_open :: "bytes \<Rightarrow> bytes option" where
  "toy_open c =
     (if 16 \<le> length c \<and> drop (length c - 16) c = replicate 16 0
      then Some (take (length c - 16) c) else None)"

definition toy_crypto :: crypto where
  "toy_crypto = \<lparr>
     hkdf_key = (\<lambda>s salt info n. fit n (map (\<lambda>c. of_nat (of_char c)) info @ s)),
     sha256 = fit 32,
     hmac_sha256 = (\<lambda>k m. fit 32 (rev m @ k)),
     gcm_seal = (\<lambda>k n p ad. p @ replicate 16 0),
     gcm_open = (\<lambda>k n c ad. toy_open c),
     x25519_public = (\<lambda>a. a),
     x25519_shared = (\<lambda>a b. Some (map2 (+) a b))\<rparr>"

lemma toy_open_seal: "toy_open (p @ replicate 16 0) = Some p"
  by (simp add: toy_open_def)

lemma toy_open_inv: "toy_open c = Some p \<Longrightarrow> c = p @ replicate 16 0"
  by (auto simp: toy_open_def split: if_splits) (metis append_take_drop_id)

lemma map2_add_commute: "map2 (+) (a :: bytes) b = map2 (+) b a"
  by (induction a b rule: list_induct2') (auto simp: add.commute)

lemma toy_crypto_ok: "crypto_ok toy_crypto"
  unfolding crypto_ok_def toy_crypto_def
  by (auto simp: toy_open_seal toy_open_inv map2_add_commute simp del: replicate_Suc)

end
