(* ===== verification/Token.thy ===== *)
theory Token
  imports Encoding Crypto
begin

text \<open>
  Tokens (\<^verbatim>\<open>protocol/token.go\<close>): the secret, its copy-and-paste form, the strict parser and the four
  values derived from it. \<^verbatim>\<open>strings.ToUpper\<close> is a parameter of the parser: on ASCII text it is the
  usual map, and the theorems hold for every behaviour outside ASCII.
\<close>

definition TokenVersion :: nat where "TokenVersion = 1"
definition TokenSecretSize :: nat where "TokenSecretSize = 32"

datatype token = Token (secret: bytes)

type_synonym sessionID = bytes

definition token_wf :: "token \<Rightarrow> bool" where
  "token_wf t \<longleftrightarrow> length (secret t) = TokenSecretSize"

text \<open>The bytes of a string constant, as \<^verbatim>\<open>[]byte(s)\<close>.\<close>

definition string_bytes :: "string \<Rightarrow> bytes" where
  "string_bytes s = map (\<lambda>c. of_nat (of_char c)) s"

lemma length_string_bytes [simp]: "length (string_bytes s) = length s"
  by (simp add: string_bytes_def)

definition ascii_upper :: "char \<Rightarrow> char" where
  "ascii_upper c = (if 97 \<le> (of_char c :: nat) \<and> (of_char c :: nat) \<le> 122 then char_of (of_char c - 32 :: nat) else c)"

definition ascii_lower :: "char \<Rightarrow> char" where
  "ascii_lower c = (if 65 \<le> (of_char c :: nat) \<and> (of_char c :: nat) \<le> 90 then char_of (of_char c + 32 :: nat) else c)"

definition is_ascii :: "string \<Rightarrow> bool" where
  "is_ascii s \<longleftrightarrow> list_all (\<lambda>c. (of_char c :: nat) < 128) s"

text \<open>What the parser needs of \<^verbatim>\<open>strings.ToUpper\<close>.\<close>

definition upper_ok :: "(string \<Rightarrow> string) \<Rightarrow> bool" where
  "upper_ok up \<longleftrightarrow> (\<forall>s. is_ascii s \<longrightarrow> up s = map ascii_upper s)"

section \<open>Format and parser\<close>

text \<open>\<^verbatim>\<open>NewToken\<close>: the secret is what the operating system's random source delivers.\<close>

definition NewToken :: "bytes \<Rightarrow> token" where
  "NewToken random = Token (take TokenSecretSize random)"

definition token_prefix :: string where "token_prefix = ''akn1_''"

definition Token_Encode :: "token \<Rightarrow> string" where
  "Token_Encode t = token_prefix @ map ascii_lower (b32_encode (secret t))"

definition token_space :: "char set" where
  "token_space = {CHR '' '', CHR 0x09, CHR 0x0D, CHR 0x0A}"

definition ParseToken :: "(string \<Rightarrow> string) \<Rightarrow> string \<Rightarrow> token option" where
  "ParseToken up s0 =
     (let s = trim_set token_space s0 in
      if \<not> has_prefix s token_prefix \<or> length s \<noteq> 57 then None
      else (case b32_decode (up (drop 5 s)) of
              None \<Rightarrow> None
            | Some secr \<Rightarrow>
                if length secr \<noteq> TokenSecretSize then None
                else let t = Token secr in if Token_Encode t \<noteq> s then None else Some t))"

definition Token_String :: "token \<Rightarrow> string" where
  "Token_String t = ''akn1_[redacted]''"

definition Token_GoString :: "token \<Rightarrow> string" where
  "Token_GoString t = ''protocol.Token{[redacted]}''"

text \<open>\<^verbatim>\<open>Format(f, verb)\<close>: the verb and whether the \<^verbatim>\<open>#\<close> flag is set.\<close>

definition Token_Format :: "bool \<Rightarrow> char \<Rightarrow> token \<Rightarrow> string" where
  "Token_Format sharp verb t =
     (if verb = CHR ''v'' \<and> sharp then Token_GoString t else Token_String t)"

definition Token_Zero :: "token \<Rightarrow> token" where
  "Token_Zero t = Token (map (\<lambda>_. 0) (secret t))"

section \<open>Derived values\<close>

definition tokenSalt :: bytes where "tokenSalt = string_bytes ''aken/token/v1''"

definition derive :: "crypto \<Rightarrow> token \<Rightarrow> string \<Rightarrow> nat \<Rightarrow> bytes" where
  "derive C t info n = hkdf_key C (secret t) tokenSalt info n"

definition SessionID :: "crypto \<Rightarrow> token \<Rightarrow> sessionID" where
  "SessionID C t = derive C t ''session-id'' 16"

definition RelayCredential :: "crypto \<Rightarrow> token \<Rightarrow> bytes" where
  "RelayCredential C t = derive C t ''relay-credential'' 32"

definition Token_ContentRoot :: "crypto \<Rightarrow> token \<Rightarrow> bytes" where
  "Token_ContentRoot C t = derive C t ''content-root'' 32"

definition ExchangeKey :: "crypto \<Rightarrow> token \<Rightarrow> bytes" where
  "ExchangeKey C t = derive C t ''exchange-key'' 32"

definition SessionID_String :: "sessionID \<Rightarrow> string" where
  "SessionID_String i = hex_encode i"

lemmas derived_defs = SessionID_def RelayCredential_def Token_ContentRoot_def ExchangeKey_def derive_def

lemma derived_lengths:
  assumes "crypto_ok C"
  shows "length (SessionID C t) = 16" and "length (RelayCredential C t) = 32"
    and "length (Token_ContentRoot C t) = 32" and "length (ExchangeKey C t) = 32"
  using assms by (simp_all add: derived_defs crypto_simps)

section \<open>Round trip\<close>

text \<open>The letters of a body, letter by letter: 32 cases each.\<close>

lemma body_letters:
  assumes "c \<in> set b32_letters"
  shows "ascii_upper (ascii_lower c) = c" and "(of_char (ascii_lower c) :: nat) < 128"
    and "ascii_lower c \<notin> token_space"
proof -
  have "list_all (\<lambda>c. ascii_upper (ascii_lower c) = c \<and> (of_char (ascii_lower c) :: nat) < 128
          \<and> ascii_lower c \<notin> token_space) b32_letters"
    by (simp add: b32_letters_def ascii_upper_def ascii_lower_def token_space_def char_of_def bit_Suc_0_iff)
  with assms show "ascii_upper (ascii_lower c) = c" "(of_char (ascii_lower c) :: nat) < 128"
    "ascii_lower c \<notin> token_space" by (auto simp: list_all_iff)
qed

lemma body_in: "c \<in> set (b32_encode bs) \<Longrightarrow> c \<in> set b32_letters"
  using b32.set_encode by (auto simp: b32_encode_def)

lemma body_upper: "upper_ok up \<Longrightarrow> up (map ascii_lower (b32_encode bs)) = b32_encode bs"
proof -
  assume up: "upper_ok up"
  have "is_ascii (map ascii_lower (b32_encode bs))"
    by (auto simp: is_ascii_def list_all_iff body_letters body_in)
  with up have "up (map ascii_lower (b32_encode bs)) = map (\<lambda>c. ascii_upper (ascii_lower c)) (b32_encode bs)"
    by (simp add: upper_ok_def comp_def)
  also have "\<dots> = b32_encode bs" by (rule map_idI) (simp add: body_letters body_in)
  finally show ?thesis .
qed

lemma encode_no_space: "c \<in> set (Token_Encode t) \<Longrightarrow> c \<notin> token_space"
  by (auto simp: Token_Encode_def token_prefix_def body_letters dest: body_in)
    (simp_all add: token_space_def)

lemma length_Token_Encode: "token_wf t \<Longrightarrow> length (Token_Encode t) = 57"
  by (simp add: Token_Encode_def token_prefix_def token_wf_def TokenSecretSize_def length_b32_encode)

lemma trim_Token_Encode:
  "set w \<subseteq> token_space \<Longrightarrow> set w' \<subseteq> token_space \<Longrightarrow>
   trim_set token_space (w @ Token_Encode t @ w') = Token_Encode t"
  using encode_no_space by (intro trim_set_pad) (auto simp: Token_Encode_def token_prefix_def)

lemma parse_trimmed:
  assumes "upper_ok up" and "token_wf t" and "trim_set token_space s = Token_Encode t"
  shows "ParseToken up s = Some t"
proof -
  have "drop 5 (Token_Encode t) = map ascii_lower (b32_encode (secret t))"
    by (simp add: Token_Encode_def token_prefix_def)
  moreover have "has_prefix (Token_Encode t) token_prefix" by (simp add: Token_Encode_def)
  ultimately show ?thesis
    using assms length_Token_Encode [OF assms(2)]
    by (simp add: ParseToken_def Let_def body_upper b32_decode_encode token_wf_def TokenSecretSize_def)
qed

lemma parse_encoded:
  assumes "ParseToken up s = Some t"
  shows "token_wf t" and "trim_set token_space s = Token_Encode t"
  using assms by (auto simp: ParseToken_def Let_def token_wf_def split: if_splits option.splits)

text \<open>
  C26. The parser accepts exactly the canonical form of a 32-byte secret, up to ASCII whitespace
  around it, and returns that secret: no other spelling (upper case, non-canonical trailing bits,
  line breaks inside the body, another prefix) is taken for a token.
\<close>

theorem ParseToken_iff:
  assumes "upper_ok up"
  shows "ParseToken up s = Some t \<longleftrightarrow> token_wf t \<and> trim_set token_space s = Token_Encode t"
  using assms parse_trimmed parse_encoded by blast

theorem ParseToken_iff_witness:
  "ParseToken (map ascii_upper) (CHR 0x0A # Token_Encode (Token (replicate 32 7)) @ '' '')
     = Some (Token (replicate 32 7))"
proof -
  have up: "upper_ok (map ascii_upper)" by (simp add: upper_ok_def)
  let ?t = "Token (replicate 32 7)"
  have "trim_set token_space ([CHR 0x0A] @ Token_Encode ?t @ '' '') = Token_Encode ?t"
    by (rule trim_Token_Encode) (simp_all add: token_space_def)
  then have "trim_set token_space (CHR 0x0A # Token_Encode ?t @ '' '') = Token_Encode ?t" by simp
  moreover have "token_wf ?t" by (simp add: token_wf_def TokenSecretSize_def)
  ultimately show ?thesis using ParseToken_iff [OF up] by blast
qed

text \<open>
  A token never prints its secret: whatever the verb and flags of the format, two tokens print
  the same text, and clearing a token leaves 32 zero bytes.
\<close>

lemma Token_Format_redacted:
  "Token_Format sharp verb t = Token_Format sharp verb t' \<and>
   Token_Format sharp verb t \<in> {''akn1_[redacted]'', ''protocol.Token{[redacted]}''} \<and>
   secret (Token_Zero t) = replicate (length (secret t)) 0"
  by (simp add: Token_Format_def Token_String_def Token_GoString_def Token_Zero_def map_replicate_const)

end
