(* ===== verification/Wire.thy ===== *)
theory Wire
  imports Token
begin

text \<open>
  The wire values of the relay API and of live jobs (\<^verbatim>\<open>protocol/relayapi.go\<close>, \<^verbatim>\<open>protocol/jobs.go\<close>):
  capacity limits, the bearer header, session identifiers in URLs, keys in JSON, the request and
  response bodies, the job catalog and job identifiers. JSON bodies are the records they encode.
\<close>

definition ChunkSize :: nat where "ChunkSize = 2 ^ 20"
definition ChunkOverhead :: nat where "ChunkOverhead = 16"
definition MaxChunkCount :: nat where "MaxChunkCount = 128"
definition MaxManifestBytes :: nat where "MaxManifestBytes = 2 ^ 20"
definition MaxJobBytes :: nat where "MaxJobBytes = 64 * 2 ^ 10"
definition MaxResultBytes :: nat where "MaxResultBytes = 2 ^ 20"
definition MaxSessionSeq :: nat where "MaxSessionSeq = 2 ^ 32 - 1"
definition MaxResultPlaintext :: nat where "MaxResultPlaintext = 256 * 2 ^ 10"

section \<open>Capacity limits\<close>

record caps =
  ManifestBytes :: int
  ChunkBytes :: int
  cap_ChunkCount :: int
  TTLDefaultSeconds :: int
  TTLMaxSeconds :: int
  JobBytes :: int
  ResultBytes :: int
  QueueLength :: int
  SessionTTLDefaultSeconds :: int
  WaitMaxSeconds :: int

definition DefaultCaps :: caps where
  "DefaultCaps = \<lparr>ManifestBytes = int MaxManifestBytes, ChunkBytes = int (ChunkSize + ChunkOverhead),
     cap_ChunkCount = int MaxChunkCount, TTLDefaultSeconds = 14400, TTLMaxSeconds = 86400,
     JobBytes = int MaxJobBytes, ResultBytes = int MaxResultBytes, QueueLength = 64,
     SessionTTLDefaultSeconds = 28800, WaitMaxSeconds = 30\<rparr>"

definition ZeroCaps :: caps where
  "ZeroCaps = \<lparr>ManifestBytes = 0, ChunkBytes = 0, cap_ChunkCount = 0, TTLDefaultSeconds = 0,
     TTLMaxSeconds = 0, JobBytes = 0, ResultBytes = 0, QueueLength = 0,
     SessionTTLDefaultSeconds = 0, WaitMaxSeconds = 0\<rparr>"

section \<open>Request and response bodies\<close>

record createSessionRequest =
  cr_mode :: string
  cr_collectorKey :: string
  cr_collectorMAC :: string
  cr_ttlSeconds :: int
  cr_chunkCount :: u32

record sessionInfo =
  si_mode :: string
  si_joined :: bool
  si_collectorKey :: string
  si_collectorMAC :: string
  si_sessionID :: string
  si_expiresAt :: time
  si_chunkCount :: u32
  si_chunksStored :: u32
  si_manifestStored :: bool

record joinRequest =
  jr_mcpKey :: string
  jr_mcpMAC :: string
  jr_via :: string

record joinInfo =
  ji_collectorKey :: string
  ji_collectorMAC :: string
  ji_mcpKey :: string
  ji_mcpMAC :: string
  ji_via :: string
  ji_joinedAt :: time

section \<open>Headers, identifiers and keys\<close>

definition bearer :: string where "bearer = ''Bearer ''"

definition AuthorizationHeader :: "bytes \<Rightarrow> string" where
  "AuthorizationHeader credential = bearer @ b64_encode credential"

definition ParseAuthorizationHeader :: "string \<Rightarrow> bytes option" where
  "ParseAuthorizationHeader v =
     (if \<not> has_prefix v bearer then None
      else (case b64_decode False (drop (length bearer) v) of
              None \<Rightarrow> None
            | Some d \<Rightarrow> if length d \<noteq> 32 then None else Some d))"

definition lowerHex :: "string \<Rightarrow> nat \<Rightarrow> bool" where
  "lowerHex s n \<longleftrightarrow>
     length s = n \<and>
     list_all (\<lambda>c. (48 \<le> (of_char c :: nat) \<and> (of_char c :: nat) \<le> 57)
                 \<or> (97 \<le> (of_char c :: nat) \<and> (of_char c :: nat) \<le> 102)) s"

definition ParseSessionID :: "string \<Rightarrow> sessionID option" where
  "ParseSessionID s = (if \<not> lowerHex s 32 then None else hex_decode s)"

definition EncodeKey :: "bytes \<Rightarrow> string" where
  "EncodeKey key = b64_encode key"

definition DecodeKey :: "string \<Rightarrow> bytes option" where
  "DecodeKey s =
     (case b64_decode True s of
        None \<Rightarrow> None
      | Some d \<Rightarrow> if length d \<noteq> 32 then None else if EncodeKey d \<noteq> s then None else Some d)"

section \<open>The job catalog\<close>

text \<open>\<^verbatim>\<open>Params\<close> is the raw JSON text of the parameters.\<close>

record job =
  job_ID :: string
  job_Name :: string
  job_Params :: string

record categoryCount =
  cc_Values :: int
  cc_Lines :: int

type_synonym categoryCounts = "(string \<times> categoryCount) list"

record resultRedaction =
  rr_LinesRedacted :: int
  rr_ByCategory :: categoryCounts
  rr_Flags :: int

record result =
  res_ID :: string
  res_Status :: string
  res_Error :: string
  res_Lines :: "string list"
  res_Next :: string
  res_Redaction :: resultRedaction

definition Catalog :: "(string \<times> u8) list" where
  "Catalog = [(''list_dir'', 1), (''read_file'', 1), (''search'', 1), (''tail'', 1), (''journal'', 1),
     (''docker_logs'', 1), (''systemctl_status'', 1), (''ps'', 1), (''df'', 1)]"

definition CatalogClass :: "string \<Rightarrow> u8 option" where
  "CatalogClass n = map_of Catalog n"

definition job_id_char :: "char \<Rightarrow> bool" where
  "job_id_char c \<longleftrightarrow>
     (let n = (of_char c :: nat) in
      (65 \<le> n \<and> n \<le> 90) \<or> (97 \<le> n \<and> n \<le> 122) \<or> (48 \<le> n \<and> n \<le> 57)
      \<or> c = CHR ''.'' \<or> c = CHR ''_'' \<or> c = CHR ''-'')"

definition ValidateJobID :: "string \<Rightarrow> bool" where
  "ValidateJobID i \<longleftrightarrow> 1 \<le> length i \<and> length i \<le> 64 \<and> list_all job_id_char i"

section \<open>Round trips\<close>

lemma hex_ranges: "char_of ` set ([48..<58] @ [97..<103 :: nat]) = set hex_letters"
  by (simp add: hex_letters_def upt_rec char_of_def bit_Suc_0_iff)

lemma lower_hex_letters: "lowerHex s n \<Longrightarrow> set s \<subseteq> set hex_letters"
proof
  fix c assume "lowerHex s n" "c \<in> set s"
  then have "(of_char c :: nat) \<in> {48..<58} \<union> {97..<103}"
    by (auto simp: lowerHex_def list_all_iff)
  then have "(of_char c :: nat) \<in> set ([48..<58] @ [97..<103])" unfolding set_append set_upt .
  then have "char_of (of_char c :: nat) \<in> set hex_letters" unfolding hex_ranges [symmetric] by blast
  then show "c \<in> set hex_letters" by simp
qed

lemma hex_letters_lower: "set s \<subseteq> set hex_letters \<Longrightarrow> lowerHex s (length s)"
  by (auto simp: lowerHex_def hex_letters_def list_all_iff)

lemma hex_decode_length:
  assumes "hex_decode s = Some bs" shows "2 * length bs = length s"
proof -
  from assms obtain bits where b: "letter_bits 4 hex_val s = Some bits"
    and bs: "bs = map bits_byte (chunks_of 8 (take (8 * (length bits div 8)) bits))"
    and d: "drop (8 * (length bits div 8)) bits = []"
    by (auto simp: hex_decode_def radix_decode_def Let_def split: option.splits if_splits)
  from d have "length bits = 8 * (length bits div 8)" by simp
  moreover have "length bits = 4 * length s" using b by (rule letter_bits_length)
  ultimately show ?thesis using bs by (simp add: length_chunks_of) presburger
qed

lemma hex_decode_total: "set s \<subseteq> set hex_letters \<Longrightarrow> \<exists>bits. letter_bits 4 hex_val s = Some bits"
proof (induction s)
  case (Cons c s)
  then have "\<exists>v. hex_val c = Some v"
    by (auto simp: hex_val_def letter_index_def split: option.splits)
  with Cons show ?case by auto
qed simp

lemma SessionID_String_lower: "length i = 16 \<Longrightarrow> lowerHex (SessionID_String i) 32"
  using hex_letters_lower [of "hex_encode i"] hex.set_encode [of i]
  by (simp add: SessionID_String_def hex_encode_def [symmetric])

lemma ParseSessionID_Some:
  assumes "ParseSessionID s = Some i"
  shows "length i = 16" and "SessionID_String i = s"
proof -
  from assms have l: "lowerHex s 32" and d: "hex_decode s = Some i"
    by (auto simp: ParseSessionID_def split: if_splits)
  from hex_decode_length [OF d] l show "length i = 16" by (simp add: lowerHex_def)
  from d lower_hex_letters [OF l] show "SessionID_String i = s"
    by (simp add: SessionID_String_def hex_encode_decode)
qed

lemma ParseSessionID_String [codec_simps]: "length i = 16 \<Longrightarrow> ParseSessionID (SessionID_String i) = Some i"
  using SessionID_String_lower [of i]
  by (simp add: ParseSessionID_def) (simp add: SessionID_String_def hex_decode_encode)

lemma DecodeKey_EncodeKey [codec_simps]: "length k = 32 \<Longrightarrow> DecodeKey (EncodeKey k) = Some k"
  by (simp add: DecodeKey_def EncodeKey_def codec_simps)

lemma DecodeKey_Some: "DecodeKey s = Some k \<Longrightarrow> length k = 32 \<and> EncodeKey k = s"
  by (auto simp: DecodeKey_def split: option.splits if_splits)

text \<open>
  Session identifiers in URLs and keys in JSON have exactly one spelling each: the parsers accept
  the text the printers produce and nothing else, and return the value that was printed. In
  particular every text of 32 lower-case hexadecimal letters is an identifier, and the bearer header
  carries the 32-byte credential unchanged.
\<close>

lemma wire_text_canonical:
  "(ParseSessionID s = Some i \<longleftrightarrow> length i = 16 \<and> s = SessionID_String i) \<and>
   (DecodeKey s = Some k \<longleftrightarrow> length k = 32 \<and> s = EncodeKey k) \<and>
   (ParseSessionID s \<noteq> None \<longleftrightarrow> lowerHex s 32) \<and>
   ParseAuthorizationHeader (AuthorizationHeader c) = (if length c = 32 then Some c else None)"
proof (intro conjI)
  show "ParseSessionID s = Some i \<longleftrightarrow> length i = 16 \<and> s = SessionID_String i"
    using ParseSessionID_Some ParseSessionID_String by blast
  show "DecodeKey s = Some k \<longleftrightarrow> length k = 32 \<and> s = EncodeKey k"
    using DecodeKey_Some DecodeKey_EncodeKey by blast
  show "ParseAuthorizationHeader (AuthorizationHeader c) = (if length c = 32 then Some c else None)"
    by (simp add: ParseAuthorizationHeader_def AuthorizationHeader_def codec_simps)
  show "ParseSessionID s \<noteq> None \<longleftrightarrow> lowerHex s 32"
  proof
    assume l: "lowerHex s 32"
    from hex_decode_total [OF lower_hex_letters [OF l]] obtain bits
      where b: "letter_bits 4 hex_val s = Some bits" by blast
    from letter_bits_length [OF b] l have "length bits = 128" by (simp add: lowerHex_def)
    with b l show "ParseSessionID s \<noteq> None"
      by (simp add: ParseSessionID_def hex_decode_def radix_decode_def)
  qed (auto simp: ParseSessionID_def split: if_splits)
qed

text \<open>Every catalog job is a read.\<close>

lemma catalog_reads_only: "CatalogClass n = (if n \<in> fst ` set Catalog then Some 1 else None)"
  by (simp add: CatalogClass_def Catalog_def)

end
