(* ===== verification/Relay_Store.thy ===== *)
theory Relay_Store
  imports Wire
begin

text \<open>
  The relay's store: the interface (\<^verbatim>\<open>relay/store.go\<close>) with an abstract specification of it, and the
  in-memory implementation (\<^verbatim>\<open>relay/memory.go\<close>). The Go interface is a record of operations; the
  locale \<open>relay_store\<close> says what an implementation promises: on states that satisfy its invariant,
  every operation computes what the abstract specification computes, and keeps the invariant.
  Each method runs under the store's mutex, so it is one atomic function.
\<close>

datatype store_error = ErrNotFound | ErrExists | ErrOther string

record sessionMeta =
  Mode :: string
  meta_CollectorKey :: bytes
  meta_CollectorMAC :: bytes
  CredentialHash :: bytes
  ExpiresAt :: time
  meta_ChunkCount :: u32
  ChunksStored :: u32
  ManifestStored :: bool

record 's store_ops =
  op_CreateSession :: "'s \<Rightarrow> sessionID \<Rightarrow> sessionMeta \<Rightarrow> store_error option \<times> 's"
  op_Session :: "'s \<Rightarrow> sessionID \<Rightarrow> store_error + sessionMeta"
  op_PutChunk :: "'s \<Rightarrow> sessionID \<Rightarrow> u64 \<Rightarrow> bytes \<Rightarrow> store_error option \<times> 's"
  op_GetChunk :: "'s \<Rightarrow> sessionID \<Rightarrow> u64 \<Rightarrow> store_error + bytes"
  op_PutManifest :: "'s \<Rightarrow> sessionID \<Rightarrow> bytes \<Rightarrow> store_error option \<times> 's"
  op_GetManifest :: "'s \<Rightarrow> sessionID \<Rightarrow> store_error + bytes"
  op_DeleteSession :: "'s \<Rightarrow> sessionID \<Rightarrow> store_error option \<times> 's"

section \<open>Abstract specification\<close>

text \<open>
  A stored session is the metadata it was created with, the chunks by index and the manifest. Every
  object is written once.
\<close>

record asession =
  as_meta :: sessionMeta
  as_chunks :: "nat \<rightharpoonup> bytes"
  as_manifest :: "bytes option"

type_synonym aspec = "sessionID \<rightharpoonup> asession"

definition fresh_session :: "sessionMeta \<Rightarrow> asession" where
  "fresh_session m =
     \<lparr>as_meta = m\<lparr>ChunksStored := 0, ManifestStored := False\<rparr>, as_chunks = Map.empty, as_manifest = None\<rparr>"

definition as_view :: "asession \<Rightarrow> sessionMeta" where
  "as_view a = (as_meta a)\<lparr>ChunksStored := of_nat (card (dom (as_chunks a))),
                           ManifestStored := as_manifest a \<noteq> None\<rparr>"

definition spec_create :: "aspec \<Rightarrow> sessionID \<Rightarrow> sessionMeta \<Rightarrow> store_error option \<times> aspec" where
  "spec_create S i m = (if S i \<noteq> None then (Some ErrExists, S) else (None, S(i \<mapsto> fresh_session m)))"

definition spec_session :: "aspec \<Rightarrow> sessionID \<Rightarrow> store_error + sessionMeta" where
  "spec_session S i = (case S i of None \<Rightarrow> Inl ErrNotFound | Some a \<Rightarrow> Inr (as_view a))"

definition spec_putChunk :: "aspec \<Rightarrow> sessionID \<Rightarrow> u64 \<Rightarrow> bytes \<Rightarrow> store_error option \<times> aspec" where
  "spec_putChunk S i index c =
     (case S i of
        None \<Rightarrow> (Some ErrNotFound, S)
      | Some a \<Rightarrow>
          if index \<ge> ucast (meta_ChunkCount (as_meta a)) then (Some ErrNotFound, S)
          else if as_chunks a (unat index) \<noteq> None then (Some ErrExists, S)
          else (None, S(i \<mapsto> a\<lparr>as_chunks := (as_chunks a)(unat index \<mapsto> c)\<rparr>)))"

definition spec_getChunk :: "aspec \<Rightarrow> sessionID \<Rightarrow> u64 \<Rightarrow> store_error + bytes" where
  "spec_getChunk S i index =
     (case S i of
        None \<Rightarrow> Inl ErrNotFound
      | Some a \<Rightarrow>
          if index \<ge> ucast (meta_ChunkCount (as_meta a)) then Inl ErrNotFound
          else (case as_chunks a (unat index) of None \<Rightarrow> Inl ErrNotFound | Some c \<Rightarrow> Inr c))"

definition spec_putManifest :: "aspec \<Rightarrow> sessionID \<Rightarrow> bytes \<Rightarrow> store_error option \<times> aspec" where
  "spec_putManifest S i c =
     (case S i of
        None \<Rightarrow> (Some ErrNotFound, S)
      | Some a \<Rightarrow>
          if as_manifest a \<noteq> None then (Some ErrExists, S)
          else (None, S(i \<mapsto> a\<lparr>as_manifest := Some c\<rparr>)))"

definition spec_getManifest :: "aspec \<Rightarrow> sessionID \<Rightarrow> store_error + bytes" where
  "spec_getManifest S i =
     (case S i of
        None \<Rightarrow> Inl ErrNotFound
      | Some a \<Rightarrow> (case as_manifest a of None \<Rightarrow> Inl ErrNotFound | Some c \<Rightarrow> Inr c))"

definition spec_delete :: "aspec \<Rightarrow> sessionID \<Rightarrow> store_error option \<times> aspec" where
  "spec_delete S i = (if S i = None then (Some ErrNotFound, S) else (None, S(i := None)))"

lemmas spec_defs = spec_create_def spec_session_def spec_putChunk_def spec_getChunk_def
  spec_putManifest_def spec_getManifest_def spec_delete_def

section \<open>The interface\<close>

text \<open>One operation refines its specification: same outcome, and the states still correspond.\<close>

definition refines_op ::
  "('s \<Rightarrow> aspec) \<Rightarrow> ('s \<Rightarrow> bool) \<Rightarrow> store_error option \<times> 's \<Rightarrow> store_error option \<times> aspec \<Rightarrow> bool" where
  "refines_op spec_of invar r r' \<longleftrightarrow> fst r = fst r' \<and> spec_of (snd r) = snd r' \<and> invar (snd r)"

lemma refines_opD:
  assumes "refines_op spec_of invar r r'"
  shows "fst r = fst r'" and "spec_of (snd r) = snd r'" and "invar (snd r)"
  using assms by (auto simp: refines_op_def)

locale relay_store =
  fixes ops :: "'s store_ops" and spec_of :: "'s \<Rightarrow> aspec" and invar :: "'s \<Rightarrow> bool"
  assumes create: "invar s \<Longrightarrow> length i = 16 \<Longrightarrow>
      refines_op spec_of invar (op_CreateSession ops s i m) (spec_create (spec_of s) i m)"
    and session: "invar s \<Longrightarrow> length i = 16 \<Longrightarrow> op_Session ops s i = spec_session (spec_of s) i"
    and putChunk: "invar s \<Longrightarrow> length i = 16 \<Longrightarrow>
      refines_op spec_of invar (op_PutChunk ops s i index c) (spec_putChunk (spec_of s) i index c)"
    and getChunk: "invar s \<Longrightarrow> length i = 16 \<Longrightarrow> op_GetChunk ops s i index = spec_getChunk (spec_of s) i index"
    and putManifest: "invar s \<Longrightarrow> length i = 16 \<Longrightarrow>
      refines_op spec_of invar (op_PutManifest ops s i c) (spec_putManifest (spec_of s) i c)"
    and getManifest: "invar s \<Longrightarrow> length i = 16 \<Longrightarrow> op_GetManifest ops s i = spec_getManifest (spec_of s) i"
    and delete: "invar s \<Longrightarrow> length i = 16 \<Longrightarrow>
      refines_op spec_of invar (op_DeleteSession ops s i) (spec_delete (spec_of s) i)"
begin

lemmas reads = session getChunk getManifest
lemmas writes = create putChunk putManifest delete
lemmas write_inv = writes [THEN refines_opD(3)]
lemmas write_abs = writes [THEN refines_opD(2)]
lemmas write_res = writes [THEN refines_opD(1)]

text \<open>What was written is what is read, and a second write is refused.\<close>

lemma getChunk_after_put:
  assumes "invar s" and "length i = 16" and "op_PutChunk ops s i index c = (None, s')"
  shows "op_GetChunk ops s' i index = Inr c" and "fst (op_PutChunk ops s' i index d) = Some ErrExists"
proof -
  have i: "invar s'" and a: "spec_of s' = snd (spec_putChunk (spec_of s) i index c)"
    and n: "fst (spec_putChunk (spec_of s) i index c) = None"
    using putChunk [OF assms(1,2), of index c] assms(3) by (auto simp: refines_op_def)
  from n a obtain x where "spec_of s' i = Some x" "as_chunks x (unat index) = Some c"
    "\<not> index \<ge> ucast (meta_ChunkCount (as_meta x))"
    by (auto simp: spec_putChunk_def split: option.splits if_splits)
  then show "op_GetChunk ops s' i index = Inr c" "fst (op_PutChunk ops s' i index d) = Some ErrExists"
    using getChunk [OF i assms(2)] write_res(2) [OF i assms(2)]
    by (auto simp: spec_getChunk_def spec_putChunk_def)
qed

lemma getManifest_after_put:
  assumes "invar s" and "length i = 16" and "op_PutManifest ops s i c = (None, s')"
  shows "op_GetManifest ops s' i = Inr c" and "fst (op_PutManifest ops s' i d) = Some ErrExists"
proof -
  have i: "invar s'" and a: "spec_of s' = snd (spec_putManifest (spec_of s) i c)"
    and n: "fst (spec_putManifest (spec_of s) i c) = None"
    using putManifest [OF assms(1,2), of c] assms(3) by (auto simp: refines_op_def)
  from n a obtain x where "spec_of s' i = Some x" "as_manifest x = Some c"
    by (auto simp: spec_putManifest_def split: option.splits if_splits)
  then show "op_GetManifest ops s' i = Inr c" "fst (op_PutManifest ops s' i d) = Some ErrExists"
    using getManifest [OF i assms(2)] write_res(3) [OF i assms(2)]
    by (auto simp: spec_getManifest_def spec_putManifest_def)
qed

lemma session_after_delete:
  assumes "invar s" and "length i = 16" and "op_DeleteSession ops s i = (None, s')"
  shows "op_Session ops s' i = Inl ErrNotFound"
proof -
  have "invar s'" and "spec_of s' = snd (spec_delete (spec_of s) i)"
    using delete [OF assms(1,2)] assms(3) by (auto simp: refines_op_def)
  then show ?thesis using assms(2) session by (auto simp: spec_delete_def spec_session_def)
qed

end

text \<open>A store that also removes expired sessions on its own, as \<^verbatim>\<open>relay/store.go\<close> allows.\<close>

locale swept_store = relay_store +
  fixes sweep :: "time \<Rightarrow> 's \<Rightarrow> 's"
  assumes sweep_invar: "invar s \<Longrightarrow> invar (sweep now s)"
    and sweep_spec: "invar s \<Longrightarrow> spec_of (sweep now s) i =
      (case spec_of s i of
         None \<Rightarrow> None
       | Some a \<Rightarrow> if expired now (ExpiresAt (as_meta a)) then None else Some a)"

section \<open>The in-memory store\<close>

record memorySession =
  mem_mode :: string
  mem_collectorKey :: bytes
  mem_collectorMAC :: bytes
  mem_credHash :: bytes
  mem_expiresAt :: time
  mem_chunkCount :: u32
  mem_chunks :: "bytes option list"
  mem_stored :: u32
  mem_manifest :: "bytes option"

type_synonym memoryStore = "sessionID \<rightharpoonup> memorySession"

definition NewMemoryStore :: memoryStore where
  "NewMemoryStore = Map.empty"

definition Mem_CreateSession :: "memoryStore \<Rightarrow> sessionID \<Rightarrow> sessionMeta \<Rightarrow> store_error option \<times> memoryStore" where
  "Mem_CreateSession m i meta =
     (if m i \<noteq> None then (Some ErrExists, m)
      else (None, m(i \<mapsto> \<lparr>mem_mode = Mode meta, mem_collectorKey = meta_CollectorKey meta,
              mem_collectorMAC = meta_CollectorMAC meta, mem_credHash = CredentialHash meta,
              mem_expiresAt = ExpiresAt meta, mem_chunkCount = meta_ChunkCount meta,
              mem_chunks = replicate (unat (meta_ChunkCount meta)) None, mem_stored = 0,
              mem_manifest = None\<rparr>)))"

definition Mem_Session :: "memoryStore \<Rightarrow> sessionID \<Rightarrow> store_error + sessionMeta" where
  "Mem_Session m i =
     (case m i of
        None \<Rightarrow> Inl ErrNotFound
      | Some sess \<Rightarrow>
          Inr \<lparr>Mode = mem_mode sess, meta_CollectorKey = mem_collectorKey sess,
               meta_CollectorMAC = mem_collectorMAC sess, CredentialHash = mem_credHash sess,
               ExpiresAt = mem_expiresAt sess, meta_ChunkCount = mem_chunkCount sess,
               ChunksStored = mem_stored sess, ManifestStored = mem_manifest sess \<noteq> None\<rparr>)"

definition Mem_PutChunk :: "memoryStore \<Rightarrow> sessionID \<Rightarrow> u64 \<Rightarrow> bytes \<Rightarrow> store_error option \<times> memoryStore" where
  "Mem_PutChunk m i index ciphertext =
     (case m i of
        None \<Rightarrow> (Some ErrNotFound, m)
      | Some sess \<Rightarrow>
          if index \<ge> ucast (mem_chunkCount sess) then (Some ErrNotFound, m)
          else if mem_chunks sess ! unat index \<noteq> None then (Some ErrExists, m)
          else (None, m(i \<mapsto> sess\<lparr>mem_chunks := (mem_chunks sess)[unat index := Some ciphertext],
                                  mem_stored := mem_stored sess + 1\<rparr>)))"

definition Mem_GetChunk :: "memoryStore \<Rightarrow> sessionID \<Rightarrow> u64 \<Rightarrow> store_error + bytes" where
  "Mem_GetChunk m i index =
     (case m i of
        None \<Rightarrow> Inl ErrNotFound
      | Some sess \<Rightarrow>
          if index \<ge> ucast (mem_chunkCount sess) then Inl ErrNotFound
          else (case mem_chunks sess ! unat index of None \<Rightarrow> Inl ErrNotFound | Some c \<Rightarrow> Inr c))"

definition Mem_PutManifest :: "memoryStore \<Rightarrow> sessionID \<Rightarrow> bytes \<Rightarrow> store_error option \<times> memoryStore" where
  "Mem_PutManifest m i ciphertext =
     (case m i of
        None \<Rightarrow> (Some ErrNotFound, m)
      | Some sess \<Rightarrow>
          if mem_manifest sess \<noteq> None then (Some ErrExists, m)
          else (None, m(i \<mapsto> sess\<lparr>mem_manifest := Some ciphertext\<rparr>)))"

definition Mem_GetManifest :: "memoryStore \<Rightarrow> sessionID \<Rightarrow> store_error + bytes" where
  "Mem_GetManifest m i =
     (case m i of
        None \<Rightarrow> Inl ErrNotFound
      | Some sess \<Rightarrow> (case mem_manifest sess of None \<Rightarrow> Inl ErrNotFound | Some c \<Rightarrow> Inr c))"

definition Mem_DeleteSession :: "memoryStore \<Rightarrow> sessionID \<Rightarrow> store_error option \<times> memoryStore" where
  "Mem_DeleteSession m i = (if m i = None then (Some ErrNotFound, m) else (None, m(i := None)))"

definition Mem_Sweep :: "time \<Rightarrow> memoryStore \<Rightarrow> memoryStore" where
  "Mem_Sweep now m = (\<lambda>i. case m i of
       None \<Rightarrow> None
     | Some sess \<Rightarrow> if expired now (mem_expiresAt sess) then None else Some sess)"

lemmas mem_defs = Mem_CreateSession_def Mem_Session_def Mem_PutChunk_def Mem_GetChunk_def
  Mem_PutManifest_def Mem_GetManifest_def Mem_DeleteSession_def

definition mem_ops :: "memoryStore store_ops" where
  "mem_ops = \<lparr>op_CreateSession = Mem_CreateSession, op_Session = Mem_Session, op_PutChunk = Mem_PutChunk,
     op_GetChunk = Mem_GetChunk, op_PutManifest = Mem_PutManifest, op_GetManifest = Mem_GetManifest,
     op_DeleteSession = Mem_DeleteSession\<rparr>"

text \<open>
  Representation invariant: one slot per announced chunk, and the counter counts the slots in use.
\<close>

definition mem_session_inv :: "memorySession \<Rightarrow> bool" where
  "mem_session_inv s \<longleftrightarrow> length (mem_chunks s) = unat (mem_chunkCount s) \<and>
     mem_stored s = of_nat (length (filter (\<lambda>c. c \<noteq> None) (mem_chunks s)))"

definition mem_inv :: "memoryStore \<Rightarrow> bool" where
  "mem_inv m \<longleftrightarrow> (\<forall>i s. m i = Some s \<longrightarrow> mem_session_inv s)"

definition mem_chunk_map :: "bytes option list \<Rightarrow> nat \<rightharpoonup> bytes" where
  "mem_chunk_map cs k = (if k < length cs then cs ! k else None)"

definition mem_session_abs :: "memorySession \<Rightarrow> asession" where
  "mem_session_abs s =
     \<lparr>as_meta = \<lparr>Mode = mem_mode s, meta_CollectorKey = mem_collectorKey s, meta_CollectorMAC = mem_collectorMAC s,
                 CredentialHash = mem_credHash s, ExpiresAt = mem_expiresAt s,
                 meta_ChunkCount = mem_chunkCount s, ChunksStored = 0, ManifestStored = False\<rparr>,
      as_chunks = mem_chunk_map (mem_chunks s), as_manifest = mem_manifest s\<rparr>"

definition mem_abs :: "memoryStore \<Rightarrow> aspec" where
  "mem_abs m i = map_option mem_session_abs (m i)"

lemma card_chunk_map: "card (dom (mem_chunk_map cs)) = length (filter (\<lambda>c. c \<noteq> None) cs)"
proof -
  have "dom (mem_chunk_map cs) = {i. i < length cs \<and> cs ! i \<noteq> None}"
    by (auto simp: mem_chunk_map_def split: if_splits)
  then show ?thesis by (simp add: length_filter_conv_card)
qed

lemma mem_chunk_map_update:
  "k < length cs \<Longrightarrow> mem_chunk_map (cs[k := Some c]) = (mem_chunk_map cs)(k \<mapsto> c)"
  by (auto simp: mem_chunk_map_def fun_eq_iff nth_list_update)

lemma filter_update_count:
  "k < length cs \<Longrightarrow> cs ! k = None \<Longrightarrow>
   length (filter (\<lambda>c. c \<noteq> None) (cs[k := Some c])) = Suc (length (filter (\<lambda>c. c \<noteq> None) cs))"
  by (induction cs arbitrary: k) (auto split: nat.splits simp: nth_Cons)

lemma mem_abs_upd [simp]: "mem_abs (m(i \<mapsto> s)) = (mem_abs m)(i \<mapsto> mem_session_abs s)"
  by (auto simp: mem_abs_def fun_eq_iff)

lemma mem_inv_upd: "mem_inv m \<Longrightarrow> mem_session_inv s \<Longrightarrow> mem_inv (m(i \<mapsto> s))"
  by (auto simp: mem_inv_def)

lemma mem_view: "mem_session_inv s \<Longrightarrow> as_view (mem_session_abs s) =
    \<lparr>Mode = mem_mode s, meta_CollectorKey = mem_collectorKey s, meta_CollectorMAC = mem_collectorMAC s,
     CredentialHash = mem_credHash s, ExpiresAt = mem_expiresAt s, meta_ChunkCount = mem_chunkCount s,
     ChunksStored = mem_stored s, ManifestStored = mem_manifest s \<noteq> None\<rparr>"
  by (simp add: as_view_def mem_session_abs_def mem_session_inv_def card_chunk_map)

lemma mem_index: "mem_session_inv s \<Longrightarrow> \<not> (index :: u64) \<ge> ucast (mem_chunkCount s) \<Longrightarrow>
    unat index < length (mem_chunks s)"
  by (simp add: mem_session_inv_def word_le_nat_alt)

lemma mem_create: "mem_inv m \<Longrightarrow>
    refines_op mem_abs mem_inv (Mem_CreateSession m i meta) (spec_create (mem_abs m) i meta)"
  by (auto simp: refines_op_def Mem_CreateSession_def spec_create_def fresh_session_def mem_session_abs_def
      mem_chunk_map_def fun_eq_iff mem_abs_def intro!: mem_inv_upd)
    (simp add: mem_session_inv_def)

lemma mem_putChunk:
  assumes "mem_inv m"
  shows "refines_op mem_abs mem_inv (Mem_PutChunk m i index c) (spec_putChunk (mem_abs m) i index c)"
proof (cases "m i")
  case None
  with assms show ?thesis
    by (simp add: refines_op_def Mem_PutChunk_def spec_putChunk_def mem_abs_def)
next
  case (Some s)
  with assms have si: "mem_session_inv s" by (auto simp: mem_inv_def)
  show ?thesis
  proof (cases "index \<ge> ucast (mem_chunkCount s)")
    case True
    with Some assms show ?thesis
      by (simp add: refines_op_def Mem_PutChunk_def spec_putChunk_def mem_abs_def mem_session_abs_def)
  next
    case False
    note k = mem_index [OF si False]
    have "mem_session_inv (s\<lparr>mem_chunks := (mem_chunks s)[unat index := Some c], mem_stored := mem_stored s + 1\<rparr>)"
      if "mem_chunks s ! unat index = None"
      using si k that by (simp add: mem_session_inv_def filter_update_count del: not_None_eq)
    with Some False assms k show ?thesis
      by (auto simp: refines_op_def Mem_PutChunk_def spec_putChunk_def mem_abs_def mem_session_abs_def
          mem_chunk_map_update fun_eq_iff intro!: mem_inv_upd)
        (auto simp: mem_chunk_map_def)
  qed
qed

lemma mem_putManifest: "mem_inv m \<Longrightarrow>
    refines_op mem_abs mem_inv (Mem_PutManifest m i c) (spec_putManifest (mem_abs m) i c)"
  by (auto simp: refines_op_def Mem_PutManifest_def spec_putManifest_def mem_abs_def mem_session_abs_def
      fun_eq_iff mem_inv_def mem_session_inv_def split: option.splits)

lemma mem_delete: "mem_inv m \<Longrightarrow>
    refines_op mem_abs mem_inv (Mem_DeleteSession m i) (spec_delete (mem_abs m) i)"
  by (auto simp: refines_op_def Mem_DeleteSession_def spec_delete_def mem_abs_def mem_inv_def fun_eq_iff)

lemma mem_reads:
  assumes "mem_inv m"
  shows "Mem_Session m i = spec_session (mem_abs m) i"
    and "Mem_GetChunk m i index = spec_getChunk (mem_abs m) i index"
    and "Mem_GetManifest m i = spec_getManifest (mem_abs m) i"
proof -
  have si: "mem_session_inv s" if "m i = Some s" for s using that assms by (auto simp: mem_inv_def)
  show "Mem_Session m i = spec_session (mem_abs m) i"
    using si by (cases "m i") (simp_all add: Mem_Session_def spec_session_def mem_abs_def mem_view)
  show "Mem_GetChunk m i index = spec_getChunk (mem_abs m) i index"
    using si mem_index
    by (cases "m i") (auto simp: Mem_GetChunk_def spec_getChunk_def mem_abs_def mem_session_abs_def mem_chunk_map_def)
  show "Mem_GetManifest m i = spec_getManifest (mem_abs m) i"
    by (cases "m i") (simp_all add: Mem_GetManifest_def spec_getManifest_def mem_abs_def mem_session_abs_def)
qed

lemma mem_sweep:
  assumes "mem_inv m"
  shows "mem_inv (Mem_Sweep now m)"
    and "mem_abs (Mem_Sweep now m) i =
      (case mem_abs m i of
         None \<Rightarrow> None
       | Some a \<Rightarrow> if expired now (ExpiresAt (as_meta a)) then None else Some a)"
  using assms
  by (auto simp: mem_inv_def Mem_Sweep_def mem_abs_def mem_session_abs_def split: option.splits if_splits)

interpretation mem: swept_store mem_ops mem_abs mem_inv Mem_Sweep
  by unfold_locales
    (simp_all add: mem_ops_def mem_create mem_putChunk mem_putManifest mem_delete mem_reads mem_sweep)

lemma mem_inv_new: "mem_inv NewMemoryStore"
  by (simp add: mem_inv_def NewMemoryStore_def)

text \<open>
  The in-memory store implements the store contract: creating, storing a chunk, storing a
  manifest, deleting and the three reads compute what the abstract write-once store computes, error
  by error, and keep the representation invariant (one slot per announced chunk, a counter that
  counts the slots in use).
\<close>

lemma MemoryStore_refines:
  assumes "mem_inv m"
  shows "refines_op mem_abs mem_inv (Mem_CreateSession m i meta) (spec_create (mem_abs m) i meta) \<and>
    refines_op mem_abs mem_inv (Mem_PutChunk m i index c) (spec_putChunk (mem_abs m) i index c) \<and>
    refines_op mem_abs mem_inv (Mem_PutManifest m i c) (spec_putManifest (mem_abs m) i c) \<and>
    refines_op mem_abs mem_inv (Mem_DeleteSession m i) (spec_delete (mem_abs m) i) \<and>
    Mem_Session m i = spec_session (mem_abs m) i \<and>
    Mem_GetChunk m i index = spec_getChunk (mem_abs m) i index \<and>
    Mem_GetManifest m i = spec_getManifest (mem_abs m) i"
  using assms by (simp add: mem_create mem_putChunk mem_putManifest mem_delete mem_reads)

lemma MemoryStore_refines_witness:
  "Mem_Session NewMemoryStore [] = spec_session (mem_abs NewMemoryStore) []"
  using MemoryStore_refines [OF mem_inv_new] by blast

text \<open>
  Sweeping the in-memory store removes exactly the expired sessions: what is left is the
  abstract store restricted to sessions that have not expired, untouched.
\<close>

lemma Mem_Sweep_exact:
  assumes "mem_inv m"
  shows "mem_inv (Mem_Sweep now m) \<and>
    mem_abs (Mem_Sweep now m) i =
      (case mem_abs m i of
         None \<Rightarrow> None
       | Some a \<Rightarrow> if expired now (ExpiresAt (as_meta a)) then None else Some a)"
  using mem_sweep [OF assms] by blast

lemma Mem_Sweep_exact_witness: "mem_inv (Mem_Sweep 5 NewMemoryStore)"
  using Mem_Sweep_exact [OF mem_inv_new] by blast

end
