(* ===== verification/Envelope.thy ===== *)
theory Envelope
  imports Wire
begin

text \<open>
  Live sessions on the wire (\<^verbatim>\<open>protocol/session.go\<close>): the authenticated X25519 exchange, the session
  keys, and the envelopes that carry jobs and results. A Go \<^verbatim>\<open>KeyPair\<close> is its private key, \<open>None\<close>
  for the zero value.
\<close>

definition SessionVersion :: u8 where "SessionVersion = 1"
definition ClassRead :: u8 where "ClassRead = 1"
definition ClassWrite :: u8 where "ClassWrite = 2"
definition ClassExec :: u8 where "ClassExec = 3"

definition sessionLabel :: bytes where "sessionLabel = string_bytes ''aken/session/v1''"

datatype session_error = ErrEnvelope | ErrSequence | ErrSessionAuth | ErrExchange

section \<open>Key exchange\<close>

type_synonym keyPair = "bytes option"

text \<open>\<^verbatim>\<open>GenerateKeyPair\<close> and \<^verbatim>\<open>KeyPairFromPrivate\<close>: X25519 accepts every 32-byte private key.\<close>

definition KeyPairFromPrivate :: "bytes \<Rightarrow> session_error + keyPair" where
  "KeyPairFromPrivate private = (if length private = 32 then Inr (Some private) else Inl ErrExchange)"

definition Public :: "crypto \<Rightarrow> keyPair \<Rightarrow> bytes" where
  "Public C k = (case k of None \<Rightarrow> replicate 32 0 | Some private \<Rightarrow> x25519_public C private)"

definition collector_mac_input :: "sessionID \<Rightarrow> bytes \<Rightarrow> bytes" where
  "collector_mac_input i collectorKey = sessionLabel @ [1] @ i @ collectorKey"

definition mcp_mac_input :: "sessionID \<Rightarrow> bytes \<Rightarrow> bytes \<Rightarrow> bytes" where
  "mcp_mac_input i collectorKey mcpKey = sessionLabel @ [2] @ i @ collectorKey @ mcpKey"

definition CollectorMAC :: "crypto \<Rightarrow> bytes \<Rightarrow> sessionID \<Rightarrow> bytes \<Rightarrow> bytes" where
  "CollectorMAC C exchangeKey i collectorKey = hmac_sha256 C exchangeKey (collector_mac_input i collectorKey)"

definition MCPMAC :: "crypto \<Rightarrow> bytes \<Rightarrow> sessionID \<Rightarrow> bytes \<Rightarrow> bytes \<Rightarrow> bytes" where
  "MCPMAC C exchangeKey i collectorKey mcpKey = hmac_sha256 C exchangeKey (mcp_mac_input i collectorKey mcpKey)"

definition VerifyCollectorMAC :: "crypto \<Rightarrow> bytes \<Rightarrow> sessionID \<Rightarrow> bytes \<Rightarrow> bytes \<Rightarrow> bool" where
  "VerifyCollectorMAC C exchangeKey i collectorKey mac \<longleftrightarrow> CollectorMAC C exchangeKey i collectorKey = mac"

definition VerifyMCPMAC :: "crypto \<Rightarrow> bytes \<Rightarrow> sessionID \<Rightarrow> bytes \<Rightarrow> bytes \<Rightarrow> bytes \<Rightarrow> bool" where
  "VerifyMCPMAC C exchangeKey i collectorKey mcpKey mac \<longleftrightarrow> MCPMAC C exchangeKey i collectorKey mcpKey = mac"

definition ContentRoot ::
  "crypto \<Rightarrow> keyPair \<Rightarrow> bytes \<Rightarrow> sessionID \<Rightarrow> bytes \<Rightarrow> bytes \<Rightarrow> session_error + bytes" where
  "ContentRoot C k peer i collectorKey mcpKey =
     (case k of
        None \<Rightarrow> Inl ErrExchange
      | Some private \<Rightarrow>
          if length peer \<noteq> 32 then Inl ErrExchange
          else (case x25519_shared C private peer of
                  None \<Rightarrow> Inl ErrExchange
                | Some secr \<Rightarrow>
                    Inr (hkdf_key C secr (sha256 C (sessionLabel @ i @ collectorKey @ mcpKey)) ''content-root'' 32)))"

record sessionKeys =
  sk_job :: bytes
  sk_result :: bytes

definition DeriveSessionKeys :: "crypto \<Rightarrow> bytes \<Rightarrow> sessionKeys" where
  "DeriveSessionKeys C contentRoot =
     \<lparr>sk_job = hkdf_key C contentRoot sessionLabel ''job-key'' 32,
      sk_result = hkdf_key C contentRoot sessionLabel ''result-key'' 32\<rparr>"

section \<open>Envelopes\<close>

record envelope =
  e_version :: u8
  e_sessionID :: string
  e_seq :: u64
  e_class :: u8
  e_payload :: bytes

definition Canonical :: "envelope \<Rightarrow> bytes option" where
  "Canonical e =
     (case ParseSessionID (e_sessionID e) of
        None \<Rightarrow> None
      | Some i \<Rightarrow>
          if e_version e \<noteq> SessionVersion \<or> e_seq e = 0 \<or> e_seq e > of_nat MaxSessionSeq
             \<or> e_class e < ClassRead \<or> e_class e > ClassExec \<or> length (e_payload e) \<le> 16
             \<or> length (e_payload e) > 2 ^ 32 - 1
          then None
          else Some ([e_version e] @ i @ put_be 8 (e_seq e) @ [e_class e]
                     @ put_be 4 (of_nat (length (e_payload e)) :: u32)))"

definition Envelope_Validate :: "envelope \<Rightarrow> sessionID \<Rightarrow> nat \<Rightarrow> session_error option" where
  "Envelope_Validate e i maxPayload =
     (if Canonical e = None \<or> e_sessionID e \<noteq> SessionID_String i \<or> length (e_payload e) > maxPayload
      then Some ErrEnvelope else None)"

definition sessionNonce :: "u64 \<Rightarrow> bytes" where
  "sessionNonce seq = replicate 4 0 @ put_be 8 seq"

definition sealSession ::
  "crypto \<Rightarrow> bytes \<Rightarrow> sessionID \<Rightarrow> u64 \<Rightarrow> u8 \<Rightarrow> bytes \<Rightarrow> nat \<Rightarrow> session_error + envelope" where
  "sealSession C key i seq cls plaintext capBytes =
     (if length plaintext = 0 \<or> length plaintext > capBytes - 16 then Inl ErrEnvelope
      else let e = \<lparr>e_version = SessionVersion, e_sessionID = SessionID_String i, e_seq = seq,
                    e_class = cls, e_payload = replicate (length plaintext + 16) 0\<rparr> in
        (case Canonical e of
           None \<Rightarrow> Inl ErrEnvelope
         | Some ad \<Rightarrow> Inr (e\<lparr>e_payload := gcm_seal C key (sessionNonce seq) plaintext ad\<rparr>)))"

definition openSession ::
  "crypto \<Rightarrow> bytes \<Rightarrow> envelope \<Rightarrow> sessionID \<Rightarrow> u64 \<Rightarrow> nat \<Rightarrow> session_error + bytes" where
  "openSession C key e i expectSeq capBytes =
     (if Envelope_Validate e i capBytes \<noteq> None then Inl ErrEnvelope
      else if e_seq e \<noteq> expectSeq then Inl ErrSequence
      else (case Canonical e of
              None \<Rightarrow> Inl ErrEnvelope
            | Some ad \<Rightarrow>
                (case gcm_open C key (sessionNonce (e_seq e)) (e_payload e) ad of
                   None \<Rightarrow> Inl ErrSessionAuth
                 | Some plaintext \<Rightarrow> Inr plaintext)))"

definition SealJob :: "crypto \<Rightarrow> sessionKeys \<Rightarrow> sessionID \<Rightarrow> u64 \<Rightarrow> u8 \<Rightarrow> bytes \<Rightarrow> session_error + envelope" where
  "SealJob C k i seq cls plaintext = sealSession C (sk_job k) i seq cls plaintext MaxJobBytes"

definition OpenJob :: "crypto \<Rightarrow> sessionKeys \<Rightarrow> envelope \<Rightarrow> sessionID \<Rightarrow> u64 \<Rightarrow> session_error + bytes" where
  "OpenJob C k e i expectSeq = openSession C (sk_job k) e i expectSeq MaxJobBytes"

definition SealResult :: "crypto \<Rightarrow> sessionKeys \<Rightarrow> sessionID \<Rightarrow> u64 \<Rightarrow> u8 \<Rightarrow> bytes \<Rightarrow> session_error + envelope" where
  "SealResult C k i seq cls plaintext = sealSession C (sk_result k) i seq cls plaintext MaxResultBytes"

definition OpenResult :: "crypto \<Rightarrow> sessionKeys \<Rightarrow> envelope \<Rightarrow> sessionID \<Rightarrow> u64 \<Rightarrow> session_error + bytes" where
  "OpenResult C k e i expectSeq = openSession C (sk_result k) e i expectSeq MaxResultBytes"

section \<open>Canonical encoding\<close>

text \<open>An envelope header is well formed: what \<^verbatim>\<open>Canonical\<close> checks, read abstractly.\<close>

definition header_ok :: "sessionID \<Rightarrow> u64 \<Rightarrow> u8 \<Rightarrow> bool" where
  "header_ok i seq cls \<longleftrightarrow> length i = 16 \<and> 1 \<le> unat seq \<and> unat seq \<le> MaxSessionSeq \<and> ClassRead \<le> cls \<and> cls \<le> ClassExec"

definition header_bytes :: "sessionID \<Rightarrow> u64 \<Rightarrow> u8 \<Rightarrow> nat \<Rightarrow> bytes" where
  "header_bytes i seq cls n = [SessionVersion] @ i @ put_be 8 seq @ [cls] @ put_be 4 (of_nat n :: u32)"

lemma seq_bounds: "seq = (0 :: u64) \<or> seq > of_nat MaxSessionSeq \<longleftrightarrow> \<not> (1 \<le> unat seq \<and> unat seq \<le> MaxSessionSeq)"
proof -
  have "unat (of_nat MaxSessionSeq :: u64) = MaxSessionSeq"
    by (simp add: MaxSessionSeq_def)
  then show ?thesis
    by (auto simp: word_less_nat_alt unat_eq_0 [symmetric] simp del: unat_eq_0)
qed

lemma Canonical_Some_iff:
  "Canonical e = Some ad \<longleftrightarrow>
     (\<exists>i. e_version e = SessionVersion \<and> e_sessionID e = SessionID_String i \<and>
          header_ok i (e_seq e) (e_class e) \<and>
          16 < length (e_payload e) \<and> length (e_payload e) < 2 ^ 32 \<and>
          ad = header_bytes i (e_seq e) (e_class e) (length (e_payload e)))"
proof (cases "ParseSessionID (e_sessionID e)")
  case None
  then have "e_sessionID e \<noteq> SessionID_String i \<or> length i \<noteq> 16" for i
    using ParseSessionID_String [of i] by auto
  with None show ?thesis by (auto simp: Canonical_def header_ok_def)
next
  case (Some j)
  note j = ParseSessionID_Some [OF Some]
  have inj: "e_sessionID e = SessionID_String i \<longleftrightarrow> i = j" for i
    unfolding j(2) [symmetric] by (auto simp: SessionID_String_def hex_encode_inj)
  have seq: "e_seq e = 0 \<or> of_nat MaxSessionSeq < e_seq e \<longleftrightarrow>
      \<not> (1 \<le> unat (e_seq e) \<and> unat (e_seq e) \<le> MaxSessionSeq)" by (rule seq_bounds)
  have guard: "(e_version e \<noteq> SessionVersion \<or> e_seq e = 0 \<or> of_nat MaxSessionSeq < e_seq e
       \<or> e_class e < ClassRead \<or> ClassExec < e_class e \<or> length (e_payload e) \<le> 16
       \<or> 2 ^ 32 - 1 < length (e_payload e)) \<longleftrightarrow>
     \<not> (e_version e = SessionVersion \<and> header_ok j (e_seq e) (e_class e) \<and>
        16 < length (e_payload e) \<and> length (e_payload e) < 2 ^ 32)"
    using seq j(1) by (auto simp: header_ok_def not_less)
  show ?thesis
    unfolding Canonical_def Some option.case guard
    by (auto simp: inj header_bytes_def)
qed

lemma header_bytes_inj:
  assumes "length i = 16" and "length j = 16" and "m < 2 ^ 32" and "n < 2 ^ 32"
  shows "header_bytes i s c m = header_bytes j t d n \<longleftrightarrow> i = j \<and> s = t \<and> c = d \<and> m = n"
proof -
  have "(of_nat m :: u32) = of_nat n \<longleftrightarrow> m = n"
    using assms(3,4) unat_small32 by metis
  with assms(1,2) show ?thesis by (auto simp: header_bytes_def put_be_inj)
qed

text \<open>
  The 30-byte canonical form determines the whole header: two envelopes have the same associated
  data only if version, session, sequence number, class and payload length all agree, so a relay
  cannot move a ciphertext to another session, position, class or length without changing what the
  authentication tag covers.
\<close>

lemma Canonical_injective:
  assumes "Canonical e = Some ad" and "Canonical e' = Some ad'"
  shows "length ad = 30 \<and>
    (ad = ad' \<longleftrightarrow> e_version e = e_version e' \<and> e_sessionID e = e_sessionID e' \<and> e_seq e = e_seq e' \<and>
       e_class e = e_class e' \<and> length (e_payload e) = length (e_payload e'))"
proof -
  from assms(1) obtain i where e: "e_version e = SessionVersion" "e_sessionID e = SessionID_String i"
    "header_ok i (e_seq e) (e_class e)" "length (e_payload e) < 2 ^ 32"
    "ad = header_bytes i (e_seq e) (e_class e) (length (e_payload e))"
    unfolding Canonical_Some_iff by blast
  from assms(2) obtain j where e': "e_version e' = SessionVersion" "e_sessionID e' = SessionID_String j"
    "header_ok j (e_seq e') (e_class e')" "length (e_payload e') < 2 ^ 32"
    "ad' = header_bytes j (e_seq e') (e_class e') (length (e_payload e'))"
    unfolding Canonical_Some_iff by blast
  from e(3) e'(3) have l: "length i = 16" "length j = 16" by (auto simp: header_ok_def)
  from header_bytes_inj [OF l e(4) e'(4)] e e' l show ?thesis
    by (auto simp: header_bytes_def SessionID_String_def hex_encode_inj)
qed

definition sample_envelope :: envelope where
  "sample_envelope = \<lparr>e_version = 1, e_sessionID = SessionID_String (replicate 16 0), e_seq = 7,
     e_class = 1, e_payload = replicate 20 0\<rparr>"

lemma sample_canonical:
  "Canonical sample_envelope = Some (header_bytes (replicate 16 0) 7 1 20)"
  unfolding Canonical_Some_iff
  by (rule exI [of _ "replicate 16 0"])
    (simp add: sample_envelope_def SessionVersion_def header_ok_def MaxSessionSeq_def ClassRead_def ClassExec_def)

lemma Canonical_injective_witness: "length (header_bytes (replicate 16 0) 7 1 20) = 30"
  using Canonical_injective [OF sample_canonical sample_canonical] by blast

section \<open>Sealing and opening\<close>

lemma seal_Inr:
  assumes C: "crypto_ok C" and "header_ok i seq cls" and "0 < length p" and "length p \<le> capBytes - 16"
    and "capBytes < 2 ^ 32"
  shows "sealSession C key i seq cls p capBytes =
    Inr \<lparr>e_version = SessionVersion, e_sessionID = SessionID_String i, e_seq = seq, e_class = cls,
         e_payload = gcm_seal C key (sessionNonce seq) p (header_bytes i seq cls (length p + 16))\<rparr>"
proof -
  let ?e = "\<lparr>e_version = SessionVersion, e_sessionID = SessionID_String i, e_seq = seq,
             e_class = cls, e_payload = replicate (length p + 16) 0\<rparr>"
  have "Canonical ?e = Some (header_bytes i seq cls (length p + 16))"
    unfolding Canonical_Some_iff using assms by (intro exI [of _ i]) auto
  with assms show ?thesis by (simp add: sealSession_def Let_def)
qed

lemma open_seal:
  assumes C: "crypto_ok C" and h: "header_ok i seq cls" and p: "0 < length p" "length p \<le> capBytes - 16"
    and cap: "capBytes < 2 ^ 32" and e: "sealSession C key i seq cls p capBytes = Inr e"
  shows "openSession C key e i expect capBytes = (if expect = seq then Inr p else Inl ErrSequence)"
proof -
  from seal_Inr [OF C h p cap] e have e: "e = \<lparr>e_version = SessionVersion, e_sessionID = SessionID_String i,
      e_seq = seq, e_class = cls,
      e_payload = gcm_seal C key (sessionNonce seq) p (header_bytes i seq cls (length p + 16))\<rparr>"
    by simp
  have le: "length p + 16 \<le> capBytes" using p by linarith
  have len: "length (e_payload e) = length p + 16" using C by (simp add: e crypto_simps)
  then have can: "Canonical e = Some (header_bytes i seq cls (length p + 16))"
    unfolding Canonical_Some_iff using h p cap by (intro exI [of _ i]) (simp add: e)
  moreover have "Envelope_Validate e i capBytes = None"
    using can len le by (simp add: Envelope_Validate_def) (simp add: e)
  moreover have "e_seq e = seq" and "gcm_open C key (sessionNonce seq) (e_payload e)
      (header_bytes i seq cls (length p + 16)) = Some p"
    using C by (simp_all add: e crypto_simps)
  ultimately show ?thesis by (simp add: openSession_def)
qed

text \<open>
  Jobs and results survive the wire, in order: sealing succeeds for every non-empty plaintext
  that fits the cap and every sequence number from 1 to \<open>2 ^ 32 - 1\<close>; the envelope opens to the
  plaintext at exactly that position, and at any other expected position it is refused as out of
  sequence, which is what rules out replay and reordering.
\<close>

lemma session_roundtrip:
  assumes "crypto_ok C" and "header_ok i seq cls" and "0 < length p"
  shows "(length p \<le> MaxJobBytes - 16 \<longrightarrow>
      (\<exists>e. SealJob C k i seq cls p = Inr e \<and>
        (\<forall>expect. OpenJob C k e i expect = (if expect = seq then Inr p else Inl ErrSequence)))) \<and>
    (length p \<le> MaxResultBytes - 16 \<longrightarrow>
      (\<exists>e. SealResult C k i seq cls p = Inr e \<and>
        (\<forall>expect. OpenResult C k e i expect = (if expect = seq then Inr p else Inl ErrSequence))))"
proof -
  have rt: "\<exists>e. sealSession C key i seq cls p n = Inr e \<and>
      (\<forall>expect. openSession C key e i expect n = (if expect = seq then Inr p else Inl ErrSequence))"
    if "length p \<le> n - 16" "n < 2 ^ 32" for key n
    using seal_Inr [OF assms that] open_seal [OF assms that] by blast
  show ?thesis
    unfolding SealJob_def OpenJob_def SealResult_def OpenResult_def
    by (intro conjI impI rt) (simp_all add: MaxJobBytes_def MaxResultBytes_def)
qed

lemma session_roundtrip_witness:
  "\<exists>e. SealJob toy_crypto \<lparr>sk_job = [], sk_result = []\<rparr> (replicate 16 0) 7 1 [42] = Inr e \<and>
       OpenJob toy_crypto \<lparr>sk_job = [], sk_result = []\<rparr> e (replicate 16 0) 7 = Inr [42] \<and>
       OpenJob toy_crypto \<lparr>sk_job = [], sk_result = []\<rparr> e (replicate 16 0) 8 = Inl ErrSequence"
proof -
  have h: "header_ok (replicate 16 0) 7 1" by (simp add: header_ok_def MaxSessionSeq_def ClassRead_def ClassExec_def)
  have p: "0 < length [42 :: byte]" and l: "length [42 :: byte] \<le> MaxJobBytes - 16"
    by (simp_all add: MaxJobBytes_def)
  from session_roundtrip [OF toy_crypto_ok h p, of "\<lparr>sk_job = [], sk_result = []\<rparr>"] l
  obtain e where "SealJob toy_crypto \<lparr>sk_job = [], sk_result = []\<rparr> (replicate 16 0) 7 1 [42] = Inr e"
    and "\<forall>expect. OpenJob toy_crypto \<lparr>sk_job = [], sk_result = []\<rparr> e (replicate 16 0) expect
          = (if expect = 7 then Inr [42] else Inl ErrSequence)" by blast
  then show ?thesis by auto
qed

text \<open>
  What opening accepts: an envelope of this session, of the expected number, whose payload is
  exactly the sealing of the returned plaintext under that number's nonce and this header; its size
  is within the cap. Every refusal is one of the three documented errors, tried in this order.
\<close>

lemma openSession_accepts:
  assumes "crypto_ok C" and "openSession C key e i expectSeq capBytes = Inr p"
  shows "e_sessionID e = SessionID_String i \<and> e_seq e = expectSeq \<and> length (e_payload e) \<le> capBytes \<and>
    e_payload e = gcm_seal C key (sessionNonce expectSeq) p
      (header_bytes i expectSeq (e_class e) (length (e_payload e))) \<and>
    length p + 16 = length (e_payload e)"
proof -
  from assms(2) obtain ad where ad: "Canonical e = Some ad" and id: "e_sessionID e = SessionID_String i"
    and len: "length (e_payload e) \<le> capBytes" and seq: "e_seq e = expectSeq"
    and op: "gcm_open C key (sessionNonce (e_seq e)) (e_payload e) ad = Some p"
    by (auto simp: openSession_def Envelope_Validate_def split: if_splits option.splits)
  from ad id have "ad = header_bytes i (e_seq e) (e_class e) (length (e_payload e))"
    unfolding Canonical_Some_iff by (auto simp: SessionID_String_def hex_encode_inj)
  with crypto_okD(6) [OF assms(1) op] seq
  have "e_payload e = gcm_seal C key (sessionNonce expectSeq) p
      (header_bytes i expectSeq (e_class e) (length (e_payload e)))" by simp
  moreover from this have "length (e_payload e) = length p + 16" by (metis assms(1) crypto_okD(4))
  ultimately show ?thesis using id seq len by simp
qed

lemma openSession_accepts_witness:
  "e_seq (sample_envelope\<lparr>e_payload := [42] @ replicate 16 0\<rparr>) = 7 \<and>
   openSession toy_crypto [] (sample_envelope\<lparr>e_payload := [42] @ replicate 16 0\<rparr>) (replicate 16 0) 7 100 = Inr [42]"
proof -
  let ?e = "sample_envelope\<lparr>e_payload := [42] @ replicate 16 0\<rparr>"
  have "sealSession toy_crypto [] (replicate 16 0) 7 1 [42] 100 = Inr ?e"
    using seal_Inr [OF toy_crypto_ok, of "replicate 16 0" 7 1 "[42]" 100 "[]"]
    by (simp add: header_ok_def MaxSessionSeq_def ClassRead_def ClassExec_def sample_envelope_def toy_crypto_def SessionVersion_def)
  then have o: "openSession toy_crypto [] ?e (replicate 16 0) 7 100 = Inr [42]"
    using open_seal [OF toy_crypto_ok, of "replicate 16 0" 7 1 "[42]" 100 "[]" ?e 7]
    by (simp add: header_ok_def MaxSessionSeq_def ClassRead_def ClassExec_def)
  from openSession_accepts [OF toy_crypto_ok o] o show ?thesis by blast
qed

section \<open>The exchange\<close>

text \<open>
  Both ends of an exchange derive the same keys: with each side's public key, the collector and
  the local MCP compute the same content root and session keys, or both report a failed exchange.
\<close>

lemma exchange_agrees:
  assumes "crypto_ok C" and "length a = 32" and "length b = 32"
  shows "ContentRoot C (Some a) (Public C (Some b)) i (Public C (Some a)) (Public C (Some b))
       = ContentRoot C (Some b) (Public C (Some a)) i (Public C (Some a)) (Public C (Some b))"
  using assms crypto_okD(7) [OF assms(1)] crypto_okD(8) [OF assms(1), of a b]
  by (simp add: ContentRoot_def Public_def)

lemma exchange_agrees_witness:
  "ContentRoot toy_crypto (Some (replicate 32 1)) (replicate 32 2) [] (replicate 32 1) (replicate 32 2)
   = ContentRoot toy_crypto (Some (replicate 32 2)) (replicate 32 1) [] (replicate 32 1) (replicate 32 2)"
  using exchange_agrees [OF toy_crypto_ok, of "replicate 32 1" "replicate 32 2" "[]"]
  by (simp add: Public_def toy_crypto_def)

text \<open>
  The two MACs of an exchange cover distinct messages: a collector MAC input is never an MCP MAC
  input, and each determines the session and the public keys it binds.
\<close>

lemma mac_domains_separate:
  assumes "length i = 16" and "length j = 16" and "length ck = 32" and "length ck' = 32"
  shows "collector_mac_input i ck \<noteq> mcp_mac_input j ck' mk \<and>
    (collector_mac_input i ck = collector_mac_input j ck' \<longleftrightarrow> i = j \<and> ck = ck') \<and>
    (mcp_mac_input i ck mk = mcp_mac_input j ck' mk' \<longleftrightarrow> i = j \<and> ck = ck' \<and> mk = mk')"
  using assms by (simp add: collector_mac_input_def mcp_mac_input_def)

lemma mac_domains_separate_witness:
  "collector_mac_input (replicate 16 0) (replicate 32 1) \<noteq> mcp_mac_input (replicate 16 0) (replicate 32 1) []"
  using mac_domains_separate [of "replicate 16 0" "replicate 16 0" "replicate 32 1" "replicate 32 1" "[]" "[]"]
  by simp

end
