(* ===== verification/Relay_Live.thy ===== *)
theory Relay_Live
  imports Envelope
begin

text \<open>
  A live session inside the relay (\<^verbatim>\<open>relay/session.go\<close>): the join, the two queues with their expected
  sequence numbers, and posting and delivering envelopes. Every operation here runs under the
  session's mutex, so it is atomic; the channel \<^verbatim>\<open>changed\<close> is a counter that \<^verbatim>\<open>notify\<close> increments, so a
  waiting poll sees a change as a different count. The theory shows that each direction is a
  bounded, gap-free, exactly-once queue.
\<close>

record liveSession =
  joined :: "joinInfo option"
  jobs :: "envelope list"
  results :: "envelope list"
  nextJob :: u64
  nextResult :: u64
  lastJob :: "envelope option"
  lastResult :: "envelope option"
  changed :: nat
  gone :: bool
  live_expiresAt :: time

definition new_live :: "time \<Rightarrow> liveSession" where
  "new_live expiresAt = \<lparr>joined = None, jobs = [], results = [], nextJob = 1, nextResult = 1,
     lastJob = None, lastResult = None, changed = 0, gone = False, live_expiresAt = expiresAt\<rparr>"

definition notify :: "liveSession \<Rightarrow> liveSession" where
  "notify l = l\<lparr>changed := Suc (changed l)\<rparr>"

text \<open>The part of \<^verbatim>\<open>dropLocked\<close> that changes the session object.\<close>

definition drop_live :: "liveSession \<Rightarrow> liveSession" where
  "drop_live l = notify (l\<lparr>gone := True, jobs := [], results := [], lastJob := None, lastResult := None\<rparr>)"

text \<open>The comparison that recognises a retry of the last envelope.\<close>

definition same_envelope :: "envelope \<Rightarrow> envelope \<Rightarrow> bool" where
  "same_envelope e f \<longleftrightarrow> e_seq e = e_seq f \<and> e_version e = e_version f \<and> e_sessionID e = e_sessionID f \<and>
     e_class e = e_class f \<and> e_payload e = e_payload f"

lemma same_envelope_eq [simp]: "same_envelope e f \<longleftrightarrow> e = f"
  by (cases e; cases f) (auto simp: same_envelope_def)

text \<open>
  \<^verbatim>\<open>post\<close>: the pointers \<^verbatim>\<open>pending\<close>, \<^verbatim>\<open>next\<close> and \<^verbatim>\<open>last\<close> select one direction. The result is the status
  and the error code, \<open>''''\<close> for success.
\<close>

definition post :: "envelope \<Rightarrow> bool \<Rightarrow> int \<Rightarrow> liveSession \<Rightarrow> (nat \<times> string) \<times> liveSession" where
  "post e res maxQueue l =
     (if gone l then ((404, ''not_found''), l)
      else if joined l = None then ((409, ''not_joined''), l)
      else
        let pending = (if res then results l else jobs l);
            nxt = (if res then nextResult l else nextJob l);
            lst = (if res then lastResult l else lastJob l)
        in if (case lst of None \<Rightarrow> False | Some f \<Rightarrow> same_envelope e f) then ((202, ''''), l)
           else if e_seq e \<noteq> nxt then ((409, ''bad_sequence''), l)
           else if int (length pending) \<ge> maxQueue then ((429, ''queue_full''), l)
           else ((202, ''''),
                 notify (if res
                         then l\<lparr>results := pending @ [e], lastResult := Some e, nextResult := nxt + 1\<rparr>
                         else l\<lparr>jobs := pending @ [e], lastJob := Some e, nextJob := nxt + 1\<rparr>)))"

text \<open>
  The part of \<^verbatim>\<open>poll\<close> that takes the pending envelopes of one direction: what is delivered and the
  session afterwards. An empty queue delivers nothing and changes nothing.
\<close>

definition take_pending :: "bool \<Rightarrow> liveSession \<Rightarrow> envelope list \<times> liveSession" where
  "take_pending res l =
     (let pending = (if res then results l else jobs l) in
      if pending = [] then ([], l)
      else (pending, notify (if res then l\<lparr>results := []\<rparr> else l\<lparr>jobs := []\<rparr>)))"

text \<open>The part of \<^verbatim>\<open>join\<close> under the second lock: only the first join is taken.\<close>

definition set_joined :: "joinInfo \<Rightarrow> liveSession \<Rightarrow> (nat \<times> string) \<times> liveSession" where
  "set_joined info l =
     (if gone l then ((404, ''not_found''), l)
      else if joined l \<noteq> None then ((409, ''already_exists''), l)
      else ((201, ''''), notify (l\<lparr>joined := Some info\<rparr>)))"

lemmas live_defs [op_defs] = post_def take_pending_def set_joined_def drop_live_def notify_def new_live_def

section \<open>Invariant\<close>

text \<open>
  One direction: the pending envelopes carry consecutive numbers that end just below the expected
  number, the last accepted envelope is the one before it, and the queue is within its bound.
\<close>

definition queue_inv :: "int \<Rightarrow> envelope list \<Rightarrow> u64 \<Rightarrow> envelope option \<Rightarrow> bool" where
  "queue_inv maxQueue pending nxt lst \<longleftrightarrow>
     length pending < unat nxt \<and>
     map (unat \<circ> e_seq) pending = [unat nxt - length pending..<unat nxt] \<and>
     int (length pending) \<le> max 0 maxQueue \<and>
     (lst = None \<longrightarrow> nxt = 1) \<and>
     (\<forall>e. lst = Some e \<longrightarrow> unat (e_seq e) + 1 = unat nxt) \<and>
     unat nxt \<le> 2 ^ 32"

definition live_inv :: "int \<Rightarrow> liveSession \<Rightarrow> bool" where
  "live_inv maxQueue l \<longleftrightarrow>
     (gone l \<longrightarrow> jobs l = [] \<and> results l = []) \<and>
     (\<not> gone l \<longrightarrow>
       queue_inv maxQueue (jobs l) (nextJob l) (lastJob l) \<and>
       queue_inv maxQueue (results l) (nextResult l) (lastResult l)) \<and>
     (joined l = None \<longrightarrow> jobs l = [] \<and> results l = [])"

lemma queue_inv_init: "queue_inv maxQueue [] 1 None"
  by (simp add: queue_inv_def)

lemma queue_inv_append:
  assumes "queue_inv q p n l" and "e_seq e = n" and "int (length p) < q" and "unat n < 2 ^ 32"
  shows "queue_inv q (p @ [e]) (n + 1) (Some e)"
proof -
  have "unat (n + 1) = Suc (unat n)" using assms(4) by (rule unat_succ)
  then show ?thesis using assms by (auto simp: queue_inv_def)
qed

lemma queue_inv_clear: "queue_inv q p n l \<Longrightarrow> queue_inv q [] n l"
  by (auto simp: queue_inv_def)

lemma live_inv_new: "live_inv q (new_live t)"
  by (simp add: live_inv_def new_live_def queue_inv_init)

lemma post_inv [inv_intros]:
  assumes "live_inv q l" and "unat (e_seq e) \<le> MaxSessionSeq"
  shows "live_inv q (snd (post e res q l))"
proof -
  have s: "unat (e_seq e) < 2 ^ 32" using assms(2) by (simp add: MaxSessionSeq_def)
  show ?thesis
    using assms(1) s queue_inv_append [of q "results l" "nextResult l" "lastResult l" e]
      queue_inv_append [of q "jobs l" "nextJob l" "lastJob l" e]
    by (auto simp: live_inv_def post_def notify_def Let_def)
qed

lemma take_pending_inv [inv_intros]: "live_inv q l \<Longrightarrow> live_inv q (snd (take_pending res l))"
  by (auto simp: live_inv_def take_pending_def notify_def Let_def intro: queue_inv_clear)

lemma set_joined_inv [inv_intros]: "live_inv q l \<Longrightarrow> live_inv q (snd (set_joined info l))"
  by (auto simp: live_inv_def set_joined_def notify_def)

lemma drop_live_inv [inv_intros]: "live_inv q (drop_live l)"
  by (simp add: live_inv_def drop_live_def notify_def)

section \<open>Delivery\<close>

text \<open>A life of a session: joins, posts and polls in any order.\<close>

datatype live_event = Join joinInfo | Post envelope bool | Poll bool

definition live_step :: "int \<Rightarrow> live_event \<Rightarrow> liveSession \<Rightarrow> liveSession" where
  "live_step q ev l =
     (case ev of
        Join info \<Rightarrow> snd (set_joined info l)
      | Post e res \<Rightarrow> snd (post e res q l)
      | Poll res \<Rightarrow> snd (take_pending res l))"

fun live_run :: "int \<Rightarrow> live_event list \<Rightarrow> liveSession \<Rightarrow> liveSession" where
  "live_run q [] l = l"
| "live_run q (ev # evs) l = live_run q evs (live_step q ev l)"

text \<open>The envelopes a step newly accepts (a recognised retry is not one) and delivers.\<close>

definition step_accepts :: "int \<Rightarrow> bool \<Rightarrow> live_event \<Rightarrow> liveSession \<Rightarrow> envelope list" where
  "step_accepts q res ev l =
     (case ev of
        Post e r \<Rightarrow>
          if r = res \<and> fst (post e r q l) = (202, '''') \<and> (if r then lastResult l else lastJob l) \<noteq> Some e
          then [e] else []
      | _ \<Rightarrow> [])"

definition step_delivers :: "bool \<Rightarrow> live_event \<Rightarrow> liveSession \<Rightarrow> envelope list" where
  "step_delivers res ev l = (case ev of Poll r \<Rightarrow> if r = res then fst (take_pending r l) else [] | _ \<Rightarrow> [])"

fun accepted :: "int \<Rightarrow> bool \<Rightarrow> live_event list \<Rightarrow> liveSession \<Rightarrow> envelope list" where
  "accepted q res [] l = []"
| "accepted q res (ev # evs) l = step_accepts q res ev l @ accepted q res evs (live_step q ev l)"

fun delivered :: "int \<Rightarrow> bool \<Rightarrow> live_event list \<Rightarrow> liveSession \<Rightarrow> envelope list" where
  "delivered q res [] l = []"
| "delivered q res (ev # evs) l = step_delivers res ev l @ delivered q res evs (live_step q ev l)"

definition pending_of :: "bool \<Rightarrow> liveSession \<Rightarrow> envelope list" where
  "pending_of res l = (if res then results l else jobs l)"

definition next_of :: "bool \<Rightarrow> liveSession \<Rightarrow> u64" where
  "next_of res l = (if res then nextResult l else nextJob l)"

text \<open>What the handler lets through to \<^verbatim>\<open>post\<close>: sequence numbers within 32 bits.\<close>

definition event_ok :: "live_event \<Rightarrow> bool" where
  "event_ok ev = (case ev of Post e _ \<Rightarrow> unat (e_seq e) \<le> MaxSessionSeq | _ \<Rightarrow> True)"

lemma live_step_inv: "live_inv q l \<Longrightarrow> event_ok ev \<Longrightarrow> live_inv q (live_step q ev l)"
  by (cases ev) (auto simp: live_step_def event_ok_def intro: inv_intros)

lemma step_conserves:
  "step_delivers res ev l @ pending_of res (live_step q ev l) = pending_of res l @ step_accepts q res ev l"
  by (cases ev)
    (auto simp: step_delivers_def step_accepts_def live_step_def pending_of_def live_defs Let_def
      split: option.splits)

text \<open>A step leaves the expected number alone or consumes exactly it.\<close>

lemma step_next:
  assumes "event_ok ev"
  shows "map (unat \<circ> e_seq) (step_accepts q res ev l)
      = [unat (next_of res l)..<unat (next_of res (live_step q ev l))]"
    and "unat (next_of res l) \<le> unat (next_of res (live_step q ev l))"
proof -
  have s: "unat (e_seq e + 1) = Suc (unat (e_seq e))" if "ev = Post e r" for e r
    using assms that by (intro unat_succ) (simp add: event_ok_def MaxSessionSeq_def)
  show "map (unat \<circ> e_seq) (step_accepts q res ev l)
      = [unat (next_of res l)..<unat (next_of res (live_step q ev l))]"
    using s by (cases ev)
      (auto simp: step_accepts_def live_step_def next_of_def live_defs Let_def split: option.splits)
  show "unat (next_of res l) \<le> unat (next_of res (live_step q ev l))"
    using s by (cases ev) (auto simp: live_step_def next_of_def live_defs Let_def split: option.splits)
qed

lemma run_next_mono: "\<forall>ev \<in> set evs. event_ok ev \<Longrightarrow> unat (next_of res l) \<le> unat (next_of res (live_run q evs l))"
proof (induction evs arbitrary: l)
  case (Cons ev evs)
  then show ?case using step_next(2) [of ev res l q] by (fastforce intro: order_trans)
qed simp

lemma run_conserves:
  "delivered q res evs l @ pending_of res (live_run q evs l) = pending_of res l @ accepted q res evs l"
proof (induction evs arbitrary: l)
  case (Cons ev evs)
  then show ?case using step_conserves [of res ev l q]
    by (metis accepted.simps(2) append.assoc delivered.simps(2) live_run.simps(2))
qed simp

lemma run_accepts:
  assumes "\<forall>ev \<in> set evs. event_ok ev"
  shows "map (unat \<circ> e_seq) (accepted q res evs l) = [unat (next_of res l)..<unat (next_of res (live_run q evs l))]"
  using assms
proof (induction evs arbitrary: l)
  case (Cons ev evs)
  let ?l = "live_step q ev l"
  have "unat (next_of res l) \<le> unat (next_of res ?l)" using Cons.prems by (simp add: step_next)
  moreover have "unat (next_of res ?l) \<le> unat (next_of res (live_run q evs ?l))"
    using Cons.prems by (simp add: run_next_mono)
  moreover have "map (unat \<circ> e_seq) (step_accepts q res ev l) = [unat (next_of res l)..<unat (next_of res ?l)]"
    using Cons.prems by (intro step_next(1)) simp
  moreover have "map (unat \<circ> e_seq) (accepted q res evs ?l)
      = [unat (next_of res ?l)..<unat (next_of res (live_run q evs ?l))]"
    by (rule Cons.IH) (use Cons.prems in simp)
  ultimately show ?case by (simp add: upt_append del: map_map comp_apply)
qed simp

lemma live_run_inv: "live_inv q l \<Longrightarrow> \<forall>ev \<in> set evs. event_ok ev \<Longrightarrow> live_inv q (live_run q evs l)"
  by (induction evs arbitrary: l) (auto simp: live_step_inv)

lemma live_inv_bound: "live_inv q l \<Longrightarrow> int (length (pending_of res l)) \<le> max 0 q"
  by (cases "gone l") (auto simp: live_inv_def queue_inv_def pending_of_def)

text \<open>
  C23. Each direction of a live session is a bounded exactly-once queue: in every life of a session,
  the envelopes delivered so far followed by those still pending are the accepted ones, in order and
  without loss or duplication; the accepted ones are numbered 1, 2, 3, ... without a gap; and no more
  than the queue length is ever pending.
\<close>

theorem live_exactly_once:
  assumes "\<forall>ev \<in> set evs. event_ok ev"
  shows "delivered q res evs (new_live t) @ pending_of res (live_run q evs (new_live t))
      = accepted q res evs (new_live t) \<and>
    map (unat \<circ> e_seq) (accepted q res evs (new_live t)) = [1..<Suc (length (accepted q res evs (new_live t)))] \<and>
    int (length (pending_of res (live_run q evs (new_live t)))) \<le> max 0 q"
proof (intro conjI)
  have p: "pending_of res (new_live t) = []" and n: "unat (next_of res (new_live t)) = 1"
    by (simp_all add: pending_of_def next_of_def new_live_def)
  show "delivered q res evs (new_live t) @ pending_of res (live_run q evs (new_live t))
      = accepted q res evs (new_live t)"
    using run_conserves [of q res evs "new_live t"] p by simp
  have a: "map (unat \<circ> e_seq) (accepted q res evs (new_live t)) = [1..<unat (next_of res (live_run q evs (new_live t)))]"
    using run_accepts [OF assms, of q res "new_live t"] n by simp
  moreover from this have "length (accepted q res evs (new_live t)) = unat (next_of res (live_run q evs (new_live t))) - 1"
    by (metis length_map length_upt)
  moreover have "1 \<le> unat (next_of res (live_run q evs (new_live t)))"
    using run_next_mono [OF assms, of res "new_live t" q] n by simp
  ultimately show "map (unat \<circ> e_seq) (accepted q res evs (new_live t)) = [1..<Suc (length (accepted q res evs (new_live t)))]"
    by simp
  show "int (length (pending_of res (live_run q evs (new_live t)))) \<le> max 0 q"
    by (intro live_inv_bound live_run_inv live_inv_new assms)
qed

definition sample_join :: joinInfo where
  "sample_join = \<lparr>ji_collectorKey = [], ji_collectorMAC = [], ji_mcpKey = [], ji_mcpMAC = [],
     ji_via = ''cli'', ji_joinedAt = 0\<rparr>"

definition sample_first :: envelope where
  "sample_first = sample_envelope\<lparr>e_seq := 1\<rparr>"

theorem live_exactly_once_witness:
  "delivered 64 False [Join sample_join, Post sample_first False, Post sample_first False, Poll False] (new_live 0)
   = [sample_first]"
proof -
  let ?evs = "[Join sample_join, Post sample_first False, Post sample_first False, Poll False]"
  have "\<forall>ev \<in> set ?evs. event_ok ev"
    by (simp add: event_ok_def sample_first_def MaxSessionSeq_def)
  from live_exactly_once [OF this, of 64 False 0]
  have "delivered 64 False ?evs (new_live 0) @ pending_of False (live_run 64 ?evs (new_live 0))
      = accepted 64 False ?evs (new_live 0)" by blast
  moreover have "accepted 64 False ?evs (new_live 0) = [sample_first]"
    and "pending_of False (live_run 64 ?evs (new_live 0)) = []"
    by (simp_all add: step_accepts_def live_step_def live_defs pending_of_def Let_def sample_first_def)
  ultimately show ?thesis by simp
qed

text \<open>What an accepting \<^verbatim>\<open>post\<close> establishes, what a poll keeps of it, and what it is good for.\<close>

definition last_of :: "bool \<Rightarrow> liveSession \<Rightarrow> envelope option" where
  "last_of res l = (if res then lastResult l else lastJob l)"

definition knows :: "bool \<Rightarrow> envelope \<Rightarrow> liveSession \<Rightarrow> bool" where
  "knows res e l \<longleftrightarrow> \<not> gone l \<and> joined l \<noteq> None \<and> last_of res l = Some e"

lemma post_known: "knows res e l \<Longrightarrow> post e res q l = ((202, ''''), l)"
  by (cases res) (auto simp: knows_def last_of_def post_def Let_def)

lemma post_accepted:
  assumes "post e res q l = ((202, ''''), l')"
  shows "knows res e l'"
proof -
  have "\<not> gone l" "joined l \<noteq> None" using assms by (auto simp: post_def split: if_splits)
  then show ?thesis using assms
    by (cases res) (auto simp: post_def knows_def last_of_def notify_def Let_def split: if_splits option.splits)
qed

lemma take_pending_knows: "knows res e l \<Longrightarrow> knows res e (snd (take_pending r l))"
  by (auto simp: knows_def last_of_def take_pending_def notify_def Let_def)

lemmas post_accepted_poll = take_pending_knows [OF post_accepted]

text \<open>
  A retry is harmless: posting again the envelope that was just accepted, also after any poll,
  is answered with success and changes nothing, so a client that lost the answer may repeat it.
\<close>

lemma post_retry_idempotent:
  assumes "post e res q l = ((202, ''''), l')"
  shows "post e res q l' = ((202, ''''), l') \<and>
    post e res q (snd (take_pending r l')) = ((202, ''''), snd (take_pending r l'))"
  using post_accepted [OF assms] post_accepted_poll [OF assms, of r] by (simp add: post_known)

definition sample_live :: liveSession where
  "sample_live = (new_live 100)\<lparr>joined := Some sample_join\<rparr>"

lemma post_retry_idempotent_witness:
  "fst (post sample_first False 64 (snd (post sample_first False 64 sample_live))) = (202, '''')"
proof -
  have "post sample_first False 64 sample_live = ((202, ''''), snd (post sample_first False 64 sample_live))"
    by (simp add: live_defs Let_def sample_first_def sample_live_def)
  from post_retry_idempotent [OF this, of False] show ?thesis by simp
qed

end
