(* ===== verification/Relay_Handler.thy ===== *)
theory Relay_Handler
  imports Relay_Store Relay_Live
begin

text \<open>
  The relay's HTTP handler (\<^verbatim>\<open>relay/handler.go\<close>, and the registry, poll and sweep of
  \<^verbatim>\<open>relay/session.go\<close>).

  The state is the store, the heap of live-session objects and the registry that maps identifiers to
  objects: a request that waits for its body or for a message keeps a pointer to its object, which
  another request may meanwhile drop or replace, so the pointer is an address of the heap. A request
  runs in two parts. The first part runs up to the point where the code waits for the client (reading
  the body, or a poll); it answers or leaves a \<open>task\<close> that holds the local variables. The second part
  runs the rest, in whatever state the relay has reached by then. Each part is one step.

  JSON decoding is a parameter (\<open>decoders\<close>); nothing is assumed of it. A request path is given as its
  decoded segments and is canonical: \<^verbatim>\<open>net/http\<close> redirects other paths before a handler runs.
\<close>

section \<open>Requests and responses\<close>

record request =
  rq_method :: string
  rq_segs :: "string list"
  rq_protocol :: string
  rq_auth :: string
  rq_wait :: "string list option"

definition rq_path :: "request \<Rightarrow> string" where
  "rq_path r = concat (map (\<lambda>s. ''/'' @ s) (rq_segs r))"

datatype response_body =
    Empty
  | ErrorResponse string string
  | VersionError string string "nat list"
  | InfoBody "nat list" caps
  | SessionBody sessionInfo
  | JoinBody joinInfo
  | MessagesBody "envelope list"
  | Ciphertext bytes

type_synonym response = "nat \<times> response_body"

definition writeError :: "nat \<Rightarrow> string \<Rightarrow> string \<Rightarrow> response" where
  "writeError status code message = (status, ErrorResponse code message)"

definition not_found :: response where
  "not_found = writeError 404 ''not_found'' ''not found''"

definition methodNotAllowed :: response where
  "methodNotAllowed = writeError 405 ''method_not_allowed'' ''method not allowed''"

definition writeStoreError :: "store_error \<Rightarrow> response" where
  "writeStoreError e =
     (case e of
        ErrNotFound \<Rightarrow> not_found
      | ErrExists \<Rightarrow> writeError 409 ''already_exists'' ''already exists''
      | ErrOther _ \<Rightarrow> writeError 500 ''internal'' ''internal error'')"

definition writeCiphertext :: "bytes option \<Rightarrow> response" where
  "writeCiphertext body = (case body of None \<Rightarrow> not_found | Some b \<Rightarrow> (200, Ciphertext b))"

text \<open>What arrives as a body: the bytes, and whether reading failed after them.\<close>

record body_input =
  body_data :: bytes
  body_failed :: bool

text \<open>\<^verbatim>\<open>io.ReadAll(http.MaxBytesReader(w, r.Body, limit))\<close>: the bytes read and whether there was an error.\<close>

definition read_limited :: "int \<Rightarrow> body_input \<Rightarrow> bytes \<times> bool" where
  "read_limited limit b =
     (if int (length (body_data b)) > limit then (take (nat limit) (body_data b), True)
      else (body_data b, body_failed b))"

definition readBody :: "int \<Rightarrow> body_input \<Rightarrow> response + bytes" where
  "readBody capBytes b =
     (case read_limited (capBytes + 1) b of (body, err) \<Rightarrow>
        if int (length body) > capBytes then Inl (writeError 413 ''too_large'' ''body exceeds cap'')
        else if err then Inl (writeError 400 ''bad_request'' ''cannot read body'')
        else Inr body)"

record decoders =
  dec_create :: "bytes \<Rightarrow> createSessionRequest option"
  dec_join :: "bytes \<Rightarrow> joinRequest option"
  dec_envelope :: "bytes \<Rightarrow> envelope option"

section \<open>State\<close>

record 's relay =
  rl_store :: 's
  rl_heap :: "nat \<Rightarrow> liveSession"
  rl_sessions :: "sessionID \<rightharpoonup> nat"
  rl_next :: nat

definition handler_caps :: "caps \<Rightarrow> caps" where
  "handler_caps c = (if c = ZeroCaps then DefaultCaps else c)"

definition NewHandler :: "'s \<Rightarrow> 's relay" where
  "NewHandler store = \<lparr>rl_store = store, rl_heap = (\<lambda>_. new_live 0), rl_sessions = Map.empty, rl_next = 0\<rparr>"

definition upd_live :: "nat \<Rightarrow> liveSession \<Rightarrow> 's relay \<Rightarrow> 's relay" where
  "upd_live a l st = st\<lparr>rl_heap := (rl_heap st)(a := l)\<rparr>"

definition registry_get :: "sessionID \<Rightarrow> 's relay \<Rightarrow> nat option" where
  "registry_get i st = rl_sessions st i"

definition dropLocked :: "sessionID \<Rightarrow> 's relay \<Rightarrow> 's relay" where
  "dropLocked i st =
     (case rl_sessions st i of
        None \<Rightarrow> st
      | Some a \<Rightarrow> (upd_live a (drop_live (rl_heap st a)) st)\<lparr>rl_sessions := (rl_sessions st)(i := None)\<rparr>)"

text \<open>\<^verbatim>\<open>_ = store.DeleteSession(...)\<close> followed by dropping the live session.\<close>

definition delete_and_drop :: "'s store_ops \<Rightarrow> sessionID \<Rightarrow> 's relay \<Rightarrow> 's relay" where
  "delete_and_drop ops i st = dropLocked i (st\<lparr>rl_store := snd (op_DeleteSession ops (rl_store st) i)\<rparr>)"

text \<open>\<^verbatim>\<open>s.live.sessions[id] = &liveSession{...}\<close>\<close>

definition new_object :: "sessionID \<Rightarrow> time \<Rightarrow> 's relay \<Rightarrow> 's relay" where
  "new_object i expiresAt st =
     st\<lparr>rl_heap := (rl_heap st)(rl_next st := new_live expiresAt),
        rl_sessions := (rl_sessions st)(i \<mapsto> rl_next st), rl_next := Suc (rl_next st)\<rparr>"

text \<open>
  \<^verbatim>\<open>Handler.Sweep\<close>: the map is ranged over in some order, given here as the list of its keys.
\<close>

definition sweep_one :: "'s store_ops \<Rightarrow> time \<Rightarrow> sessionID \<Rightarrow> 's relay \<Rightarrow> 's relay" where
  "sweep_one ops now i st =
     (case rl_sessions st i of
        None \<Rightarrow> st
      | Some a \<Rightarrow> if expired now (live_expiresAt (rl_heap st a)) then delete_and_drop ops i st else st)"

definition Handler_Sweep :: "'s store_ops \<Rightarrow> time \<Rightarrow> sessionID list \<Rightarrow> 's relay \<Rightarrow> 's relay" where
  "Handler_Sweep ops now order st = fold (sweep_one ops now) order st"

section \<open>Waiting requests\<close>

datatype task =
    CreateTask sessionID bytes time
  | ChunkTask sessionID sessionMeta string
  | ManifestTask sessionID
  | JoinTask sessionMeta nat
  | PostTask sessionID nat bool
  | PollTask sessionID nat string duration bool

datatype outcome = Done response | Wait task | Abandoned

section \<open>First part of a request\<close>

definition sessionPath :: "sessionID \<Rightarrow> string" where
  "sessionPath i = ''/v0/sessions/'' @ SessionID_String i"

definition SessionMeta_info :: "sessionMeta \<Rightarrow> sessionID \<Rightarrow> sessionInfo" where
  "SessionMeta_info sess i =
     (let mode = (if Mode sess = '''' then ''blob'' else Mode sess) in
      \<lparr>si_mode = mode, si_joined = False,
       si_collectorKey = (if mode = ''session'' then EncodeKey (meta_CollectorKey sess) else ''''),
       si_collectorMAC = (if mode = ''session'' then EncodeKey (meta_CollectorMAC sess) else ''''),
       si_sessionID = SessionID_String i, si_expiresAt = ExpiresAt sess,
       si_chunkCount = meta_ChunkCount sess, si_chunksStored = ChunksStored sess,
       si_manifestStored = ManifestStored sess\<rparr>)"

text \<open>The chunk index of the path, once it is known to be within the session's count.\<close>

definition chunk_index :: "sessionMeta \<Rightarrow> string \<Rightarrow> u64 option" where
  "chunk_index sess index =
     (case parse_uint 64 index of
        None \<Rightarrow> None
      | Some n \<Rightarrow> if (of_nat n :: u64) \<ge> ucast (meta_ChunkCount sess) then None else Some (of_nat n))"

definition chunk_begin :: "'s store_ops \<Rightarrow> request \<Rightarrow> sessionID \<Rightarrow> sessionMeta \<Rightarrow> string \<Rightarrow> 's relay \<Rightarrow> outcome" where
  "chunk_begin ops r i sess index st =
     (if rq_method r = ''PUT'' then Wait (ChunkTask i sess index)
      else (case chunk_index sess index of
              None \<Rightarrow> Done not_found
            | Some n \<Rightarrow>
                (case op_GetChunk ops (rl_store st) i n of
                   Inl e \<Rightarrow> Done (writeStoreError e)
                 | Inr body \<Rightarrow> Done (writeCiphertext (Some body)))))"

definition manifest_begin :: "'s store_ops \<Rightarrow> request \<Rightarrow> sessionID \<Rightarrow> 's relay \<Rightarrow> outcome" where
  "manifest_begin ops r i st =
     (if rq_method r = ''GET'' then
        (case op_GetManifest ops (rl_store st) i of
           Inl e \<Rightarrow> Done (writeStoreError e)
         | Inr body \<Rightarrow> Done (writeCiphertext (Some body)))
      else Wait (ManifestTask i))"

definition wait_seconds :: "caps \<Rightarrow> request \<Rightarrow> int option" where
  "wait_seconds c r =
     (case rq_wait r of
        None \<Rightarrow> Some 0
      | Some values \<Rightarrow>
          if length values \<noteq> 1 then None
          else (case Atoi (hd values) of
                  None \<Rightarrow> None
                | Some w \<Rightarrow> if w < 0 \<or> w > min 30 (WaitMaxSeconds c) then None else Some w))"

definition last_segment :: "string \<Rightarrow> string" where
  "last_segment path = rev (takeWhile (\<lambda>c. c \<noteq> CHR ''/'') (rev path))"

definition sessionRoute :: "caps \<Rightarrow> request \<Rightarrow> sessionID \<Rightarrow> sessionMeta \<Rightarrow> nat \<Rightarrow> 's relay \<Rightarrow> outcome" where
  "sessionRoute c r i sess a st =
     (let kind = last_segment (rq_path r); live = rl_heap st a in
      if rq_method r = ''GET'' then
        (case wait_seconds c r of
           None \<Rightarrow> Done (writeError 400 ''bad_request'' ''invalid wait'')
         | Some w \<Rightarrow> Wait (PollTask i a kind (w * second) False))
      else if kind = ''join'' then
        if gone live then Done not_found
        else if joined live \<noteq> None then Done (writeError 409 ''already_exists'' ''already exists'')
        else Wait (JoinTask sess a)
      else
        if gone live then Done not_found
        else if joined live = None then Done (writeError 409 ''not_joined'' ''session not joined'')
        else Wait (PostTask i a (kind = ''results'')))"

text \<open>The part of \<^verbatim>\<open>handleSession\<close> behind the credential check.\<close>

definition authorised ::
  "'s store_ops \<Rightarrow> caps \<Rightarrow> request \<Rightarrow> string \<Rightarrow> sessionID \<Rightarrow> sessionMeta \<Rightarrow> 's relay \<Rightarrow> outcome \<times> 's relay" where
  "authorised ops c r index i sess st =
     (let live = (if Mode sess = ''session'' then registry_get i st else None);
          isBase = (rq_path r = sessionPath i);
          isBlob = has_prefix (rq_path r) (sessionPath i @ ''/blob/'')
      in if Mode sess = ''session'' \<and> live = None then (Done not_found, st)
         else if isBase then
           if rq_method r = ''DELETE'' then
             (case op_DeleteSession ops (rl_store st) i of
                (None, s') \<Rightarrow> (Done (204, Empty), dropLocked i (st\<lparr>rl_store := s'\<rparr>))
              | (Some e, s') \<Rightarrow> (Done (writeStoreError e), st\<lparr>rl_store := s'\<rparr>))
           else (Done (200, SessionBody ((SessionMeta_info sess i)
                   \<lparr>si_joined := (case live of None \<Rightarrow> False | Some a \<Rightarrow> joined (rl_heap st a) \<noteq> None)\<rparr>)), st)
         else if isBlob = (Mode sess = ''session'') then
           (Done (writeError 409 ''wrong_mode'' ''wrong session mode''), st)
         else if \<not> isBlob then
           (case live of
              None \<Rightarrow> (Done not_found, st)
            | Some a \<Rightarrow> (sessionRoute c r i sess a st, st))
         else if index \<noteq> '''' then (chunk_begin ops r i sess index st, st)
         else (manifest_begin ops r i st, st))"

text \<open>
  Reading the session, and removing it when it has expired: the outcome of \<^verbatim>\<open>store.Session\<close> as the
  rest of the handler sees it.
\<close>

definition lookup_session ::
  "'s store_ops \<Rightarrow> time \<Rightarrow> sessionID \<Rightarrow> sessionMeta \<Rightarrow> 's relay \<Rightarrow> sessionMeta option \<times> 's relay" where
  "lookup_session ops now i sess st =
     (if \<not> expired now (ExpiresAt sess) then (Some sess, st)
      else (case op_Session ops (rl_store st) i of
              Inl _ \<Rightarrow> (None, st)
            | Inr sess' \<Rightarrow>
                if expired now (ExpiresAt sess') then (None, delete_and_drop ops i st)
                else (Some sess', st)))"

definition handleSession ::
  "crypto \<Rightarrow> 's store_ops \<Rightarrow> caps \<Rightarrow> time \<Rightarrow> request \<Rightarrow> string \<Rightarrow> string \<Rightarrow> 's relay \<Rightarrow> outcome \<times> 's relay" where
  "handleSession C ops c now r sid index st =
     (if rq_protocol r \<noteq> ''1'' then
        (Done (426, VersionError ''unsupported_version'' ''protocol version not supported'' [1]), st)
      else (case (ParseSessionID sid, ParseAuthorizationHeader (rq_auth r)) of
        (Some i, Some credential) \<Rightarrow>
          (case op_Session ops (rl_store st) i of
             Inl (ErrOther m) \<Rightarrow> (Done (writeStoreError (ErrOther m)), st)
           | Inl ErrExists \<Rightarrow> (Done (writeStoreError ErrExists), st)
           | res \<Rightarrow>
              (let (found, st') = (case res of Inl _ \<Rightarrow> (None, st) | Inr sess \<Rightarrow> lookup_session ops now i sess st);
                   hash = sha256 C credential
               in if rq_path r = sessionPath i \<and> rq_method r = ''PUT'' then
                    (if found \<noteq> None then (Done (writeError 409 ''already_exists'' ''already exists''), st')
                     else (Wait (CreateTask i hash now), st'))
                  else (case found of
                          None \<Rightarrow> (Done not_found, st')
                        | Some sess \<Rightarrow>
                            if hash \<noteq> CredentialHash sess then (Done not_found, st')
                            else authorised ops c r index i sess st')))
      | _ \<Rightarrow> (Done not_found, st)))"

text \<open>The patterns registered with the mux, and the methods each of them takes.\<close>

datatype pattern = InfoPath | SessionPath string string "string list"

definition mux_pattern :: "string list \<Rightarrow> pattern option" where
  "mux_pattern segs =
     (case segs of
        [v, w] \<Rightarrow> if v = ''v0'' \<and> w = ''info'' then Some InfoPath else None
      | v # w # sid # rest \<Rightarrow>
          if v \<noteq> ''v0'' \<or> w \<noteq> ''sessions'' \<or> sid = '''' then None
          else (case rest of
                  [] \<Rightarrow> Some (SessionPath sid '''' [''PUT'', ''GET'', ''DELETE''])
                | [k] \<Rightarrow> if k \<in> {''join'', ''jobs'', ''results''}
                         then Some (SessionPath sid '''' [''POST'', ''GET'']) else None
                | [b, m] \<Rightarrow> if b = ''blob'' \<and> m = ''manifest''
                            then Some (SessionPath sid '''' [''PUT'', ''GET'']) else None
                | [b, k, index] \<Rightarrow> if b = ''blob'' \<and> k = ''chunks'' \<and> index \<noteq> ''''
                                   then Some (SessionPath sid index [''PUT'', ''GET'']) else None
                | _ \<Rightarrow> None)
      | _ \<Rightarrow> None)"

definition ServeHTTP ::
  "crypto \<Rightarrow> 's store_ops \<Rightarrow> caps \<Rightarrow> time \<Rightarrow> request \<Rightarrow> 's relay \<Rightarrow> outcome \<times> 's relay" where
  "ServeHTTP C ops c now r st =
     (case mux_pattern (rq_segs r) of
        None \<Rightarrow> (Done not_found, st)
      | Some InfoPath \<Rightarrow>
          if rq_method r = ''GET'' then (Done (200, InfoBody [1] c), st) else (Done methodNotAllowed, st)
      | Some (SessionPath sid index methods) \<Rightarrow>
          if rq_method r \<in> set methods then handleSession C ops c now r sid index st
          else (Done methodNotAllowed, st))"

section \<open>Second part of a request\<close>

definition create_valid :: "caps \<Rightarrow> createSessionRequest \<Rightarrow> string \<Rightarrow> (bytes \<times> bytes) option" where
  "create_valid c q mode =
     (if mode = ''blob'' then
        (if cr_chunkCount q > 0 \<and> int (unat (cr_chunkCount q)) \<le> cap_ChunkCount c
         then Some (replicate 32 0, replicate 32 0) else None)
      else if mode = ''session'' then
        (case (DecodeKey (cr_collectorKey q), DecodeKey (cr_collectorMAC q)) of
           (Some k, Some m) \<Rightarrow> if cr_chunkCount q = 0 then Some (k, m) else None
         | _ \<Rightarrow> None)
      else None)"

definition session_ttl :: "caps \<Rightarrow> string \<Rightarrow> int \<Rightarrow> int" where
  "session_ttl c mode ttl =
     (if ttl \<noteq> 0 then ttl
      else if mode = ''session'' then SessionTTLDefaultSeconds c else TTLDefaultSeconds c)"

text \<open>The validation of a decoded request, and the session it asks for.\<close>

definition create_meta :: "caps \<Rightarrow> bytes \<Rightarrow> time \<Rightarrow> createSessionRequest \<Rightarrow> response + sessionMeta" where
  "create_meta c hash now q =
     (let mode = (if cr_mode q = '''' then ''blob'' else cr_mode q) in
      if cr_ttlSeconds q < 0 then Inl (writeError 400 ''bad_request'' ''invalid session request'')
      else (case create_valid c q mode of
              None \<Rightarrow> Inl (writeError 400 ''bad_request'' ''invalid session request'')
            | Some (key, mac) \<Rightarrow>
                if cr_ttlSeconds q > TTLMaxSeconds c then Inl (writeError 400 ''ttl_too_long'' ''TTL exceeds cap'')
                else Inr \<lparr>Mode = mode, meta_CollectorKey = key, meta_CollectorMAC = mac, CredentialHash = hash,
                          ExpiresAt = now + wrap64 (session_ttl c mode (cr_ttlSeconds q) * second),
                          meta_ChunkCount = cr_chunkCount q, ChunksStored = 0, ManifestStored = False\<rparr>))"

definition install_live :: "sessionID \<Rightarrow> sessionMeta \<Rightarrow> 's relay \<Rightarrow> 's relay" where
  "install_live i sess st =
     (let st1 = dropLocked i st in
      if Mode sess = ''session'' then new_object i (ExpiresAt sess) st1 else st1)"

definition handler_create ::
  "'s store_ops \<Rightarrow> caps \<Rightarrow> decoders \<Rightarrow> sessionID \<Rightarrow> bytes \<Rightarrow> time \<Rightarrow> body_input \<Rightarrow> 's relay \<Rightarrow> response \<times> 's relay" where
  "handler_create ops c js i hash now b st =
     (case readBody (2 * 2 ^ 20) b of
        Inl resp \<Rightarrow> (resp, st)
      | Inr body \<Rightarrow>
          (case dec_create js body of
             None \<Rightarrow> (writeError 400 ''bad_request'' ''invalid session request'', st)
           | Some q \<Rightarrow>
               (case create_meta c hash now q of
                  Inl resp \<Rightarrow> (resp, st)
                | Inr sess \<Rightarrow>
                    (case op_CreateSession ops (rl_store st) i sess of
                       (Some e, s') \<Rightarrow> (writeStoreError e, st\<lparr>rl_store := s'\<rparr>)
                     | (None, s') \<Rightarrow>
                         ((201, SessionBody (SessionMeta_info sess i)),
                          install_live i sess (st\<lparr>rl_store := s'\<rparr>))))))"

definition chunk_put ::
  "'s store_ops \<Rightarrow> caps \<Rightarrow> sessionID \<Rightarrow> sessionMeta \<Rightarrow> string \<Rightarrow> body_input \<Rightarrow> 's relay \<Rightarrow> response \<times> 's relay" where
  "chunk_put ops c i sess index b st =
     (case readBody (ChunkBytes c) b of
        Inl resp \<Rightarrow> (resp, st)
      | Inr body \<Rightarrow>
          (case chunk_index sess index of
             None \<Rightarrow> (writeError 400 ''bad_request'' ''invalid chunk index'', st)
           | Some n \<Rightarrow>
               if length body < 17 \<or> (n < ucast (meta_ChunkCount sess - 1) \<and> length body \<noteq> ChunkSize + ChunkOverhead)
               then (writeError 400 ''bad_request'' ''invalid chunk size'', st)
               else (case op_PutChunk ops (rl_store st) i n body of
                       (Some e, s') \<Rightarrow> (writeStoreError e, st\<lparr>rl_store := s'\<rparr>)
                     | (None, s') \<Rightarrow> ((201, Empty), st\<lparr>rl_store := s'\<rparr>))))"

definition manifest_put ::
  "'s store_ops \<Rightarrow> caps \<Rightarrow> sessionID \<Rightarrow> body_input \<Rightarrow> 's relay \<Rightarrow> response \<times> 's relay" where
  "manifest_put ops c i b st =
     (case readBody (ManifestBytes c) b of
        Inl resp \<Rightarrow> (resp, st)
      | Inr body \<Rightarrow>
          (case op_Session ops (rl_store st) i of
             Inl e \<Rightarrow> (writeStoreError e, st)
           | Inr sess \<Rightarrow>
               if ManifestStored sess then (writeError 409 ''already_exists'' ''already exists'', st)
               else if ChunksStored sess \<noteq> meta_ChunkCount sess
               then (writeError 409 ''chunks_missing'' ''chunks missing'', st)
               else (case op_PutManifest ops (rl_store st) i body of
                       (Some e, s') \<Rightarrow> (writeStoreError e, st\<lparr>rl_store := s'\<rparr>)
                     | (None, s') \<Rightarrow> ((201, Empty), st\<lparr>rl_store := s'\<rparr>))))"

definition code_message :: "string \<Rightarrow> string" where
  "code_message code = map (\<lambda>ch. if ch = CHR ''_'' then CHR '' '' else ch) code"

definition handler_join ::
  "decoders \<Rightarrow> time \<Rightarrow> sessionMeta \<Rightarrow> nat \<Rightarrow> body_input \<Rightarrow> 's relay \<Rightarrow> response \<times> 's relay" where
  "handler_join js now sess a b st =
     (case readBody (2 * 2 ^ 20) b of
        Inl resp \<Rightarrow> (resp, st)
      | Inr body \<Rightarrow>
          (case dec_join js body of
             None \<Rightarrow> (writeError 400 ''bad_request'' ''invalid join request'', st)
           | Some q \<Rightarrow>
               if DecodeKey (jr_mcpKey q) = None \<or> DecodeKey (jr_mcpMAC q) = None
                  \<or> (jr_via q \<noteq> ''cli'' \<and> jr_via q \<noteq> ''chat'')
               then (writeError 400 ''bad_request'' ''invalid join request'', st)
               else
                 let info = \<lparr>ji_collectorKey = EncodeKey (meta_CollectorKey sess), ji_collectorMAC = EncodeKey (meta_CollectorMAC sess),
                             ji_mcpKey = jr_mcpKey q, ji_mcpMAC = jr_mcpMAC q, ji_via = jr_via q, ji_joinedAt = now\<rparr>
                 in (case set_joined info (rl_heap st a) of
                       ((status, code), l') \<Rightarrow>
                         if code \<noteq> '''' then (writeError status code (code_message code), st)
                         else ((status, JoinBody info), upd_live a l' st))))"

definition payload_cap :: "caps \<Rightarrow> bool \<Rightarrow> int" where
  "payload_cap c res = (if res then ResultBytes c else JobBytes c)"

definition session_post ::
  "caps \<Rightarrow> decoders \<Rightarrow> sessionID \<Rightarrow> nat \<Rightarrow> bool \<Rightarrow> body_input \<Rightarrow> 's relay \<Rightarrow> response \<times> 's relay" where
  "session_post c js i a res b st =
     (let capBytes = payload_cap c res in
      case readBody (max (2 * 2 ^ 20) (4 * ((capBytes + 2) div 3) + 1024)) b of
        Inl resp \<Rightarrow> (resp, st)
      | Inr body \<Rightarrow>
          (case dec_envelope js body of
             None \<Rightarrow> (writeError 400 ''bad_request'' ''invalid envelope'', st)
           | Some e \<Rightarrow>
               if Envelope_Validate e i (length (e_payload e)) \<noteq> None
               then (writeError 400 ''bad_request'' ''invalid envelope'', st)
               else if e_class e \<noteq> ClassRead then (writeError 403 ''class_not_allowed'' ''class not allowed'', st)
               else if int (length (e_payload e)) > capBytes
               then (writeError 413 ''too_large'' ''payload exceeds cap'', st)
               else (case post e res (QueueLength c) (rl_heap st a) of
                       ((status, code), l') \<Rightarrow>
                         if code \<noteq> '''' then (writeError status code (code_message code), st)
                         else ((status, Empty), upd_live a l' st))))"

text \<open>
  One iteration of the loop of \<^verbatim>\<open>poll\<close>: it answers, or goes on to wait with the same variables.
\<close>

definition poll_iter ::
  "'s store_ops \<Rightarrow> time \<Rightarrow> bool \<Rightarrow> sessionID \<Rightarrow> nat \<Rightarrow> string \<Rightarrow> duration \<Rightarrow> bool \<Rightarrow> 's relay \<Rightarrow> outcome \<times> 's relay" where
  "poll_iter ops now cancelled i a kind wait timedOut st =
     (let live = rl_heap st a in
      if cancelled then (Abandoned, st)
      else if gone live then (Done not_found, st)
      else if expired now (live_expiresAt live) then
        (Done not_found, if rl_sessions st i = Some a then delete_and_drop ops i st else st)
      else if kind = ''join'' \<and> joined live \<noteq> None then (Done (200, JoinBody (the (joined live))), st)
      else
        let (messages, live') = (if kind \<noteq> ''join'' then take_pending (kind = ''results'') live else ([], live)) in
        if messages \<noteq> [] then (Done (200, MessagesBody messages), upd_live a live' st)
        else if timedOut \<or> wait = 0 then (Done (204, Empty), st)
        else (Wait (PollTask i a kind wait timedOut), st))"

text \<open>The \<^verbatim>\<open>select\<close> that ends an iteration: which of its channels was ready.\<close>

datatype wake = ContextDone | TimeoutFired | ExpiryFired | Changed

definition poll_select :: "wake \<Rightarrow> task \<Rightarrow> outcome" where
  "poll_select w t =
     (case t of
        PollTask i a kind wait timedOut \<Rightarrow>
          (case w of
             ContextDone \<Rightarrow> Abandoned
           | TimeoutFired \<Rightarrow> Wait (PollTask i a kind wait True)
           | _ \<Rightarrow> Wait t)
      | _ \<Rightarrow> Wait t)"

text \<open>
  What arrives for a waiting request: the body, or for a poll the cancellation state at the head of
  the loop and the channel that ends the wait.
\<close>

datatype input = Body body_input | Tick bool wake

definition resume ::
  "'s store_ops \<Rightarrow> caps \<Rightarrow> decoders \<Rightarrow> time \<Rightarrow> task \<Rightarrow> input \<Rightarrow> 's relay \<Rightarrow> outcome \<times> 's relay" where
  "resume ops c js now t inp st =
     (case (t, inp) of
        (CreateTask i hash t0, Body b) \<Rightarrow> apfst Done (handler_create ops c js i hash t0 b st)
      | (ChunkTask i sess index, Body b) \<Rightarrow> apfst Done (chunk_put ops c i sess index b st)
      | (ManifestTask i, Body b) \<Rightarrow> apfst Done (manifest_put ops c i b st)
      | (JoinTask sess a, Body b) \<Rightarrow> apfst Done (handler_join js now sess a b st)
      | (PostTask i a res, Body b) \<Rightarrow> apfst Done (session_post c js i a res b st)
      | (PollTask i a kind wait timedOut, Tick cancelled w) \<Rightarrow>
          (case poll_iter ops now cancelled i a kind wait timedOut st of
             (Wait t', st') \<Rightarrow> (poll_select w t', st')
           | r \<Rightarrow> r)
      | _ \<Rightarrow> (Wait t, st))"

end
