(* ===== verification/Relay_System.thy ===== *)
theory Relay_System
  imports Relay_Handler
begin

text \<open>
  The relay as a concurrent system: requests arrive, wait for bodies and messages, and are resumed in
  any order, while the handler and the store sweep expired sessions. Every step changes the relay in
  one of a few ways (\<open>change\<close>); the invariant and the survival of sessions are proved once for these
  changes, in the context of the store interface, and hold for every store that implements it.
\<close>

section \<open>Steps\<close>

record 's system =
  sys_relay :: "'s relay"
  sys_tasks :: "nat \<rightharpoonup> task"

datatype event =
    Arrive nat time request
  | Input nat time input
  | SweepHandler time "sessionID list"
  | SweepStore time

definition settle :: "nat \<Rightarrow> outcome \<times> 's relay \<Rightarrow> 's system \<Rightarrow> 's system" where
  "settle n r sys =
     sys\<lparr>sys_relay := snd r,
         sys_tasks := (sys_tasks sys)(n := (case fst r of Wait t \<Rightarrow> Some t | _ \<Rightarrow> None))\<rparr>"

definition relay_step ::
  "crypto \<Rightarrow> 's store_ops \<Rightarrow> (time \<Rightarrow> 's \<Rightarrow> 's) \<Rightarrow> caps \<Rightarrow> decoders \<Rightarrow> event \<Rightarrow> 's system \<Rightarrow> 's system" where
  "relay_step C ops sweep c js ev sys =
     (case ev of
        Arrive n now r \<Rightarrow>
          if sys_tasks sys n \<noteq> None then sys else settle n (ServeHTTP C ops c now r (sys_relay sys)) sys
      | Input n now inp \<Rightarrow>
          (case sys_tasks sys n of
             None \<Rightarrow> sys
           | Some t \<Rightarrow> settle n (resume ops c js now t inp (sys_relay sys)) sys)
      | SweepHandler now order \<Rightarrow> sys\<lparr>sys_relay := Handler_Sweep ops now order (sys_relay sys)\<rparr>
      | SweepStore now \<Rightarrow>
          sys\<lparr>sys_relay := (sys_relay sys)\<lparr>rl_store := sweep now (rl_store (sys_relay sys))\<rparr>\<rparr>)"

fun relay_run ::
  "crypto \<Rightarrow> 's store_ops \<Rightarrow> (time \<Rightarrow> 's \<Rightarrow> 's) \<Rightarrow> caps \<Rightarrow> decoders \<Rightarrow> event list \<Rightarrow> 's system \<Rightarrow> 's system" where
  "relay_run C ops sweep c js [] sys = sys"
| "relay_run C ops sweep c js (ev # evs) sys = relay_run C ops sweep c js evs (relay_step C ops sweep c js ev sys)"

definition initial_system :: "'s \<Rightarrow> 's system" where
  "initial_system s = \<lparr>sys_relay = NewHandler s, sys_tasks = Map.empty\<rparr>"

section \<open>How a step changes the relay\<close>

definition meta_ok :: "caps \<Rightarrow> sessionMeta \<Rightarrow> bool" where
  "meta_ok c m \<longleftrightarrow>
     (Mode m = ''blob'' \<and> 0 < unat (meta_ChunkCount m) \<and> int (unat (meta_ChunkCount m)) \<le> cap_ChunkCount c) \<or>
     (Mode m = ''session'' \<and> meta_ChunkCount m = 0)"

inductive change :: "'s store_ops \<Rightarrow> caps \<Rightarrow> sessionID set \<Rightarrow> 's relay \<Rightarrow> 's relay \<Rightarrow> bool"
  for ops :: "'s store_ops" and c :: caps and R :: "sessionID set" where
  keep: "change ops c R st st"
| created: "length i = 16 \<Longrightarrow> meta_ok c m \<Longrightarrow> op_CreateSession ops (rl_store st) i m = (None, s') \<Longrightarrow>
    change ops c R st (install_live i m (st\<lparr>rl_store := s'\<rparr>))"
| refused: "length i = 16 \<Longrightarrow> op_CreateSession ops (rl_store st) i m = (Some e, s') \<Longrightarrow>
    change ops c R st (st\<lparr>rl_store := s'\<rparr>)"
| chunk: "length i = 16 \<Longrightarrow> 17 \<le> length body \<Longrightarrow> int (length body) \<le> ChunkBytes c \<Longrightarrow>
    op_PutChunk ops (rl_store st) i n body = (r, s') \<Longrightarrow> change ops c R st (st\<lparr>rl_store := s'\<rparr>)"
| manifest: "length i = 16 \<Longrightarrow> int (length body) \<le> ManifestBytes c \<Longrightarrow>
    op_Session ops (rl_store st) i = Inr sess \<Longrightarrow> ChunksStored sess = meta_ChunkCount sess \<Longrightarrow>
    op_PutManifest ops (rl_store st) i body = (r, s') \<Longrightarrow> change ops c R st (st\<lparr>rl_store := s'\<rparr>)"
| live: "event_ok ev \<Longrightarrow> a < rl_next st \<Longrightarrow>
    change ops c R st (upd_live a (live_step (QueueLength c) ev (rl_heap st a)) st)"
| removed: "length i = 16 \<Longrightarrow> i \<in> R \<Longrightarrow> change ops c R st (delete_and_drop ops i st)"
| undeleted: "length i = 16 \<Longrightarrow> op_DeleteSession ops (rl_store st) i = (Some e, s') \<Longrightarrow>
    change ops c R st (st\<lparr>rl_store := s'\<rparr>)"

text \<open>Waiting requests hold valid identifiers and addresses of allocated objects.\<close>

definition task_ok :: "nat \<Rightarrow> task \<Rightarrow> bool" where
  "task_ok n t =
     (case t of
        CreateTask i _ _ \<Rightarrow> length i = 16
      | ChunkTask i _ _ \<Rightarrow> length i = 16
      | ManifestTask i \<Rightarrow> length i = 16
      | JoinTask _ a \<Rightarrow> a < n
      | PostTask i a _ \<Rightarrow> length i = 16 \<and> a < n
      | PollTask i a _ _ _ \<Rightarrow> length i = 16 \<and> a < n)"

definition outcome_ok :: "nat \<Rightarrow> outcome \<Rightarrow> bool" where
  "outcome_ok n out \<longleftrightarrow> (\<forall>t. out = Wait t \<longrightarrow> task_ok n t)"

lemma outcome_ok_simps [simp]:
  "outcome_ok n (Done r)" "outcome_ok n Abandoned" "outcome_ok n (Wait t) = task_ok n t"
  by (auto simp: outcome_ok_def)

lemma readBody_Inr: "readBody cap b = Inr body \<Longrightarrow> body = body_data b \<and> int (length body) \<le> cap"
  by (auto simp: readBody_def read_limited_def split: if_splits prod.splits)

section \<open>Classification of the handlers\<close>

lemma Validate_event_ok: "Envelope_Validate e i n = None \<Longrightarrow> event_ok (Post e res)"
  using seq_bounds [of "e_seq e"]
  by (auto simp: Envelope_Validate_def Canonical_def event_ok_def split: if_splits option.splits)

lemma create_meta_ok: "create_meta c hash now q = Inr m \<Longrightarrow> meta_ok c m"
  by (auto simp: create_meta_def create_valid_def meta_ok_def Let_def word_less_nat_alt
      split: if_splits option.splits)

lemma create_change:
  assumes "length i = 16"
  shows "change ops c R st (snd (handler_create ops c js i hash now b st))"
  using assms
  by (auto simp: handler_create_def split: sum.splits option.splits prod.splits
      intro: keep created refused create_meta_ok)

lemma chunk_change:
  assumes "length i = 16"
  shows "change ops c R st (snd (chunk_put ops c i sess index b st))"
proof -
  have "change ops c R st (snd (case op_PutChunk ops (rl_store st) i n body of
      (Some e, s') \<Rightarrow> (writeStoreError e, st\<lparr>rl_store := s'\<rparr>) | (None, s') \<Rightarrow> (x, st\<lparr>rl_store := s'\<rparr>)))"
    if "17 \<le> length body" "readBody (ChunkBytes c) b = Inr body" for n body x
    using that assms by (auto split: prod.splits option.splits dest!: readBody_Inr intro: chunk)
  then show ?thesis
    by (auto simp: chunk_put_def not_less split: sum.splits option.splits intro: keep)
qed

lemma manifest_change:
  assumes "length i = 16"
  shows "change ops c R st (snd (manifest_put ops c i b st))"
proof -
  have "change ops c R st (snd (case op_PutManifest ops (rl_store st) i body of
      (Some e, s') \<Rightarrow> (writeStoreError e, st\<lparr>rl_store := s'\<rparr>) | (None, s') \<Rightarrow> (x, st\<lparr>rl_store := s'\<rparr>)))"
    if "op_Session ops (rl_store st) i = Inr sess" "ChunksStored sess = meta_ChunkCount sess"
      "readBody (ManifestBytes c) b = Inr body" for sess body x
    using that assms by (auto split: prod.splits option.splits dest!: readBody_Inr intro: manifest)
  then show ?thesis
    by (auto simp: manifest_put_def split: sum.splits intro: keep)
qed

text \<open>A join, a post and a delivery act on the object as an event of its life.\<close>

lemma live_changes:
  assumes "a < rl_next st"
  shows "event_ok (Post e res) \<Longrightarrow> post e res (QueueLength c) (rl_heap st a) = (r, l') \<Longrightarrow>
      change ops c R st (upd_live a l' st)"
    and "set_joined info (rl_heap st a) = (r, l') \<Longrightarrow> change ops c R st (upd_live a l' st)"
    and "take_pending res (rl_heap st a) = (ms, l') \<Longrightarrow> change ops c R st (upd_live a l' st)"
  using assms live [of "Post e res" a st ops c R] live [of "Join info" a st ops c R]
    live [of "Poll res" a st ops c R]
  by (auto simp: live_step_def event_ok_def)

lemma join_change:
  assumes "a < rl_next st"
  shows "change ops c R st (snd (handler_join js now sess a b st))"
  using live_changes(2) [OF assms]
  by (auto simp: handler_join_def Let_def split: sum.splits option.splits prod.splits intro: keep)

lemma post_change:
  assumes "a < rl_next st"
  shows "change ops c R st (snd (session_post c js i a res b st))"
  by (auto simp: session_post_def Let_def split: sum.splits option.splits prod.splits
      intro: keep live_changes(1) [OF assms] Validate_event_ok)

lemma poll_change:
  assumes "a < rl_next st" and "length i = 16"
    and "rl_sessions st i = Some a \<Longrightarrow> expired now (live_expiresAt (rl_heap st a)) \<Longrightarrow> i \<in> R"
  shows "change ops c R st (snd (poll_iter ops now cancelled i a kind wait timedOut st))"
  using assms live_changes(3) [OF assms(1)]
  by (auto simp: poll_iter_def Let_def split: prod.splits if_splits intro: keep removed)

lemma poll_iter_wait:
  "poll_iter ops now cancelled i a kind wait timedOut st = (Wait t, st') \<Longrightarrow>
   t = PollTask i a kind wait timedOut \<and> st' = st \<and> \<not> timedOut \<and> wait \<noteq> 0 \<and> \<not> cancelled"
  by (auto simp: poll_iter_def Let_def split: if_splits prod.splits)

lemma poll_select_ok: "task_ok n t \<Longrightarrow> outcome_ok n (poll_select w t)"
  by (auto simp: poll_select_def task_ok_def split: task.splits wake.splits)

section \<open>Invariant\<close>

lemma dropLocked_simps [simp]:
  "rl_store (dropLocked i st) = rl_store st"
  "rl_next (dropLocked i st) = rl_next st"
  "rl_sessions (dropLocked i st) = (rl_sessions st)(i := None)"
  "rl_heap (dropLocked i st) a = (if rl_sessions st i = Some a then drop_live (rl_heap st a) else rl_heap st a)"
  by (auto simp: dropLocked_def upd_live_def split: option.splits)

lemma delete_and_drop_simps [simp]:
  "rl_store (delete_and_drop ops i st) = snd (op_DeleteSession ops (rl_store st) i)"
  "rl_next (delete_and_drop ops i st) = rl_next st"
  "rl_sessions (delete_and_drop ops i st) = (rl_sessions st)(i := None)"
  "rl_heap (delete_and_drop ops i st) a =
     (if rl_sessions st i = Some a then drop_live (rl_heap st a) else rl_heap st a)"
  by (simp_all add: delete_and_drop_def)

lemma upd_live_simps [simp]:
  "rl_store (upd_live a l st) = rl_store st"
  "rl_next (upd_live a l st) = rl_next st"
  "rl_sessions (upd_live a l st) = rl_sessions st"
  "rl_heap (upd_live a l st) = (rl_heap st)(a := l)"
  by (simp_all add: upd_live_def)

lemma new_object_simps [simp]:
  "rl_store (new_object i t st) = rl_store st"
  "rl_next (new_object i t st) = Suc (rl_next st)"
  "rl_sessions (new_object i t st) = (rl_sessions st)(i \<mapsto> rl_next st)"
  "rl_heap (new_object i t st) = (rl_heap st)(rl_next st := new_live t)"
  by (simp_all add: new_object_def)

lemma live_step_keeps [simp]:
  "live_expiresAt (live_step q ev l) = live_expiresAt l" "gone (live_step q ev l) = gone l"
  by (cases ev; auto simp: live_step_def live_defs Let_def)+

text \<open>
  A stored session respects the caps; its chunks are within the announced count and no shorter than
  an authentication tag and a byte; with a manifest it has every chunk.
\<close>

definition session_ok :: "caps \<Rightarrow> asession \<Rightarrow> bool" where
  "session_ok c x \<longleftrightarrow>
     meta_ok c (as_meta x) \<and>
     (\<forall>k d. as_chunks x k = Some d \<longrightarrow>
        k < unat (meta_ChunkCount (as_meta x)) \<and> 17 \<le> length d \<and> int (length d) \<le> ChunkBytes c) \<and>
     (\<forall>d. as_manifest x = Some d \<longrightarrow>
        int (length d) \<le> ManifestBytes c \<and> dom (as_chunks x) = {..<unat (meta_ChunkCount (as_meta x))})"

text \<open>
  The registry points to allocated objects that are not gone, each under one identifier; where the
  store still has the session, both agree on when it expires.
\<close>

definition entry_ok :: "aspec \<Rightarrow> 's relay \<Rightarrow> sessionID \<Rightarrow> nat \<Rightarrow> bool" where
  "entry_ok S st i a \<longleftrightarrow>
     a < rl_next st \<and> \<not> gone (rl_heap st a) \<and> length i = 16 \<and>
     (\<forall>x. S i = Some x \<longrightarrow> ExpiresAt (as_meta x) = live_expiresAt (rl_heap st a))"

definition registry_ok :: "aspec \<Rightarrow> 's relay \<Rightarrow> bool" where
  "registry_ok S st \<longleftrightarrow>
     (\<forall>i a. rl_sessions st i = Some a \<longrightarrow> entry_ok S st i a) \<and>
     (\<forall>i j a. rl_sessions st i = Some a \<longrightarrow> rl_sessions st j = Some a \<longrightarrow> i = j)"

definition relay_inv :: "('s \<Rightarrow> aspec) \<Rightarrow> ('s \<Rightarrow> bool) \<Rightarrow> caps \<Rightarrow> 's relay \<Rightarrow> bool" where
  "relay_inv spec_of invar c st \<longleftrightarrow>
     invar (rl_store st) \<and>
     (\<forall>a. live_inv (QueueLength c) (rl_heap st a)) \<and>
     registry_ok (spec_of (rl_store st)) st \<and>
     (\<forall>i x. spec_of (rl_store st) i = Some x \<longrightarrow> session_ok c x)"

lemma registry_ok_drop: "registry_ok S st \<Longrightarrow> (\<And>j. j \<noteq> i \<Longrightarrow> S' j = S j) \<Longrightarrow> registry_ok S' (dropLocked i st)"
  unfolding registry_ok_def entry_ok_def by (simp add: drop_live_def notify_def) metis

lemma registry_ok_new:
  assumes "registry_ok S st" and "length i = 16" and "\<And>x. S i = Some x \<Longrightarrow> ExpiresAt (as_meta x) = t"
  shows "registry_ok S (new_object i t st)"
proof -
  have n: "\<not> gone (new_live t)" "live_expiresAt (new_live t) = t" by (simp_all add: new_live_def)
  have old: "a < rl_next st" if "rl_sessions st j = Some a" for j a
    using assms(1) that by (auto simp: registry_ok_def entry_ok_def)
  have "entry_ok S (new_object i t st) j a" if "rl_sessions (new_object i t st) j = Some a" for j a
  proof (cases "j = i")
    case True
    with that n assms(2,3) show ?thesis by (auto simp: entry_ok_def)
  next
    case False
    with that have s: "rl_sessions st j = Some a" by simp
    with assms(1) have "entry_ok S st j a" by (auto simp: registry_ok_def)
    with old [OF s] show ?thesis by (auto simp: entry_ok_def)
  qed
  moreover have "j = k" if "rl_sessions (new_object i t st) j = Some a" "rl_sessions (new_object i t st) k = Some a" for j k a
  proof -
    have "rl_sessions st j = Some a \<Longrightarrow> rl_sessions st k = Some a \<Longrightarrow> j = k"
      using assms(1) unfolding registry_ok_def by blast
    with that old [of j a] old [of k a] show ?thesis by (cases "j = i"; cases "k = i") auto
  qed
  ultimately show ?thesis unfolding registry_ok_def by blast
qed

lemma registry_ok_install:
  assumes "registry_ok S st" and "\<And>j. j \<noteq> i \<Longrightarrow> S' j = S j" and "length i = 16"
    and "\<And>x. S' i = Some x \<Longrightarrow> ExpiresAt (as_meta x) = ExpiresAt m"
  shows "registry_ok S' (install_live i m st)"
  using assms by (auto simp: install_live_def Let_def intro!: registry_ok_new registry_ok_drop)

lemma registry_ok_mono:
  "registry_ok S st \<Longrightarrow> rl_sessions st' = rl_sessions st \<Longrightarrow> rl_next st' = rl_next st \<Longrightarrow>
   (\<And>a. gone (rl_heap st' a) = gone (rl_heap st a) \<and> live_expiresAt (rl_heap st' a) = live_expiresAt (rl_heap st a)) \<Longrightarrow>
   (\<And>i x'. S' i = Some x' \<Longrightarrow> \<exists>x. S i = Some x \<and> as_meta x = as_meta x') \<Longrightarrow>
   registry_ok S' st'"
  unfolding registry_ok_def entry_ok_def by simp metis

text \<open>What putting a chunk and a manifest makes of the stored sessions.\<close>

lemma putChunk_ok:
  assumes "\<forall>i x. S i = Some x \<longrightarrow> session_ok c x" and "17 \<le> length body" and "int (length body) \<le> ChunkBytes c"
  shows "\<forall>j x. snd (spec_putChunk S i n body) j = Some x \<longrightarrow> session_ok c x"
proof (intro allI impI)
  fix j x assume "snd (spec_putChunk S i n body) j = Some x"
  moreover
  { fix y assume y: "S i = Some y" and n: "\<not> ucast (meta_ChunkCount (as_meta y)) \<le> n"
      and fresh: "as_chunks y (unat n) = None"
    have k: "unat n < unat (meta_ChunkCount (as_meta y))" using n by (simp add: word_le_nat_alt)
    have ok: "session_ok c y" using assms(1) y by blast
    have "as_manifest y = None"
    proof (rule ccontr)
      assume "as_manifest y \<noteq> None"
      with ok have "dom (as_chunks y) = {..<unat (meta_ChunkCount (as_meta y))}"
        unfolding session_ok_def by blast
      then have "unat n \<in> dom (as_chunks y)" using k by simp
      with fresh show False by auto
    qed
    with ok assms(2,3) k have "session_ok c (y\<lparr>as_chunks := (as_chunks y)(unat n \<mapsto> body)\<rparr>)"
      by (auto simp: session_ok_def) }
  ultimately show "session_ok c x"
    using assms(1) by (auto simp: spec_putChunk_def split: option.splits if_splits)
qed

lemma full_count:
  assumes "D \<subseteq> {..<unat (n :: u32)}" and "of_nat (card D) = n"
  shows "D = {..<unat n}"
proof -
  have "card D \<le> unat n" using card_mono [OF _ assms(1)] by simp
  then have "card D < 2 ^ 32" using unat_u32_less [of n] by simp
  then have "unat n = card D" using assms(2) unat_small32 [of "card D"] by metis
  with assms(1) show ?thesis by (intro card_subset_eq) simp_all
qed

lemma putManifest_ok:
  assumes "\<forall>i x. S i = Some x \<longrightarrow> session_ok c x" and "int (length body) \<le> ManifestBytes c"
    and "spec_session S i = Inr sess" and "ChunksStored sess = meta_ChunkCount sess"
  shows "\<forall>j x. snd (spec_putManifest S i body) j = Some x \<longrightarrow> session_ok c x"
proof -
  from assms(3) obtain y where y: "S i = Some y" and v: "sess = as_view y"
    by (auto simp: spec_session_def split: option.splits)
  have ok: "session_ok c y" using assms(1) y by blast
  have "dom (as_chunks y) = {..<unat (meta_ChunkCount (as_meta y))}"
  proof (rule full_count)
    show "dom (as_chunks y) \<subseteq> {..<unat (meta_ChunkCount (as_meta y))}"
      using ok by (auto simp: session_ok_def)
    show "of_nat (card (dom (as_chunks y))) = meta_ChunkCount (as_meta y)"
      using assms(4) v by (simp add: as_view_def)
  qed
  with ok assms(2) have "session_ok c (y\<lparr>as_manifest := Some body\<rparr>)" by (auto simp: session_ok_def)
  with assms(1) y show ?thesis by (auto simp: spec_putManifest_def split: option.splits if_splits)
qed

section \<open>The relay over any store\<close>

text \<open>One session grows from \<open>x\<close> to \<open>y\<close>: same metadata, no chunk and no manifest lost or replaced.\<close>

definition extends :: "asession \<Rightarrow> asession \<Rightarrow> bool" where
  "extends x y \<longleftrightarrow> as_meta y = as_meta x \<and> as_chunks x \<subseteq>\<^sub>m as_chunks y \<and>
     (as_manifest x \<noteq> None \<longrightarrow> as_manifest y = as_manifest x)"

lemma extends_refl [simp]: "extends x x"
  by (simp add: extends_def)

lemma extends_trans: "extends x y \<Longrightarrow> extends y z \<Longrightarrow> extends x z"
  unfolding extends_def by (metis map_le_trans)

definition survives :: "aspec \<Rightarrow> aspec \<Rightarrow> sessionID \<Rightarrow> bool" where
  "survives S S' i \<longleftrightarrow> (\<forall>x. S i = Some x \<longrightarrow> (\<exists>y. S' i = Some y \<and> extends x y))"

lemma survives_refl [simp]: "survives S S i"
  by (simp add: survives_def)

lemma spec_survives:
  "survives S (snd (spec_create S j m)) i" "survives S (snd (spec_putChunk S j n b)) i"
  "survives S (snd (spec_putManifest S j b)) i" "i \<noteq> j \<Longrightarrow> survives S (snd (spec_delete S j)) i"
  by (auto simp: survives_def extends_def spec_defs map_le_def dom_def split: option.splits)

lemma spec_meta:
  "snd (spec_create S j m) i = Some y \<Longrightarrow> (\<exists>x. S i = Some x \<and> as_meta x = as_meta y) \<or> (i = j \<and> S i = None)"
  "snd (spec_putChunk S j n b) i = Some y \<Longrightarrow> \<exists>x. S i = Some x \<and> as_meta x = as_meta y"
  "snd (spec_putManifest S j b) i = Some y \<Longrightarrow> \<exists>x. S i = Some x \<and> as_meta x = as_meta y"
  "snd (spec_delete S j) i = Some y \<Longrightarrow> S i = Some y"
  by (auto simp: spec_defs split: option.splits if_splits)

text \<open>
  When a session may go away: it has expired, or the request is a \<^verbatim>\<open>DELETE\<close> of it that carries its
  credential.
\<close>

definition deletes :: "crypto \<Rightarrow> request \<Rightarrow> sessionID \<Rightarrow> sessionMeta \<Rightarrow> bool" where
  "deletes C r i m \<longleftrightarrow>
     rq_method r = ''DELETE'' \<and> rq_path r = sessionPath i \<and>
     (\<exists>credential. ParseAuthorizationHeader (rq_auth r) = Some credential \<and> sha256 C credential = CredentialHash m)"

definition expired_at :: "time \<Rightarrow> aspec \<Rightarrow> sessionID set" where
  "expired_at now S = {i. \<forall>x. S i = Some x \<longrightarrow> expired now (ExpiresAt (as_meta x))}"

definition removable :: "crypto \<Rightarrow> time \<Rightarrow> request \<Rightarrow> aspec \<Rightarrow> sessionID set" where
  "removable C now r S = {i. \<forall>x. S i = Some x \<longrightarrow> expired now (ExpiresAt (as_meta x)) \<or> deletes C r i (as_meta x)}"

lemma as_view_simps [simp]:
  "ExpiresAt (as_view x) = ExpiresAt (as_meta x)" "CredentialHash (as_view x) = CredentialHash (as_meta x)"
  "Mode (as_view x) = Mode (as_meta x)" "meta_ChunkCount (as_view x) = meta_ChunkCount (as_meta x)"
  by (simp_all add: as_view_def)

lemma change_next: "change ops c R st st' \<Longrightarrow> rl_next st \<le> rl_next st'"
  by (induction rule: change.induct) (auto simp: install_live_def Let_def)

lemma task_ok_mono: "task_ok n t \<Longrightarrow> n \<le> m \<Longrightarrow> task_ok m t"
  by (auto simp: task_ok_def split: task.splits)

context relay_store
begin

text \<open>A store operation whose outcome and new state are \<open>r\<close> and \<open>s'\<close>, read off its specification.\<close>

lemma op_result:
  assumes "invar s" and "length i = 16"
  shows "op_CreateSession ops s i m = (r, s') \<Longrightarrow>
      invar s' \<and> spec_of s' = snd (spec_create (spec_of s) i m) \<and> r = fst (spec_create (spec_of s) i m)"
    and "op_PutChunk ops s i n b = (r, s') \<Longrightarrow>
      invar s' \<and> spec_of s' = snd (spec_putChunk (spec_of s) i n b) \<and> r = fst (spec_putChunk (spec_of s) i n b)"
    and "op_PutManifest ops s i b = (r, s') \<Longrightarrow>
      invar s' \<and> spec_of s' = snd (spec_putManifest (spec_of s) i b) \<and> r = fst (spec_putManifest (spec_of s) i b)"
    and "op_DeleteSession ops s i = (r, s') \<Longrightarrow>
      invar s' \<and> spec_of s' = snd (spec_delete (spec_of s) i) \<and> r = fst (spec_delete (spec_of s) i)"
  using create [OF assms, of m] putChunk [OF assms, of n b] putManifest [OF assms, of b] delete [OF assms]
  by (auto simp: refines_op_def)

lemma change_survives:
  assumes "change ops c R st st'" and "relay_inv spec_of invar c st" and "i \<notin> R"
  shows "survives (spec_of (rl_store st)) (spec_of (rl_store st')) i"
proof -
  have v: "invar (rl_store st)" using assms(2) by (simp add: relay_inv_def)
  show ?thesis
    using assms(1)
  proof cases
    case (created j m s')
    then show ?thesis using op_result(1) [OF v, of j m None s']
      by (simp add: install_live_def Let_def spec_survives)
  next
    case (refused j m e s')
    then show ?thesis using op_result(1) [OF v, of j m "Some e" s'] by (simp add: spec_survives)
  next
    case (chunk j b n r s')
    then show ?thesis using op_result(2) [OF v, of j n b r s'] by (simp add: spec_survives)
  next
    case (manifest j b sess r s')
    then show ?thesis using op_result(3) [OF v, of j b r s'] by (simp add: spec_survives)
  next
    case (removed j)
    with assms(3) have "i \<noteq> j" by blast
    then show ?thesis using removed write_abs(4) [OF v] by (simp add: spec_survives)
  next
    case (undeleted j e s')
    then show ?thesis using op_result(4) [OF v, of j "Some e" s'] by (simp add: spec_delete_def split: if_splits)
  qed simp_all
qed

lemma change_inv:
  assumes "change ops c R st st'" and inv: "relay_inv spec_of invar c st"
  shows "relay_inv spec_of invar c st'"
proof -
  have v: "invar (rl_store st)" and lv: "live_inv (QueueLength c) (rl_heap st a)"
    and reg: "registry_ok (spec_of (rl_store st)) st"
    and ok: "\<forall>i x. spec_of (rl_store st) i = Some x \<longrightarrow> session_ok c x" for a
    using inv by (simp_all add: relay_inv_def)
  have store_only: "relay_inv spec_of invar c (st\<lparr>rl_store := s'\<rparr>)"
    if "invar s'" "\<forall>i x. spec_of s' i = Some x \<longrightarrow> session_ok c x"
      "\<And>i y. spec_of s' i = Some y \<Longrightarrow> \<exists>x. spec_of (rl_store st) i = Some x \<and> as_meta x = as_meta y" for s'
    using that lv reg by (auto simp: relay_inv_def intro!: registry_ok_mono [OF reg])
  show ?thesis
    using assms(1)
  proof cases
    case (created i m s')
    then have s': "invar s'" "spec_of s' = snd (spec_create (spec_of (rl_store st)) i m)"
      "fst (spec_create (spec_of (rl_store st)) i m) = None"
      using op_result(1) [OF v, of i m None s'] by simp_all
    then have sp: "spec_of s' = (spec_of (rl_store st))(i \<mapsto> fresh_session m)"
      by (auto simp: spec_create_def split: if_splits)
    have f: "session_ok c (fresh_session m)"
      using created(3) by (simp add: session_ok_def fresh_session_def meta_ok_def)
    have "registry_ok (spec_of s') (install_live i m (st\<lparr>rl_store := s'\<rparr>))"
      using created(2) by (intro registry_ok_install [of "spec_of (rl_store st)"] registry_ok_mono [OF reg])
        (auto simp: sp fresh_session_def)
    then show ?thesis using created(1) s'(1) lv ok f
      by (auto simp: relay_inv_def install_live_def Let_def sp intro: inv_intros live_inv_new split: if_splits)
  next
    case (refused i m e s')
    then have "invar s'" "spec_of s' = spec_of (rl_store st)"
      using op_result(1) [OF v, of i m "Some e" s'] by (auto simp: spec_create_def split: if_splits)
    then show ?thesis unfolding refused(1) using ok by (intro store_only) auto
  next
    case (chunk i b n r s')
    then show ?thesis unfolding chunk(1)
      using op_result(2) [OF v, of i n b r s'] putChunk_ok [OF ok, of b i n]
      by (intro store_only) (auto dest: spec_meta)
  next
    case (manifest i b sess r s')
    then show ?thesis unfolding manifest(1)
      using op_result(3) [OF v, of i b r s'] putManifest_ok [OF ok, of b i sess] session [OF v]
      by (intro store_only) (auto dest: spec_meta)
  next
    case (live ev a)
    have "registry_ok (spec_of (rl_store st)) st'"
      unfolding live(1) by (rule registry_ok_mono [OF reg]) auto
    then show ?thesis using live v lv ok by (auto simp: relay_inv_def intro: live_step_inv)
  next
    case (removed i)
    have s': "invar (snd (op_DeleteSession ops (rl_store st) i))"
      "spec_of (snd (op_DeleteSession ops (rl_store st) i)) = snd (spec_delete (spec_of (rl_store st)) i)"
      using removed write_inv(4) [OF v] write_abs(4) [OF v] by blast+
    have "registry_ok (snd (spec_delete (spec_of (rl_store st)) i))
        (dropLocked i (st\<lparr>rl_store := snd (op_DeleteSession ops (rl_store st) i)\<rparr>))"
      by (intro registry_ok_drop [of "spec_of (rl_store st)"] registry_ok_mono [OF reg])
        (auto simp: spec_delete_def)
    then show ?thesis using s' lv ok removed
      by (auto simp: relay_inv_def delete_and_drop_def intro: inv_intros dest: spec_meta(4))
  next
    case (undeleted i e s')
    then have "invar s'" "spec_of s' = spec_of (rl_store st)"
      using op_result(4) [OF v, of i "Some e" s'] by (auto simp: spec_delete_def split: if_splits)
    then show ?thesis unfolding undeleted(1) using ok by (intro store_only) auto
  qed (use inv in simp)
qed

lemma session_result:
  assumes "invar s" and "length i = 16"
  shows "op_Session ops s i = (case spec_of s i of None \<Rightarrow> Inl ErrNotFound | Some x \<Rightarrow> Inr (as_view x))"
  using session [OF assms] by (simp add: spec_session_def)

lemma authorised_change:
  assumes "length i = 16" and "rq_method r = ''DELETE'' \<Longrightarrow> rq_path r = sessionPath i \<Longrightarrow> i \<in> R"
  shows "change ops c R st (snd (authorised ops c r index i sess st))"
proof -
  have "dropLocked i (st\<lparr>rl_store := s'\<rparr>) = delete_and_drop ops i st"
    if "op_DeleteSession ops (rl_store st) i = (e, s')" for e s'
    using that by (simp add: delete_and_drop_def)
  with assms show ?thesis
    by (auto simp: authorised_def Let_def split: option.splits prod.splits intro: keep undeleted)
      (metis removed)+
qed

lemma begin_outcomes:
  assumes "length i = 16"
  shows "outcome_ok n (chunk_begin ops r i sess index st)" "outcome_ok n (manifest_begin ops r i st)"
    and "a < n \<Longrightarrow> outcome_ok n (sessionRoute c r i sess a st)"
  using assms
  subgoal by (simp add: chunk_begin_def task_ok_def split: option.split sum.split)
  subgoal using assms by (simp add: manifest_begin_def task_ok_def split: sum.split)
  subgoal using assms by (simp add: sessionRoute_def Let_def task_ok_def split: option.split)
  done

lemma authorised_outcome:
  assumes "length i = 16" and "registry_ok S st"
  shows "outcome_ok (rl_next st) (fst (authorised ops c r index i sess st))"
proof -
  have "a < rl_next st" if "registry_get i st = Some a" for a
    using that assms(2) by (auto simp: registry_get_def registry_ok_def entry_ok_def)
  with assms(1) show ?thesis
    unfolding authorised_def Let_def
    by (simp add: begin_outcomes split: option.split prod.split)
qed

lemma authorised_next: "rl_next (snd (authorised ops c r index i sess st)) = rl_next st"
  by (auto simp: authorised_def Let_def split: option.splits prod.splits)

text \<open>The session part of a request in one equation, for a store that keeps its contract.\<close>

lemma handleSession_eq:
  assumes "invar (rl_store st)" and "rq_protocol r = ''1''" and "ParseSessionID sid = Some i"
    and "ParseAuthorizationHeader (rq_auth r) = Some credential"
  shows "handleSession C ops c now r sid index st =
    (let base_put = (rq_path r = sessionPath i \<and> rq_method r = ''PUT'') in
     case spec_of (rl_store st) i of
       None \<Rightarrow> ((if base_put then Wait (CreateTask i (sha256 C credential) now) else Done not_found), st)
     | Some x \<Rightarrow>
         if expired now (ExpiresAt (as_meta x)) then
           ((if base_put then Wait (CreateTask i (sha256 C credential) now) else Done not_found),
            delete_and_drop ops i st)
         else if base_put then (Done (writeError 409 ''already_exists'' ''already exists''), st)
         else if sha256 C credential \<noteq> CredentialHash (as_meta x) then (Done not_found, st)
         else authorised ops c r index i (as_view x) st)"
proof -
  have "length i = 16" using assms(3) by (rule ParseSessionID_Some)
  note s = session_result [OF assms(1) this]
  show ?thesis
    by (simp add: handleSession_def assms(2-4) s lookup_session_def Let_def split: option.split) auto
qed

lemma handleSession_reject:
  assumes "rq_protocol r \<noteq> ''1'' \<or> ParseSessionID sid = None \<or> ParseAuthorizationHeader (rq_auth r) = None"
  shows "\<exists>resp. handleSession C ops c now r sid index st = (Done resp, st)"
  using assms by (auto simp: handleSession_def split: option.splits)

lemma handleSession_change:
  assumes "relay_inv spec_of invar c st"
  shows "change ops c (removable C now r (spec_of (rl_store st))) st (snd (handleSession C ops c now r sid index st))"
    and "outcome_ok (rl_next st) (fst (handleSession C ops c now r sid index st))"
    and "rl_next (snd (handleSession C ops c now r sid index st)) = rl_next st"
proof -
  let ?R = "removable C now r (spec_of (rl_store st))"
  have v: "invar (rl_store st)" and reg: "registry_ok (spec_of (rl_store st)) st"
    using assms by (simp_all add: relay_inv_def)
  have "change ops c ?R st (snd (handleSession C ops c now r sid index st)) \<and>
      outcome_ok (rl_next st) (fst (handleSession C ops c now r sid index st)) \<and>
      rl_next (snd (handleSession C ops c now r sid index st)) = rl_next st"
  proof (cases "rq_protocol r \<noteq> ''1'' \<or> ParseSessionID sid = None \<or> ParseAuthorizationHeader (rq_auth r) = None")
    case True
    then show ?thesis using handleSession_reject [OF True, of C c now index st] by (auto intro: keep)
  next
    case False
    then obtain i credential where p: "rq_protocol r = ''1''" "ParseSessionID sid = Some i"
      "ParseAuthorizationHeader (rq_auth r) = Some credential" by auto
    then have len: "length i = 16" by (simp add: ParseSessionID_Some)
    have rem: "i \<in> ?R" if "spec_of (rl_store st) i = Some x" "expired now (ExpiresAt (as_meta x))" for x
      using that by (auto simp: removable_def)
    have aut: "change ops c ?R st (snd (authorised ops c r index i (as_view x) st))"
      if "spec_of (rl_store st) i = Some x" "sha256 C credential = CredentialHash (as_meta x)" for x
      using that p(3) by (intro authorised_change [OF len]) (auto simp: removable_def deletes_def)
    show ?thesis
      unfolding handleSession_eq [OF v p] Let_def
      using rem aut authorised_outcome [OF len reg]
      by (auto simp: authorised_next task_ok_def len split: option.split intro: keep removed)
  qed
  then show "change ops c ?R st (snd (handleSession C ops c now r sid index st))"
    and "outcome_ok (rl_next st) (fst (handleSession C ops c now r sid index st))"
    and "rl_next (snd (handleSession C ops c now r sid index st)) = rl_next st" by blast+
qed

lemma serve_change:
  assumes "relay_inv spec_of invar c st"
  shows "change ops c (removable C now r (spec_of (rl_store st))) st (snd (ServeHTTP C ops c now r st))"
    and "outcome_ok (rl_next st) (fst (ServeHTTP C ops c now r st))"
    and "rl_next (snd (ServeHTTP C ops c now r st)) = rl_next st"
  using handleSession_change [OF assms, of C now r]
  by (auto simp: ServeHTTP_def split: option.split pattern.split intro: keep)

lemma resume_change:
  assumes "relay_inv spec_of invar c st" and "task_ok (rl_next st) t"
  shows "change ops c (expired_at now (spec_of (rl_store st))) st (snd (resume ops c js now t inp st))"
    and "outcome_ok (rl_next st) (fst (resume ops c js now t inp st))"
proof -
  let ?R = "expired_at now (spec_of (rl_store st))"
  have e: "i \<in> ?R" if "rl_sessions st i = Some a" "expired now (live_expiresAt (rl_heap st a))" for i a
    using assms(1) that by (auto simp: relay_inv_def registry_ok_def entry_ok_def expired_at_def)
  have poll: "change ops c ?R st st'"
    if "a < rl_next st" "length i = 16" "poll_iter ops now cancelled i a kind wait timedOut st = (out, st')"
    for cancelled i a kind wait timedOut out st'
    using poll_change [of a st i now ?R ops c cancelled kind wait timedOut] that e by simp
  show "change ops c ?R st (snd (resume ops c js now t inp st))"
    using assms(2)
    by (cases t; cases inp)
      (auto simp: resume_def task_ok_def create_change chunk_change manifest_change join_change post_change
        split: prod.splits outcome.splits intro: keep dest: poll)
  show "outcome_ok (rl_next st) (fst (resume ops c js now t inp st))"
    using assms(2) poll_select_ok
    by (cases t; cases inp)
      (auto simp: resume_def split: prod.splits outcome.splits dest!: poll_iter_wait)
qed

lemma sweep_one_inv:
  assumes "relay_inv spec_of invar c st"
  shows "relay_inv spec_of invar c (sweep_one ops now i st)"
    and "j \<notin> expired_at now (spec_of (rl_store st)) \<Longrightarrow>
      spec_of (rl_store (sweep_one ops now i st)) j = spec_of (rl_store st) j"
    and "rl_next (sweep_one ops now i st) = rl_next st"
proof -
  have v: "invar (rl_store st)" and reg: "registry_ok (spec_of (rl_store st)) st"
    using assms by (simp_all add: relay_inv_def)
  have "change ops c (expired_at now (spec_of (rl_store st))) st (sweep_one ops now i st)"
    using reg by (auto simp: sweep_one_def registry_ok_def entry_ok_def expired_at_def split: option.split
        intro!: keep removed)
  then show "relay_inv spec_of invar c (sweep_one ops now i st)" by (rule change_inv [OF _ assms])
  show "rl_next (sweep_one ops now i st) = rl_next st"
    by (simp add: sweep_one_def split: option.split)
  assume j: "j \<notin> expired_at now (spec_of (rl_store st))"
  show "spec_of (rl_store (sweep_one ops now i st)) j = spec_of (rl_store st) j"
  proof (cases "rl_sessions st i")
    case (Some a)
    with reg have e: "entry_ok (spec_of (rl_store st)) st i a" by (auto simp: registry_ok_def)
    show ?thesis
    proof (cases "expired now (live_expiresAt (rl_heap st a))")
      case True
      with e j have "j \<noteq> i" by (auto simp: entry_ok_def expired_at_def)
      moreover have "length i = 16" using e by (simp add: entry_ok_def)
      ultimately show ?thesis using Some write_abs(4) [OF v, of i]
        by (auto simp: sweep_one_def spec_delete_def)
    qed (simp add: sweep_one_def Some)
  qed (simp add: sweep_one_def)
qed

lemma Handler_Sweep_inv:
  assumes "relay_inv spec_of invar c st"
  shows "relay_inv spec_of invar c (Handler_Sweep ops now order st) \<and>
    rl_next (Handler_Sweep ops now order st) = rl_next st \<and>
    (\<forall>j. j \<notin> expired_at now (spec_of (rl_store st)) \<longrightarrow>
      spec_of (rl_store (Handler_Sweep ops now order st)) j = spec_of (rl_store st) j)"
  using assms unfolding Handler_Sweep_def
proof (induction order arbitrary: st)
  case (Cons i order)
  note one = sweep_one_inv [OF Cons.prems, where now = now and i = i]
  have "j \<notin> expired_at now (spec_of (rl_store (sweep_one ops now i st)))"
    if "j \<notin> expired_at now (spec_of (rl_store st))" for j
    using one(2) [OF that] that by (simp add: expired_at_def)
  with Cons.IH [OF one(1)] one(2,3) show ?case by simp
qed simp

end

section \<open>Runs\<close>

definition sys_inv :: "('s \<Rightarrow> aspec) \<Rightarrow> ('s \<Rightarrow> bool) \<Rightarrow> caps \<Rightarrow> 's system \<Rightarrow> bool" where
  "sys_inv spec_of invar c sys \<longleftrightarrow>
     relay_inv spec_of invar c (sys_relay sys) \<and>
     (\<forall>n t. sys_tasks sys n = Some t \<longrightarrow> task_ok (rl_next (sys_relay sys)) t)"

text \<open>The events that may remove a session with metadata \<open>m\<close>.\<close>

definition may_remove :: "crypto \<Rightarrow> event \<Rightarrow> sessionID \<Rightarrow> sessionMeta \<Rightarrow> bool" where
  "may_remove C ev i m =
     (case ev of
        Arrive _ now r \<Rightarrow> expired now (ExpiresAt m) \<or> deletes C r i m
      | Input _ now _ \<Rightarrow> expired now (ExpiresAt m)
      | SweepHandler now _ \<Rightarrow> expired now (ExpiresAt m)
      | SweepStore now \<Rightarrow> expired now (ExpiresAt m))"

lemma settle_inv:
  assumes "sys_inv spec_of invar c sys" and "relay_inv spec_of invar c (snd r)"
    and "outcome_ok (rl_next (snd r)) (fst r)" and "rl_next (sys_relay sys) \<le> rl_next (snd r)"
  shows "sys_inv spec_of invar c (settle n r sys)"
  using assms by (auto simp: sys_inv_def settle_def intro: task_ok_mono split: outcome.splits if_splits)

lemma settle_relay [simp]: "sys_relay (settle n r sys) = snd r"
  by (simp add: settle_def)

context swept_store
begin

lemma step_inv:
  assumes "sys_inv spec_of invar c sys"
  shows "sys_inv spec_of invar c (relay_step C ops sweep c js ev sys)"
proof -
  have r: "relay_inv spec_of invar c (sys_relay sys)" using assms by (simp add: sys_inv_def)
  show ?thesis
  proof (cases ev)
    case (Arrive n now q)
    note s = serve_change [OF r, where C = C and now = now and r = q]
    show ?thesis
      using assms s change_inv [OF s(1) r] by (auto simp: Arrive relay_step_def intro!: settle_inv)
  next
    case (Input n now inp)
    show ?thesis
    proof (cases "sys_tasks sys n")
      case (Some t)
      with assms have t: "task_ok (rl_next (sys_relay sys)) t" by (simp add: sys_inv_def)
      note s = resume_change [OF r t, where now = now and js = js and inp = inp]
      have "outcome_ok (rl_next (snd (resume ops c js now t inp (sys_relay sys)))) (fst (resume ops c js now t inp (sys_relay sys)))"
        using s(2) change_next [OF s(1)] by (auto simp: outcome_ok_def intro: task_ok_mono)
      then show ?thesis
        using assms Some change_inv [OF s(1) r] change_next [OF s(1)]
        by (auto simp: Input relay_step_def intro!: settle_inv)
    qed (use assms in \<open>simp add: Input relay_step_def\<close>)
  next
    case (SweepHandler now order)
    then show ?thesis using assms Handler_Sweep_inv [OF r, where now = now and order = order]
      by (simp add: relay_step_def sys_inv_def)
  next
    case (SweepStore now)
    let ?st = "sys_relay sys"
    let ?s = "sweep now (rl_store ?st)"
    have v: "invar (rl_store ?st)" and reg: "registry_ok (spec_of (rl_store ?st)) ?st"
      and ok: "\<forall>i x. spec_of (rl_store ?st) i = Some x \<longrightarrow> session_ok c x"
      using r by (simp_all add: relay_inv_def)
    have sub: "spec_of (rl_store ?st) i = Some y" if "spec_of ?s i = Some y" for i y
      using that by (simp add: sweep_spec [OF v] split: option.splits if_splits)
    have "registry_ok (spec_of ?s) (?st\<lparr>rl_store := ?s\<rparr>)"
      by (rule registry_ok_mono [OF reg]) (auto dest: sub)
    moreover have "\<forall>i x. spec_of ?s i = Some x \<longrightarrow> session_ok c x" using ok sub by blast
    ultimately have "relay_inv spec_of invar c (?st\<lparr>rl_store := ?s\<rparr>)"
      using r sweep_invar [OF v] by (simp add: relay_inv_def)
    then show ?thesis using assms by (simp add: SweepStore relay_step_def sys_inv_def)
  qed
qed

lemma step_survives:
  assumes "sys_inv spec_of invar c sys" and "spec_of (rl_store (sys_relay sys)) i = Some x"
    and "\<not> may_remove C ev i (as_meta x)"
  shows "\<exists>y. spec_of (rl_store (sys_relay (relay_step C ops sweep c js ev sys))) i = Some y \<and> extends x y"
proof -
  have r: "relay_inv spec_of invar c (sys_relay sys)" using assms(1) by (simp add: sys_inv_def)
  have "survives (spec_of (rl_store (sys_relay sys)))
      (spec_of (rl_store (sys_relay (relay_step C ops sweep c js ev sys)))) i"
  proof (cases ev)
    case (Arrive n now q)
    then have "i \<notin> removable C now q (spec_of (rl_store (sys_relay sys)))"
      using assms(2,3) by (simp add: may_remove_def removable_def)
    then show ?thesis
      using change_survives [OF serve_change(1) [OF r] r] by (simp add: Arrive relay_step_def)
  next
    case (Input n now inp)
    then have "i \<notin> expired_at now (spec_of (rl_store (sys_relay sys)))"
      using assms(2,3) by (simp add: may_remove_def expired_at_def)
    then show ?thesis
      using assms(1) change_survives [OF resume_change(1) [OF r] r]
      by (auto simp: Input relay_step_def sys_inv_def split: option.split)
  next
    case (SweepHandler now order)
    then have "i \<notin> expired_at now (spec_of (rl_store (sys_relay sys)))"
      using assms(2,3) by (simp add: may_remove_def expired_at_def)
    then show ?thesis
      using Handler_Sweep_inv [OF r, where now = now and order = order] by (simp add: SweepHandler relay_step_def survives_def)
  next
    case (SweepStore now)
    then show ?thesis using assms(2,3) r
      by (simp add: relay_step_def survives_def relay_inv_def sweep_spec may_remove_def)
  qed
  with assms(2) show ?thesis by (simp add: survives_def)
qed

lemma run_inv: "sys_inv spec_of invar c sys \<Longrightarrow> sys_inv spec_of invar c (relay_run C ops sweep c js evs sys)"
  by (induction evs arbitrary: sys) (simp_all add: step_inv)

lemma run_survives:
  assumes "sys_inv spec_of invar c sys" and "spec_of (rl_store (sys_relay sys)) i = Some x"
    and "\<forall>ev \<in> set evs. \<not> may_remove C ev i (as_meta x)"
  shows "\<exists>y. spec_of (rl_store (sys_relay (relay_run C ops sweep c js evs sys))) i = Some y \<and> extends x y"
  using assms
proof (induction evs arbitrary: sys x)
  case (Cons ev evs)
  then obtain y where y: "spec_of (rl_store (sys_relay (relay_step C ops sweep c js ev sys))) i = Some y" "extends x y"
    using step_survives [OF Cons.prems(1,2), where C = C and ev = ev and js = js] by auto
  from y(2) have "as_meta y = as_meta x" by (simp add: extends_def)
  then obtain z where
    "spec_of (rl_store (sys_relay (relay_run C ops sweep c js evs (relay_step C ops sweep c js ev sys)))) i = Some z"
    "extends y z"
    using Cons.IH [OF step_inv [OF Cons.prems(1)] y(1)] Cons.prems(3) by auto
  with y(2) show ?case by (auto intro: extends_trans)
qed simp

lemma initial_inv: "invar s \<Longrightarrow> spec_of s = Map.empty \<Longrightarrow> sys_inv spec_of invar c (initial_system s)"
  by (simp add: sys_inv_def initial_system_def NewHandler_def relay_inv_def registry_ok_def live_inv_new)

end

end
