(* ===== verification/Relay_Properties.thy ===== *)
theory Relay_Properties
  imports Relay_System
begin

text \<open>
  What the relay promises its clients, over all runs: the invariant, the survival of sessions, the
  silence towards strangers, that what was uploaded is what is downloaded, that a join is final and
  that polls end. The facts are proved for any store that meets the interface and stated for the
  in-memory store.
\<close>

section \<open>Requests for a blob\<close>

definition get_request :: "sessionID \<Rightarrow> string list \<Rightarrow> bytes \<Rightarrow> request" where
  "get_request i rest credential =
     \<lparr>rq_method = ''GET'', rq_segs = [''v0'', ''sessions'', SessionID_String i] @ rest, rq_protocol = ''1'',
      rq_auth = AuthorizationHeader credential, rq_wait = None\<rparr>"

definition get_chunk_request :: "sessionID \<Rightarrow> nat \<Rightarrow> bytes \<Rightarrow> request" where
  "get_chunk_request i k credential = get_request i [''blob'', ''chunks'', show_nat k] credential"

definition get_manifest_request :: "sessionID \<Rightarrow> bytes \<Rightarrow> request" where
  "get_manifest_request i credential = get_request i [''blob'', ''manifest''] credential"

definition put_request :: "sessionID \<Rightarrow> string list \<Rightarrow> bytes \<Rightarrow> request" where
  "put_request i rest credential = (get_request i rest credential)\<lparr>rq_method := ''PUT''\<rparr>"

lemma SessionID_String_ne [simp]: "length i = 16 \<Longrightarrow> SessionID_String i \<noteq> ''''"
  using SessionID_String_lower [of i] by (auto simp: lowerHex_def)

lemma get_request_path:
  "rq_path (get_request i rest credential) = sessionPath i @ concat (map (\<lambda>s. ''/'' @ s) rest)"
  by (simp add: get_request_def rq_path_def sessionPath_def)

lemma put_request_path: "rq_path (put_request i rest credential) = sessionPath i @ concat (map (\<lambda>s. ''/'' @ s) rest)"
  using get_request_path [of i rest credential] by (simp add: put_request_def rq_path_def)

lemma session_mode: "session_ok c x \<Longrightarrow> as_chunks x k \<noteq> None \<or> Mode (as_meta x) = ''blob'' \<Longrightarrow> Mode (as_meta x) \<noteq> ''session''"
  by (fastforce simp: session_ok_def meta_ok_def)

lemma readBody_status: "readBody cap b = Inl resp \<Longrightarrow> fst resp \<noteq> 201"
  by (auto simp: readBody_def writeError_def split: prod.splits if_splits)

lemma writeStoreError_status: "fst (writeStoreError e) \<noteq> 201"
  by (simp add: writeStoreError_def writeError_def not_found_def split: store_error.split)

context relay_store
begin

lemma get_request_serve:
  assumes "invar (rl_store st)" and "length i = 16" and "spec_of (rl_store st) i = Some x"
    and "\<not> expired now (ExpiresAt (as_meta x))" and "length credential = 32"
    and "sha256 C credential = CredentialHash (as_meta x)"
    and "mux_pattern (rq_segs (get_request i rest credential)) = Some (SessionPath (SessionID_String i) index ms)"
    and "''GET'' \<in> set ms" and "rest \<noteq> []"
  shows "ServeHTTP C ops c now (get_request i rest credential) st
    = authorised ops c (get_request i rest credential) index i (as_view x) st"
proof -
  have "rq_method (get_request i rest credential) = ''GET''" "rq_protocol (get_request i rest credential) = ''1''"
    "ParseAuthorizationHeader (rq_auth (get_request i rest credential)) = Some credential"
    using assms(5) by (simp_all add: get_request_def ParseAuthorizationHeader_def AuthorizationHeader_def codec_simps)
  with assms show ?thesis
    by (simp add: ServeHTTP_def handleSession_eq [OF assms(1)] ParseSessionID_String)
qed

lemma put_request_handle:
  assumes "invar (rl_store st)" and "length i = 16" and "length credential = 32"
    and "mux_pattern (rq_segs (put_request i rest credential)) = Some (SessionPath (SessionID_String i) index ms)" and "''PUT'' \<in> set ms"
  shows "spec_of (rl_store st) i = None \<Longrightarrow> rest = [] \<Longrightarrow>
      ServeHTTP C ops c now (put_request i rest credential) st = (Wait (CreateTask i (sha256 C credential) now), st)"
    and "spec_of (rl_store st) i = Some x \<Longrightarrow> \<not> expired now (ExpiresAt (as_meta x)) \<Longrightarrow>
      sha256 C credential = CredentialHash (as_meta x) \<Longrightarrow> rest \<noteq> [] \<Longrightarrow>
      ServeHTTP C ops c now (put_request i rest credential) st = authorised ops c (put_request i rest credential) index i (as_view x) st"
proof -
  let ?r = "put_request i rest credential"
  have r: "rq_method ?r = ''PUT''" "rq_protocol ?r = ''1''" "ParseAuthorizationHeader (rq_auth ?r) = Some credential"
    using assms(3) by (simp_all add: put_request_def get_request_def ParseAuthorizationHeader_def AuthorizationHeader_def codec_simps)
  have sv: "ServeHTTP C ops c now ?r st = handleSession C ops c now ?r (SessionID_String i) index st"
    using assms(5) by (simp add: ServeHTTP_def assms(4) r(1))
  note s = sv handleSession_eq [OF assms(1) r(2) ParseSessionID_String [OF assms(2)] r(3)] put_request_path
  show "ServeHTTP C ops c now ?r st = (Wait (CreateTask i (sha256 C credential) now), st)"
    if "spec_of (rl_store st) i = None" "rest = []"
    unfolding s using that r(1) by simp
  show "ServeHTTP C ops c now ?r st = authorised ops c ?r index i (as_view x) st"
    if "spec_of (rl_store st) i = Some x" "\<not> expired now (ExpiresAt (as_meta x))"
      "sha256 C credential = CredentialHash (as_meta x)" "rest \<noteq> []"
    unfolding s using that r(1) by simp
qed

lemma get_chunk_serve:
  assumes "invar (rl_store st)" and "length i = 16" and "spec_of (rl_store st) i = Some x"
    and "\<not> expired now (ExpiresAt (as_meta x))" and "length credential = 32"
    and "sha256 C credential = CredentialHash (as_meta x)" and "session_ok c x" and "as_chunks x k = Some d"
  shows "ServeHTTP C ops c now (get_chunk_request i k credential) st = (Done (200, Ciphertext d), st)"
proof -
  let ?r = "get_request i [''blob'', ''chunks'', show_nat k] credential"
  have k: "k < unat (meta_ChunkCount (as_meta x))" using assms(7,8) by (auto simp: session_ok_def)
  with unat_u32_less [of "meta_ChunkCount (as_meta x)"] have k32: "k < 2 ^ 32" by simp
  then have k64: "k < 2 ^ 64" by simp
  have m: "mux_pattern (rq_segs ?r) = Some (SessionPath (SessionID_String i) (show_nat k) [''PUT'', ''GET''])"
    using assms(2) by (simp add: get_request_def mux_pattern_def)
  have "ServeHTTP C ops c now ?r st = authorised ops c ?r (show_nat k) i (as_view x) st"
    by (rule get_request_serve [OF assms(1-6) m]) simp_all
  moreover have "rq_path ?r = sessionPath i @ ''/blob/'' @ ''chunks/'' @ show_nat k"
    by (simp add: get_request_path)
  moreover have "Mode (as_meta x) \<noteq> ''session''" using assms(7,8) by (intro session_mode) auto
  moreover have "chunk_index (as_view x) (show_nat k) = Some (of_nat k)"
    using k k32 k64 by (simp add: chunk_index_def parse_uint_show word_le_nat_alt)
  moreover have "op_GetChunk ops (rl_store st) i (of_nat k) = Inr d"
    using assms k k32 by (simp add: getChunk spec_getChunk_def word_le_nat_alt)
  moreover have "rq_method ?r = ''GET''" by (simp add: get_request_def)
  ultimately show ?thesis
    by (simp add: get_chunk_request_def authorised_def Let_def chunk_begin_def writeCiphertext_def has_prefix_def)
qed

lemma get_manifest_serve:
  assumes "invar (rl_store st)" and "length i = 16" and "spec_of (rl_store st) i = Some x"
    and "\<not> expired now (ExpiresAt (as_meta x))" and "length credential = 32"
    and "sha256 C credential = CredentialHash (as_meta x)" and "Mode (as_meta x) = ''blob''"
  shows "ServeHTTP C ops c now (get_manifest_request i credential) st =
    (Done (case as_manifest x of None \<Rightarrow> not_found | Some d \<Rightarrow> (200, Ciphertext d)), st)"
proof -
  let ?r = "get_request i [''blob'', ''manifest''] credential"
  have m: "mux_pattern (rq_segs ?r) = Some (SessionPath (SessionID_String i) [] [''PUT'', ''GET''])"
    using assms(2) by (simp add: get_request_def mux_pattern_def)
  have "ServeHTTP C ops c now ?r st = authorised ops c ?r [] i (as_view x) st"
    by (rule get_request_serve [OF assms(1-6) m]) simp_all
  moreover have "rq_path ?r = sessionPath i @ ''/blob/'' @ ''manifest''"
    by (simp add: get_request_path)
  moreover have "rq_method ?r = ''GET''" by (simp add: get_request_def)
  ultimately show ?thesis
    using getManifest [OF assms(1,2)] assms(3,7)
    by (auto simp: get_manifest_request_def authorised_def Let_def manifest_begin_def writeCiphertext_def
        has_prefix_def spec_getManifest_def writeStoreError_def split: option.split)
qed

text \<open>A chunk that was accepted is in the store.\<close>

lemma chunk_put_stored:
  assumes "invar (rl_store st)" and "length i = 16" and "chunk_put ops c i sess index b st = ((201, Empty), st')"
  shows "\<exists>n x. chunk_index sess index = Some n \<and> spec_of (rl_store st') i = Some x \<and>
    as_chunks x (unat n) = Some (body_data b)"
proof -
  from assms(3) have rb: "readBody (ChunkBytes c) b = Inr (body_data b)"
    using readBody_status [of "ChunkBytes c" b] readBody_Inr [of "ChunkBytes c" b]
    by (cases "readBody (ChunkBytes c) b") (auto simp: chunk_put_def)
  from assms(3) obtain n where n: "chunk_index sess index = Some n"
    by (cases "chunk_index sess index") (auto simp: chunk_put_def rb writeError_def)
  obtain r s' where p: "op_PutChunk ops (rl_store st) i n (body_data b) = (r, s')" by fastforce
  with assms(3) n rb have "r = None" and st': "st' = st\<lparr>rl_store := s'\<rparr>"
    using writeStoreError_status [of "the r"]
    by (auto simp: chunk_put_def writeError_def split: if_splits option.splits)
  with p have p: "op_PutChunk ops (rl_store st) i n (body_data b) = (None, s')" by simp
  note r = op_result(2) [OF assms(1,2) p]
  then obtain x where "spec_of s' i = Some x" "as_chunks x (unat n) = Some (body_data b)"
    by (auto simp: spec_putChunk_def split: option.splits if_splits)
  with n st' show ?thesis by auto
qed

text \<open>A request that does not carry the credential of a stored session learns and changes nothing.\<close>

lemma stranger:
  assumes "invar (rl_store st)" and "rq_segs r = ''v0'' # ''sessions'' # SessionID_String i # rest" and "length i = 16"
    and "spec_of (rl_store st) i = Some x" and "\<not> expired now (ExpiresAt (as_meta x))"
    and "\<forall>credential. ParseAuthorizationHeader (rq_auth r) = Some credential \<longrightarrow> sha256 C credential \<noteq> CredentialHash (as_meta x)"
  shows "\<exists>resp. ServeHTTP C ops c now r st = (Done resp, st)"
    and "\<not> (rest = [] \<and> rq_method r = ''PUT'') \<Longrightarrow> invar (rl_store st') \<Longrightarrow> spec_of (rl_store st') i = None \<Longrightarrow>
      fst (ServeHTTP C ops c now r st) = fst (ServeHTTP C ops c now r st')"
proof -
  note [simp] = ParseSessionID_String [OF assms(3)]
  have sid: "sid = SessionID_String i" if "mux_pattern (rq_segs r) = Some (SessionPath sid index ms)" for sid index ms
    using that assms(2) by (auto simp: mux_pattern_def split: list.splits if_splits)
  have base: "rest = []" if "rq_path r = sessionPath i"
    using that assms(2) by (cases rest) (simp_all add: rq_path_def sessionPath_def)
  have h: "\<exists>resp. handleSession C ops c now r (SessionID_String i) index st = (Done resp, st)" for index
  proof (cases "rq_protocol r \<noteq> ''1'' \<or> ParseAuthorizationHeader (rq_auth r) = None")
    case True
    then show ?thesis using handleSession_reject by blast
  next
    case False
    then obtain credential where "rq_protocol r = ''1''" "ParseAuthorizationHeader (rq_auth r) = Some credential" by auto
    then show ?thesis using assms(4-6) by (simp add: handleSession_eq [OF assms(1)])
  qed
  then show "\<exists>resp. ServeHTTP C ops c now r st = (Done resp, st)"
    by (auto simp: ServeHTTP_def split: option.split pattern.split dest: sid)
  assume nb: "\<not> (rest = [] \<and> rq_method r = ''PUT'')" and st': "invar (rl_store st')" "spec_of (rl_store st') i = None"
  have that: "\<not> (rq_path r = sessionPath i \<and> rq_method r = ''PUT'')" using nb base by blast
  have "fst (handleSession C ops c now r (SessionID_String i) index st) = fst (handleSession C ops c now r (SessionID_String i) index st')"
    for index
  proof (cases "rq_protocol r \<noteq> ''1'' \<or> ParseAuthorizationHeader (rq_auth r) = None")
    case True
    then show ?thesis by (auto simp: handleSession_def)
  next
    case False
    then obtain credential where "rq_protocol r = ''1''" "ParseAuthorizationHeader (rq_auth r) = Some credential" by auto
    then show ?thesis using assms(4-6) st' that
      by (auto simp: handleSession_eq [OF assms(1)] handleSession_eq [OF st'(1)])
  qed
  then show "fst (ServeHTTP C ops c now r st) = fst (ServeHTTP C ops c now r st')"
    by (auto simp: ServeHTTP_def split: option.split pattern.split dest: sid)
qed

end

section \<open>Joins are final\<close>

lemma live_step_joined: "joined l = Some j \<Longrightarrow> joined (live_step q ev l) = Some j"
  by (cases ev) (auto simp: live_step_def live_defs Let_def)

lemma drop_live_joined [simp]: "joined (drop_live l) = joined l"
  by (simp add: drop_live_def notify_def)

lemma change_joined:
  "change ops c R st st' \<Longrightarrow> a < rl_next st \<Longrightarrow> joined (rl_heap st a) = Some j \<Longrightarrow> joined (rl_heap st' a) = Some j"
  by (induction rule: change.induct) (auto simp: install_live_def Let_def live_step_joined)

lemma sweep_joined: "joined (rl_heap (Handler_Sweep ops now order st) a) = joined (rl_heap st a)"
  unfolding Handler_Sweep_def
  by (induction order arbitrary: st) (auto simp: sweep_one_def split: option.split)

context swept_store
begin

lemma step_joined:
  assumes "sys_inv spec_of invar c sys" and "a < rl_next (sys_relay sys)"
    and "joined (rl_heap (sys_relay sys) a) = Some j"
  shows "joined (rl_heap (sys_relay (relay_step C ops sweep c js ev sys)) a) = Some j"
    and "rl_next (sys_relay sys) \<le> rl_next (sys_relay (relay_step C ops sweep c js ev sys))"
proof -
  have r: "relay_inv spec_of invar c (sys_relay sys)" using assms(1) by (simp add: sys_inv_def)
  have t: "task_ok (rl_next (sys_relay sys)) t" if "sys_tasks sys n = Some t" for n t
    using that assms(1) by (simp add: sys_inv_def)
  show "joined (rl_heap (sys_relay (relay_step C ops sweep c js ev sys)) a) = Some j"
    using assms(2,3) change_joined [OF serve_change(1) [OF r]] change_joined [OF resume_change(1) [OF r t]]
    by (cases ev) (auto simp: relay_step_def sweep_joined split: option.split)
  show "rl_next (sys_relay sys) \<le> rl_next (sys_relay (relay_step C ops sweep c js ev sys))"
    using change_next [OF serve_change(1) [OF r]] change_next [OF resume_change(1) [OF r t]] Handler_Sweep_inv [OF r]
    by (cases ev) (auto simp: relay_step_def split: option.split)
qed

lemma run_joined:
  assumes "sys_inv spec_of invar c sys" and "a < rl_next (sys_relay sys)"
    and "joined (rl_heap (sys_relay sys) a) = Some j"
  shows "joined (rl_heap (sys_relay (relay_run C ops sweep c js evs sys)) a) = Some j"
  using assms
proof (induction evs arbitrary: sys)
  case (Cons ev evs)
  note s = step_joined [OF Cons.prems, where C = C and js = js and ev = ev]
  have "joined (rl_heap (sys_relay (relay_run C ops sweep c js evs (relay_step C ops sweep c js ev sys))) a) = Some j"
    by (rule Cons.IH [OF step_inv [OF Cons.prems(1)] less_le_trans [OF Cons.prems(2) s(2)] s(1)])
  then show ?case by simp
qed simp

end

section \<open>A sample relay\<close>

text \<open>One blob session of one chunk, with the chunk and the manifest stored or not yet, and an upload of
  the chunk in flight.\<close>

definition sample_id :: sessionID where "sample_id = replicate 16 0"

definition sample_credential :: bytes where "sample_credential = replicate 32 7"

definition sample_chunk :: bytes where "sample_chunk = replicate 17 5"

definition sample_session :: "bytes option \<Rightarrow> memorySession" where
  "sample_session d =
     \<lparr>mem_mode = ''blob'', mem_collectorKey = replicate 32 0, mem_collectorMAC = replicate 32 0,
      mem_credHash = sha256 toy_crypto sample_credential, mem_expiresAt = 100, mem_chunkCount = 1,
      mem_chunks = [d], mem_stored = (if d = None then 0 else 1), mem_manifest = d\<rparr>"

definition sample_sys :: "bytes option \<Rightarrow> memoryStore system" where
  "sample_sys d =
     \<lparr>sys_relay = \<lparr>rl_store = Map.empty(sample_id \<mapsto> sample_session d), rl_heap = (\<lambda>_. new_live 0),
                   rl_sessions = Map.empty, rl_next = 0\<rparr>,
      sys_tasks = [7 \<mapsto> ChunkTask sample_id (as_view (mem_session_abs (sample_session d))) ''0'']\<rparr>"

definition no_decoders :: decoders where
  "no_decoders = \<lparr>dec_create = (\<lambda>_. None), dec_join = (\<lambda>_. None), dec_envelope = (\<lambda>_. None)\<rparr>"

lemma sample_session_ok:
  assumes "d = None \<or> d = Some sample_chunk"
  shows "session_ok DefaultCaps (mem_session_abs (sample_session d))"
proof -
  let ?x = "mem_session_abs (sample_session d)"
  have fields: "as_chunks ?x = [0 \<mapsto> the d] |` (if d = None then {} else UNIV)" "as_manifest ?x = d"
    "meta_ChunkCount (as_meta ?x) = 1" "Mode (as_meta ?x) = ''blob''"
    by (auto simp: mem_session_abs_def sample_session_def mem_chunk_map_def fun_eq_iff restrict_map_def)
  have caps: "cap_ChunkCount DefaultCaps = 128" "ChunkBytes DefaultCaps = 1048592" "ManifestBytes DefaultCaps = 1048576"
    by (simp_all add: DefaultCaps_def MaxChunkCount_def ChunkSize_def ChunkOverhead_def MaxManifestBytes_def)
  have len: "length sample_chunk = 17" by (simp add: sample_chunk_def)
  show ?thesis
    by (unfold session_ok_def meta_ok_def fields)
      (use assms in \<open>auto simp: caps len restrict_map_def dom_def split: if_splits\<close>)
qed

lemma sample_sys_inv:
  assumes "d = None \<or> d = Some sample_chunk"
  shows "sys_inv mem_abs mem_inv DefaultCaps (sample_sys d)"
proof -
  let ?m = "Map.empty(sample_id \<mapsto> sample_session d)"
  have inv: "mem_inv ?m"
    by (auto simp: mem_inv_def mem_session_inv_def sample_session_def)
  have empty: "mem_abs Map.empty i = None" for i by (simp add: mem_abs_def)
  have "relay_inv mem_abs mem_inv DefaultCaps (sys_relay (sample_sys d))"
    using sample_session_ok [OF assms] inv
    by (simp add: relay_inv_def sample_sys_def registry_ok_def live_inv_new empty)
  then show ?thesis
    by (simp add: sys_inv_def) (simp add: sample_sys_def task_ok_def sample_id_def)
qed

text \<open>A whole upload of one chunk, from the empty relay: create, chunk and manifest, each a request and its body.\<close>

definition sample_decoders :: decoders where
  "sample_decoders = no_decoders\<lparr>dec_create := \<lambda>_. Some \<lparr>cr_mode = ''blob'', cr_collectorKey = '''', cr_collectorMAC = '''',
     cr_ttlSeconds = 60, cr_chunkCount = 1\<rparr>\<rparr>"

definition sample_body :: "bytes \<Rightarrow> input" where
  "sample_body d = Body \<lparr>body_data = d, body_failed = False\<rparr>"

definition sample_upload :: "event list" where
  "sample_upload =
     [Arrive 1 0 (put_request sample_id [] sample_credential), Input 1 0 (sample_body []),
      Arrive 2 1 (put_request sample_id [''blob'', ''chunks'', ''0''] sample_credential), Input 2 1 (sample_body sample_chunk),
      Arrive 3 2 (put_request sample_id [''blob'', ''manifest''] sample_credential), Input 3 2 (sample_body [9])]"

definition uploaded :: "bytes option \<Rightarrow> u32 \<Rightarrow> bytes option \<Rightarrow> memorySession" where
  "uploaded d n m = (sample_session None)\<lparr>mem_expiresAt := 60 * second, mem_chunks := [d], mem_stored := n, mem_manifest := m\<rparr>"

definition uploaded_relay :: "memorySession \<Rightarrow> memoryStore relay" where
  "uploaded_relay s = (NewHandler NewMemoryStore)\<lparr>rl_store := [sample_id \<mapsto> s]\<rparr>"

lemma sample_lengths: "length sample_id = 16" "length sample_credential = 32" "length sample_chunk = 17"
  by (simp_all add: sample_id_def sample_credential_def sample_chunk_def)

lemma uploaded_serve:
  assumes "mem_session_inv (uploaded d n m)" and "now \<le> 2"
    and "mux_pattern (rq_segs (put_request sample_id rest sample_credential)) = Some (SessionPath (SessionID_String sample_id) index [''PUT'', ''GET''])"
    and "rest \<noteq> []"
  shows "ServeHTTP toy_crypto mem_ops DefaultCaps now (put_request sample_id rest sample_credential) (uploaded_relay (uploaded d n m))
    = authorised mem_ops DefaultCaps (put_request sample_id rest sample_credential) index sample_id (as_view (mem_session_abs (uploaded d n m)))
        (uploaded_relay (uploaded d n m))"
  by (rule mem.put_request_handle(2))
    (use assms in \<open>auto simp: sample_lengths mem_inv_def mem_abs_def expired_def mem_session_abs_def uploaded_def sample_session_def second_def uploaded_relay_def NewHandler_def\<close>)

lemma sample_upload_stored:
  "sys_relay (relay_run toy_crypto mem_ops Mem_Sweep DefaultCaps sample_decoders sample_upload (initial_system NewMemoryStore))
   = uploaded_relay (uploaded (Some sample_chunk) 1 (Some [9]))"
proof -
  have inv: "mem_session_inv (uploaded None 0 None)" "mem_session_inv (uploaded (Some sample_chunk) 1 None)"
    by (simp_all add: mem_session_inv_def uploaded_def sample_session_def)
  have mux: "mux_pattern (rq_segs (put_request sample_id [] sample_credential)) = Some (SessionPath (SessionID_String sample_id) [] [''PUT'', ''GET'', ''DELETE''])"
    "mux_pattern (rq_segs (put_request sample_id [''blob'', ''chunks'', ''0''] sample_credential)) = Some (SessionPath (SessionID_String sample_id) ''0'' [''PUT'', ''GET''])"
    "mux_pattern (rq_segs (put_request sample_id [''blob'', ''manifest''] sample_credential)) = Some (SessionPath (SessionID_String sample_id) [] [''PUT'', ''GET''])"
    by (simp_all add: put_request_def get_request_def mux_pattern_def sample_lengths)
  have r1: "ServeHTTP toy_crypto mem_ops DefaultCaps 0 (put_request sample_id [] sample_credential) (NewHandler NewMemoryStore)
      = (Wait (CreateTask sample_id (sha256 toy_crypto sample_credential) 0), NewHandler NewMemoryStore)"
    using mem_inv_new by (intro mem.put_request_handle(1) [OF _ _ _ mux(1)]) (simp_all add: sample_lengths NewHandler_def, simp add: mem_abs_def NewMemoryStore_def)
  have caps: "cap_ChunkCount DefaultCaps = 128" "ChunkBytes DefaultCaps = 1048592" "ManifestBytes DefaultCaps = 1048576" "TTLMaxSeconds DefaultCaps = 86400"
    by (simp_all add: DefaultCaps_def MaxChunkCount_def ChunkSize_def ChunkOverhead_def MaxManifestBytes_def)
  have w: "wrap64 60000000000 = 60000000000" by (simp add: wrap64_def)
  have "\<exists>x. resume mem_ops DefaultCaps sample_decoders 0 (CreateTask sample_id (sha256 toy_crypto sample_credential) 0) (sample_body [])
      (NewHandler NewMemoryStore) = (Done x, uploaded_relay (uploaded None 0 None))"
    by (simp add: resume_def sample_body_def handler_create_def readBody_def read_limited_def sample_decoders_def create_meta_def create_valid_def caps
      session_ttl_def mem_ops_def Mem_CreateSession_def NewHandler_def NewMemoryStore_def install_live_def dropLocked_def Let_def
      uploaded_relay_def uploaded_def sample_session_def second_def w)
  then obtain x where r2: "resume mem_ops DefaultCaps sample_decoders 0 (CreateTask sample_id (sha256 toy_crypto sample_credential) 0) (sample_body [])
      (NewHandler NewMemoryStore) = (Done x, uploaded_relay (uploaded None 0 None))" by blast
  have r3: "ServeHTTP toy_crypto mem_ops DefaultCaps 1 (put_request sample_id [''blob'', ''chunks'', ''0''] sample_credential) (uploaded_relay (uploaded None 0 None))
      = (Wait (ChunkTask sample_id (as_view (mem_session_abs (uploaded None 0 None))) ''0''), uploaded_relay (uploaded None 0 None))"
    by (subst uploaded_serve [OF inv(1) _ mux(2)]) (simp_all add: authorised_def Let_def put_request_path has_prefix_def
      mem_session_abs_def uploaded_def sample_session_def as_view_def chunk_begin_def, simp add: put_request_def)
  have r4: "resume mem_ops DefaultCaps sample_decoders 1 (ChunkTask sample_id (as_view (mem_session_abs (uploaded None 0 None))) ''0'') (sample_body sample_chunk)
      (uploaded_relay (uploaded None 0 None)) = (Done (201, Empty), uploaded_relay (uploaded (Some sample_chunk) 1 None))"
    by (simp add: resume_def sample_body_def chunk_put_def readBody_def read_limited_def caps sample_lengths)
      (simp add: chunk_index_def parse_uint_def parse_digits_def is_digit_def digit_val_def as_view_def
        mem_session_abs_def uploaded_def sample_session_def mem_ops_def Mem_PutChunk_def uploaded_relay_def NewHandler_def sample_lengths)
  have r5: "ServeHTTP toy_crypto mem_ops DefaultCaps 2 (put_request sample_id [''blob'', ''manifest''] sample_credential) (uploaded_relay (uploaded (Some sample_chunk) 1 None))
      = (Wait (ManifestTask sample_id), uploaded_relay (uploaded (Some sample_chunk) 1 None))"
    by (subst uploaded_serve [OF inv(2) _ mux(3)]) (simp_all add: authorised_def Let_def put_request_path has_prefix_def
      mem_session_abs_def uploaded_def sample_session_def as_view_def manifest_begin_def, simp add: put_request_def)
  have r6: "resume mem_ops DefaultCaps sample_decoders 2 (ManifestTask sample_id) (sample_body [9])
      (uploaded_relay (uploaded (Some sample_chunk) 1 None)) = (Done (201, Empty), uploaded_relay (uploaded (Some sample_chunk) 1 (Some [9])))"
    by (simp add: resume_def sample_body_def manifest_put_def readBody_def read_limited_def caps mem_ops_def Mem_Session_def Mem_PutManifest_def
      uploaded_def sample_session_def uploaded_relay_def NewHandler_def)
  show ?thesis
    by (simp add: sample_upload_def initial_system_def relay_step_def settle_def r1 r2 r3 r4 r5 r6)
qed

section \<open>Properties\<close>

lemma mem_run_inv:
  "sys_inv mem_abs mem_inv c (relay_run C mem_ops Mem_Sweep c js evs (initial_system NewMemoryStore))"
proof -
  have "mem_abs NewMemoryStore = Map.empty" by (simp add: mem_abs_def NewMemoryStore_def fun_eq_iff)
  then show ?thesis by (intro mem.run_inv mem.initial_inv mem_inv_new)
qed

text \<open>
  C1. The relay's invariant holds in every run, in whatever order requests, bodies, polls and sweeps
  arrive, each part of a handler between two waits for the network being one step: the store is
  consistent; every stored session respects the caps, has only chunks within its announced count and of
  legal size, and has all of them when it has a manifest; every live session's queues are within their
  bound and gap-free; and the registry points to live objects, one per identifier, that agree with the
  store on when the session expires. Within one part the code takes the store's and the registry's
  locks several times; \<open>manifest_gap\<close> and \<open>manifest_race\<close> below say what a step in between can and cannot
  do to a manifest upload.
\<close>

theorem relay_invariant:
  "relay_inv mem_abs mem_inv c
     (sys_relay (relay_run C mem_ops Mem_Sweep c js evs (initial_system NewMemoryStore)))"
  using mem_run_inv by (simp add: sys_inv_def)

text \<open>
  C2. No request can take a session away or rewrite it: through any sequence of steps, a stored session
  keeps its metadata, its chunks and its manifest, unless a step happens after it has expired or is a
  DELETE that carries its credential.
\<close>

theorem sessions_survive:
  assumes "sys_inv mem_abs mem_inv c sys" and "mem_abs (rl_store (sys_relay sys)) i = Some x"
    and "\<forall>ev \<in> set evs. \<not> may_remove C ev i (as_meta x)"
  shows "\<exists>y. mem_abs (rl_store (sys_relay (relay_run C mem_ops Mem_Sweep c js evs sys))) i = Some y \<and>
    as_meta y = as_meta x \<and> as_chunks x \<subseteq>\<^sub>m as_chunks y \<and>
    (as_manifest x \<noteq> None \<longrightarrow> as_manifest y = as_manifest x)"
  using mem.run_survives [OF assms, of js] by (simp add: extends_def)

theorem sessions_survive_witness:
  "\<exists>y. mem_abs (rl_store (sys_relay (relay_run toy_crypto mem_ops Mem_Sweep DefaultCaps no_decoders
     [SweepStore 50, SweepHandler 99 [sample_id]] (sample_sys (Some sample_chunk))))) sample_id = Some y"
proof -
  have x: "mem_abs (rl_store (sys_relay (sample_sys (Some sample_chunk)))) sample_id
      = Some (mem_session_abs (sample_session (Some sample_chunk)))"
    by (simp add: sample_sys_def mem_abs_def)
  have "\<forall>ev \<in> set [SweepStore 50, SweepHandler 99 [sample_id]].
      \<not> may_remove toy_crypto ev sample_id (as_meta (mem_session_abs (sample_session (Some sample_chunk))))"
    by (simp add: may_remove_def expired_def mem_session_abs_def sample_session_def)
  from sessions_survive [OF sample_sys_inv x this] show ?thesis by blast
qed

text \<open>
  C3. A stranger learns and changes nothing: a request for a stored, unexpired session that does not
  carry its credential is answered at once and leaves the relay as it was, and, unless it tries to
  create the session, its answer is the one it would get if the session did not exist.
\<close>

theorem stranger_learns_nothing:
  assumes "mem_inv (rl_store st)" and "rq_segs r = ''v0'' # ''sessions'' # SessionID_String i # rest"
    and "length i = 16" and "mem_abs (rl_store st) i = Some x" and "\<not> expired now (ExpiresAt (as_meta x))"
    and "\<forall>credential. ParseAuthorizationHeader (rq_auth r) = Some credential \<longrightarrow>
      sha256 C credential \<noteq> CredentialHash (as_meta x)"
    and "mem_inv (rl_store st')" and "mem_abs (rl_store st') i = None"
  shows "(\<exists>resp. ServeHTTP C mem_ops c now r st = (Done resp, st)) \<and>
    (\<not> (rest = [] \<and> rq_method r = ''PUT'') \<longrightarrow>
      fst (ServeHTTP C mem_ops c now r st) = fst (ServeHTTP C mem_ops c now r st'))"
  using mem.stranger [OF assms(1-6), where c = c] assms(7,8) by blast

theorem stranger_learns_nothing_witness:
  "fst (ServeHTTP toy_crypto mem_ops DefaultCaps 5 (get_chunk_request sample_id 0 (replicate 32 8)) (sys_relay (sample_sys None)))
   = fst (ServeHTTP toy_crypto mem_ops DefaultCaps 5 (get_chunk_request sample_id 0 (replicate 32 8)) (NewHandler NewMemoryStore))"
proof -
  let ?r = "get_chunk_request sample_id 0 (replicate 32 8)"
  have s: "rq_segs ?r = ''v0'' # ''sessions'' # SessionID_String sample_id # [''blob'', ''chunks'', show_nat 0]"
    by (simp add: get_chunk_request_def get_request_def)
  have inv: "mem_inv (rl_store (sys_relay (sample_sys None)))"
    using sample_sys_inv by (simp add: sys_inv_def relay_inv_def)
  have x: "mem_abs (rl_store (sys_relay (sample_sys None))) sample_id = Some (mem_session_abs (sample_session None))"
    by (simp add: sample_sys_def mem_abs_def)
  have "\<not> expired 5 (ExpiresAt (as_meta (mem_session_abs (sample_session None))))"
    by (simp add: expired_def mem_session_abs_def sample_session_def)
  moreover have "\<forall>credential. ParseAuthorizationHeader (rq_auth ?r) = Some credential \<longrightarrow>
      sha256 toy_crypto credential \<noteq> CredentialHash (as_meta (mem_session_abs (sample_session None)))"
    by (simp add: get_chunk_request_def get_request_def ParseAuthorizationHeader_def AuthorizationHeader_def codec_simps
        mem_session_abs_def sample_session_def sample_credential_def toy_crypto_def fit_def)
  moreover have "mem_inv (rl_store (NewHandler NewMemoryStore))" "mem_abs (rl_store (NewHandler NewMemoryStore)) sample_id = None"
    by (simp_all add: NewHandler_def mem_inv_new) (simp add: mem_abs_def NewMemoryStore_def)
  ultimately show ?thesis
    using stranger_learns_nothing [OF inv s _ x, where now = 5 and C = toy_crypto] by (simp add: sample_id_def)
qed

text \<open>
  C4. What was uploaded is what is downloaded: after a chunk upload that was in flight is answered with
  201, and after any further steps none of which may remove the session, a download of that chunk with
  the session's credential returns the uploaded bytes, and changes nothing.
\<close>

theorem chunk_download:
  assumes "sys_inv mem_abs mem_inv c sys" and "sys_tasks sys n = Some (ChunkTask i sess index)"
    and "chunk_put mem_ops c i sess index b (sys_relay sys) = ((201, Empty), st)"
    and "mem_abs (rl_store st) i = Some x" and "\<forall>ev \<in> set evs. \<not> may_remove C ev i (as_meta x)"
    and "length credential = 32" and "sha256 C credential = CredentialHash (as_meta x)"
    and "\<not> expired now' (ExpiresAt (as_meta x))"
  shows "\<exists>k. parse_uint 64 index = Some k \<and>
    (let after = sys_relay (relay_run C mem_ops Mem_Sweep c js (Input n now (Body b) # evs) sys) in
     ServeHTTP C mem_ops c now' (get_chunk_request i k credential) after = (Done (200, Ciphertext (body_data b)), after))"
proof -
  let ?sys1 = "relay_step C mem_ops Mem_Sweep c js (Input n now (Body b)) sys"
  have "task_ok (rl_next (sys_relay sys)) (ChunkTask i sess index)" using assms(1,2) by (simp add: sys_inv_def)
  then have i: "length i = 16" by (simp add: task_ok_def)
  have st: "sys_relay ?sys1 = st" by (simp add: relay_step_def assms(2,3) resume_def)
  have inv: "mem_inv (rl_store (sys_relay sys))" using assms(1) by (simp add: sys_inv_def relay_inv_def)
  from mem.chunk_put_stored [OF inv i assms(3)] assms(4) obtain u
    where u: "chunk_index sess index = Some u" and c: "as_chunks x (unat u) = Some (body_data b)" by auto
  from u have k: "parse_uint 64 index = Some (unat u)"
    by (auto simp: chunk_index_def parse_uint_def unat_of_nat split: option.splits if_splits)
  note inv1 = mem.step_inv [OF assms(1), of C js "Input n now (Body b)"]
  obtain y where y: "mem_abs (rl_store (sys_relay (relay_run C mem_ops Mem_Sweep c js evs ?sys1))) i = Some y" "extends x y"
    using mem.run_survives [OF inv1, of i x evs C js] assms(4,5) st by auto
  have cy: "as_chunks y (unat u) = Some (body_data b)"
    using y(2) c by (auto simp: extends_def map_le_def dom_def)
  have my: "as_meta y = as_meta x" using y(2) by (simp add: extends_def)
  have r: "relay_inv mem_abs mem_inv c (sys_relay (relay_run C mem_ops Mem_Sweep c js evs ?sys1))"
    using mem.run_inv [OF inv1, of C js evs] by (simp add: sys_inv_def)
  then have "session_ok c y" "mem_inv (rl_store (sys_relay (relay_run C mem_ops Mem_Sweep c js evs ?sys1)))"
    using y(1) by (auto simp: relay_inv_def)
  with mem.get_chunk_serve [OF _ i y(1), where k = "unat u" and now = now' and C = C and credential = credential] my cy assms(6-8) k
  show ?thesis by auto
qed

theorem chunk_download_witness:
  "\<exists>k after. ServeHTTP toy_crypto mem_ops DefaultCaps 60 (get_chunk_request sample_id k sample_credential) after
     = (Done (200, Ciphertext sample_chunk), after)"
proof -
  let ?b = "\<lparr>body_data = sample_chunk, body_failed = False\<rparr>"
  let ?sess = "as_view (mem_session_abs (sample_session None))"
  have t: "sys_tasks (sample_sys None) 7 = Some (ChunkTask sample_id ?sess ''0'')" by (simp add: sample_sys_def)
  have len: "length sample_chunk = 17" by (simp add: sample_chunk_def)
  have idx: "chunk_index ?sess ''0'' = Some 0"
    by (simp add: chunk_index_def parse_uint_def parse_digits_def is_digit_def digit_val_def as_view_def
        mem_session_abs_def sample_session_def)
  let ?st = "(sys_relay (sample_sys None))\<lparr>rl_store := Map.empty(sample_id \<mapsto>
      (sample_session None)\<lparr>mem_chunks := [Some sample_chunk], mem_stored := 1\<rparr>)\<rparr>"
  have cap: "readBody (ChunkBytes DefaultCaps) ?b = Inr sample_chunk"
    by (simp add: readBody_def read_limited_def len DefaultCaps_def ChunkSize_def)
  have put: "chunk_put mem_ops DefaultCaps sample_id ?sess ''0'' ?b (sys_relay (sample_sys None)) = ((201, Empty), ?st)"
    by (simp add: chunk_put_def cap idx len)
      (simp add: mem_ops_def Mem_PutChunk_def sample_sys_def sample_session_def mem_session_abs_def)
  have x: "mem_abs (rl_store ?st) sample_id
      = Some (mem_session_abs ((sample_session None)\<lparr>mem_chunks := [Some sample_chunk], mem_stored := 1\<rparr>))"
    by simp
  have "\<forall>ev \<in> set [SweepStore 50]. \<not> may_remove toy_crypto ev sample_id (as_meta (mem_session_abs
      ((sample_session None)\<lparr>mem_chunks := [Some sample_chunk], mem_stored := 1\<rparr>)))"
    by (simp add: may_remove_def expired_def mem_session_abs_def sample_session_def)
  from chunk_download [OF sample_sys_inv t put x this, where credential = sample_credential and now' = 60 and js = no_decoders and now = 1]
  show ?thesis
    by (auto simp: Let_def sample_credential_def expired_def mem_session_abs_def sample_session_def)
qed

text \<open>
  C5. A manifest vouches for its chunks: after any sequence of steps from the empty relay (each part of a
  handler between two waits for the network being one step), whenever the relay serves the manifest of an
  unexpired blob session, it also serves every chunk the session announced, each at least one byte longer
  than its authentication tag.
\<close>

theorem manifest_means_complete:
  assumes "st = sys_relay (relay_run C mem_ops Mem_Sweep c js evs (initial_system NewMemoryStore))"
    and "length i = 16" and "mem_abs (rl_store st) i = Some x"
    and "Mode (as_meta x) = ''blob''" and "\<not> expired now (ExpiresAt (as_meta x))" and "length credential = 32"
    and "sha256 C credential = CredentialHash (as_meta x)"
    and "fst (ServeHTTP C mem_ops c now (get_manifest_request i credential) st) = Done (200, Ciphertext m)"
    and "k < unat (meta_ChunkCount (as_meta x))"
  shows "\<exists>d. ServeHTTP C mem_ops c now (get_chunk_request i k credential) st = (Done (200, Ciphertext d), st) \<and> 17 \<le> length d"
proof -
  have inv: "mem_inv (rl_store st)" and ok: "session_ok c x"
    using mem_run_inv [of c C js evs] assms(3) unfolding assms(1) by (auto simp: sys_inv_def relay_inv_def)
  have "as_manifest x \<noteq> None"
    using mem.get_manifest_serve [OF inv assms(2,3,5-7,4), of c] assms(8)
    by (auto simp: not_found_def writeError_def split: option.splits)
  with ok assms(9) have "k \<in> dom (as_chunks x)" unfolding session_ok_def by blast
  then obtain d where d: "as_chunks x k = Some d" by blast
  then have "17 \<le> length d" using ok by (auto simp: session_ok_def)
  with mem.get_chunk_serve [OF inv assms(2,3,5-7) ok d] show ?thesis by blast
qed

theorem manifest_means_complete_witness:
  "let st = sys_relay (relay_run toy_crypto mem_ops Mem_Sweep DefaultCaps sample_decoders sample_upload (initial_system NewMemoryStore)) in
   \<exists>d. ServeHTTP toy_crypto mem_ops DefaultCaps 5 (get_chunk_request sample_id 0 sample_credential) st = (Done (200, Ciphertext d), st)"
proof -
  let ?st = "sys_relay (relay_run toy_crypto mem_ops Mem_Sweep DefaultCaps sample_decoders sample_upload (initial_system NewMemoryStore))"
  let ?s = "uploaded (Some sample_chunk) 1 (Some [9])"
  let ?x = "mem_session_abs ?s"
  note st = sample_upload_stored
  have inv: "mem_inv (rl_store ?st)" using mem_run_inv by (simp add: sys_inv_def relay_inv_def)
  have x: "mem_abs (rl_store ?st) sample_id = Some ?x" by (simp add: st uploaded_relay_def mem_abs_def)
  have f: "Mode (as_meta ?x) = ''blob''" "\<not> expired 5 (ExpiresAt (as_meta ?x))"
    "sha256 toy_crypto sample_credential = CredentialHash (as_meta ?x)" "0 < unat (meta_ChunkCount (as_meta ?x))" "as_manifest ?x = Some [9]"
    by (simp_all add: mem_session_abs_def uploaded_def sample_session_def expired_def second_def)
  have "fst (ServeHTTP toy_crypto mem_ops DefaultCaps 5 (get_manifest_request sample_id sample_credential) ?st) = Done (200, Ciphertext [9])"
    using f(5) by (simp add: mem.get_manifest_serve [OF inv sample_lengths(1) x f(2) sample_lengths(2) f(3,1)])
  from manifest_means_complete [OF refl sample_lengths(1) x f(1,2) sample_lengths(2) f(3) this f(4)] show ?thesis
    by (auto simp: Let_def)
qed

text \<open>
  The two store calls of a manifest upload, reading the session and storing the manifest, are separate:
  whatever runs in between, the manifest is stored beside all the announced chunks, as long as nothing
  removes the session. When a DELETE and a new PUT of the same session come in between, a manifest
  without chunks is left behind.
\<close>

context swept_store
begin

lemma manifest_gap:
  assumes "sys_inv spec_of invar c sys" and "length i = 16" and "spec_of (rl_store (sys_relay sys)) i = Some x"
    and "op_Session ops (rl_store (sys_relay sys)) i = Inr sess" and "ChunksStored sess = meta_ChunkCount sess"
    and "\<forall>ev \<in> set evs. \<not> may_remove C ev i (as_meta x)"
    and "op_PutManifest ops (rl_store (sys_relay (relay_run C ops sweep c js evs sys))) i body = (None, s')"
  shows "\<exists>y. spec_of s' i = Some y \<and> as_manifest y = Some body \<and> dom (as_chunks y) = {..<unat (meta_ChunkCount (as_meta y))}"
proof -
  let ?sys = "relay_run C ops sweep c js evs sys"
  have inv: "invar (rl_store (sys_relay sys))" and ok: "session_ok c x" using assms(1,3) by (auto simp: sys_inv_def relay_inv_def)
  have "sys_inv spec_of invar c ?sys" using assms(1) by (rule run_inv)
  then have inv': "invar (rl_store (sys_relay ?sys))" and ok': "\<And>j y. spec_of (rl_store (sys_relay ?sys)) j = Some y \<Longrightarrow> session_ok c y"
    by (auto simp: sys_inv_def relay_inv_def)
  obtain y where y: "spec_of (rl_store (sys_relay ?sys)) i = Some y" "extends x y" using run_survives [OF assms(1,3,6)] by blast
  have "sess = as_view x" using session_result [OF inv assms(2)] assms(3,4) by simp
  then have "dom (as_chunks x) = {..<unat (meta_ChunkCount (as_meta x))}"
    using ok assms(5) by (intro full_count) (auto simp: session_ok_def as_view_def)
  moreover have "dom (as_chunks x) \<subseteq> dom (as_chunks y)" "as_meta y = as_meta x" using y(2) by (auto simp: extends_def dest: map_le_implies_dom_le)
  moreover have "dom (as_chunks y) \<subseteq> {..<unat (meta_ChunkCount (as_meta y))}" using ok' [OF y(1)] by (auto simp: session_ok_def)
  ultimately have "dom (as_chunks y) = {..<unat (meta_ChunkCount (as_meta y))}" by auto
  moreover have "spec_of s' = snd (spec_putManifest (spec_of (rl_store (sys_relay ?sys))) i body)"
    "None = fst (spec_putManifest (spec_of (rl_store (sys_relay ?sys))) i body)" using op_result(3) [OF inv' assms(2,7)] by blast+
  ultimately show ?thesis using y(1) by (auto simp: spec_putManifest_def split: if_splits)
qed

end

lemma manifest_race:
  "\<exists>m sess m1 m2 m3 y. mem_inv m \<and> Mem_Session m sample_id = Inr sess \<and> ChunksStored sess = meta_ChunkCount sess \<and> \<not> ManifestStored sess \<and>
     Mem_DeleteSession m sample_id = (None, m1) \<and> Mem_CreateSession m1 sample_id sess = (None, m2) \<and>
     Mem_PutManifest m2 sample_id [9] = (None, m3) \<and>
     mem_abs m3 sample_id = Some y \<and> as_manifest y = Some [9] \<and> as_chunks y = Map.empty \<and> meta_ChunkCount (as_meta y) = 1"
proof -
  let ?m = "[sample_id \<mapsto> uploaded (Some sample_chunk) 1 None]"
  have "mem_inv ?m" by (simp add: mem_inv_def mem_session_inv_def uploaded_def sample_session_def)
  moreover obtain sess where "Mem_Session ?m sample_id = Inr sess" "ChunksStored sess = 1" "meta_ChunkCount sess = 1" "\<not> ManifestStored sess"
    by (simp add: Mem_Session_def uploaded_def sample_session_def)
  moreover have "Mem_DeleteSession ?m sample_id = (None, Map.empty)" by (simp add: Mem_DeleteSession_def)
  moreover obtain m2 s2 where c: "Mem_CreateSession Map.empty sample_id sess = (None, m2)" "m2 sample_id = Some s2" "mem_manifest s2 = None"
      "mem_chunks s2 = [None]" "mem_chunkCount s2 = 1"
    using calculation(4) by (simp add: Mem_CreateSession_def)
  moreover have "Mem_PutManifest m2 sample_id [9] = (None, m2(sample_id \<mapsto> s2\<lparr>mem_manifest := Some [9]\<rparr>))"
    using c by (simp add: Mem_PutManifest_def)
  moreover have "mem_chunk_map [None] = Map.empty" by (simp add: mem_chunk_map_def fun_eq_iff)
  then have "as_chunks (mem_session_abs (s2\<lparr>mem_manifest := Some [9]\<rparr>)) = Map.empty" using c(4) by (simp add: mem_session_abs_def)
  moreover have "as_manifest (mem_session_abs (s2\<lparr>mem_manifest := Some [9]\<rparr>)) = Some [9]"
    "meta_ChunkCount (as_meta (mem_session_abs (s2\<lparr>mem_manifest := Some [9]\<rparr>))) = 1" using c(5) by (simp_all add: mem_session_abs_def)
  moreover have "mem_abs (m2(sample_id \<mapsto> s2\<lparr>mem_manifest := Some [9]\<rparr>)) sample_id = Some (mem_session_abs (s2\<lparr>mem_manifest := Some [9]\<rparr>))" by simp
  ultimately show ?thesis by metis
qed

text \<open>
  C6. A join is final: once a live session has been joined, no later step of any run, a second join and
  the removal of the session included, changes the keys the join recorded, so a peer's key cannot be
  replaced behind the collector's back.
\<close>

theorem join_is_final:
  assumes "sys_inv mem_abs mem_inv c sys" and "a < rl_next (sys_relay sys)"
    and "joined (rl_heap (sys_relay sys) a) = Some info"
  shows "joined (rl_heap (sys_relay (relay_run C mem_ops Mem_Sweep c js evs sys)) a) = Some info"
  using assms by (rule mem.run_joined)

definition sample_live_sys :: "memoryStore system" where
  "sample_live_sys =
     \<lparr>sys_relay = \<lparr>rl_store = NewMemoryStore, rl_heap = (\<lambda>_. sample_live), rl_sessions = [sample_id \<mapsto> 0], rl_next = 1\<rparr>,
      sys_tasks = [3 \<mapsto> PollTask sample_id 0 ''jobs'' (5 * second) False]\<rparr>"

lemma sample_live_sys_inv: "sys_inv mem_abs mem_inv DefaultCaps sample_live_sys"
proof -
  have "live_inv (QueueLength DefaultCaps) sample_live"
    by (simp add: sample_live_def new_live_def live_inv_def queue_inv_init)
  moreover have "mem_abs NewMemoryStore i = None" for i by (simp add: mem_abs_def NewMemoryStore_def)
  moreover have "\<not> gone sample_live" by (simp add: sample_live_def new_live_def)
  ultimately have "relay_inv mem_abs mem_inv DefaultCaps (sys_relay sample_live_sys)"
    by (simp add: relay_inv_def sample_live_sys_def registry_ok_def entry_ok_def mem_inv_new sample_id_def)
  then show ?thesis
    by (simp add: sys_inv_def) (simp add: sample_live_sys_def task_ok_def sample_id_def)
qed

theorem join_is_final_witness:
  "joined (rl_heap (sys_relay (relay_run toy_crypto mem_ops Mem_Sweep DefaultCaps no_decoders
     [SweepHandler 200 [sample_id]] sample_live_sys)) 0) = Some sample_join"
proof -
  have "0 < rl_next (sys_relay sample_live_sys)" "joined (rl_heap (sys_relay sample_live_sys) 0) = Some sample_join"
    by (simp_all add: sample_live_sys_def sample_live_def)
  from join_is_final [OF sample_live_sys_inv this] show ?thesis .
qed

text \<open>
  Polls end and do no harm: an iteration whose timer has fired, that does not wait, or whose client
  has gone never waits again; a poll whose client has gone takes nothing; a poll of an object that is
  gone or expired is answered 404; and a poll that outlived its session leaves the store and the
  registry, in particular a replacement session under the same identifier, alone.
\<close>

lemma poll_ends:
  "(timedOut \<or> wait = 0 \<or> cancelled \<longrightarrow> (\<forall>t. fst (poll_iter ops now cancelled i a kind wait timedOut st) \<noteq> Wait t)) \<and>
   (cancelled \<longrightarrow> poll_iter ops now cancelled i a kind wait timedOut st = (Abandoned, st)) \<and>
   (\<not> cancelled \<and> (gone (rl_heap st a) \<or> expired now (live_expiresAt (rl_heap st a))) \<longrightarrow>
     fst (poll_iter ops now cancelled i a kind wait timedOut st) = Done not_found) \<and>
   (rl_sessions st i \<noteq> Some a \<longrightarrow>
     rl_store (snd (poll_iter ops now cancelled i a kind wait timedOut st)) = rl_store st \<and>
     rl_sessions (snd (poll_iter ops now cancelled i a kind wait timedOut st)) = rl_sessions st)"
proof (intro conjI impI)
  assume "timedOut \<or> wait = 0 \<or> cancelled"
  then show "\<forall>t. fst (poll_iter ops now cancelled i a kind wait timedOut st) \<noteq> Wait t"
    by (cases "poll_iter ops now cancelled i a kind wait timedOut st") (auto dest: poll_iter_wait)
qed (auto simp: poll_iter_def Let_def split: prod.splits)

lemma poll_ends_witness:
  "rl_store (snd (poll_iter mem_ops 200 False sample_id 1 ''jobs'' 0 False (sys_relay sample_live_sys))) = NewMemoryStore"
proof -
  have "rl_sessions (sys_relay sample_live_sys) sample_id \<noteq> Some 1" by (simp add: sample_live_sys_def)
  with poll_ends [of False 0 False mem_ops 200 sample_id 1 "''jobs''" "sys_relay sample_live_sys"]
  have "rl_store (snd (poll_iter mem_ops 200 False sample_id 1 ''jobs'' 0 False (sys_relay sample_live_sys)))
      = rl_store (sys_relay sample_live_sys)" by blast
  then show ?thesis by (simp add: sample_live_sys_def)
qed

text \<open>What one pass over the registry does to an entry, whatever the other entries are.\<close>

lemma sweep_registry:
  "rl_sessions (Handler_Sweep ops now order st) i =
     (case rl_sessions st i of
        None \<Rightarrow> None
      | Some a \<Rightarrow> if i \<in> set order \<and> expired now (live_expiresAt (rl_heap st a)) then None else Some a)"
proof -
  have [simp]: "live_expiresAt (drop_live l) = live_expiresAt l" for l by (simp add: drop_live_def notify_def)
  have e: "live_expiresAt (rl_heap (sweep_one ops now j s) a) = live_expiresAt (rl_heap s a)" for j s a
    by (simp add: sweep_one_def split: option.split)
  show ?thesis
    unfolding Handler_Sweep_def
    by (induction order arbitrary: st) (auto simp: e sweep_one_def split: option.split)
qed

lemma sweep_object:
  assumes "rl_sessions st i = Some a" and "\<And>j. rl_sessions st j = Some a \<Longrightarrow> j = i"
  shows "rl_heap (Handler_Sweep ops now order st) a =
    (if i \<in> set order \<and> expired now (live_expiresAt (rl_heap st a)) then drop_live (rl_heap st a) else rl_heap st a)"
proof -
  have off: "rl_heap (Handler_Sweep ops now order s) a = rl_heap s a"
    if "\<And>j. rl_sessions s j \<noteq> Some a" for s order
    using that unfolding Handler_Sweep_def
    by (induction order arbitrary: s) (auto simp: sweep_one_def split: option.split)
  show ?thesis
    using assms
  proof (induction order arbitrary: st)
    case Nil
    show ?case by (simp add: Handler_Sweep_def)
  next
    case (Cons j order)
    show ?case
    proof (cases "j = i \<and> expired now (live_expiresAt (rl_heap st a))")
      case True
      then have one: "sweep_one ops now j st = delete_and_drop ops i st" using Cons.prems(1) by (simp add: sweep_one_def)
      have "rl_heap (Handler_Sweep ops now order (delete_and_drop ops i st)) a = rl_heap (delete_and_drop ops i st) a"
        using Cons.prems(2) by (intro off) auto
      then show ?thesis using True Cons.prems(1) one by (simp add: Handler_Sweep_def)
    next
      case False
      have "sweep_one ops now j st = st \<or> (j \<noteq> i \<and> sweep_one ops now j st = delete_and_drop ops j st)"
        using False Cons.prems(1) by (auto simp: sweep_one_def split: option.splits)
      moreover have "rl_sessions st j \<noteq> Some a" if "j \<noteq> i" using Cons.prems(2) [of j] that by blast
      ultimately have s: "rl_sessions (sweep_one ops now j st) i = Some a"
        and h: "rl_heap (sweep_one ops now j st) a = rl_heap st a"
        and "rl_sessions (sweep_one ops now j st) k = Some a \<Longrightarrow> rl_sessions st k = Some a" for k
        using Cons.prems(1) by (auto split: if_splits)
      from this(3) have u: "k = i" if "rl_sessions (sweep_one ops now j st) k = Some a" for k
        using that by (intro Cons.prems(2))
      have "Handler_Sweep ops now (j # order) st = Handler_Sweep ops now order (sweep_one ops now j st)"
        by (simp add: Handler_Sweep_def)
      then show ?thesis using Cons.IH [OF s u] False h by auto
    qed
  qed
qed

text \<open>
  The handler's sweep removes exactly the expired live sessions, in whatever order the map is
  visited: an unexpired session stays registered to the same object, and an expired one is
  unregistered and its object marked as gone and its waiting polls notified.
\<close>

lemma Handler_Sweep_exact:
  assumes "set order = dom (rl_sessions st)" and "rl_sessions st i = Some a"
    and "\<And>j. rl_sessions st j = Some a \<Longrightarrow> j = i"
  shows "if expired now (live_expiresAt (rl_heap st a))
    then rl_sessions (Handler_Sweep ops now order st) i = None \<and>
         gone (rl_heap (Handler_Sweep ops now order st) a) \<and>
         rl_heap (Handler_Sweep ops now order st) a = drop_live (rl_heap st a)
    else rl_sessions (Handler_Sweep ops now order st) i = Some a \<and>
         rl_heap (Handler_Sweep ops now order st) a = rl_heap st a"
proof -
  have "i \<in> set order" using assms(1,2) by auto
  moreover have "rl_heap (Handler_Sweep ops now order st) a =
      (if i \<in> set order \<and> expired now (live_expiresAt (rl_heap st a)) then drop_live (rl_heap st a) else rl_heap st a)"
    by (rule sweep_object [OF assms(2,3)])
  moreover have "gone (drop_live l)" for l by (simp add: drop_live_def notify_def)
  ultimately show ?thesis using assms(2) by (simp add: sweep_registry)
qed

lemma Handler_Sweep_exact_witness:
  "rl_sessions (Handler_Sweep mem_ops 200 [sample_id] (sys_relay sample_live_sys)) sample_id = None"
proof -
  have "set [sample_id] = dom (rl_sessions (sys_relay sample_live_sys))"
    "rl_sessions (sys_relay sample_live_sys) sample_id = Some 0"
    "\<And>j. rl_sessions (sys_relay sample_live_sys) j = Some 0 \<Longrightarrow> j = sample_id"
    by (auto simp: sample_live_sys_def split: if_splits)
  from Handler_Sweep_exact [OF this, of 200 mem_ops] show ?thesis
    by (simp add: sample_live_sys_def sample_live_def new_live_def expired_def)
qed

end
