(* ===== verification/Dir_Store.thy ===== *)
theory Dir_Store
  imports Relay_Store
begin

text \<open>
  The relay's store on a directory (\<^verbatim>\<open>relay/dir.go\<close>). The file system below the store's root is an
  association list from paths (lists of names) to nodes; the operations are those of \<^verbatim>\<open>os.Root\<close> that the
  code calls, with the errors it distinguishes. Disk faults are not modelled. A JSON file holds the
  record it encodes. The name of a temporary file is random: it is an argument, and nothing is assumed
  of it. Each method is one step.
\<close>

section \<open>Files\<close>

datatype content = Raw bytes | MetaJSON sessionMeta
datatype node = Directory | File content
datatype fs_error = NotExist | Exist | OtherError string

type_synonym path = "string list"
type_synonym fs = "(path \<times> node) list"

definition fs_lookup :: "fs \<Rightarrow> path \<Rightarrow> node option" where
  "fs_lookup f p = (if p = [] then Some Directory else map_of f p)"

definition fs_add :: "path \<Rightarrow> node \<Rightarrow> fs \<Rightarrow> fs_error option \<times> fs" where
  "fs_add p n f =
     (if fs_lookup f p \<noteq> None then (Some Exist, f)
      else if fs_lookup f (butlast p) \<noteq> Some Directory then (Some NotExist, f)
      else (None, (p, n) # f))"

definition fs_mkdir :: "path \<Rightarrow> fs \<Rightarrow> fs_error option \<times> fs" where
  "fs_mkdir p f = fs_add p Directory f"

definition fs_link :: "path \<Rightarrow> path \<Rightarrow> fs \<Rightarrow> fs_error option \<times> fs" where
  "fs_link old p f =
     (case fs_lookup f old of
        Some (File c) \<Rightarrow> fs_add p (File c) f
      | Some Directory \<Rightarrow> (Some (OtherError ''is a directory''), f)
      | None \<Rightarrow> (Some NotExist, f))"

definition fs_remove :: "path \<Rightarrow> fs \<Rightarrow> fs" where
  "fs_remove p f = filter (\<lambda>(q, _). q \<noteq> p) f"

definition fs_remove_all :: "path \<Rightarrow> fs \<Rightarrow> fs" where
  "fs_remove_all p f = filter (\<lambda>(q, _). take (length p) q \<noteq> p) f"

definition fs_read :: "path \<Rightarrow> fs \<Rightarrow> fs_error + content" where
  "fs_read p f =
     (case fs_lookup f p of
        None \<Rightarrow> Inl NotExist
      | Some Directory \<Rightarrow> Inl (OtherError ''is a directory'')
      | Some (File c) \<Rightarrow> Inr c)"

definition fs_readdir :: "path \<Rightarrow> fs \<Rightarrow> fs_error + (string \<times> node) list" where
  "fs_readdir p f =
     (case fs_lookup f p of
        None \<Rightarrow> Inl NotExist
      | Some (File _) \<Rightarrow> Inl (OtherError ''not a directory'')
      | Some Directory \<Rightarrow> Inr (map (\<lambda>(q, n). (last q, n)) (filter (\<lambda>(q, _). q \<noteq> [] \<and> butlast q = p) f)))"

section \<open>The store\<close>

definition dirError :: "fs_error \<Rightarrow> store_error" where
  "dirError e = (case e of NotExist \<Rightarrow> ErrNotFound | Exist \<Rightarrow> ErrExists | OtherError m \<Rightarrow> ErrOther m)"

text \<open>An error of the file system returned as it is, neither of the store's own two errors.\<close>

definition rawError :: "fs_error \<Rightarrow> store_error" where
  "rawError e = ErrOther (case e of NotExist \<Rightarrow> ''no such file or directory'' | Exist \<Rightarrow> ''file exists'' | OtherError m \<Rightarrow> m)"

definition writeOnce :: "string \<Rightarrow> path \<Rightarrow> content \<Rightarrow> fs \<Rightarrow> store_error option \<times> fs" where
  "writeOnce rnd p body f =
     (let tmp = butlast p @ [''.tmp-'' @ rnd] in
      case fs_add tmp (File body) f of
        (Some e, f') \<Rightarrow> (Some (dirError e), f')
      | (None, f1) \<Rightarrow>
          (case fs_link tmp p f1 of (r, f2) \<Rightarrow> (map_option dirError r, fs_remove tmp f2)))"

definition Dir_CreateSession :: "string \<Rightarrow> fs \<Rightarrow> sessionID \<Rightarrow> sessionMeta \<Rightarrow> store_error option \<times> fs" where
  "Dir_CreateSession rnd f i meta =
     (let dir = SessionID_String i in
      case fs_mkdir [dir] f of
        (Some e, f1) \<Rightarrow> (Some (dirError e), f1)
      | (None, f1) \<Rightarrow>
          (case writeOnce rnd [dir, ''meta.json'']
                  (MetaJSON (meta\<lparr>ChunksStored := 0, ManifestStored := False\<rparr>)) f1 of
             (Some e, f2) \<Rightarrow> (Some e, f2)
           | (None, f2) \<Rightarrow>
               (case fs_mkdir [dir, ''chunks''] f2 of
                  (Some e, f3) \<Rightarrow> (Some (rawError e), f3)
                | (None, f3) \<Rightarrow> (None, f3))))"

definition readMeta :: "fs \<Rightarrow> sessionID \<Rightarrow> store_error + sessionMeta" where
  "readMeta f i =
     (case fs_read [SessionID_String i, ''meta.json''] f of
        Inl e \<Rightarrow> Inl (dirError e)
      | Inr (MetaJSON m) \<Rightarrow> Inr m
      | Inr (Raw _) \<Rightarrow> Inl (ErrOther ''invalid JSON''))"

text \<open>The loop that counts the chunk files with a valid index.\<close>

fun count_chunks :: "u32 \<Rightarrow> string list \<Rightarrow> u32 \<Rightarrow> u32" where
  "count_chunks count [] stored = stored"
| "count_chunks count (name # names) stored =
     count_chunks count names
       (case parse_uint 64 name of
          None \<Rightarrow> stored
        | Some index \<Rightarrow> if (of_nat index :: u64) < ucast count then stored + 1 else stored)"

definition Dir_Session :: "fs \<Rightarrow> sessionID \<Rightarrow> store_error + sessionMeta" where
  "Dir_Session f i =
     (case readMeta f i of
        Inl e \<Rightarrow> Inl e
      | Inr meta \<Rightarrow>
          (case fs_readdir [SessionID_String i, ''chunks''] f of
             Inl e \<Rightarrow> Inl (dirError e)
           | Inr chunks \<Rightarrow>
               Inr (meta\<lparr>ChunksStored := count_chunks (meta_ChunkCount meta) (map fst chunks) (ChunksStored meta),
                         ManifestStored := fs_lookup f [SessionID_String i, ''manifest''] \<noteq> None\<rparr>)))"

definition Dir_PutChunk :: "string \<Rightarrow> fs \<Rightarrow> sessionID \<Rightarrow> u64 \<Rightarrow> bytes \<Rightarrow> store_error option \<times> fs" where
  "Dir_PutChunk rnd f i index ciphertext =
     (case readMeta f i of
        Inl e \<Rightarrow> (Some e, f)
      | Inr meta \<Rightarrow>
          if index \<ge> ucast (meta_ChunkCount meta) then (Some ErrNotFound, f)
          else writeOnce rnd [SessionID_String i, ''chunks'', show_nat (unat index)] (Raw ciphertext) f)"

text \<open>Reading a ciphertext file.\<close>

definition read_raw :: "path \<Rightarrow> fs \<Rightarrow> store_error + bytes" where
  "read_raw p f =
     (case fs_read p f of
        Inl e \<Rightarrow> Inl (dirError e)
      | Inr (Raw b) \<Rightarrow> Inr b
      | Inr (MetaJSON _) \<Rightarrow> Inl (ErrOther ''metadata''))"

definition Dir_GetChunk :: "fs \<Rightarrow> sessionID \<Rightarrow> u64 \<Rightarrow> store_error + bytes" where
  "Dir_GetChunk f i index =
     (case readMeta f i of
        Inl e \<Rightarrow> Inl e
      | Inr meta \<Rightarrow>
          if index \<ge> ucast (meta_ChunkCount meta) then Inl ErrNotFound
          else read_raw [SessionID_String i, ''chunks'', show_nat (unat index)] f)"

definition Dir_PutManifest :: "string \<Rightarrow> fs \<Rightarrow> sessionID \<Rightarrow> bytes \<Rightarrow> store_error option \<times> fs" where
  "Dir_PutManifest rnd f i ciphertext =
     (case readMeta f i of
        Inl e \<Rightarrow> (Some e, f)
      | Inr _ \<Rightarrow> writeOnce rnd [SessionID_String i, ''manifest''] (Raw ciphertext) f)"

definition Dir_GetManifest :: "fs \<Rightarrow> sessionID \<Rightarrow> store_error + bytes" where
  "Dir_GetManifest f i =
     (case readMeta f i of
        Inl e \<Rightarrow> Inl e
      | Inr _ \<Rightarrow> read_raw [SessionID_String i, ''manifest''] f)"

definition Dir_DeleteSession :: "fs \<Rightarrow> sessionID \<Rightarrow> store_error option \<times> fs" where
  "Dir_DeleteSession f i =
     (if fs_lookup f [SessionID_String i] = None then (Some ErrNotFound, f)
      else (None, fs_remove_all [SessionID_String i] f))"

text \<open>The loop of \<^verbatim>\<open>Sweep\<close> over the entries of the root: sessions deleted, sessions alive, files left.\<close>

fun sweep_entries :: "time \<Rightarrow> (string \<times> node) list \<Rightarrow> nat \<times> nat \<times> fs \<Rightarrow> nat \<times> nat \<times> fs" where
  "sweep_entries now [] st = st"
| "sweep_entries now ((name, n) # es) (deleted, live, f) =
     sweep_entries now es
       (case ParseSessionID name of
          None \<Rightarrow> (deleted, live, f)
        | Some i \<Rightarrow>
            if n \<noteq> Directory then (deleted, live, f)
            else (case readMeta f i of
                    Inl _ \<Rightarrow> (deleted, live, f)
                  | Inr meta \<Rightarrow>
                      if now < ExpiresAt meta then (deleted, live + 1, f)
                      else (deleted + 1, live, fs_remove_all [name] f)))"

definition Dir_Sweep :: "time \<Rightarrow> fs \<Rightarrow> nat \<times> nat \<times> fs" where
  "Dir_Sweep now f =
     (case fs_readdir [] f of
        Inl _ \<Rightarrow> (0, 0, f)
      | Inr entries \<Rightarrow> sweep_entries now entries (0, 0, f))"

definition dir_ops :: "string \<Rightarrow> fs store_ops" where
  "dir_ops rnd = \<lparr>op_CreateSession = Dir_CreateSession rnd, op_Session = Dir_Session, op_PutChunk = Dir_PutChunk rnd,
     op_GetChunk = Dir_GetChunk, op_PutManifest = Dir_PutManifest rnd, op_GetManifest = Dir_GetManifest,
     op_DeleteSession = Dir_DeleteSession\<rparr>"

section \<open>Abstraction\<close>

text \<open>The session a directory holds, and the node a path must have for the sessions to be these.\<close>

definition raw_of :: "node option \<Rightarrow> bytes option" where
  "raw_of n = (case n of Some (File (Raw b)) \<Rightarrow> Some b | _ \<Rightarrow> None)"

definition dir_abs :: "fs \<Rightarrow> aspec" where
  "dir_abs f i =
     (if length i \<noteq> 16 then None
      else (case map_of f [SessionID_String i, ''meta.json''] of
              Some (File (MetaJSON m)) \<Rightarrow>
                Some \<lparr>as_meta = m,
                      as_chunks = (\<lambda>k. raw_of (map_of f [SessionID_String i, ''chunks'', show_nat k])),
                      as_manifest = raw_of (map_of f [SessionID_String i, ''manifest''])\<rparr>
            | _ \<Rightarrow> None))"

definition index_of :: "string \<Rightarrow> nat option" where
  "index_of x = (case parse_digits x of None \<Rightarrow> None | Some k \<Rightarrow> if show_nat k = x then Some k else None)"

definition session_node :: "asession \<Rightarrow> path \<Rightarrow> node option" where
  "session_node a p =
     (case p of
        [] \<Rightarrow> Some Directory
      | [x] \<Rightarrow>
          if x = ''meta.json'' then Some (File (MetaJSON (as_meta a)))
          else if x = ''chunks'' then Some Directory
          else if x = ''manifest'' then map_option (\<lambda>b. File (Raw b)) (as_manifest a)
          else None
      | [d, x] \<Rightarrow>
          if d \<noteq> ''chunks'' then None
          else (case index_of x of None \<Rightarrow> None | Some k \<Rightarrow> map_option (\<lambda>b. File (Raw b)) (as_chunks a k))
      | _ \<Rightarrow> None)"

definition node_of :: "aspec \<Rightarrow> path \<Rightarrow> node option" where
  "node_of S p =
     (case p of
        [] \<Rightarrow> None
      | s # rest \<Rightarrow>
          (case ParseSessionID s of
             None \<Rightarrow> None
           | Some i \<Rightarrow> (case S i of None \<Rightarrow> None | Some a \<Rightarrow> session_node a rest)))"

definition asession_ok :: "asession \<Rightarrow> bool" where
  "asession_ok a \<longleftrightarrow> ChunksStored (as_meta a) = 0 \<and> \<not> ManifestStored (as_meta a) \<and>
     (\<forall>k. as_chunks a k \<noteq> None \<longrightarrow> k < unat (meta_ChunkCount (as_meta a)))"

definition dir_inv :: "fs \<Rightarrow> bool" where
  "dir_inv f \<longleftrightarrow> distinct (map fst f) \<and> map_of f = node_of (dir_abs f) \<and>
     (\<forall>i a. dir_abs f i = Some a \<longrightarrow> asession_ok a)"

lemma map_of_filter_keys: "map_of (filter (\<lambda>(q, _). P q) f) p = (if P p then map_of f p else None)"
  by (induction f) auto

lemma index_of_show [simp]: "index_of (show_nat k) = Some k"
  by (simp add: index_of_def)

lemma index_of_Some: "index_of x = Some k \<longleftrightarrow> x = show_nat k"
  by (auto simp: index_of_def split: option.splits if_splits)

lemma ParseSessionID_iff: "ParseSessionID s = Some i \<longleftrightarrow> length i = 16 \<and> s = SessionID_String i"
  using ParseSessionID_Some ParseSessionID_String by blast

lemma SessionID_String_inj: "length i = 16 \<Longrightarrow> length j = 16 \<Longrightarrow> SessionID_String i = SessionID_String j \<longleftrightarrow> i = j"
  by (metis ParseSessionID_String option.inject)

lemma node_of_session [simp]:
  "length i = 16 \<Longrightarrow> node_of S (SessionID_String i # rest) = (case S i of None \<Rightarrow> None | Some a \<Rightarrow> session_node a rest)"
  by (simp add: node_of_def ParseSessionID_String)

lemma node_of_Nil [simp]: "node_of S [] = None"
  by (simp add: node_of_def)

lemma node_of_other: "s \<noteq> SessionID_String i \<Longrightarrow> node_of (S(i := v)) (s # rest) = node_of S (s # rest)"
proof (cases "ParseSessionID s")
  case (Some j)
  moreover assume "s \<noteq> SessionID_String i"
  ultimately have "j \<noteq> i" by (auto simp: ParseSessionID_iff)
  with Some show ?thesis by (simp add: node_of_def)
qed (simp add: node_of_def)

text \<open>The invariant is that some well-formed set of sessions determines every node.\<close>

lemma raw_of_simps [simp]: "raw_of None = None" "raw_of (Some (File (Raw b))) = Some b"
  "raw_of (map_option (\<lambda>b. File (Raw b)) x) = x"
  by (cases x; simp add: raw_of_def)+

lemma dir_abs_node_of:
  assumes "map_of f = node_of S" and "\<And>i. length i \<noteq> 16 \<Longrightarrow> S i = None"
  shows "dir_abs f = S"
proof
  fix i show "dir_abs f i = S i"
  proof (cases "length i = 16")
    case True
    with assms(1) show ?thesis by (cases "S i") (simp_all add: dir_abs_def session_node_def)
  qed (simp add: assms(2) dir_abs_def)
qed

lemma dir_invI:
  assumes "distinct (map fst f)" and "map_of f = node_of S" and "\<And>i. length i \<noteq> 16 \<Longrightarrow> S i = None"
    and "\<And>i a. S i = Some a \<Longrightarrow> asession_ok a"
  shows "dir_inv f" and "dir_abs f = S"
  using dir_abs_node_of [OF assms(2,3)] assms by (auto simp: dir_inv_def)

lemma dir_invD:
  assumes "dir_inv f"
  shows "distinct (map fst f)" and "map_of f p = node_of (dir_abs f) p" and "dir_abs f i = Some a \<Longrightarrow> asession_ok a"
    and "length j \<noteq> 16 \<Longrightarrow> dir_abs f j = None"
  using assms by (auto simp: dir_inv_def dir_abs_def)

section \<open>Writing a file once\<close>

lemma not_digit_names:
  "index_of (''.tmp-'' @ x) = None" "show_nat k \<noteq> ''.tmp-'' @ x" "show_nat k \<noteq> ''''"
proof -
  show "index_of (''.tmp-'' @ x) = None" by (simp add: index_of_def parse_digits_def is_digit_def)
  then show "show_nat k \<noteq> ''.tmp-'' @ x" by (metis index_of_show option.distinct(1))
qed simp

lemma writeOnce_eq:
  assumes "map_of f (butlast p @ [''.tmp-'' @ rnd]) = None" and "fs_lookup f (butlast p) = Some Directory"
    and "p \<noteq> []" and "last p \<noteq> ''.tmp-'' @ rnd"
  shows "writeOnce rnd p body f =
    (if map_of f p = None then (None, (p, File body) # f) else (Some ErrExists, f))"
proof -
  define tmp where "tmp = butlast p @ [''.tmp-'' @ rnd]"
  have ne: "p \<noteq> tmp" using assms(3,4) unfolding tmp_def by (metis last_snoc)
  have tmp: "tmp \<noteq> []" "butlast tmp = butlast p" "butlast p \<noteq> tmp" "map_of f tmp = None"
    using assms(1) by (simp_all add: tmp_def)
  have rem: "fs_remove tmp f = f"
    using tmp(4) by (force simp: fs_remove_def filter_id_conv map_of_eq_None_iff)
  have add: "fs_add tmp (File body) f = (None, (tmp, File body) # f)"
    using assms(2) tmp by (simp add: fs_add_def fs_lookup_def [of _ tmp])
  have look: "fs_lookup ((tmp, File body) # f) p = map_of f p" "fs_lookup ((tmp, File body) # f) (butlast p) = Some Directory"
    "fs_lookup ((tmp, File body) # f) tmp = Some (File body)"
    using assms(2,3) ne tmp by (auto simp: fs_lookup_def)
  have link: "fs_link tmp p ((tmp, File body) # f) =
      (if map_of f p = None then (None, (p, File body) # (tmp, File body) # f) else (Some Exist, (tmp, File body) # f))"
    by (simp add: fs_link_def look fs_add_def)
  have "fs_remove tmp ((p, File body) # (tmp, File body) # f) = (p, File body) # f"
    "fs_remove tmp ((tmp, File body) # f) = f"
    using rem ne by (simp_all add: fs_remove_def)
  with add link show ?thesis
    unfolding writeOnce_def Let_def tmp_def [symmetric] by (simp add: dirError_def)
qed

section \<open>Refinement\<close>

lemma readMeta_eq:
  assumes "dir_inv f" and "length i = 16"
  shows "readMeta f i = (case dir_abs f i of None \<Rightarrow> Inl ErrNotFound | Some a \<Rightarrow> Inr (as_meta a))"
  using dir_invD(2) [OF assms(1)] assms(2)
  by (simp add: readMeta_def fs_read_def fs_lookup_def session_node_def dirError_def split: option.split)

lemma dir_create:
  assumes "dir_inv f" and "length i = 16"
  shows "refines_op dir_abs dir_inv (Dir_CreateSession rnd f i m) (spec_create (dir_abs f) i m)"
proof (cases "dir_abs f i")
  case (Some a)
  with assms dir_invD(2) [OF assms(1)] show ?thesis
    by (simp add: refines_op_def Dir_CreateSession_def spec_create_def fs_mkdir_def fs_add_def fs_lookup_def
        session_node_def dirError_def)
next
  case None
  let ?s = "SessionID_String i"
  let ?m = "m\<lparr>ChunksStored := 0, ManifestStored := False\<rparr>"
  let ?f1 = "([?s], Directory) # f"
  let ?f2 = "([?s, ''meta.json''], File (MetaJSON ?m)) # ?f1"
  let ?f3 = "([?s, ''chunks''], Directory) # ?f2"
  let ?S = "(dir_abs f)(i \<mapsto> fresh_session m)"
  have old: "map_of f (?s # rest) = None" for rest
    using dir_invD(2) [OF assms(1)] assms(2) None by simp
  have w: "writeOnce rnd [?s, ''meta.json''] (MetaJSON ?m) ?f1 = (None, ?f2)"
    by (subst writeOnce_eq) (simp_all add: old fs_lookup_def)
  have "Dir_CreateSession rnd f i m = (None, ?f3)"
    using w by (simp add: Dir_CreateSession_def Let_def fs_mkdir_def fs_add_def fs_lookup_def old)
  moreover have "dir_inv ?f3" "dir_abs ?f3 = ?S"
  proof -
    have d: "distinct (map fst ?f3)"
      using dir_invD(1) [OF assms(1)] old by (auto simp: map_of_eq_None_iff image_iff)
    have "map_of ?f3 p = node_of ?S p" for p
    proof (cases p)
      case (Cons s rest)
      show ?thesis
      proof (cases "s = ?s")
        case True
        have "session_node (fresh_session m) rest =
            (if rest = [] \<or> rest = [''chunks''] then Some Directory
             else if rest = [''meta.json''] then Some (File (MetaJSON ?m)) else None)"
          by (auto simp: session_node_def fresh_session_def split: list.split option.split)
        with True Cons old assms(2) show ?thesis by auto
      next
        case False
        with Cons dir_invD(2) [OF assms(1), of p] show ?thesis by (simp add: node_of_other)
      qed
    qed (use old dir_invD(2) [OF assms(1), of "[]"] in simp)
    then have "map_of ?f3 = node_of ?S" by blast
    moreover have "?S j = None" if "length j \<noteq> 16" for j
      using that assms(2) dir_invD(4) [OF assms(1)] by auto
    moreover have "asession_ok a" if "?S j = Some a" for j a
      using that dir_invD(3) [OF assms(1)] by (auto simp: asession_ok_def fresh_session_def split: if_splits)
    ultimately show "dir_inv ?f3" "dir_abs ?f3 = ?S"
      using dir_invI [OF d] by blast+
  qed
  ultimately show ?thesis using None by (simp add: refines_op_def spec_create_def)
qed

text \<open>Adding one file to a session that exists.\<close>

lemma dir_write:
  assumes "dir_inv f" and "length i = 16" and "dir_abs f i = Some a" and "session_node a rest = None"
    and "session_node a' = (session_node a)(rest \<mapsto> n)" and "asession_ok a'"
  shows "dir_inv ((SessionID_String i # rest, n) # f)"
    and "dir_abs ((SessionID_String i # rest, n) # f) = (dir_abs f)(i \<mapsto> a')"
proof -
  let ?f = "(SessionID_String i # rest, n) # f"
  let ?S = "(dir_abs f)(i \<mapsto> a')"
  have "map_of f (SessionID_String i # rest) = None"
    using dir_invD(2) [OF assms(1)] assms(2-4) by simp
  then have d: "distinct (map fst ?f)" using dir_invD(1) [OF assms(1)] by (simp add: map_of_eq_None_iff)
  have "map_of ?f p = node_of ?S p" for p
  proof (cases p)
    case (Cons s r)
    have "map_of f (s # r) = node_of (dir_abs f) (s # r)" by (rule dir_invD(2) [OF assms(1)])
    with Cons assms(2,3,5) show ?thesis
      by (cases "s = SessionID_String i") (simp_all add: node_of_other)
  qed (use dir_invD(2) [OF assms(1), of "[]"] in simp)
  then have "map_of ?f = node_of ?S" by blast
  moreover have "?S j = None" if "length j \<noteq> 16" for j
    using that assms(2) dir_invD(4) [OF assms(1)] by auto
  moreover have "asession_ok b" if "?S j = Some b" for j b
    using that assms(6) dir_invD(3) [OF assms(1)] by (auto split: if_splits)
  ultimately show "dir_inv ?f" "dir_abs ?f = ?S" using dir_invI [OF d] by blast+
qed

lemma session_node_chunk:
  "session_node (a\<lparr>as_chunks := (as_chunks a)(k \<mapsto> b)\<rparr>) = (session_node a)([''chunks'', show_nat k] \<mapsto> File (Raw b))"
  by (rule ext) (auto simp: session_node_def index_of_Some split: list.split option.split)

lemma session_node_manifest:
  "session_node (a\<lparr>as_manifest := Some b\<rparr>) = (session_node a)([''manifest''] \<mapsto> File (Raw b))"
  by (rule ext) (auto simp: session_node_def split: list.split option.split)

lemma dir_putChunk:
  assumes "dir_inv f" and "length i = 16"
  shows "refines_op dir_abs dir_inv (Dir_PutChunk rnd f i index b) (spec_putChunk (dir_abs f) i index b)"
proof (cases "dir_abs f i")
  case None
  with assms show ?thesis by (simp add: refines_op_def Dir_PutChunk_def spec_putChunk_def readMeta_eq)
next
  case (Some a)
  let ?rest = "[''chunks'', show_nat (unat index)]"
  have f: "map_of f (SessionID_String i # r) = session_node a r" for r
    using dir_invD(2) [OF assms(1)] assms(2) Some by simp
  have w: "writeOnce rnd (SessionID_String i # ?rest) (Raw b) f =
      (if as_chunks a (unat index) = None then (None, (SessionID_String i # ?rest, File (Raw b)) # f) else (Some ErrExists, f))"
    by (subst writeOnce_eq) (simp_all add: f fs_lookup_def session_node_def not_digit_names [simplified])
  have ok: "asession_ok a" using dir_invD(3) [OF assms(1) Some] .
  show ?thesis
  proof (cases "index \<ge> ucast (meta_ChunkCount (as_meta a)) \<or> as_chunks a (unat index) \<noteq> None")
    case True
    with Some w assms show ?thesis
      by (auto simp: refines_op_def Dir_PutChunk_def spec_putChunk_def readMeta_eq)
  next
    case False
    then have "unat index < unat (meta_ChunkCount (as_meta a))" by (simp add: word_le_nat_alt)
    with ok have ok': "asession_ok (a\<lparr>as_chunks := (as_chunks a)(unat index \<mapsto> b)\<rparr>)"
      by (auto simp: asession_ok_def)
    have "session_node a ?rest = None" using False by (simp add: session_node_def)
    note w' = dir_write [OF assms Some this session_node_chunk ok']
    from False Some w w' assms show ?thesis
      by (simp add: refines_op_def Dir_PutChunk_def spec_putChunk_def readMeta_eq)
  qed
qed

lemma dir_putManifest:
  assumes "dir_inv f" and "length i = 16"
  shows "refines_op dir_abs dir_inv (Dir_PutManifest rnd f i b) (spec_putManifest (dir_abs f) i b)"
proof (cases "dir_abs f i")
  case None
  with assms show ?thesis by (simp add: refines_op_def Dir_PutManifest_def spec_putManifest_def readMeta_eq)
next
  case (Some a)
  have f: "map_of f (SessionID_String i # r) = session_node a r" for r
    using dir_invD(2) [OF assms(1)] assms(2) Some by simp
  have w: "writeOnce rnd [SessionID_String i, ''manifest''] (Raw b) f =
      (if as_manifest a = None then (None, ([SessionID_String i, ''manifest''], File (Raw b)) # f) else (Some ErrExists, f))"
    by (subst writeOnce_eq) (simp_all add: f fs_lookup_def session_node_def)
  show ?thesis
  proof (cases "as_manifest a")
    case None
    have "asession_ok (a\<lparr>as_manifest := Some b\<rparr>)" using dir_invD(3) [OF assms(1) Some] by (simp add: asession_ok_def)
    moreover have "session_node a [''manifest''] = None" using None by (simp add: session_node_def)
    ultimately show ?thesis using None Some w assms dir_write [OF assms Some _ session_node_manifest]
      by (simp add: refines_op_def Dir_PutManifest_def spec_putManifest_def readMeta_eq)
  next
    case (Some c)
    with \<open>dir_abs f i = Some a\<close> w assms show ?thesis
      by (simp add: refines_op_def Dir_PutManifest_def spec_putManifest_def readMeta_eq)
  qed
qed

lemma dir_remove:
  assumes "dir_inv f" and "length i = 16"
  shows "dir_inv (fs_remove_all [SessionID_String i] f)"
    and "dir_abs (fs_remove_all [SessionID_String i] f) = (dir_abs f)(i := None)"
proof -
  let ?f = "fs_remove_all [SessionID_String i] f"
  let ?S = "(dir_abs f)(i := None)"
  have d: "distinct (map fst ?f)"
    using dir_invD(1) [OF assms(1)] by (simp add: fs_remove_all_def distinct_map_filter)
  have "map_of ?f p = node_of ?S p" for p
  proof (cases p)
    case (Cons s rest)
    then show ?thesis using dir_invD(2) [OF assms(1), of p] assms(2) unfolding fs_remove_all_def map_of_filter_keys
      by (cases "s = SessionID_String i") (simp_all add: node_of_other)
  qed (use dir_invD(2) [OF assms(1), of "[]"] in \<open>simp add: fs_remove_all_def map_of_filter_keys\<close>)
  then have "map_of ?f = node_of ?S" by blast
  moreover have "?S j = None" if "length j \<noteq> 16" for j using that dir_invD(4) [OF assms(1)] by simp
  moreover have "asession_ok b" if "?S j = Some b" for j b
    using that dir_invD(3) [OF assms(1)] by (auto split: if_splits)
  ultimately show "dir_inv ?f" "dir_abs ?f = ?S" using dir_invI [OF d] by blast+
qed

lemma dir_delete:
  assumes "dir_inv f" and "length i = 16"
  shows "refines_op dir_abs dir_inv (Dir_DeleteSession f i) (spec_delete (dir_abs f) i)"
  using dir_invD(2) [OF assms(1), of "[SessionID_String i]"] assms dir_remove [OF assms]
  by (cases "dir_abs f i")
    (simp_all add: refines_op_def Dir_DeleteSession_def spec_delete_def fs_lookup_def session_node_def)

section \<open>Reading a session\<close>

lemma count_chunks_all:
  assumes "\<forall>x \<in> set names. \<exists>k. x = show_nat k \<and> k < unat count"
  shows "count_chunks count names s = s + of_nat (length names)"
  using assms
proof (induction names arbitrary: s)
  case (Cons x names)
  then obtain k where x: "x = show_nat k" and k: "k < unat count" by auto
  from k unat_u32_less [of count] have "k < 2 ^ 32" by simp
  then have "(of_nat k :: u64) < ucast count" "k < 2 ^ 64" using k by (simp_all add: word_less_nat_alt)
  with Cons x show ?case by (simp add: parse_uint_show add.assoc)
qed simp

lemma chunk_names:
  assumes "dir_inv f" and "length i = 16" and "dir_abs f i = Some a"
  defines "es \<equiv> filter (\<lambda>(q, _). q \<noteq> [] \<and> butlast q = [SessionID_String i, ''chunks'']) f"
  shows "set (map (last \<circ> fst) es) = show_nat ` dom (as_chunks a)" and "distinct (map (last \<circ> fst) es)"
proof -
  let ?q = "\<lambda>x. [SessionID_String i, ''chunks'', x]"
  have node: "map_of f (?q x) = session_node a [''chunks'', x]" for x
    using dir_invD(2) [OF assms(1)] assms(2,3) by simp
  have q: "q = ?q (last q)" if "q \<noteq> []" "butlast q = [SessionID_String i, ''chunks'']" for q
    using append_butlast_last_id [OF that(1)] that(2) by simp
  have d: "distinct (map fst f)" using dir_invD(1) [OF assms(1)] .
  show "set (map (last \<circ> fst) es) = show_nat ` dom (as_chunks a)"
  proof (intro equalityI subsetI)
    fix x assume "x \<in> set (map (last \<circ> fst) es)"
    then obtain p n where e: "(p, n) \<in> set f" "p \<noteq> []" "butlast p = [SessionID_String i, ''chunks'']" "x = last p"
      by (auto simp: es_def)
    with q have "map_of f (?q x) = Some n" using d by (metis map_of_is_SomeI)
    with node show "x \<in> show_nat ` dom (as_chunks a)"
      by (auto simp: session_node_def index_of_Some split: option.splits)
  next
    fix x assume "x \<in> show_nat ` dom (as_chunks a)"
    then obtain k b where x: "x = show_nat k" "as_chunks a k = Some b" by auto
    with node have "map_of f (?q x) = Some (File (Raw b))" by (simp add: session_node_def)
    then have "(?q x, File (Raw b)) \<in> set es" by (simp add: es_def map_of_SomeD)
    then show "x \<in> set (map (last \<circ> fst) es)" by (force simp: image_iff)
  qed
  have "inj_on last (set (map fst es))"
  proof (rule inj_onI)
    fix p r assume "p \<in> set (map fst es)" "r \<in> set (map fst es)" and l: "last p = last r"
    then have "p \<noteq> []" "r \<noteq> []" "butlast p = butlast r" by (auto simp: es_def)
    with l show "p = r" by (metis append_butlast_last_id)
  qed
  moreover have "distinct (map fst es)" using d by (simp add: es_def distinct_map_filter)
  ultimately show "distinct (map (last \<circ> fst) es)" by (simp add: distinct_map flip: map_map)
qed

lemma dir_session:
  assumes "dir_inv f" and "length i = 16"
  shows "Dir_Session f i = spec_session (dir_abs f) i"
proof (cases "dir_abs f i")
  case None
  with assms show ?thesis by (simp add: Dir_Session_def spec_session_def readMeta_eq)
next
  case (Some a)
  let ?names = "map (last \<circ> fst) (filter (\<lambda>(q, _). q \<noteq> [] \<and> butlast q = [SessionID_String i, ''chunks'']) f)"
  have node: "map_of f (SessionID_String i # r) = session_node a r" for r
    using dir_invD(2) [OF assms(1)] assms(2) Some by simp
  have ok: "asession_ok a" using dir_invD(3) [OF assms(1) Some] .
  note n = chunk_names [OF assms Some]
  have "count_chunks (meta_ChunkCount (as_meta a)) ?names 0 = of_nat (length ?names)"
    using n(1) ok by (subst count_chunks_all) (auto simp: asession_ok_def)
  also have "length ?names = card (dom (as_chunks a))"
    using n distinct_card [OF n(2)] card_image [of show_nat "dom (as_chunks a)"]
    by (simp add: inj_on_def show_nat_inj)
  finally have c: "count_chunks (meta_ChunkCount (as_meta a)) ?names 0 = of_nat (card (dom (as_chunks a)))" .
  have "fst \<circ> (\<lambda>(q :: path, n :: node). (last q, n)) = last \<circ> fst" by (simp add: fun_eq_iff)
  with c Some assms ok show ?thesis
    by (simp add: Dir_Session_def spec_session_def readMeta_eq fs_readdir_def fs_lookup_def node session_node_def
        as_view_def asession_ok_def)
qed

lemma dir_gets:
  assumes "dir_inv f" and "length i = 16"
  shows "Dir_GetChunk f i index = spec_getChunk (dir_abs f) i index"
    and "Dir_GetManifest f i = spec_getManifest (dir_abs f) i"
proof -
  have node: "map_of f (SessionID_String i # r) = session_node a r" if "dir_abs f i = Some a" for a r
    using dir_invD(2) [OF assms(1)] assms(2) that by simp
  show "Dir_GetChunk f i index = spec_getChunk (dir_abs f) i index"
    "Dir_GetManifest f i = spec_getManifest (dir_abs f) i"
    using node
    by (cases "dir_abs f i"; simp add: Dir_GetChunk_def Dir_GetManifest_def spec_getChunk_def spec_getManifest_def
        readMeta_eq [OF assms] read_raw_def fs_read_def fs_lookup_def session_node_def dirError_def split: option.split)+
qed

section \<open>Sweeping\<close>

lemma sweep_entries_abs:
  assumes "dir_inv f" and "sweep_entries now es (d, l, f) = (d', l', f')"
  shows "dir_inv f'"
    and "length i = 16 \<Longrightarrow> dir_abs f' i =
      (case dir_abs f i of
         None \<Rightarrow> None
       | Some a \<Rightarrow> if (SessionID_String i, Directory) \<in> set es \<and> expired now (ExpiresAt (as_meta a)) then None else Some a)"
proof -
  have "dir_inv f' \<and> (length i = 16 \<longrightarrow> dir_abs f' i =
      (case dir_abs f i of
         None \<Rightarrow> None
       | Some a \<Rightarrow> if (SessionID_String i, Directory) \<in> set es \<and> expired now (ExpiresAt (as_meta a)) then None else Some a))"
    using assms
  proof (induction es arbitrary: d l f)
    case (Cons e es)
    obtain name n where e: "e = (name, n)" by fastforce
    show ?case
    proof (cases "\<exists>j a. n = Directory \<and> length j = 16 \<and> name = SessionID_String j \<and> dir_abs f j = Some a \<and> expired now (ExpiresAt (as_meta a))")
      case True
      then obtain j a where j: "n = Directory" "length j = 16" "name = SessionID_String j" "dir_abs f j = Some a"
        "expired now (ExpiresAt (as_meta a))" by blast
      then have "sweep_entries now es (d + 1, l, fs_remove_all [name] f) = (d', l', f')"
        using Cons.prems e by (simp add: ParseSessionID_String readMeta_eq expired_def)
      note IH = Cons.IH [OF _ this]
      from j(2,3) dir_remove [OF Cons.prems(1) j(2)]
      have "dir_inv (fs_remove_all [name] f)" "dir_abs (fs_remove_all [name] f) = (dir_abs f)(j := None)" by simp_all
      with IH j e show ?thesis by (auto simp: SessionID_String_inj split: option.split)
    next
      case False
      then have "\<exists>d1 l1. sweep_entries now es (d1, l1, f) = (d', l', f')"
        using Cons.prems e
        by (auto simp: ParseSessionID_iff readMeta_eq expired_def split: option.splits if_splits)
      then show ?thesis using Cons.IH [OF Cons.prems(1)] False e
        by (auto split: option.splits)
    qed
  qed (auto split: option.split)
  then show "dir_inv f'"
    and "length i = 16 \<Longrightarrow> dir_abs f' i =
      (case dir_abs f i of
         None \<Rightarrow> None
       | Some a \<Rightarrow> if (SessionID_String i, Directory) \<in> set es \<and> expired now (ExpiresAt (as_meta a)) then None else Some a)"
    by blast+
qed

lemma root_entries:
  assumes "dir_inv f" and "length i = 16" and "dir_abs f i = Some a"
  shows "(SessionID_String i, Directory) \<in> set (map (\<lambda>(q, n). (last q, n)) (filter (\<lambda>(q, _). q \<noteq> [] \<and> butlast q = []) f))"
proof -
  have "map_of f [SessionID_String i] = Some Directory"
    using dir_invD(2) [OF assms(1)] assms(2,3) by (simp add: session_node_def)
  then have "([SessionID_String i], Directory) \<in> set f" by (rule map_of_SomeD)
  then show ?thesis by force
qed

lemma dir_sweep:
  assumes "dir_inv f"
  shows "dir_inv (snd (snd (Dir_Sweep now f)))"
    and "dir_abs (snd (snd (Dir_Sweep now f))) i =
      (case dir_abs f i of
         None \<Rightarrow> None
       | Some a \<Rightarrow> if expired now (ExpiresAt (as_meta a)) then None else Some a)"
proof -
  let ?es = "map (\<lambda>(q, n). (last q, n)) (filter (\<lambda>(q, _). q \<noteq> [] \<and> butlast q = []) f)"
  obtain d l f' where s: "sweep_entries now ?es (0, 0, f) = (d, l, f')" by (rule prod_cases3)
  then have e: "snd (snd (Dir_Sweep now f)) = f'" by (simp add: Dir_Sweep_def fs_readdir_def fs_lookup_def)
  note a = sweep_entries_abs [OF assms s]
  show "dir_inv (snd (snd (Dir_Sweep now f)))" using a(1) e by simp
  show "dir_abs (snd (snd (Dir_Sweep now f))) i =
      (case dir_abs f i of None \<Rightarrow> None | Some a \<Rightarrow> if expired now (ExpiresAt (as_meta a)) then None else Some a)"
  proof (cases "length i = 16")
    case True
    with a(2) [of i] e root_entries [OF assms True] show ?thesis by (auto split: option.split)
  next
    case False
    then show ?thesis using dir_invD(4) [OF assms] dir_invD(4) [OF a(1)] e by simp
  qed
qed

interpretation dir: swept_store "dir_ops rnd" dir_abs dir_inv "\<lambda>now f. snd (snd (Dir_Sweep now f))"
  for rnd
  by unfold_locales
    (simp_all add: dir_ops_def dir_create dir_putChunk dir_putManifest dir_delete dir_session dir_gets dir_sweep)

section \<open>Properties\<close>

lemma dir_inv_empty: "dir_inv []"
  using dir_invI(1) [of "[]" Map.empty] by (auto simp: node_of_def fun_eq_iff split: list.split option.split)

text \<open>
  C19. The directory store implements the same write-once contract as the in-memory store, error by
  error, whatever names its temporary files get; in particular a file is never overwritten and no
  temporary file is left behind.
\<close>

theorem DirStore_refines:
  assumes "dir_inv f" and "length i = 16"
  shows "refines_op dir_abs dir_inv (Dir_CreateSession rnd f i meta) (spec_create (dir_abs f) i meta) \<and>
    refines_op dir_abs dir_inv (Dir_PutChunk rnd f i index c) (spec_putChunk (dir_abs f) i index c) \<and>
    refines_op dir_abs dir_inv (Dir_PutManifest rnd f i c) (spec_putManifest (dir_abs f) i c) \<and>
    refines_op dir_abs dir_inv (Dir_DeleteSession f i) (spec_delete (dir_abs f) i) \<and>
    Dir_Session f i = spec_session (dir_abs f) i \<and>
    Dir_GetChunk f i index = spec_getChunk (dir_abs f) i index \<and>
    Dir_GetManifest f i = spec_getManifest (dir_abs f) i"
  by (intro conjI dir_create dir_putChunk dir_putManifest dir_delete dir_session dir_gets assms)

theorem DirStore_refines_witness:
  "Dir_Session [] (replicate 16 0) = spec_session (dir_abs []) (replicate 16 0)"
proof -
  have "length (replicate 16 (0 :: byte)) = 16" by simp
  from DirStore_refines [OF dir_inv_empty this] show ?thesis by blast
qed

text \<open>
  Sweeping the directory removes exactly the expired sessions and leaves the others untouched,
  and what it leaves is again a well-formed store.
\<close>

lemma Dir_Sweep_exact:
  assumes "dir_inv f"
  shows "dir_inv (snd (snd (Dir_Sweep now f))) \<and>
    dir_abs (snd (snd (Dir_Sweep now f))) i =
      (case dir_abs f i of
         None \<Rightarrow> None
       | Some a \<Rightarrow> if expired now (ExpiresAt (as_meta a)) then None else Some a)"
  using dir_sweep [OF assms] by blast

definition sample_meta :: sessionMeta where
  "sample_meta = \<lparr>Mode = ''blob'', meta_CollectorKey = [], meta_CollectorMAC = [], CredentialHash = [], ExpiresAt = 100,
     meta_ChunkCount = 1, ChunksStored = 0, ManifestStored = False\<rparr>"

lemma Dir_Sweep_exact_witness:
  "dir_abs (snd (snd (Dir_Sweep 100 (snd (Dir_CreateSession ''x'' [] (replicate 16 0) sample_meta))))) (replicate 16 0) = None"
proof -
  let ?f = "snd (Dir_CreateSession ''x'' [] (replicate 16 0) sample_meta)"
  have r: "refines_op dir_abs dir_inv (Dir_CreateSession ''x'' [] (replicate 16 0) sample_meta)
      (spec_create (dir_abs []) (replicate 16 0) sample_meta)"
    by (rule dir_create [OF dir_inv_empty]) simp
  have "dir_abs [] (replicate 16 0) = None" by (simp add: dir_abs_def)
  with refines_opD(2) [OF r] have "dir_abs ?f (replicate 16 0) = Some (fresh_session sample_meta)"
    by (simp add: spec_create_def)
  with Dir_Sweep_exact [OF refines_opD(3) [OF r], of 100 "replicate 16 0"] show ?thesis
    by (simp add: fresh_session_def sample_meta_def expired_def)
qed

end
