(* ===== verification/Blob.thy ===== *)
theory Blob
  imports Wire
begin

text \<open>
  One-shot artifacts (\<^verbatim>\<open>protocol/blob.go\<close>): chunking of the plaintext, sealing and opening of chunks
  and manifest, and the validation of a decoded manifest. \<^verbatim>\<open>int64\<close> arithmetic wraps (\<open>wrap64\<close>); the
  theorems show that no wrap-around occurs on an accepted manifest.
\<close>

definition BlobVersion :: nat where "BlobVersion = 1"

datatype blob_error = ErrBlobAuth | ErrBlobSize

record blobKeys =
  bk_manifest :: bytes
  bk_chunk :: bytes

definition blobSalt :: bytes where "blobSalt = string_bytes ''aken/blob/v1''"

definition DeriveBlobKeys :: "crypto \<Rightarrow> bytes \<Rightarrow> blobKeys" where
  "DeriveBlobKeys C contentRoot =
     \<lparr>bk_manifest = hkdf_key C contentRoot blobSalt ''manifest-key'' 32,
      bk_chunk = hkdf_key C contentRoot blobSalt ''chunk-key'' 32\<rparr>"

definition ChunkCount :: "int \<Rightarrow> blob_error + u32" where
  "ChunkCount plaintextLen =
     (if plaintextLen \<le> 0 \<or> plaintextLen > int (MaxChunkCount * ChunkSize) then Inl ErrBlobSize
      else Inr (of_int ((plaintextLen + int ChunkSize - 1) div int ChunkSize)))"

function SplitChunks :: "bytes \<Rightarrow> bytes list" where
  "SplitChunks plaintext =
     (if length plaintext > 0
      then let n = min (length plaintext) ChunkSize
           in take n plaintext # SplitChunks (drop n plaintext)
      else [])"
  by pat_completeness auto
termination
  by (relation "measure length") (auto simp: ChunkSize_def)

declare SplitChunks.simps [simp del]

definition blobAD :: "u64 \<Rightarrow> u32 \<Rightarrow> bytes" where
  "blobAD index count = [of_nat BlobVersion] @ put_be 8 index @ put_be 4 count"

definition blobNonce :: "u64 \<Rightarrow> bytes" where
  "blobNonce index = replicate 4 0 @ put_be 8 index"

definition SealChunk :: "crypto \<Rightarrow> blobKeys \<Rightarrow> u64 \<Rightarrow> u32 \<Rightarrow> bytes \<Rightarrow> blob_error + bytes" where
  "SealChunk C k index count plaintext =
     (if count = 0 \<or> count > of_nat MaxChunkCount \<or> index \<ge> ucast count \<or> length plaintext = 0
         \<or> length plaintext > ChunkSize \<or> (index < ucast (count - 1) \<and> length plaintext \<noteq> ChunkSize)
      then Inl ErrBlobSize
      else Inr (gcm_seal C (bk_chunk k) (blobNonce index) plaintext (blobAD index count)))"

definition OpenChunk :: "crypto \<Rightarrow> blobKeys \<Rightarrow> u64 \<Rightarrow> u32 \<Rightarrow> bytes \<Rightarrow> blob_error + bytes" where
  "OpenChunk C k index count ciphertext =
     (if count = 0 \<or> count > of_nat MaxChunkCount \<or> index \<ge> ucast count \<or> length ciphertext < 17
         \<or> length ciphertext > ChunkSize + ChunkOverhead
      then Inl ErrBlobSize
      else (case gcm_open C (bk_chunk k) (blobNonce index) ciphertext (blobAD index count) of
              None \<Rightarrow> Inl ErrBlobAuth
            | Some plaintext \<Rightarrow> Inr plaintext))"

definition SealManifest :: "crypto \<Rightarrow> blobKeys \<Rightarrow> u32 \<Rightarrow> bytes \<Rightarrow> blob_error + bytes" where
  "SealManifest C k count manifestJSON =
     (if length manifestJSON = 0 \<or> length manifestJSON > MaxManifestBytes - ChunkOverhead
      then Inl ErrBlobSize
      else Inr (gcm_seal C (bk_manifest k) (blobNonce 0) manifestJSON (blobAD 0 count)))"

definition OpenManifest :: "crypto \<Rightarrow> blobKeys \<Rightarrow> u32 \<Rightarrow> bytes \<Rightarrow> blob_error + bytes" where
  "OpenManifest C k count ciphertext =
     (case gcm_open C (bk_manifest k) (blobNonce 0) ciphertext (blobAD 0 count) of
        None \<Rightarrow> Inl ErrBlobAuth
      | Some plaintext \<Rightarrow> Inr plaintext)"

section \<open>Manifests\<close>

record manifestSource =
  ms_name :: string
  ms_kind :: string
  ms_target :: string
  ms_since :: string
  ms_until :: string
  ms_offset :: int
  ms_bytes :: int
  ms_lines :: int
  ms_linesRedacted :: int
  ms_note :: string

record redactionSummary =
  rs_linesRedacted :: int
  rs_byCategory :: categoryCounts
  rs_flags :: int
  rs_rules :: int

record manifest =
  m_version :: int
  m_createdAt :: time
  m_collector :: string
  m_chunkSize :: int
  m_chunkCount :: u32
  m_totalBytes :: int
  m_chunksSHA256 :: "string list"
  m_sources :: "manifestSource list"
  m_redaction :: redactionSummary

definition RedactionCategories :: "string list" where
  "RedactionCategories = [''secret'', ''token'', ''jwt'', ''key'', ''ip'', ''email'', ''phone'', ''name'', ''address'']"

datatype manifest_error =
    VersionNotSupported | ChunkSizeNotSupported | ChunkCountMismatch | ChunkHashInvalid | NoSources
  | SourceRangeInvalid | SourceKindInvalid | SourcesDoNotCover | CategoryInvalid

text \<open>The loop over the sources: the error, or the offset after the last source.\<close>

fun check_sources :: "int \<Rightarrow> int \<Rightarrow> manifestSource list \<Rightarrow> manifest_error + int" where
  "check_sources tot offset [] = Inr offset"
| "check_sources tot offset (s # ss) =
     (if ms_offset s \<noteq> offset \<or> ms_bytes s < 0 \<or> ms_bytes s > wrap64 (tot - offset)
      then Inl SourceRangeInvalid
      else if ms_kind s \<noteq> ''unit'' \<and> ms_kind s \<noteq> ''container'' \<and> ms_kind s \<noteq> ''file''
      then Inl SourceKindInvalid
      else check_sources tot (wrap64 (offset + ms_bytes s)) ss)"

definition Manifest_Validate :: "manifest \<Rightarrow> manifest_error option" where
  "Manifest_Validate m =
     (if m_version m \<noteq> int BlobVersion then Some VersionNotSupported
      else if m_chunkSize m \<noteq> int ChunkSize then Some ChunkSizeNotSupported
      else if (case ChunkCount (m_totalBytes m) of
                 Inl _ \<Rightarrow> True
               | Inr count \<Rightarrow> m_chunkCount m \<noteq> count \<or> unat (m_chunkCount m) \<noteq> length (m_chunksSHA256 m))
      then Some ChunkCountMismatch
      else if \<exists>h \<in> set (m_chunksSHA256 m). \<not> lowerHex h 64 then Some ChunkHashInvalid
      else if m_sources m = [] then Some NoSources
      else (case check_sources (m_totalBytes m) 0 (m_sources m) of
              Inl e \<Rightarrow> Some e
            | Inr offset \<Rightarrow>
                if offset \<noteq> m_totalBytes m then Some SourcesDoNotCover
                else if \<exists>c \<in> fst ` set (rs_byCategory (m_redaction m)). c \<notin> set RedactionCategories
                then Some CategoryInvalid
                else None))"

section \<open>Chunking\<close>

lemma SplitChunks_chunks_of: "SplitChunks p = chunks_of ChunkSize p"
proof (induction p rule: SplitChunks.induct)
  case (1 p)
  show ?case
  proof (cases "p = []")
    case False
    have t: "take (min (length p) ChunkSize) p = take ChunkSize p"
      and d: "drop (min (length p) ChunkSize) p = drop ChunkSize p" by (auto simp: min_def)
    from False 1 show ?thesis
      by (simp add: SplitChunks.simps [of p] Let_def t d chunks_of_step [of ChunkSize p])
        (simp add: ChunkSize_def chunks_of_step)
  qed (simp add: SplitChunks.simps)
qed

lemma ChunkSize_pos [simp]: "0 < ChunkSize"
  by (simp add: ChunkSize_def)

lemma count_range:
  assumes "0 < n" and "n \<le> MaxChunkCount * ChunkSize"
  shows "(n + ChunkSize - 1) div ChunkSize \<le> 128" and "0 < (n + ChunkSize - 1) div ChunkSize"
proof -
  have "n + ChunkSize - 1 \<le> 128 * ChunkSize + ChunkSize - 1"
    using assms(2) by (simp add: MaxChunkCount_def)
  then have "(n + ChunkSize - 1) div ChunkSize \<le> (128 * ChunkSize + ChunkSize - 1) div ChunkSize"
    by (rule div_le_mono)
  then show "(n + ChunkSize - 1) div ChunkSize \<le> 128" by (simp add: ChunkSize_def)
  show "0 < (n + ChunkSize - 1) div ChunkSize"
    using assms(1) by (simp add: div_greater_zero_iff)
qed

lemma ChunkCount_Inr:
  assumes "ChunkCount n = Inr c"
  shows "0 < n" and "n \<le> 134217728" and "unat c = length (chunks_of ChunkSize (replicate (nat n) x))"
    and "0 < unat c" and "unat c \<le> 128"
proof -
  from assms have r: "0 < n" "n \<le> int (MaxChunkCount * ChunkSize)"
    and c: "c = of_int ((n + int ChunkSize - 1) div int ChunkSize)"
    by (auto simp: ChunkCount_def split: if_splits)
  from r show "0 < n" "n \<le> 134217728" by (auto simp: MaxChunkCount_def ChunkSize_def)
  define k where "k = (nat n + ChunkSize - 1) div ChunkSize"
  have "(n + int ChunkSize - 1) div int ChunkSize = int k"
    using r unfolding k_def by (simp add: zdiv_int of_nat_diff)
  moreover have k: "0 < k" "k \<le> 128"
    using count_range [of "nat n"] r unfolding k_def by (auto simp: nat_le_iff)
  ultimately have u: "unat c = k" using c by (simp add: unat_of_nat)
  then show "unat c = length (chunks_of ChunkSize (replicate (nat n) x))"
    by (simp add: length_chunks_of k_def)
  from u k show "0 < unat c" "unat c \<le> 128" by auto
qed

text \<open>The size guards of sealing and opening, read as numbers.\<close>

lemma chunk_guard:
  fixes count :: u32
  assumes "0 < unat count" and "unat count \<le> 128" and "i < unat count"
  shows "count \<noteq> 0" and "\<not> count > of_nat MaxChunkCount"
    and "\<not> (of_nat i :: u64) \<ge> ucast count"
    and "(of_nat i :: u64) < ucast (count - 1) \<longleftrightarrow> Suc i < unat count"
proof -
  have i: "i < 2 ^ 32" using assms by simp
  show nz: "count \<noteq> 0" using assms(1) by auto
  show "\<not> count > of_nat MaxChunkCount"
    using assms(2) by (simp add: word_less_nat_alt MaxChunkCount_def)
  show "\<not> (of_nat i :: u64) \<ge> ucast count"
    using assms(3) i by (simp add: word_le_nat_alt)
  show "(of_nat i :: u64) < ucast (count - 1) \<longleftrightarrow> Suc i < unat count"
    using assms(1) i by (auto simp: word_less_nat_alt unat_pred [OF nz])
qed

lemma chunk_sizes:
  assumes "i < length (SplitChunks p)"
  shows "SplitChunks p ! i \<noteq> []" and "length (SplitChunks p ! i) \<le> ChunkSize"
    and "Suc i < length (SplitChunks p) \<Longrightarrow> length (SplitChunks p ! i) = ChunkSize"
proof -
  have nth: "SplitChunks p ! i = take ChunkSize (drop (i * ChunkSize) p)"
    using assms by (simp add: SplitChunks_chunks_of chunks_of_last_partial)
  have len: "length (SplitChunks p) = (length p + ChunkSize - 1) div ChunkSize"
    by (simp add: SplitChunks_chunks_of length_chunks_of)
  have bound: "j * ChunkSize < length p" if "j < length (SplitChunks p)" for j
  proof -
    have "Suc j \<le> (length p + ChunkSize - 1) div ChunkSize" using that len by simp
    then have "Suc j * ChunkSize \<le> length p + ChunkSize - 1"
      by (simp add: less_eq_div_iff_mult_less_eq)
    then have "ChunkSize + j * ChunkSize \<le> length p + ChunkSize - 1" by simp
    then show ?thesis using ChunkSize_pos by arith
  qed
  from bound [OF assms] nth show "SplitChunks p ! i \<noteq> []" by simp
  show "length (SplitChunks p ! i) \<le> ChunkSize" by (simp add: nth)
  assume "Suc i < length (SplitChunks p)"
  from bound [OF this] show "length (SplitChunks p ! i) = ChunkSize" by (simp add: nth)
qed

lemma seal_open_chunk:
  assumes C: "crypto_ok C" and c: "length (SplitChunks p) = unat c" "0 < unat c" "unat c \<le> 128"
    and i: "i < unat c"
  obtains ct where "SealChunk C k (of_nat i) c (SplitChunks p ! i) = Inr ct"
    and "length ct = length (SplitChunks p ! i) + 16"
    and "OpenChunk C k (of_nat i) c ct = Inr (SplitChunks p ! i)"
proof -
  let ?x = "SplitChunks p ! i"
  let ?ct = "gcm_seal C (bk_chunk k) (blobNonce (of_nat i)) ?x (blobAD (of_nat i) c)"
  note g = chunk_guard [OF c(2,3) i] and s = chunk_sizes [of i p, unfolded c(1), OF i]
  have "SealChunk C k (of_nat i) c ?x = Inr ?ct"
    using g s by (auto simp: SealChunk_def)
  moreover have l: "length ?ct = length ?x + 16" using C by (simp add: crypto_simps)
  moreover have "OpenChunk C k (of_nat i) c ?ct = Inr ?x"
    using g(1-3) s(1,2) l C by (auto simp: OpenChunk_def crypto_simps ChunkOverhead_def)
  ultimately show ?thesis using that by blast
qed

lemma seal_open_manifest:
  assumes "crypto_ok C"
  shows "if 0 < length mj \<and> length mj + 16 \<le> MaxManifestBytes
     then \<exists>box. SealManifest C (DeriveBlobKeys C root) c mj = Inr box \<and> length box = length mj + 16 \<and>
            OpenManifest C (DeriveBlobKeys C root) c box = Inr mj \<and>
            gcm_open C (hkdf_key C root blobSalt ''manifest-key'' 32) (replicate 12 0) box (blobAD 0 c) = Some mj
     else SealManifest C (DeriveBlobKeys C root) c mj = Inl ErrBlobSize"
proof -
  have n: "blobNonce 0 = replicate 12 0" by code_simp
  have m: "16 \<le> MaxManifestBytes" "ChunkOverhead = 16" by (simp_all add: MaxManifestBytes_def ChunkOverhead_def)
  show ?thesis using assms m by (auto simp: SealManifest_def OpenManifest_def DeriveBlobKeys_def n crypto_simps)
qed

text \<open>
  C24. An artifact survives sealing, under the keys derived from the session's content root: a plaintext
  of at most 128 MiB is cut into the announced number of chunks that concatenate to it, every chunk is
  accepted for sealing, grows by the 16-byte tag and opens to itself at its own index. The manifest is
  accepted exactly when it is not empty and fits the relay's limit with its tag; it then grows by the tag,
  opens to itself with the same chunk count, and is sealed with its own key under the nonce of index 0.
\<close>

theorem blob_roundtrip:
  assumes "crypto_ok C" and "ChunkCount (int (length p)) = Inr c" and "k = DeriveBlobKeys C root"
  shows "length (SplitChunks p) = unat c \<and> concat (SplitChunks p) = p \<and>
    (\<forall>i < unat c. \<exists>ct. SealChunk C k (of_nat i) c (SplitChunks p ! i) = Inr ct \<and>
       length ct = length (SplitChunks p ! i) + 16 \<and>
       OpenChunk C k (of_nat i) c ct = Inr (SplitChunks p ! i)) \<and>
    (if 0 < length mj \<and> length mj + 16 \<le> MaxManifestBytes
     then \<exists>box. SealManifest C k c mj = Inr box \<and> length box = length mj + 16 \<and> OpenManifest C k c box = Inr mj \<and>
            gcm_open C (hkdf_key C root blobSalt ''manifest-key'' 32) (replicate 12 0) box (blobAD 0 c) = Some mj
     else SealManifest C k c mj = Inl ErrBlobSize)"
proof -
  note c = ChunkCount_Inr [OF assms(2)]
  have len: "length (SplitChunks p) = unat c"
    using c(3) by (simp add: SplitChunks_chunks_of length_chunks_of)
  have "concat (SplitChunks p) = p" by (simp add: SplitChunks_chunks_of)
  moreover have "\<exists>ct. SealChunk C k (of_nat i) c (SplitChunks p ! i) = Inr ct \<and>
       length ct = length (SplitChunks p ! i) + 16 \<and>
       OpenChunk C k (of_nat i) c ct = Inr (SplitChunks p ! i)" if "i < unat c" for i
    using seal_open_chunk [OF assms(1) len c(4,5) that] by metis
  moreover note seal_open_manifest [OF assms(1), of mj root c, folded assms(3)]
  ultimately show ?thesis using len by blast
qed

theorem blob_roundtrip_witness:
  "let k = DeriveBlobKeys toy_crypto [] in
     OpenChunk toy_crypto k 0 1 ([1, 2, 3] @ replicate 16 0) = Inr [1, 2, 3] \<and>
     (\<exists>box. SealManifest toy_crypto k 1 [7] = Inr box \<and> OpenManifest toy_crypto k 1 box = Inr [7]) \<and>
     SealManifest toy_crypto k 1 [] = Inl ErrBlobSize"
proof -
  let ?k = "DeriveBlobKeys toy_crypto []"
  have n: "ChunkCount (int (length [1, 2, 3 :: byte])) = Inr 1"
    by (simp add: ChunkCount_def MaxChunkCount_def ChunkSize_def)
  note bl = blob_roundtrip [OF toy_crypto_ok n refl, of "[]"]
  have r: "\<exists>ct. SealChunk toy_crypto ?k 0 1 (SplitChunks [1, 2, 3] ! 0) = Inr ct \<and>
      OpenChunk toy_crypto ?k 0 1 ct = Inr (SplitChunks [1, 2, 3] ! 0)"
    using bl by auto
  have "SplitChunks [1, 2, 3] = [[1, 2, 3]]"
    by (simp add: SplitChunks_chunks_of chunks_of_step ChunkSize_def)
  moreover have "SealChunk toy_crypto ?k 0 1 [1, 2, 3] = Inr ([1, 2, 3] @ replicate 16 0)"
    by (simp add: SealChunk_def toy_crypto_def MaxChunkCount_def ChunkSize_def word_less_nat_alt word_le_nat_alt)
  ultimately have "OpenChunk toy_crypto ?k 0 1 ([1, 2, 3] @ replicate 16 0) = Inr [1, 2, 3]" using r by auto
  moreover have "\<exists>box. SealManifest toy_crypto ?k 1 [7] = Inr box \<and> OpenManifest toy_crypto ?k 1 box = Inr [7]"
    using bl [of "[7]"] by (auto simp: MaxManifestBytes_def)
  moreover have "SealManifest toy_crypto ?k 1 [] = Inl ErrBlobSize" using bl [of "[]"] by simp
  ultimately show ?thesis by (simp add: Let_def)
qed

text \<open>
  No nonce is used twice under one key: the nonces of two chunks are equal only for the same
  index, the associated data of two chunks only for the same index and chunk count, and every nonce
  has the 12 bytes that GCM expects.
\<close>

lemma blob_nonce_unique:
  "(blobNonce i = blobNonce j \<longleftrightarrow> i = j) \<and>
   (blobAD i c = blobAD j d \<longleftrightarrow> i = j \<and> c = d) \<and>
   length (blobNonce i) = 12 \<and> length (blobAD i c) = 13"
  by (simp add: blobNonce_def blobAD_def put_be_inj)

section \<open>What an accepted manifest promises\<close>

text \<open>
  The abstract reading: version and chunk size are the supported ones, the chunk count and the
  hashes fit the size, and the sources tile the plaintext without gap or overlap.
\<close>

fun tiles :: "int \<Rightarrow> manifestSource list \<Rightarrow> int \<Rightarrow> bool" where
  "tiles from [] to \<longleftrightarrow> from = to"
| "tiles from (s # ss) to \<longleftrightarrow> ms_offset s = from \<and> 0 \<le> ms_bytes s \<and> tiles (from + ms_bytes s) ss to"

definition manifest_spec :: "manifest \<Rightarrow> bool" where
  "manifest_spec m \<longleftrightarrow>
     m_version m = 1 \<and> m_chunkSize m = 2 ^ 20 \<and>
     0 < m_totalBytes m \<and> m_totalBytes m \<le> 128 * 2 ^ 20 \<and>
     int (unat (m_chunkCount m)) = (m_totalBytes m + 2 ^ 20 - 1) div 2 ^ 20 \<and>
     length (m_chunksSHA256 m) = unat (m_chunkCount m) \<and>
     (\<forall>h \<in> set (m_chunksSHA256 m). lowerHex h 64) \<and>
     m_sources m \<noteq> [] \<and> tiles 0 (m_sources m) (m_totalBytes m) \<and>
     (\<forall>s \<in> set (m_sources m). ms_kind s \<in> {''unit'', ''container'', ''file''}) \<and>
     fst ` set (rs_byCategory (m_redaction m)) \<subseteq> set RedactionCategories"

lemma tiles_le: "tiles from ss to \<Longrightarrow> from \<le> to"
  by (induction "from" ss to rule: tiles.induct) auto

lemma check_sources_iff:
  assumes "0 \<le> from" and "from \<le> tot" and "tot \<le> 2 ^ 27"
  shows "check_sources tot from ss = Inr tot \<longleftrightarrow>
    tiles from ss tot \<and> (\<forall>s \<in> set ss. ms_kind s \<in> {''unit'', ''container'', ''file''})"
  using assms
proof (induction ss arbitrary: "from")
  case Nil
  then show ?case by auto
next
  case (Cons s ss)
  have w: "wrap64 (tot - from) = tot - from"
    using Cons.prems by (intro wrap64_id) auto
  show ?case
  proof (cases "ms_offset s = from \<and> 0 \<le> ms_bytes s \<and> ms_bytes s \<le> tot - from")
    case True
    with Cons.prems have "wrap64 (from + ms_bytes s) = from + ms_bytes s"
      by (intro wrap64_id) auto
    with True Cons w show ?thesis by auto
  next
    case False
    have "\<not> tiles (from + ms_bytes s) ss tot" if "tot - from < ms_bytes s"
      using tiles_le [of "from + ms_bytes s" ss tot] that by auto
    with False w show ?thesis by auto
  qed
qed

lemma ChunkCount_iff:
  "ChunkCount n = Inr c \<longleftrightarrow> 0 < n \<and> n \<le> 128 * 2 ^ 20 \<and> int (unat c) = (n + 2 ^ 20 - 1) div 2 ^ 20"
proof
  assume a: "ChunkCount n = Inr c"
  note c = ChunkCount_Inr [OF a]
  have "unat c = (nat n + ChunkSize - 1) div ChunkSize" using c(3) by (simp add: length_chunks_of)
  then have "int (unat c) = (n + 2 ^ 20 - 1) div 2 ^ 20"
    using c(1) by (simp add: zdiv_int of_nat_diff ChunkSize_def)
  with c(1,2) show "0 < n \<and> n \<le> 128 * 2 ^ 20 \<and> int (unat c) = (n + 2 ^ 20 - 1) div 2 ^ 20" by simp
next
  assume a: "0 < n \<and> n \<le> 128 * 2 ^ 20 \<and> int (unat c) = (n + 2 ^ 20 - 1) div 2 ^ 20"
  then have "of_int ((n + 2 ^ 20 - 1) div 2 ^ 20) = (of_int (int (unat c)) :: u32)" by simp
  also have "\<dots> = c" by simp
  finally show "ChunkCount n = Inr c"
    using a by (simp add: ChunkCount_def MaxChunkCount_def ChunkSize_def)
qed

lemma Manifest_valid: "Manifest_Validate m = None \<longleftrightarrow> manifest_spec m"
proof (cases "ChunkCount (m_totalBytes m)")
  case (Inl e)
  then have "\<not> manifest_spec m"
    using ChunkCount_iff [of "m_totalBytes m" "m_chunkCount m"] by (auto simp: manifest_spec_def)
  with Inl show ?thesis by (simp add: Manifest_Validate_def)
next
  case (Inr c)
  then have r: "0 < m_totalBytes m" "m_totalBytes m \<le> 128 * 2 ^ 20"
    "int (unat c) = (m_totalBytes m + 2 ^ 20 - 1) div 2 ^ 20"
    using ChunkCount_iff by blast+
  have cs: "check_sources (m_totalBytes m) 0 (m_sources m) = Inr (m_totalBytes m) \<longleftrightarrow>
      tiles 0 (m_sources m) (m_totalBytes m) \<and>
      (\<forall>s \<in> set (m_sources m). ms_kind s \<in> {''unit'', ''container'', ''file''})"
    using r by (intro check_sources_iff) auto
  have "m_chunkCount m = c \<longleftrightarrow> int (unat (m_chunkCount m)) = (m_totalBytes m + 2 ^ 20 - 1) div 2 ^ 20"
    using r(3) by (metis of_nat_eq_iff word_unat_eq_iff)
  then show ?thesis
    using Inr r(1,2) cs
    by (cases "check_sources (m_totalBytes m) 0 (m_sources m)")
      (auto simp: Manifest_Validate_def manifest_spec_def BlobVersion_def ChunkSize_def subset_eq)
qed

text \<open>
  C25. Manifest validation is exact: it accepts a manifest if and only if the abstract reading holds.
  The sources of an accepted manifest tile the plaintext, so no source reaches outside it, and the
  64-bit additions and subtractions of the loop never wrap around.
\<close>

theorem Manifest_Validate_iff: "Manifest_Validate m = None \<longleftrightarrow> manifest_spec m"
  by (rule Manifest_valid)

end
