(* ===== verification/Redact.thy ===== *)
theory Redact
  imports Blob "HOL-Library.AList"
begin

text \<open>
  The redaction engine (\<^verbatim>\<open>internal/redact\<close>): rules, their compilation and merging, placeholders, the
  redaction of lines, and the flags for values that look like secrets.

  A log line is a \<open>string\<close> (its bytes). The rules' regular expressions are a parameter: compiling one
  gives the number of its groups and its \<^verbatim>\<open>FindAllSubmatchIndex\<close>, of which \<open>find_ok\<close> states the documented
  behaviour (successive, disjoint matches inside the text, groups inside their match). So are
  \<^verbatim>\<open>netip.ParseAddr\<close> and the test \<^verbatim>\<open>entropy(value) >= 3.5\<close> on floating-point numbers. The expressions fixed
  in the code (key markers, runs, identifier shapes, rule names) are written out. A Go map from strings
  is an association list; a set of strings is a \<open>string set\<close>.
\<close>

section \<open>Rules\<close>

text \<open>One match: the bounds of the whole match and of the groups, \<open>-1\<close> for a group that took no part.\<close>

type_synonym submatches = "(int \<times> int) list"
type_synonym finder = "string \<Rightarrow> submatches list"

record rule =
  rule_Name :: string
  rule_Category :: string
  rule_Regex :: string
  rule_Group :: int
  rule_Enabled :: "bool option"

record rules_file =
  file_Version :: int
  file_Rules :: "rule list"
  file_Keep :: "string list"

record compiledRule =
  c_rule :: rule
  c_find :: finder

record engine =
  eng_rules :: "compiledRule list"
  eng_keep :: "string set"
  eng_off :: "string set"
  eng_values :: "(string \<times> (string \<times> string) list) list"

datatype rules_error =
    UnsupportedVersion | UnknownCategory | InvalidRuleName | InvalidRegex | InvalidGroup

definition ruleName :: "string \<Rightarrow> bool" where
  "ruleName s \<longleftrightarrow> 1 \<le> length s \<and> length s \<le> 64 \<and>
     list_all (\<lambda>c. let n = (of_char c :: nat) in (97 \<le> n \<and> n \<le> 122) \<or> (48 \<le> n \<and> n \<le> 57) \<or> c = CHR ''-'') s"

text \<open>The loop of \<^verbatim>\<open>Compile\<close> over the rules.\<close>

fun compile_rules ::
  "(string \<Rightarrow> (nat \<times> finder) option) \<Rightarrow> string set \<Rightarrow> rule list \<Rightarrow> string set \<Rightarrow> compiledRule list \<Rightarrow> rules_error + compiledRule list" where
  "compile_rules re off [] names acc = Inr acc"
| "compile_rules re off (r # rs) names acc =
     (if \<not> ruleName (rule_Name r) \<or> rule_Name r \<in> names then Inl InvalidRuleName
      else if rule_Category r \<notin> set RedactionCategories then Inl UnknownCategory
      else (case re (rule_Regex r) of
              None \<Rightarrow> Inl InvalidRegex
            | Some (numSubexp, fd) \<Rightarrow>
                if rule_Group r < 0 \<or> rule_Group r > int numSubexp then Inl InvalidGroup
                else compile_rules re off rs (insert (rule_Name r) names)
                       (if (rule_Enabled r = None \<or> rule_Enabled r = Some True) \<and> rule_Category r \<notin> off
                        then acc @ [\<lparr>c_rule = r, c_find = fd\<rparr>] else acc)))"

definition Compile ::
  "(string \<Rightarrow> (nat \<times> finder) option) \<Rightarrow> rules_file \<Rightarrow> string list \<Rightarrow> string list \<Rightarrow> rules_error + engine" where
  "Compile re f keepValues keepCategories =
     (if file_Version f \<noteq> 1 then Inl UnsupportedVersion
      else if \<not> list_all (\<lambda>c. c \<in> set RedactionCategories) keepCategories then Inl UnknownCategory
      else (case compile_rules re (set keepCategories) (file_Rules f) {} [] of
              Inl e \<Rightarrow> Inl e
            | Inr rs \<Rightarrow> Inr \<lparr>eng_rules = rs, eng_keep = set (file_Keep f) \<union> set keepValues,
                            eng_off = set keepCategories, eng_values = []\<rparr>))"

text \<open>\<^verbatim>\<open>Merge\<close>: a rule of the same name is replaced in place, another is appended.\<close>

fun merge_rule :: "rule \<Rightarrow> rule list \<Rightarrow> rule list" where
  "merge_rule r [] = [r]"
| "merge_rule r (x # xs) = (if rule_Name x = rule_Name r then r # xs else x # merge_rule r xs)"

definition merge_keep :: "string \<Rightarrow> string list \<Rightarrow> string list" where
  "merge_keep v vs = (if v \<in> set vs then vs else vs @ [v])"

definition Merge ::
  "(string \<Rightarrow> (nat \<times> finder) option) \<Rightarrow> rules_file \<Rightarrow> rules_file \<Rightarrow> rules_error + rules_file" where
  "Merge re base extra =
     (case Compile re base [] [] of
        Inl e \<Rightarrow> Inl e
      | Inr _ \<Rightarrow>
          (case Compile re extra [] [] of
             Inl e \<Rightarrow> Inl e
           | Inr _ \<Rightarrow>
               Inr \<lparr>file_Version = 1,
                    file_Rules = foldl (\<lambda>rs r. merge_rule r rs) (file_Rules base) (file_Rules extra),
                    file_Keep = foldl (\<lambda>vs v. merge_keep v vs) (file_Keep base) (file_Keep extra)\<rparr>))"

section \<open>Placeholders\<close>

definition category_values :: "engine \<Rightarrow> string \<Rightarrow> (string \<times> string) list" where
  "category_values e c = (case map_of (eng_values e) c of None \<Rightarrow> [] | Some vs \<Rightarrow> vs)"

definition placeholder_text :: "string \<Rightarrow> nat \<Rightarrow> string" where
  "placeholder_text c n = ''<'' @ c @ ''#'' @ show_nat n @ ''>''"

definition placeholder :: "engine \<Rightarrow> string \<Rightarrow> string \<Rightarrow> string \<times> engine" where
  "placeholder e c v =
     (let vs = category_values e c in
      case map_of vs v of
        Some p \<Rightarrow> (p, e)
      | None \<Rightarrow>
          let p = placeholder_text c (length vs + 1)
          in (p, e\<lparr>eng_values := AList.update c (vs @ [(v, p)]) (eng_values e)\<rparr>))"

definition Mapping :: "engine \<Rightarrow> (string \<times> string) list" where
  "Mapping e = concat (map (\<lambda>(_, vs). map (\<lambda>(v, p). (p, v)) vs) (eng_values e))"

section \<open>One line\<close>

record replacement =
  rep_start :: nat
  rep_end :: nat
  rep_text :: string

text \<open>The variables of the scan of one line.\<close>

record scan =
  sc_eng :: engine
  sc_taken :: "bool list"
  sc_reps :: "replacement list"
  sc_changed :: "string list"

definition mark :: "nat \<Rightarrow> nat \<Rightarrow> bool list \<Rightarrow> bool list" where
  "mark a b taken = map (\<lambda>(i, t). t \<or> (a \<le> i \<and> i < b)) (enumerate 0 taken)"

definition apply_match :: "(string \<Rightarrow> bool) \<Rightarrow> compiledRule \<Rightarrow> string \<Rightarrow> nat \<Rightarrow> submatches \<Rightarrow> scan \<Rightarrow> scan" where
  "apply_match addr r line start m s =
     (case m ! nat (rule_Group (c_rule r)) of (a0, b0) \<Rightarrow>
        if a0 < 0 \<or> a0 = b0 then s
        else
          let a = nat a0 + start; b = nat b0 + start; v = take (b - a) (drop a line) in
          if v \<in> eng_keep (sc_eng s) then s
          else if rule_Category (c_rule r) = ''ip'' \<and> \<not> addr v then s
          else (case placeholder (sc_eng s) (rule_Category (c_rule r)) v of (p, e') \<Rightarrow>
                  \<lparr>sc_eng = e', sc_taken = mark a b (sc_taken s),
                   sc_reps = sc_reps s @ [\<lparr>rep_start = a, rep_end = b, rep_text = p\<rparr>],
                   sc_changed = rule_Category (c_rule r) # sc_changed s\<rparr>))"

definition apply_matches :: "(string \<Rightarrow> bool) \<Rightarrow> compiledRule \<Rightarrow> string \<Rightarrow> nat \<Rightarrow> submatches list \<Rightarrow> scan \<Rightarrow> scan" where
  "apply_matches addr r line start ms s = fold (apply_match addr r line start) ms s"

text \<open>
  The loop over the untouched spans of the line, for one rule. A span that starts at an untouched
  position is not empty, so the \<open>max 1\<close> only serves the termination proof.
\<close>

function scan_rule :: "(string \<Rightarrow> bool) \<Rightarrow> compiledRule \<Rightarrow> string \<Rightarrow> nat \<Rightarrow> scan \<Rightarrow> scan" where
  "scan_rule addr r line start s =
     (if length line \<le> start then s
      else if sc_taken s ! start then scan_rule addr r line (start + 1) s
      else
        let stop = start + max 1 (length (takeWhile Not (drop start (sc_taken s))))
        in scan_rule addr r line stop
             (apply_matches addr r line start (c_find r (take (stop - start) (drop start line))) s))"
  by pat_completeness auto

termination by (relation "measure (\<lambda>(_, _, line, start, _). length line - start)") auto

declare scan_rule.simps [simp del]

definition scan_line :: "(string \<Rightarrow> bool) \<Rightarrow> engine \<Rightarrow> string \<Rightarrow> scan" where
  "scan_line addr e line =
     fold (\<lambda>r. scan_rule addr r line 0) (eng_rules e)
       \<lparr>sc_eng = e, sc_taken = replicate (length line) False, sc_reps = [], sc_changed = []\<rparr>"

text \<open>Writing the line with its replacements, in the order of their positions.\<close>

fun write_line :: "string \<Rightarrow> nat \<Rightarrow> replacement list \<Rightarrow> string" where
  "write_line line pos [] = drop pos line"
| "write_line line pos (r # rs) =
     take (rep_start r - pos) (drop pos line) @ rep_text r @ write_line line (rep_end r) rs"

definition redact_line :: "(string \<Rightarrow> bool) \<Rightarrow> engine \<Rightarrow> string \<Rightarrow> string \<times> string list \<times> engine" where
  "redact_line addr e line =
     (let s = scan_line addr e line
      in (write_line line 0 (sort_key rep_start (sc_reps s)), sc_changed s, sc_eng s))"

section \<open>Flags\<close>

definition is_letter :: "char \<Rightarrow> bool" where
  "is_letter c \<longleftrightarrow> (let n = (of_char c :: nat) in (97 \<le> n \<and> n \<le> 122) \<or> (65 \<le> n \<and> n \<le> 90))"

definition run_char :: "char \<Rightarrow> bool" where
  "run_char c \<longleftrightarrow> is_letter c \<or> is_digit c \<or> c \<in> {CHR ''+'', CHR ''/'', CHR ''='', CHR ''_'', CHR ''-''}"

text \<open>\<^verbatim>\<open>[A-Za-z0-9+/=_-]{20,}\<close>: the maximal runs of at least 20 characters, from the left.\<close>

function entropy_runs :: "string \<Rightarrow> string list" where
  "entropy_runs s =
     (case dropWhile (\<lambda>c. \<not> run_char c) s of
        [] \<Rightarrow> []
      | c # cs \<Rightarrow>
          let run = takeWhile run_char (c # cs); rest = dropWhile run_char cs
          in (if length run \<ge> 20 then [run] else []) @ entropy_runs rest)"
  by pat_completeness auto

termination
proof (relation "measure length")
  fix s c and cs run rest :: string
  assume "dropWhile (\<lambda>c. \<not> run_char c) s = c # cs" and "rest = dropWhile run_char cs"
  then have "length (c # cs) \<le> length s" "length rest \<le> length cs"
    by (metis length_dropWhile_le, simp add: length_dropWhile_le)
  then show "(rest, s) \<in> measure length" by simp
qed simp

declare entropy_runs.simps [simp del]

definition lower_hex_char :: "char \<Rightarrow> bool" where
  "lower_hex_char c \<longleftrightarrow> is_digit c \<or> (let n = (of_char c :: nat) in 97 \<le> n \<and> n \<le> 102)"

definition upper_hex_char :: "char \<Rightarrow> bool" where
  "upper_hex_char c \<longleftrightarrow> is_digit c \<or> (let n = (of_char c :: nat) in 65 \<le> n \<and> n \<le> 70)"

definition hex_group :: "nat \<Rightarrow> string \<Rightarrow> bool" where
  "hex_group n s \<longleftrightarrow> length s = n \<and> list_all (\<lambda>c. lower_hex_char c \<or> upper_hex_char c) s"

definition idShape :: "string \<Rightarrow> bool" where
  "idShape s \<longleftrightarrow>
     (16 \<le> length s \<and> length s \<le> 64 \<and> (list_all lower_hex_char s \<or> list_all upper_hex_char s)) \<or>
     (case split_on (CHR ''-'') s of
        [a, b, c, d, e] \<Rightarrow> hex_group 8 a \<and> hex_group 4 b \<and> hex_group 4 c \<and> hex_group 4 d \<and> hex_group 12 e
      | _ \<Rightarrow> False)"

definition idName :: "string \<Rightarrow> bool" where
  "idName s \<longleftrightarrow>
     (case s of
        [] \<Rightarrow> False
      | c # cs \<Rightarrow> (is_letter c \<or> c = CHR ''_'') \<and>
                  list_all (\<lambda>c. is_letter c \<or> is_digit c \<or> c = CHR ''_'' \<or> c = CHR ''-'') cs)"

record flag =
  flag_Line :: nat
  flag_Value :: string
  flag_IDShaped :: bool

definition flag_id :: "string \<Rightarrow> bool" where
  "flag_id s \<longleftrightarrow> idShape s \<or> (case cut_at (CHR ''='') s of (name, v, assignment) \<Rightarrow> assignment \<and> idName name \<and> idShape v)"

fun flags_loop :: "(string \<Rightarrow> bool) \<Rightarrow> string set \<Rightarrow> string list \<Rightarrow> string set \<Rightarrow> flag list" where
  "flags_loop high keep [] seen = []"
| "flags_loop high keep (s # ss) seen =
     (if s \<in> keep \<or> s \<in> seen then flags_loop high keep ss seen
      else if list_ex is_letter s \<and> list_ex is_digit s \<and> high s
      then \<lparr>flag_Line = 0, flag_Value = s, flag_IDShaped = flag_id s\<rparr> # flags_loop high keep ss (insert s seen)
      else flags_loop high keep ss seen)"

definition flags :: "(string \<Rightarrow> bool) \<Rightarrow> string \<Rightarrow> string set \<Rightarrow> flag list" where
  "flags high line keep = flags_loop high keep (entropy_runs line) {}"

section \<open>All lines\<close>

text \<open>\<^verbatim>\<open>-----BEGIN [A-Z ]*PRIVATE KEY-----\<close> anywhere in a line, and the same with \<^verbatim>\<open>END\<close>.\<close>

fun key_tail :: "string \<Rightarrow> bool" where
  "key_tail [] = False"
| "key_tail (c # cs) =
     (has_prefix (c # cs) ''PRIVATE KEY-----'' \<or>
      ((let n = (of_char c :: nat) in (65 \<le> n \<and> n \<le> 90) \<or> c = CHR '' '') \<and> key_tail cs))"

fun key_marker :: "string \<Rightarrow> string \<Rightarrow> bool" where
  "key_marker word [] = False"
| "key_marker word (c # cs) =
     ((has_prefix (c # cs) (''-----'' @ word @ '' '') \<and> key_tail (drop (6 + length word) (c # cs))) \<or>
      key_marker word cs)"

definition keyBegin :: "string \<Rightarrow> bool" where "keyBegin line = key_marker ''BEGIN'' line"
definition keyEnd :: "string \<Rightarrow> bool" where "keyEnd line = key_marker ''END'' line"

text \<open>How many lines after the first one the key block goes on: 0 when no end is found in 64 lines.\<close>

fun key_extent :: "string list \<Rightarrow> nat \<Rightarrow> nat \<Rightarrow> nat" where
  "key_extent [] j fuel = 0"
| "key_extent (l # ls) j fuel =
     (if keyEnd l then j
      else (case fuel of 0 \<Rightarrow> 0 | Suc n \<Rightarrow> key_extent ls (Suc j) n))"

record redact_result =
  rd_Lines :: "string list"
  rd_LinesRedacted :: nat
  rd_LinesCollapsed :: nat
  rd_ByCategory :: "string \<rightharpoonup> categoryCount"
  rd_Flags :: "flag list"
  rd_Mapping :: "(string \<times> string) list"
  rd_Rules :: nat

definition count_line :: "string list \<Rightarrow> (string \<rightharpoonup> categoryCount) \<Rightarrow> (string \<rightharpoonup> categoryCount)" where
  "count_line changed by =
     (\<lambda>c. if c \<in> set changed
          then Some (case by c of None \<Rightarrow> \<lparr>cc_Values = 0, cc_Lines = 1\<rparr> | Some n \<Rightarrow> n\<lparr>cc_Lines := cc_Lines n + 1\<rparr>)
          else by c)"

definition emit_line :: "(string \<Rightarrow> bool) \<Rightarrow> engine \<Rightarrow> string \<Rightarrow> string list \<Rightarrow> nat \<Rightarrow> redact_result \<Rightarrow> redact_result" where
  "emit_line high e line changed collapsed res =
     res\<lparr>rd_Lines := rd_Lines res @ [line],
         rd_LinesRedacted := rd_LinesRedacted res + (if changed \<noteq> [] then 1 else 0),
         rd_LinesCollapsed := rd_LinesCollapsed res + collapsed,
         rd_ByCategory := count_line changed (rd_ByCategory res),
         rd_Flags := rd_Flags res @ map (\<lambda>f. f\<lparr>flag_Line := length (rd_Lines res) + 1\<rparr>) (flags high line (eng_keep e))\<rparr>"

text \<open>The main loop over the lines: the key block at its head, or the line on its own.\<close>

function redact_loop ::
  "(string \<Rightarrow> bool) \<Rightarrow> (string \<Rightarrow> bool) \<Rightarrow> string list \<Rightarrow> engine \<times> redact_result \<Rightarrow> engine \<times> redact_result" where
  "redact_loop addr high [] st = st"
| "redact_loop addr high (l # ls) (e, res) =
     (let n = key_extent (l # ls) 0 64; v = join_with [CHR 0x0A] (take (Suc n) (l # ls)) in
      if ''key'' \<notin> eng_off e \<and> keyBegin l \<and> v \<notin> eng_keep e then
        (case placeholder e ''key'' v of (p, e') \<Rightarrow>
           redact_loop addr high (drop n ls) (e', emit_line high e' p [''key''] n res))
      else
        (case redact_line addr e l of (out, changed, e') \<Rightarrow>
           redact_loop addr high ls (e', emit_line high e' out changed 0 res)))"
  by pat_completeness auto

termination by (relation "measure (\<lambda>(_, _, ls, _). length ls)") auto

definition Redact :: "(string \<Rightarrow> bool) \<Rightarrow> (string \<Rightarrow> bool) \<Rightarrow> engine \<Rightarrow> string list \<Rightarrow> redact_result \<times> engine" where
  "Redact addr high e lines =
     (let start = \<lparr>rd_Lines = [], rd_LinesRedacted = 0, rd_LinesCollapsed = 0, rd_ByCategory = Map.empty,
                   rd_Flags = [], rd_Mapping = [], rd_Rules = length (eng_rules e)\<rparr>
      in case redact_loop addr high lines (e, start) of (e', res) \<Rightarrow>
        (res\<lparr>rd_ByCategory := (\<lambda>c.
               case map_of (eng_values e') c of
                 None \<Rightarrow> rd_ByCategory res c
               | Some vs \<Rightarrow> Some (case rd_ByCategory res c of
                                     None \<Rightarrow> \<lparr>cc_Values = int (length vs), cc_Lines = 0\<rparr>
                                   | Some n \<Rightarrow> n\<lparr>cc_Values := int (length vs)\<rparr>)),
             rd_Mapping := Mapping e'\<rparr>, e'))"

end
