(* ===== verification/Relay_Client.thy ===== *)
theory Relay_Client
  imports Relay_Handler
begin

text \<open>
  The relay client (\<^verbatim>\<open>protocol/relayclient.go\<close>): one method per call of the relay API over a common
  \<open>client_do\<close> that retries twice.

  The network and the context are an environment (\<open>client_env\<close>): what an HTTP exchange returns, whether
  the context is done, how a pause ends, and whether a URL makes a request. The environment threads a
  state of its own, so that the relay's model can stand behind it. JSON is a parameter (\<open>client_json\<close>),
  as are \<^verbatim>\<open>url.Parse\<close>, the test for a loopback address and the decoding of a message into runes.
\<close>

section \<open>Requests, answers and errors\<close>

record client_request =
  cq_method :: string
  cq_url :: string
  cq_protocol :: string
  cq_auth :: string
  cq_ctype :: string
  cq_body :: bytes

record client_response =
  cs_status :: nat
  cs_retryAfter :: string
  cs_body :: body_input

record relayError =
  re_Status :: nat
  re_Code :: string
  re_Message :: string
  re_RetryAfter :: duration

datatype client_error =
    CE_Relay relayError
  | CE_Build
  | CE_Context string
  | CE_Transport string
  | CE_Read
  | CE_TooLarge
  | CE_JSON
  | CE_Panic
  | CE_NotRelay string
  | CE_Unreachable string string

definition IsNotFound :: "client_error \<Rightarrow> bool" where
  "IsNotFound e = (case e of CE_Relay r \<Rightarrow> re_Status r = 404 | _ \<Rightarrow> False)"

record 'n client_env =
  env_build :: "string \<Rightarrow> bool"
  env_context :: "'n \<Rightarrow> string option"
  env_send :: "client_request \<Rightarrow> 'n \<Rightarrow> (string + client_response) \<times> 'n"
  env_pause :: "duration \<Rightarrow> 'n \<Rightarrow> bool \<times> 'n"

record relay_info =
  in_ProtocolVersions :: "int list option"
  in_Caps :: caps

record client_json =
  enc_create :: "createSessionRequest \<Rightarrow> bytes"
  enc_join :: "joinRequest \<Rightarrow> bytes"
  enc_envelope :: "envelope \<Rightarrow> bytes"
  dec_info :: "bytes \<Rightarrow> relay_info option"
  dec_session :: "bytes \<Rightarrow> sessionInfo option"
  dec_joinInfo :: "bytes \<Rightarrow> joinInfo option"
  dec_messages :: "bytes \<Rightarrow> envelope list option"
  dec_error :: "bytes \<Rightarrow> (string \<times> string) option"
  runes :: "string \<Rightarrow> (string \<times> bool) list"  \<comment> \<open>each rune in UTF-8, and whether it is printable\<close>

record relayClient =
  BaseURL :: string
  cl_credential :: bytes

section \<open>Construction\<close>

record url =
  u_Scheme :: string
  u_Hostname :: string
  u_hasUser :: bool
  u_RawQuery :: string
  u_ForceQuery :: bool
  u_Fragment :: string
  u_Path :: string
  u_String :: string

definition trim_suffix :: "string \<Rightarrow> string \<Rightarrow> string" where
  "trim_suffix s x = (if has_suffix s x then take (length s - length x) s else s)"

definition NewRelayClient :: "(string \<Rightarrow> url option) \<Rightarrow> (string \<Rightarrow> bool) \<Rightarrow> string \<Rightarrow> bytes \<Rightarrow> relayClient option" where
  "NewRelayClient parse isLoopback baseURL credential =
     (case parse baseURL of
        None \<Rightarrow> None
      | Some u \<Rightarrow>
          if u_Hostname u = '''' \<or> u_hasUser u \<or> u_RawQuery u \<noteq> '''' \<or> u_ForceQuery u \<or> u_Fragment u \<noteq> ''''
             \<or> CHR ''#'' \<in> set baseURL \<or> (u_Path u \<noteq> '''' \<and> u_Path u \<noteq> ''/'')
          then None
          else
            let loopback = (u_Hostname u = ''localhost'' \<or> isLoopback (u_Hostname u)) in
            if u_Scheme u \<noteq> ''https'' \<and> (u_Scheme u \<noteq> ''http'' \<or> \<not> loopback) then None
            else Some \<lparr>BaseURL = trim_suffix (u_String u) ''/'', cl_credential = credential\<rparr>)"

section \<open>The common request\<close>

definition RuneError :: string where "RuneError = [CHR 0xEF, CHR 0xBF, CHR 0xBD]"

text \<open>The relay's message with unprintable runes replaced, cut at 200 bytes.\<close>

fun clean_message :: "(string \<times> bool) list \<Rightarrow> string \<Rightarrow> string" where
  "clean_message [] acc = acc"
| "clean_message ((r, printable) # rs) acc =
     (let r' = (if \<not> printable \<and> r \<noteq> '' '' then RuneError else r) in
      if length acc + length r' > 200 then acc else clean_message rs (acc @ r'))"

definition readRelayBody :: "body_input \<Rightarrow> int \<Rightarrow> client_error + bytes" where
  "readRelayBody b limit =
     (let data = take (nat (limit + 1)) (body_data b) in
      if int (length (body_data b)) < limit + 1 \<and> body_failed b then Inl CE_Read
      else if int (length data) > limit then Inl CE_TooLarge
      else Inr data)"

definition retry_after :: "string \<Rightarrow> duration" where
  "retry_after s =
     (case Atoi s of
        None \<Rightarrow> 0
      | Some n \<Rightarrow> if n > 0 \<and> n \<le> (2 ^ 63 - 1) div second then n * second else 0)"

definition relay_error :: "client_json \<Rightarrow> client_response \<Rightarrow> relayError" where
  "relay_error js resp =
     (let e = \<lparr>re_Status = cs_status resp, re_Code = ''http_'' @ show_nat (cs_status resp), re_Message = '''',
               re_RetryAfter = retry_after (cs_retryAfter resp)\<rparr>
      in case readRelayBody (cs_body resp) (2 * 2 ^ 20) of
           Inl _ \<Rightarrow> e
         | Inr body \<Rightarrow>
             (case dec_error js body of
                None \<Rightarrow> e
              | Some (code, message) \<Rightarrow>
                  if code = '''' then e
                  else e\<lparr>re_Code := code, re_Message := clean_message (runes js message) ''''\<rparr>))"

definition retry_delay :: "nat \<Rightarrow> duration" where
  "retry_delay left = (if left = 1 then 2 * second else second div 2)"

datatype attempt = Final "client_error + client_response" | Again

text \<open>One turn of the loop of \<^verbatim>\<open>do\<close>, up to the pause before the next one.\<close>

definition client_attempt ::
  "'n client_env \<Rightarrow> client_json \<Rightarrow> client_request \<Rightarrow> bool \<Rightarrow> 'n \<Rightarrow> attempt \<times> 'n" where
  "client_attempt E js q is_last n =
     (case env_context E n of
        Some e \<Rightarrow> (Final (Inl (CE_Context e)), n)
      | None \<Rightarrow>
          if \<not> env_build E (cq_url q) then (Final (Inl CE_Build), n)
          else
            (case env_send E q n of (answer, n1) \<Rightarrow>
               let again = (\<lambda>e. case env_context E n1 of
                              Some x \<Rightarrow> (Final (Inl (CE_Context x)), n1)
                            | None \<Rightarrow> (if is_last then Final (Inl (CE_Transport e)) else Again, n1))
               in case answer of
                    Inl e \<Rightarrow> again e
                  | Inr resp \<Rightarrow>
                      if cs_status resp < 500 \<or> cs_status resp \<ge> 600 \<or> is_last then
                        (Final (if 200 \<le> cs_status resp \<and> cs_status resp < 300 then Inr resp
                                else Inl (CE_Relay (relay_error js resp))), n1)
                      else again ''''))"

text \<open>\<^verbatim>\<open>do\<close>, with the number of attempts that may follow this one: 2, 1, 0.\<close>

fun client_do ::
  "'n client_env \<Rightarrow> client_json \<Rightarrow> client_request \<Rightarrow> nat \<Rightarrow> 'n \<Rightarrow> (client_error + client_response) \<times> 'n" where
  "client_do E js q left n =
     (case client_attempt E js q (left = 0) n of
        (Final r, n1) \<Rightarrow> (r, n1)
      | (Again, n1) \<Rightarrow>
          (case left of
             0 \<Rightarrow> (Inl CE_Panic, n1)
           | Suc l \<Rightarrow>
               (case env_pause E (retry_delay left) n1 of (cancelled, n2) \<Rightarrow>
                  if cancelled
                  then (Inl (CE_Context (case env_context E n2 of None \<Rightarrow> '''' | Some x \<Rightarrow> x)), n2)
                  else client_do E js q l n2)))"

declare client_do.simps [simp del]

definition client_request ::
  "'n client_env \<Rightarrow> client_json \<Rightarrow> relayClient \<Rightarrow> string \<Rightarrow> string \<Rightarrow> string \<Rightarrow> bytes \<Rightarrow> int \<Rightarrow> 'n \<Rightarrow> (client_error + bytes) \<times> 'n" where
  "client_request E js c meth path contentType body limit n =
     (case client_do E js \<lparr>cq_method = meth, cq_url = BaseURL c @ path, cq_protocol = ''1'',
                           cq_auth = AuthorizationHeader (cl_credential c), cq_ctype = contentType, cq_body = body\<rparr> 2 n of
        (Inl e, n1) \<Rightarrow> (Inl e, n1)
      | (Inr resp, n1) \<Rightarrow> (readRelayBody (cs_body resp) limit, n1))"

section \<open>The calls\<close>

definition chunkPath :: "sessionID \<Rightarrow> u64 \<Rightarrow> string" where
  "chunkPath i index = sessionPath i @ ''/blob/chunks/'' @ show_nat (unat index)"

text \<open>\<^verbatim>\<open>int64(ttl / time.Second)\<close>: the division truncates towards zero.\<close>

definition whole_seconds :: "duration \<Rightarrow> int" where
  "whole_seconds d = (if d < 0 then - ((- d) div second) else d div second)"

definition json_limit :: int where "json_limit = 2 * 2 ^ 20"

definition decodeRelayJSON :: "(bytes \<Rightarrow> 'a option) \<Rightarrow> bytes \<Rightarrow> client_error + 'a" where
  "decodeRelayJSON dec body = (case dec body of None \<Rightarrow> Inl CE_JSON | Some v \<Rightarrow> Inr v)"

text \<open>Decoding the body of an answer, if there is one.\<close>

definition decoded :: "(bytes \<Rightarrow> 'a option) \<Rightarrow> (client_error + bytes) \<times> 'n \<Rightarrow> (client_error + 'a) \<times> 'n" where
  "decoded dec r = apfst (\<lambda>b. case b of Inl e \<Rightarrow> Inl e | Inr body \<Rightarrow> decodeRelayJSON dec body) r"

text \<open>A transport failure is the error of \<^verbatim>\<open>http.Client.Do\<close>, whose innermost cause is shown.\<close>

definition Client_Info :: "'n client_env \<Rightarrow> client_json \<Rightarrow> relayClient \<Rightarrow> 'n \<Rightarrow> (client_error + relay_info) \<times> 'n" where
  "Client_Info E js c n =
     (case client_request E js c ''GET'' ''/v0/info'' '''' [] json_limit n of
        (Inl e, n1) \<Rightarrow>
          (Inl (if IsNotFound e then CE_NotRelay (BaseURL c)
                else case e of CE_Transport cause \<Rightarrow> CE_Unreachable (BaseURL c) cause | _ \<Rightarrow> e), n1)
      | (Inr body, n1) \<Rightarrow>
          (case dec_info js body of
             None \<Rightarrow> (Inl (CE_NotRelay (BaseURL c)), n1)
           | Some info \<Rightarrow>
               (if in_ProtocolVersions info = None then Inl (CE_NotRelay (BaseURL c)) else Inr info, n1)))"

definition Client_CreateSession ::
  "'n client_env \<Rightarrow> client_json \<Rightarrow> relayClient \<Rightarrow> sessionID \<Rightarrow> duration \<Rightarrow> u32 \<Rightarrow> 'n \<Rightarrow> (client_error + sessionInfo) \<times> 'n" where
  "Client_CreateSession E js c i ttl chunkCount n =
     decoded (dec_session js)
       (client_request E js c ''PUT'' (sessionPath i) ''application/json''
          (enc_create js \<lparr>cr_mode = '''', cr_collectorKey = '''', cr_collectorMAC = '''',
                          cr_ttlSeconds = whole_seconds ttl, cr_chunkCount = chunkCount\<rparr>) json_limit n)"

definition Client_CreatePersistentSession ::
  "'n client_env \<Rightarrow> client_json \<Rightarrow> relayClient \<Rightarrow> sessionID \<Rightarrow> duration \<Rightarrow> bytes \<Rightarrow> bytes \<Rightarrow> 'n \<Rightarrow> (client_error + sessionInfo) \<times> 'n" where
  "Client_CreatePersistentSession E js c i ttl collectorKey collectorMAC n =
     decoded (dec_session js)
       (client_request E js c ''PUT'' (sessionPath i) ''application/json''
          (enc_create js \<lparr>cr_mode = ''session'', cr_collectorKey = EncodeKey collectorKey, cr_collectorMAC = EncodeKey collectorMAC,
                          cr_ttlSeconds = whole_seconds ttl, cr_chunkCount = 0\<rparr>) json_limit n)"

definition Client_Session ::
  "'n client_env \<Rightarrow> client_json \<Rightarrow> relayClient \<Rightarrow> sessionID \<Rightarrow> 'n \<Rightarrow> (client_error + sessionInfo) \<times> 'n" where
  "Client_Session E js c i n =
     decoded (dec_session js) (client_request E js c ''GET'' (sessionPath i) '''' [] json_limit n)"

text \<open>The error of a call whose body is not looked at.\<close>

definition failure :: "(client_error + 'a) \<times> 'n \<Rightarrow> client_error option \<times> 'n" where
  "failure r = apfst (\<lambda>b. case b of Inl e \<Rightarrow> Some e | Inr _ \<Rightarrow> None) r"

definition already_exists :: "client_error \<Rightarrow> bool" where
  "already_exists e = (case e of CE_Relay r \<Rightarrow> re_Status r = 409 \<and> re_Code r = ''already_exists'' | _ \<Rightarrow> False)"

definition Client_PutChunk ::
  "'n client_env \<Rightarrow> client_json \<Rightarrow> relayClient \<Rightarrow> sessionID \<Rightarrow> u64 \<Rightarrow> bytes \<Rightarrow> 'n \<Rightarrow> client_error option \<times> 'n" where
  "Client_PutChunk E js c i index ciphertext n =
     (case failure (client_request E js c ''PUT'' (chunkPath i index) ''application/octet-stream'' ciphertext json_limit n) of
        (Some e, n1) \<Rightarrow> (if already_exists e then None else Some e, n1)
      | r \<Rightarrow> r)"

definition Client_PutManifest ::
  "'n client_env \<Rightarrow> client_json \<Rightarrow> relayClient \<Rightarrow> sessionID \<Rightarrow> bytes \<Rightarrow> 'n \<Rightarrow> client_error option \<times> 'n" where
  "Client_PutManifest E js c i ciphertext n =
     failure (client_request E js c ''PUT'' (sessionPath i @ ''/blob/manifest'') ''application/octet-stream'' ciphertext json_limit n)"

definition Client_GetManifest ::
  "'n client_env \<Rightarrow> client_json \<Rightarrow> relayClient \<Rightarrow> sessionID \<Rightarrow> 'n \<Rightarrow> (client_error + bytes) \<times> 'n" where
  "Client_GetManifest E js c i n =
     client_request E js c ''GET'' (sessionPath i @ ''/blob/manifest'') '''' [] (int (ChunkSize + ChunkOverhead)) n"

definition Client_GetChunk ::
  "'n client_env \<Rightarrow> client_json \<Rightarrow> relayClient \<Rightarrow> sessionID \<Rightarrow> u64 \<Rightarrow> 'n \<Rightarrow> (client_error + bytes) \<times> 'n" where
  "Client_GetChunk E js c i index n =
     client_request E js c ''GET'' (chunkPath i index) '''' [] (int (ChunkSize + ChunkOverhead)) n"

definition Client_DeleteSession ::
  "'n client_env \<Rightarrow> client_json \<Rightarrow> relayClient \<Rightarrow> sessionID \<Rightarrow> 'n \<Rightarrow> client_error option \<times> 'n" where
  "Client_DeleteSession E js c i n = failure (client_request E js c ''DELETE'' (sessionPath i) '''' [] json_limit n)"

definition Client_Join ::
  "'n client_env \<Rightarrow> client_json \<Rightarrow> relayClient \<Rightarrow> sessionID \<Rightarrow> bytes \<Rightarrow> bytes \<Rightarrow> string \<Rightarrow> 'n \<Rightarrow> (client_error + joinInfo) \<times> 'n" where
  "Client_Join E js c i mcpKey mcpMAC via n =
     decoded (dec_joinInfo js)
       (client_request E js c ''POST'' (sessionPath i @ ''/join'') ''application/json''
          (enc_join js \<lparr>jr_mcpKey = EncodeKey mcpKey, jr_mcpMAC = EncodeKey mcpMAC, jr_via = via\<rparr>) json_limit n)"

definition waitQuery :: "duration \<Rightarrow> string" where
  "waitQuery wait = ''?wait='' @ show_nat (nat (max 0 (min (wait div second) 30)))"

text \<open>\<^verbatim>\<open>WaitJoin\<close>: \<open>None\<close> when nobody has joined yet.\<close>

definition WaitJoin ::
  "'n client_env \<Rightarrow> client_json \<Rightarrow> relayClient \<Rightarrow> sessionID \<Rightarrow> duration \<Rightarrow> 'n \<Rightarrow> (client_error + joinInfo option) \<times> 'n" where
  "WaitJoin E js c i wait n =
     (case client_request E js c ''GET'' (sessionPath i @ ''/join'' @ waitQuery wait) '''' [] json_limit n of
        (Inl e, n1) \<Rightarrow> (Inl e, n1)
      | (Inr body, n1) \<Rightarrow>
          if body = [] then (Inr None, n1)
          else (case decodeRelayJSON (dec_joinInfo js) body of Inl e \<Rightarrow> Inl e | Inr info \<Rightarrow> Inr (Some info), n1))"

definition postEnvelope ::
  "'n client_env \<Rightarrow> client_json \<Rightarrow> relayClient \<Rightarrow> sessionID \<Rightarrow> string \<Rightarrow> envelope \<Rightarrow> 'n \<Rightarrow> client_error option \<times> 'n" where
  "postEnvelope E js c i sfx e n =
     failure (client_request E js c ''POST'' (sessionPath i @ sfx) ''application/json'' (enc_envelope js e) json_limit n)"

definition PostJob ::
  "'n client_env \<Rightarrow> client_json \<Rightarrow> relayClient \<Rightarrow> sessionID \<Rightarrow> envelope \<Rightarrow> 'n \<Rightarrow> client_error option \<times> 'n" where
  "PostJob E js c i e n = postEnvelope E js c i ''/jobs'' e n"

definition PostResult ::
  "'n client_env \<Rightarrow> client_json \<Rightarrow> relayClient \<Rightarrow> sessionID \<Rightarrow> envelope \<Rightarrow> 'n \<Rightarrow> client_error option \<times> 'n" where
  "PostResult E js c i e n = postEnvelope E js c i ''/results'' e n"

definition pollMessages ::
  "'n client_env \<Rightarrow> client_json \<Rightarrow> relayClient \<Rightarrow> sessionID \<Rightarrow> string \<Rightarrow> duration \<Rightarrow> nat \<Rightarrow> 'n \<Rightarrow> (client_error + envelope list) \<times> 'n" where
  "pollMessages E js c i sfx wait capBytes n =
     (let limit = int (64 * (4 * ((capBytes + 2) div 3) + 1024)) in
      case client_request E js c ''GET'' (sessionPath i @ sfx @ waitQuery wait) '''' [] limit n of
        (Inl e, n1) \<Rightarrow> (Inl e, n1)
      | (Inr body, n1) \<Rightarrow>
          (if body = [] then Inr [] else decodeRelayJSON (dec_messages js) body, n1))"

definition PollJobs ::
  "'n client_env \<Rightarrow> client_json \<Rightarrow> relayClient \<Rightarrow> sessionID \<Rightarrow> duration \<Rightarrow> 'n \<Rightarrow> (client_error + envelope list) \<times> 'n" where
  "PollJobs E js c i wait n = pollMessages E js c i ''/jobs'' wait MaxJobBytes n"

definition PollResults ::
  "'n client_env \<Rightarrow> client_json \<Rightarrow> relayClient \<Rightarrow> sessionID \<Rightarrow> duration \<Rightarrow> 'n \<Rightarrow> (client_error + envelope list) \<times> 'n" where
  "PollResults E js c i wait n = pollMessages E js c i ''/results'' wait MaxResultBytes n"

section \<open>Retrying\<close>

text \<open>The environment that also writes down every exchange.\<close>

definition logged :: "'n client_env \<Rightarrow> ('n \<times> (client_request \<times> (string + client_response)) list) client_env" where
  "logged E = \<lparr>env_build = env_build E, env_context = (\<lambda>(n, _). env_context E n),
     env_send = (\<lambda>q (n, l). case env_send E q n of (a, n') \<Rightarrow> (a, n', l @ [(q, a)])),
     env_pause = (\<lambda>d (n, l). case env_pause E d n of (b, n') \<Rightarrow> (b, n', l))\<rparr>"

text \<open>An exchange after which another one may follow.\<close>

definition failed_exchange :: "string + client_response \<Rightarrow> bool" where
  "failed_exchange a = (case a of Inl _ \<Rightarrow> True | Inr resp \<Rightarrow> 500 \<le> cs_status resp \<and> cs_status resp < 600)"

definition success :: "client_response \<Rightarrow> bool" where
  "success resp \<longleftrightarrow> 200 \<le> cs_status resp \<and> cs_status resp < 300"

text \<open>What the exchanges of one call look like, given its result.\<close>

definition exchanges ::
  "client_request \<Rightarrow> nat \<Rightarrow> client_error + client_response \<Rightarrow> (client_request \<times> (string + client_response)) list \<Rightarrow> bool" where
  "exchanges q left r log \<longleftrightarrow>
     length log \<le> Suc left \<and> list_all (\<lambda>x. fst x = q) log \<and> list_all (\<lambda>x. failed_exchange (snd x)) (butlast log) \<and>
     (\<forall>resp. r = Inr resp \<longrightarrow> log \<noteq> [] \<and> snd (last log) = Inr resp \<and> success resp) \<and> r \<noteq> Inl CE_Panic"

lemma exchanges_Cons:
  "failed_exchange a \<Longrightarrow> exchanges q left r log \<Longrightarrow> exchanges q (Suc left) r ((q, a) # log)"
  by (auto simp: exchanges_def)

lemma exchanges_context: "failed_exchange a \<Longrightarrow> exchanges q left (Inl (CE_Context e)) [(q, a)]"
  by (simp add: exchanges_def)

lemma logged_attempt:
  assumes "client_attempt (logged E) js q is_last (n, l) = (a, n', l')"
  shows "(\<exists>log r. a = Final r \<and> l' = l @ log \<and> exchanges q 0 r log) \<or>
    (\<exists>answer. a = Again \<and> l' = l @ [(q, answer)] \<and> failed_exchange answer \<and> \<not> is_last)"
  using assms
  by (auto simp: client_attempt_def logged_def Let_def failed_exchange_def success_def exchanges_def
      split: option.splits if_splits prod.splits sum.splits)

lemma logged_do:
  assumes "client_do (logged E) js q left (n, l) = (r, n', l')"
  shows "\<exists>log. l' = l @ log \<and> exchanges q left r log"
  using assms
proof (induction left arbitrary: n l)
  case 0
  obtain a n1 l1 where a: "client_attempt (logged E) js q True (n, l) = (a, n1, l1)" by (metis prod_cases3)
  with logged_attempt [OF a] 0 show ?case by (auto simp: client_do.simps)
next
  case (Suc left)
  obtain a n1 l1 where a: "client_attempt (logged E) js q False (n, l) = (a, n1, l1)" by (metis prod_cases3)
  show ?case
  proof (cases a)
    case (Final x)
    with Suc.prems a have "r = x" "l' = l1" by (simp_all add: client_do.simps)
    with logged_attempt [OF a] Final show ?thesis by (auto simp: exchanges_def)
  next
    case Again
    with logged_attempt [OF a] obtain answer where ans: "l1 = l @ [(q, answer)]" "failed_exchange answer" by blast
    obtain cancelled n2 where p: "env_pause E (retry_delay (Suc left)) n1 = (cancelled, n2)" by fastforce
    show ?thesis
    proof (cases cancelled)
      case True
      with Suc.prems a Again p have "\<exists>e. r = Inl (CE_Context e)" "l' = l1"
        by (auto simp: client_do.simps [of _ _ _ "Suc left"] logged_def)
      with ans show ?thesis using exchanges_context by blast
    next
      case False
      with Suc.prems a Again p have "client_do (logged E) js q left (n2, l1) = (r, n', l')"
        by (simp add: client_do.simps [of _ _ _ "Suc left"]) (simp add: logged_def)
      from Suc.IH [OF this] obtain log where "l' = l1 @ log" "exchanges q left r log" by blast
      then show ?thesis using ans by (intro exI [of _ "(q, answer) # log"]) (simp add: exchanges_Cons)
    qed
  qed
qed

text \<open>
  A call talks to the relay at most three times, each time with the same request, which carries the
  protocol version and the session's credential; it repeats the request only after a transport failure
  or a server error (status 5xx), and what it returns as a success is the body of the last answer, an
  answer with status 2xx of at most the size the call allows.
\<close>

lemma client_retries:
  assumes "client_request (logged E) js c meth path contentType body limit (n, []) = (r, n', log)"
  shows "length log \<le> 3 \<and>
    list_all (\<lambda>(q, a). q = \<lparr>cq_method = meth, cq_url = BaseURL c @ path, cq_protocol = ''1'',
      cq_auth = AuthorizationHeader (cl_credential c), cq_ctype = contentType, cq_body = body\<rparr>) log \<and>
    list_all (\<lambda>(q, a). failed_exchange a) (butlast log) \<and>
    (\<forall>out. r = Inr out \<longrightarrow>
       (\<exists>q resp. log \<noteq> [] \<and> last log = (q, Inr resp) \<and> success resp \<and> body_data (cs_body resp) = out \<and>
                 int (length out) \<le> limit)) \<and>
    r \<noteq> Inl CE_Panic"
proof -
  define q where "q = \<lparr>cq_method = meth, cq_url = BaseURL c @ path, cq_protocol = ''1'',
      cq_auth = AuthorizationHeader (cl_credential c), cq_ctype = contentType, cq_body = body\<rparr>"
  obtain x where x: "client_do (logged E) js q 2 (n, []) = (x, n', log)"
      and r: "r = (case x of Inl e \<Rightarrow> Inl e | Inr resp \<Rightarrow> readRelayBody (cs_body resp) limit)"
    using assms unfolding client_request_def q_def [symmetric] by (auto split: prod.splits sum.splits)
  from logged_do [OF x] have ex: "exchanges q 2 x log" by simp
  have body: "body_data b = out \<and> int (length out) \<le> limit" if "readRelayBody b limit = Inr out" for b out
    using that by (auto simp: readRelayBody_def Let_def split: if_splits)
  have "r \<noteq> Inl CE_Panic"
    using ex r by (auto simp: exchanges_def readRelayBody_def Let_def split: sum.splits if_splits)
  moreover have "\<exists>q resp. log \<noteq> [] \<and> last log = (q, Inr resp) \<and> success resp \<and> body_data (cs_body resp) = out \<and>
      int (length out) \<le> limit" if "r = Inr out" for out
  proof -
    from that r obtain resp where x': "x = Inr resp" "readRelayBody (cs_body resp) limit = Inr out" by (cases x) auto
    with ex have "log \<noteq> []" "snd (last log) = Inr resp" "success resp" by (auto simp: exchanges_def)
    with body [OF x'(2)] show ?thesis by (metis prod.collapse)
  qed
  ultimately show ?thesis
    using ex unfolding q_def [symmetric] by (simp add: exchanges_def case_prod_unfold)
qed

text \<open>An environment that fails once and then answers: the state counts the exchanges.\<close>

definition flaky_env :: "nat client_env" where
  "flaky_env = \<lparr>env_build = (\<lambda>_. True), env_context = (\<lambda>_. None),
     env_send = (\<lambda>q n. (if n = 0 then Inl ''reset''
                        else Inr \<lparr>cs_status = 200, cs_retryAfter = '''', cs_body = \<lparr>body_data = [7], body_failed = False\<rparr>\<rparr>, Suc n)),
     env_pause = (\<lambda>_ n. (False, n))\<rparr>"

definition no_json :: client_json where
  "no_json = \<lparr>enc_create = (\<lambda>_. []), enc_join = (\<lambda>_. []), enc_envelope = (\<lambda>_. []), dec_info = (\<lambda>_. None),
     dec_session = (\<lambda>_. None), dec_joinInfo = (\<lambda>_. None), dec_messages = (\<lambda>_. None), dec_error = (\<lambda>_. None), runes = (\<lambda>_. [])\<rparr>"

lemma client_retries_witness:
  "\<exists>log. client_request (logged flaky_env) no_json \<lparr>BaseURL = ''r'', cl_credential = []\<rparr> ''GET'' '''' '''' [] 5 (0, []) = (Inr [7], 2, log) \<and>
     length log \<le> 3 \<and> list_all (\<lambda>(q, a). failed_exchange a) (butlast log)"
proof -
  obtain log where r: "client_request (logged flaky_env) no_json \<lparr>BaseURL = ''r'', cl_credential = []\<rparr> ''GET'' '''' '''' [] 5 (0, []) =
      (Inr [7], 2, log)"
    by (simp add: client_request_def client_do.simps client_attempt_def logged_def flaky_env_def readRelayBody_def numeral_2_eq_2)
  with client_retries [OF r] show ?thesis by blast
qed

end
