(* ===== verification/Artifact.thy ===== *)
theory Artifact
  imports Relay_Client Blob
begin

text \<open>
  Artifacts on the reader's side (\<^verbatim>\<open>internal/artifact/artifact.go\<close>): downloading and checking one, cutting
  its plaintext into sources and lines, and the reads and searches over the lines.

  Line numbers are Go's \<^verbatim>\<open>int\<close>; the two sums that involve a caller's number wrap around as in the
  code, so the loop of \<open>Search\<close> is a \<open>partial_function\<close> and its return is a theorem. The regular expression is a
  predicate on lines; \<^verbatim>\<open>strings.ToValidUTF8\<close> and the decoding of the manifest's JSON are parameters.
\<close>

section \<open>Artifacts\<close>

record source_lines =
  src_Meta :: manifestSource
  src_Lines :: "string list"

record artifact =
  art_Manifest :: manifest
  art_Sources :: "source_lines list"

record line =
  ln_Source :: string
  ln_N :: int
  ln_Text :: string
  ln_Match :: bool

datatype load_error =
    LE_NotFound
  | LE_Integrity
  | LE_Client client_error
  | LE_Blob blob_error
  | LE_Manifest manifest_error
  | LE_Cancelled

definition bytes_string :: "bytes \<Rightarrow> string" where
  "bytes_string b = map (\<lambda>x. char_of (unat x)) b"

lemma bytes_string_bytes: "bytes_string (string_bytes s) = s"
proof -
  have "unat (of_nat (of_char c) :: byte) = of_char c" for c :: char
    by (simp add: unat_of_nat)
  then show ?thesis by (induction s) (simp_all add: bytes_string_def string_bytes_def)
qed

definition text_lines :: "string \<Rightarrow> string list" where
  "text_lines text =
     (let lines = split_on (CHR 0x0A) text
      in if last lines = '''' then butlast lines else lines)"

fun cut_sources :: "(string \<Rightarrow> string) \<Rightarrow> bytes \<Rightarrow> manifestSource list \<Rightarrow> load_error + source_lines list" where
  "cut_sources valid plaintext [] = Inr []"
| "cut_sources valid plaintext (meta # metas) =
     (let text = bytes_string (take (nat (ms_bytes meta)) (drop (nat (ms_offset meta)) plaintext));
          lines = text_lines text
      in if int (length lines) \<noteq> ms_lines meta then Inl LE_Integrity
         else (case cut_sources valid plaintext metas of
                 Inl e \<Rightarrow> Inl e
               | Inr ss \<Rightarrow> Inr (\<lparr>src_Meta = meta, src_Lines = map valid lines\<rparr> # ss)))"

definition FromPlaintext :: "(string \<Rightarrow> string) \<Rightarrow> manifest \<Rightarrow> bytes \<Rightarrow> load_error + artifact" where
  "FromPlaintext valid m plaintext =
     (case Manifest_Validate m of
        Some e \<Rightarrow> Inl (LE_Manifest e)
      | None \<Rightarrow>
          if int (length plaintext) \<noteq> m_totalBytes m then Inl LE_Integrity
          else (case cut_sources valid plaintext (m_sources m) of
                  Inl e \<Rightarrow> Inl e
                | Inr ss \<Rightarrow> Inr \<lparr>art_Manifest = m, art_Sources = ss\<rparr>))"

section \<open>Loading\<close>

text \<open>
  What the client's calls return in one run. Each call is made at most once, so its answer is a
  function of its arguments. The four workers finish the chunks in some order, here a list of indexes;
  the first error in that order is the one that \<^verbatim>\<open>once\<close> keeps. A context that is done before the
  end is \<open>ans_cancelled\<close>.
\<close>

record answers =
  ans_Session :: "client_error + sessionInfo"
  ans_Manifest :: "client_error + bytes"
  ans_Chunk :: "u64 \<Rightarrow> client_error + bytes"
  ans_order :: "nat list"
  ans_cancelled :: bool

definition client_failure :: "client_error \<Rightarrow> load_error" where
  "client_failure e = (if IsNotFound e then LE_NotFound else LE_Client e)"

definition load_chunk :: "crypto \<Rightarrow> blobKeys \<Rightarrow> manifest \<Rightarrow> answers \<Rightarrow> nat \<Rightarrow> load_error + bytes" where
  "load_chunk C keys m ans i =
     (case ans_Chunk ans (of_nat i) of
        Inl e \<Rightarrow> Inl (client_failure e)
      | Inr sealed \<Rightarrow>
          if hex_encode (sha256 C sealed) \<noteq> m_chunksSHA256 m ! i then Inl LE_Integrity
          else (case OpenChunk C keys (of_nat i) (m_chunkCount m) sealed of
                  Inl e \<Rightarrow> Inl (LE_Blob e)
                | Inr chunk \<Rightarrow>
                    if int (length chunk) \<noteq> min (int ChunkSize) (m_totalBytes m - int i * int ChunkSize)
                    then Inl LE_Integrity else Inr chunk))"

text \<open>\<^verbatim>\<open>copy(plaintext[start:], chunk)\<close>\<close>

definition copy_at :: "nat \<Rightarrow> 'a list \<Rightarrow> 'a list \<Rightarrow> 'a list" where
  "copy_at start chunk xs =
     take start xs @ take (length xs - start) chunk @ drop (start + length chunk) xs"

fun load_chunks :: "crypto \<Rightarrow> blobKeys \<Rightarrow> manifest \<Rightarrow> answers \<Rightarrow> nat list \<Rightarrow> bytes \<Rightarrow> load_error + bytes" where
  "load_chunks C keys m ans [] plaintext = Inr plaintext"
| "load_chunks C keys m ans (i # is) plaintext =
     (case load_chunk C keys m ans i of
        Inl e \<Rightarrow> Inl e
      | Inr chunk \<Rightarrow> load_chunks C keys m ans is (copy_at (i * ChunkSize) chunk plaintext))"

definition Load ::
  "crypto \<Rightarrow> (bytes \<Rightarrow> manifest option) \<Rightarrow> (string \<Rightarrow> string) \<Rightarrow> answers \<Rightarrow> token \<Rightarrow> load_error + artifact" where
  "Load C dec_manifest valid ans token =
     (case ans_Session ans of
        Inl e \<Rightarrow> Inl (client_failure e)
      | Inr info \<Rightarrow>
          (case ans_Manifest ans of
             Inl e \<Rightarrow> Inl (client_failure e)
           | Inr encrypted \<Rightarrow>
               let keys = DeriveBlobKeys C (Token_ContentRoot C token) in
               (case OpenManifest C keys (si_chunkCount info) encrypted of
                  Inl e \<Rightarrow> Inl (LE_Blob e)
                | Inr data \<Rightarrow>
                    (case dec_manifest data of
                       None \<Rightarrow> Inl LE_Integrity
                     | Some m \<Rightarrow>
                         (case Manifest_Validate m of
                            Some e \<Rightarrow> Inl (LE_Manifest e)
                          | None \<Rightarrow>
                              if m_chunkCount m \<noteq> si_chunkCount info then Inl LE_Integrity
                              else
                                (case load_chunks C keys m ans (ans_order ans) (replicate (nat (m_totalBytes m)) 0) of
                                   Inl e \<Rightarrow> Inl e
                                 | Inr plaintext \<Rightarrow>
                                     if ans_cancelled ans then Inl LE_Cancelled
                                     else FromPlaintext valid m plaintext))))))"

section \<open>Reading\<close>

definition Artifact_Source :: "artifact \<Rightarrow> string \<Rightarrow> string list + source_lines" where
  "Artifact_Source a name =
     (case filter (\<lambda>s. ms_name (src_Meta s) = name) (art_Sources a) of
        s # _ \<Rightarrow> Inr s
      | [] \<Rightarrow> Inl (map (\<lambda>s. ms_name (src_Meta s)) (art_Sources a)))"

definition n_lines :: "source_lines \<Rightarrow> int" where
  "n_lines s = int (length (src_Lines s))"

definition Source_Read :: "source_lines \<Rightarrow> int \<Rightarrow> int \<Rightarrow> line list" where
  "Source_Read s a b =
     map (\<lambda>n. \<lparr>ln_Source = ms_name (src_Meta s), ln_N = n, ln_Text = src_Lines s ! nat (n - 1), ln_Match = False\<rparr>)
       [max 1 a..min b (n_lines s)]"

definition Source_Tail :: "source_lines \<Rightarrow> int \<Rightarrow> line list" where
  "Source_Tail s n = Source_Read s (max 1 (wrap64 (n_lines s - n + 1))) (n_lines s)"

definition Source_Context :: "source_lines \<Rightarrow> int \<Rightarrow> int \<Rightarrow> line list" where
  "Source_Context s line around =
     Source_Read s (max 1 (wrap64 (line - around))) (wrap64 (line + min around (wrap64 (n_lines s - line))))"

definition RedactedLines :: "(string \<Rightarrow> bool) \<Rightarrow> line list \<Rightarrow> int" where
  "RedactedLines has_placeholder lines = int (length (filter (\<lambda>l. has_placeholder (ln_Text l)) lines))"

section \<open>Searching\<close>

record searchQuery =
  q_Regex :: "(string \<Rightarrow> bool) option"
  q_Source :: string
  q_Before :: int
  q_After :: int
  q_Max :: int
  q_StartSource :: int
  q_StartLine :: int

record searchResult =
  sr_Lines :: "line list"
  sr_Matches :: int
  sr_NextSource :: int
  sr_NextLine :: int
  sr_Done :: bool

datatype search_error = UnknownSource "string list" | InvalidQuery

text \<open>The lines of one hit with their context, each marked with whether it matches.\<close>

definition hit_lines :: "(string \<Rightarrow> bool) \<Rightarrow> int \<Rightarrow> int \<Rightarrow> source_lines \<Rightarrow> int \<Rightarrow> int \<Rightarrow> line list" where
  "hit_lines re before after s n emitted =
     map (\<lambda>l. l\<lparr>ln_Match := re (ln_Text l)\<rparr>)
       (Source_Read s (max (emitted + 1) (wrap64 (n - before))) (min (n_lines s) (wrap64 (n + after))))"

text \<open>
  The loop over the lines of one source. The result tells whether the search stops here, the last line
  emitted, and the lines and matches so far; \<open>None\<close> is a loop that does not end.
\<close>

partial_function (option) search_lines ::
  "(string \<Rightarrow> bool) \<Rightarrow> int \<Rightarrow> int \<Rightarrow> int \<Rightarrow> source_lines \<Rightarrow> int \<Rightarrow> int \<Rightarrow> line list \<Rightarrow> int \<Rightarrow> (bool \<times> int \<times> line list \<times> int) option" where
  "search_lines re before after mx s n emitted lines matches =
     (if n_lines s < n then Some (False, emitted, lines, matches)
      else if \<not> re (src_Lines s ! nat (n - 1)) then search_lines re before after mx s (n + 1) emitted lines matches
      else
        let got = hit_lines re before after s n emitted;
            emitted' = (if got = [] then emitted else ln_N (last got));
            matches' = matches + int (length (filter ln_Match got))
        in if mx \<le> matches' then Some (True, emitted', lines @ got, matches')
           else search_lines re before after mx s (emitted' + 1) emitted' (lines @ got) matches')"

text \<open>The loop over the sources, from the source with index \<open>si\<close> on.\<close>

fun search_sources ::
  "searchQuery \<Rightarrow> (string \<Rightarrow> bool) \<Rightarrow> nat \<Rightarrow> source_lines list \<Rightarrow> nat \<Rightarrow> line list \<Rightarrow> int \<Rightarrow> searchResult option" where
  "search_sources q re count [] si lines matches =
     Some \<lparr>sr_Lines = lines, sr_Matches = matches, sr_NextSource = int count, sr_NextLine = 1, sr_Done = True\<rparr>"
| "search_sources q re count (s # ss) si lines matches =
     (if q_Source q \<noteq> '''' \<and> q_Source q \<noteq> ms_name (src_Meta s) then search_sources q re count ss (Suc si) lines matches
      else
        let start = (if int si = q_StartSource q then max 1 (q_StartLine q) else 1) in
        (case search_lines re (q_Before q) (q_After q) (q_Max q) s start (start - 1) lines matches of
           None \<Rightarrow> None
         | Some (False, _, lines', matches') \<Rightarrow> search_sources q re count ss (Suc si) lines' matches'
         | Some (True, emitted, lines', matches') \<Rightarrow>
             if emitted = n_lines s then
               Some \<lparr>sr_Lines = lines', sr_Matches = matches', sr_NextSource = int si + 1, sr_NextLine = 1,
                     sr_Done = (q_Source q \<noteq> '''' \<or> Suc si = count)\<rparr>
             else
               Some \<lparr>sr_Lines = lines', sr_Matches = matches', sr_NextSource = int si, sr_NextLine = emitted + 1,
                     sr_Done = False\<rparr>))"

definition unknown_source :: "artifact \<Rightarrow> string \<Rightarrow> string list option" where
  "unknown_source a name = (case Artifact_Source a name of Inl names \<Rightarrow> Some names | Inr _ \<Rightarrow> None)"

definition Artifact_Search :: "artifact \<Rightarrow> searchQuery \<Rightarrow> (search_error + searchResult) option" where
  "Artifact_Search a q =
     (case (if q_Source q = '''' then None else unknown_source a (q_Source q)) of
        Some names \<Rightarrow> Some (Inl (UnknownSource names))
      | None \<Rightarrow>
          (case q_Regex q of
             None \<Rightarrow> Some (Inl InvalidQuery)
           | Some re \<Rightarrow>
               if q_Before q < 0 \<or> q_After q < 0 \<or> q_Max q < 1 \<or> q_StartSource q < 0
                  \<or> q_StartSource q > int (length (art_Sources a)) \<or> q_StartLine q < 0
               then Some (Inl InvalidQuery)
               else map_option Inr
                 (search_sources q re (length (art_Sources a)) (drop (nat (q_StartSource q)) (art_Sources a))
                    (nat (q_StartSource q)) [] 0)))"

section \<open>Lines of a source\<close>

definition marked :: "(string \<Rightarrow> bool) \<Rightarrow> source_lines \<Rightarrow> int \<Rightarrow> int \<Rightarrow> line list" where
  "marked re s a b = map (\<lambda>l. l\<lparr>ln_Match := re (ln_Text l)\<rparr>) (Source_Read s a b)"

definition matches_at :: "(string \<Rightarrow> bool) \<Rightarrow> source_lines \<Rightarrow> int \<Rightarrow> bool" where
  "matches_at re s n \<longleftrightarrow> 1 \<le> n \<and> n \<le> n_lines s \<and> re (src_Lines s ! nat (n - 1))"

lemma upto_append_int: "a \<le> m + 1 \<Longrightarrow> m \<le> (k :: int) \<Longrightarrow> [a..m] @ [m + 1..k] = [a..k]"
  using upto_split2 [of a m k] by (cases "a = m + 1") auto

lemma Read_split:
  assumes "1 \<le> a" "a \<le> m + 1" "m \<le> b" "m \<le> n_lines s"
  shows "Source_Read s a m @ Source_Read s (m + 1) b = Source_Read s a b"
proof -
  have "[a..m] @ [m + 1..min b (n_lines s)] = [a..min b (n_lines s)]" using assms by (intro upto_append_int) auto
  then show ?thesis using assms by (simp add: Source_Read_def max_def min_def flip: map_append)
qed

lemma marked_split:
  "1 \<le> a \<Longrightarrow> a \<le> m + 1 \<Longrightarrow> m \<le> b \<Longrightarrow> m \<le> n_lines s \<Longrightarrow> marked re s a m @ marked re s (m + 1) b = marked re s a b"
  by (simp add: marked_def Read_split flip: map_append)

lemma marked_member:
  "l \<in> set (marked re s a b) \<longleftrightarrow>
     max 1 a \<le> ln_N l \<and> ln_N l \<le> min b (n_lines s) \<and> ln_Source l = ms_name (src_Meta s) \<and>
     ln_Text l = src_Lines s ! nat (ln_N l - 1) \<and> ln_Match l = re (ln_Text l)"
  by (cases l) (auto simp: marked_def Source_Read_def image_iff Bex_def)

lemma marked_clip: "marked re s a (min (n_lines s) b) = marked re s a b"
  by (simp add: marked_def Source_Read_def min.commute)

lemma marked_empty: "b < a \<Longrightarrow> marked re s a b = []"
  by (simp add: marked_def Source_Read_def)

lemma no_match_filter:
  assumes "\<forall>k. a \<le> k \<and> k \<le> b \<longrightarrow> \<not> matches_at re s k"
  shows "filter ln_Match (marked re s a b) = []"
  using assms by (auto simp: filter_empty_conv marked_member matches_at_def)

lemma marked_last: "1 \<le> a \<Longrightarrow> a \<le> b \<Longrightarrow> b \<le> n_lines s \<Longrightarrow> marked re s a b \<noteq> [] \<and> ln_N (last (marked re s a b)) = b"
  by (simp add: marked_def Source_Read_def upto_rec2 max_def)

section \<open>One source\<close>

text \<open>The numbers a search works with stay far from the ends of the 64-bit range.\<close>

definition sizes_ok :: "int \<Rightarrow> int \<Rightarrow> source_lines \<Rightarrow> bool" where
  "sizes_ok before after s \<longleftrightarrow> 0 \<le> before \<and> before < 2 ^ 61 \<and> 0 \<le> after \<and> after < 2 ^ 61 \<and> n_lines s < 2 ^ 61"

definition in_context :: "(string \<Rightarrow> bool) \<Rightarrow> int \<Rightarrow> int \<Rightarrow> source_lines \<Rightarrow> line \<Rightarrow> bool" where
  "in_context re before after s l \<longleftrightarrow> (\<exists>k. matches_at re s k \<and> k - before \<le> ln_N l \<and> ln_N l \<le> k + after)"

lemma hit_lines_eq:
  assumes "sizes_ok before after s" "1 \<le> n" "n \<le> n_lines s"
  shows "hit_lines re before after s n emitted = marked re s (max (emitted + 1) (n - before)) (min (n_lines s) (n + after))"
proof -
  have "wrap64 (n - before) = n - before" "wrap64 (n + after) = n + after"
    using assms by (auto intro!: wrap64_id simp: sizes_ok_def)
  then show ?thesis by (simp add: hit_lines_def marked_def)
qed

lemma hit_covers:
  assumes ok: "sizes_ok before after s" and n: "1 \<le> n" "n \<le> n_lines s" and e: "0 \<le> emitted" "emitted < n"
    and quiet: "\<forall>k. emitted < k \<and> k < n \<longrightarrow> \<not> matches_at re s k"
    and hit: "re (src_Lines s ! nat (n - 1))"
  defines "got \<equiv> hit_lines re before after s n emitted" and "upper \<equiv> min (n_lines s) (n + after)"
  shows "got \<noteq> [] \<and> ln_N (last got) = upper" and "n \<le> upper"
    and "filter ln_Match got = filter ln_Match (marked re s (emitted + 1) upper)"
    and "subseq got (marked re s (emitted + 1) upper)"
    and "\<forall>l \<in> set got. in_context re before after s l"
proof -
  have w: "got = marked re s (max (emitted + 1) (n - before)) upper" unfolding got_def upper_def by (rule hit_lines_eq [OF ok n])
  let ?a = "max (emitted + 1) (n - before)"
  have b: "0 \<le> before" "0 \<le> after" using ok by (auto simp: sizes_ok_def)
  have a: "1 \<le> ?a" "?a \<le> n" "emitted + 1 \<le> ?a" using b e n by auto
  show upper: "n \<le> upper" using b n by (simp add: upper_def)
  have "upper \<le> n_lines s" by (simp add: upper_def)
  with marked_last [of ?a upper s re] a upper show "got \<noteq> [] \<and> ln_N (last got) = upper" by (simp add: w)
  have split: "marked re s (emitted + 1) (?a - 1) @ got = marked re s (emitted + 1) upper"
    using marked_split [of "emitted + 1" "?a - 1" upper s re] a e upper n by (simp add: w)
  have "filter ln_Match (marked re s (emitted + 1) (?a - 1)) = []"
    by (rule no_match_filter) (use quiet a in auto)
  with split show "filter ln_Match got = filter ln_Match (marked re s (emitted + 1) upper)" by (metis append_Nil filter_append)
  from split show "subseq got (marked re s (emitted + 1) upper)" by (metis list_emb_append2 subseq_order.refl)
  have "matches_at re s n" using n hit by (simp add: matches_at_def)
  then show "\<forall>l \<in> set got. in_context re before after s l"
    by (auto simp: w marked_member in_context_def upper_def)
qed

text \<open>What one pass over a source from line \<open>emitted + 1\<close> on has found.\<close>

definition found_lines ::
  "(string \<Rightarrow> bool) \<Rightarrow> int \<Rightarrow> int \<Rightarrow> source_lines \<Rightarrow> int \<Rightarrow> int \<Rightarrow> line list \<Rightarrow> bool" where
  "found_lines re before after s a b new \<longleftrightarrow>
     filter ln_Match new = filter ln_Match (marked re s a b) \<and> subseq new (marked re s a b) \<and>
     (\<forall>l \<in> set new. in_context re before after s l)"

lemma found_lines_append:
  assumes "found_lines re before after s a m x" "found_lines re before after s (m + 1) b y"
    and "1 \<le> a" "a \<le> m + 1" "m \<le> b" "m \<le> n_lines s"
  shows "found_lines re before after s a b (x @ y)"
  using assms unfolding found_lines_def
  by (auto simp: marked_split [symmetric, of a m b] intro: list_emb_append_mono)

lemma search_lines_ok:
  assumes "sizes_ok before after s" and "1 \<le> n" and "0 \<le> emitted" "emitted < n" and "matches < mx"
    and "\<forall>k. emitted < k \<and> k < n \<longrightarrow> \<not> matches_at re s k"
  shows "\<exists>stop em new. search_lines re before after mx s n emitted lines matches =
      Some (stop, em, lines @ new, matches + int (length (filter ln_Match new))) \<and>
    found_lines re before after s (emitted + 1) (if stop then em else n_lines s) new \<and>
    (if stop then emitted < em \<and> em \<le> n_lines s \<and> mx \<le> matches + int (length (filter ln_Match new))
     else matches + int (length (filter ln_Match new)) < mx)"
  using assms
proof (induction "nat (n_lines s + 1 - n)" arbitrary: n emitted lines matches rule: less_induct)
  case less
  note ok = less.prems(1)
  consider "n_lines s < n" | "n \<le> n_lines s" "\<not> re (src_Lines s ! nat (n - 1))" | "n \<le> n_lines s" "re (src_Lines s ! nat (n - 1))"
    by fastforce
  then show ?case
  proof cases
    case 1
    then have "filter ln_Match (marked re s (emitted + 1) (n_lines s)) = []"
      using less.prems(6) by (intro no_match_filter) auto
    with 1 less.prems(5) show ?thesis
      by (subst search_lines.simps) (rule exI [of _ False], rule exI [of _ emitted], rule exI [of _ "[]"], simp add: found_lines_def)
  next
    case 2
    have "\<forall>k. emitted < k \<and> k < n + 1 \<longrightarrow> \<not> matches_at re s k"
      using less.prems(6) 2(2) by (auto simp: matches_at_def less_le zle_add1_eq_le)
    from less.hyps [OF _ ok _ less.prems(3) _ less.prems(5) this, of lines] 2 less.prems(2,4) show ?thesis
      by (subst search_lines.simps) simp
  next
    case 3
    define got where "got = hit_lines re before after s n emitted"
    define upper where "upper = min (n_lines s) (n + after)"
    note c = hit_covers [OF ok less.prems(2) 3(1) less.prems(3,4,6) 3(2), folded got_def upper_def]
    have fl: "found_lines re before after s (emitted + 1) upper got" using c(3-5) by (simp add: found_lines_def)
    have tl: "upper \<le> n_lines s" by (simp add: upper_def)
    let ?m = "matches + int (length (filter ln_Match got))"
    have step: "search_lines re before after mx s n emitted lines matches =
      (if mx \<le> ?m then Some (True, upper, lines @ got, ?m)
       else search_lines re before after mx s (upper + 1) upper (lines @ got) ?m)"
      using 3 c(1) by (subst search_lines.simps) (simp add: Let_def flip: got_def)
    show ?thesis
    proof (cases "mx \<le> ?m")
      case True
      then show ?thesis using step fl c(2) tl less.prems(4)
        by (intro exI [of _ True] exI [of _ upper] exI [of _ got]) simp
    next
      case False
      have less': "nat (n_lines s + 1 - (upper + 1)) < nat (n_lines s + 1 - n)" using c(2) 3(1) by simp
      have "1 \<le> upper + 1" "0 \<le> upper" "upper < upper + 1" "?m < mx" using c(2) less.prems(2) False by auto
      moreover have "\<forall>k. upper < k \<and> k < upper + 1 \<longrightarrow> \<not> matches_at re s k" by auto
      ultimately obtain stop em new where r: "search_lines re before after mx s (upper + 1) upper (lines @ got) ?m =
          Some (stop, em, (lines @ got) @ new, ?m + int (length (filter ln_Match new)))"
        and f: "found_lines re before after s (upper + 1) (if stop then em else n_lines s) new"
        and e: "if stop then upper < em \<and> em \<le> n_lines s \<and> mx \<le> ?m + int (length (filter ln_Match new))
          else ?m + int (length (filter ln_Match new)) < mx"
        using less.hyps [OF less' ok] by blast
      have "found_lines re before after s (emitted + 1) (if stop then em else n_lines s) (got @ new)"
        by (rule found_lines_append [OF fl f]) (use less.prems(2-4) c(2) tl e in \<open>auto split: if_splits\<close>)
      then show ?thesis
        using r step False e c(2) less.prems(4)
        by (intro exI [of _ stop] exI [of _ em] exI [of _ "got @ new"]) (auto split: if_splits)
    qed
  qed
qed

section \<open>All sources\<close>

type_synonym position = "int \<times> int"

text \<open>
  The lines of one source between two positions (a source index and a line number each): from the
  first position on, and before the second. A source that the query does not ask for has none.
\<close>

definition source_part :: "(string \<Rightarrow> bool) \<Rightarrow> string \<Rightarrow> position \<Rightarrow> position \<Rightarrow> source_lines \<Rightarrow> int \<Rightarrow> line list" where
  "source_part re name p nx s si =
     (if (name \<noteq> '''' \<and> name \<noteq> ms_name (src_Meta s)) \<or> si < fst p \<or> fst nx < si then []
      else marked re s (if si = fst p then max 1 (snd p) else 1) (if si = fst nx then snd nx - 1 else n_lines s))"

fun region :: "(string \<Rightarrow> bool) \<Rightarrow> string \<Rightarrow> position \<Rightarrow> position \<Rightarrow> source_lines list \<Rightarrow> int \<Rightarrow> line list" where
  "region re name p nx [] si = []"
| "region re name p nx (s # ss) si = source_part re name p nx s si @ region re name p nx ss (si + 1)"

definition page :: "(string \<Rightarrow> bool) \<Rightarrow> string \<Rightarrow> artifact \<Rightarrow> position \<Rightarrow> position \<Rightarrow> line list" where
  "page re name a p nx = region re name p nx (art_Sources a) 0"

lemma region_after: "fst nx < si \<or> (fst nx = si \<and> snd nx \<le> 1) \<Longrightarrow> region re name p nx ss si = []"
proof (induction ss arbitrary: si)
  case (Cons s ss)
  have "source_part re name p nx s si = []"
  proof (cases "fst nx < si")
    case False
    with Cons.prems have eq: "si = fst nx" and "snd nx \<le> 1" by linarith+
    then have "marked re s k (snd nx - 1) = []" if "1 \<le> k" for k using that by (intro marked_empty) linarith
    then show ?thesis unfolding source_part_def eq by simp
  qed (simp add: source_part_def)
  moreover have "region re name p nx ss (si + 1) = []" using Cons.prems by (intro Cons.IH) auto
  ultimately show ?case by simp
qed simp

lemma region_skip: "region re name p nx ss si = region re name p nx (drop (nat (fst p - si)) ss) (max si (fst p))"
proof (induction ss arbitrary: si)
  case (Cons s ss)
  show ?case
  proof (cases "si < fst p")
    case True
    then have "nat (fst p - si) = Suc (nat (fst p - (si + 1)))" by simp
    with True Cons.IH [of "si + 1"] show ?thesis by (simp add: source_part_def max_def)
  qed (simp add: max_def)
qed simp

lemma region_not_named:
  "name \<noteq> '''' \<Longrightarrow> name \<notin> (\<lambda>s. ms_name (src_Meta s)) ` set ss \<Longrightarrow> region re name p nx ss si = []"
  by (induction ss arbitrary: si) (auto simp: source_part_def)

lemma region_to_end:
  "si + int (length ss) \<le> fst nx \<Longrightarrow> fst nx \<le> fst nx' \<Longrightarrow> region re name p nx ss si = region re name p nx' ss si"
  by (induction ss arbitrary: si) (auto simp: source_part_def)

text \<open>Positions of a search: from the start on, and inside the artifact.\<close>

definition later :: "position \<Rightarrow> position \<Rightarrow> bool" where
  "later p r \<longleftrightarrow> fst p < fst r \<or> (fst p = fst r \<and> snd p \<le> snd r)"

lemma source_part_split:
  assumes "later p m" "later m r" "1 \<le> snd m" "si = fst m \<Longrightarrow> snd m \<le> n_lines s + 1"
  shows "source_part re name p m s si @ source_part re name m r s si = source_part re name p r s si"
proof -
  consider "si < fst m" | "si = fst m" | "fst m < si" by linarith
  then show ?thesis
  proof cases
    case 1
    then have "source_part re name m r s si = []" "si < fst r" using assms(2) by (auto simp: source_part_def later_def)
    then show ?thesis using 1 by (simp add: source_part_def)
  next
    case 2
    define a where "a = (if si = fst p then max 1 (snd p) else 1)"
    define b where "b = (if si = fst r then snd r - 1 else n_lines s)"
    have ab: "1 \<le> a" "a \<le> snd m" "snd m - 1 \<le> b" "snd m - 1 \<le> n_lines s"
      using assms 2 by (auto simp: a_def b_def later_def)
    have "marked re s a (snd m - 1) @ marked re s (snd m) b = marked re s a b"
      using marked_split [of a "snd m - 1" b s re] ab by simp
    moreover have "max 1 (snd m) = snd m" using assms(3) by simp
    moreover have "fst p \<le> si" "si \<le> fst r" using assms(1,2) 2 by (auto simp: later_def)
    ultimately show ?thesis by (simp add: source_part_def 2 [symmetric] flip: a_def b_def)
  next
    case 3
    then have "source_part re name p m s si = []" "fst p < si" using assms(1) by (auto simp: source_part_def later_def)
    then show ?thesis using 3 by (simp add: source_part_def)
  qed
qed

lemma region_split:
  assumes "later p m" "later m r" "1 \<le> snd m"
    and "\<And>k. k < length ss \<Longrightarrow> si + int k = fst m \<Longrightarrow> snd m \<le> n_lines (ss ! k) + 1"
  shows "region re name p m ss si @ region re name m r ss si = region re name p r ss si"
  using assms(4)
proof (induction ss arbitrary: si)
  case (Cons s ss)
  have s: "source_part re name p m s si @ source_part re name m r s si = source_part re name p r s si"
    using Cons.prems [of 0] by (intro source_part_split [OF assms(1-3)]) auto
  have ss: "region re name p m ss (si + 1) @ region re name m r ss (si + 1) = region re name p r ss (si + 1)"
    using Cons.prems [of "Suc _"] by (intro Cons.IH) auto
  consider "si < fst m" | "fst m \<le> si" by linarith
  then show ?case
  proof cases
    case 1
    then have "source_part re name m r s si = []" by (simp add: source_part_def)
    with s ss show ?thesis by simp
  next
    case 2
    then have "region re name p m ss (si + 1) = []" by (intro region_after) simp
    with s ss show ?thesis by simp
  qed
qed simp

abbreviation q_start :: "searchQuery \<Rightarrow> position" where
  "q_start q \<equiv> (q_StartSource q, q_StartLine q)"

abbreviation sr_next :: "searchResult \<Rightarrow> position" where
  "sr_next r \<equiv> (sr_NextSource r, sr_NextLine r)"

definition names_distinct :: "source_lines list \<Rightarrow> bool" where
  "names_distinct ss \<longleftrightarrow> distinct (map (\<lambda>s. ms_name (src_Meta s)) ss)"

text \<open>What a search over the sources \<open>ss\<close>, the first of index \<open>si\<close>, has found when it returns \<open>r\<close>.\<close>

definition shown_ok :: "searchQuery \<Rightarrow> (string \<Rightarrow> bool) \<Rightarrow> source_lines list \<Rightarrow> line list \<Rightarrow> line list \<Rightarrow> bool" where
  "shown_ok q re ss shown reg \<longleftrightarrow>
     filter ln_Match shown = filter ln_Match reg \<and> subseq shown reg \<and>
     (\<forall>l \<in> set shown. \<exists>s \<in> set ss. in_context re (q_Before q) (q_After q) s l)"

definition next_ok :: "searchQuery \<Rightarrow> (string \<Rightarrow> bool) \<Rightarrow> source_lines list \<Rightarrow> int \<Rightarrow> searchResult \<Rightarrow> bool" where
  "next_ok q re ss si r \<longleftrightarrow>
     si \<le> sr_NextSource r \<and> 1 \<le> sr_NextLine r \<and>
     (\<not> sr_Done r \<longrightarrow> q_Max q \<le> sr_Matches r \<and> sr_NextSource r < si + int (length ss) \<and> later (q_start q) (sr_next r) \<and>
        sr_NextLine r \<le> n_lines (ss ! nat (sr_NextSource r - si)) + 1) \<and>
     (sr_Done r \<and> (q_Source q = '''' \<or> names_distinct ss) \<longrightarrow>
        region re (q_Source q) (q_start q) (sr_next r) ss si = region re (q_Source q) (q_start q) (si + int (length ss), 1) ss si)"

lemma shown_append:
  assumes "found_lines re (q_Before q) (q_After q) s a b x" "marked re s a b = reg" "shown_ok q re ss y reg'"
  shows "shown_ok q re (s # ss) (x @ y) (reg @ reg')"
  using assms by (auto simp: shown_ok_def found_lines_def intro: list_emb_append_mono)

lemma next_ok_Cons:
  assumes "next_ok q re ss (si + 1) r" and "q_StartSource q \<le> si"
  shows "next_ok q re (s # ss) si r"
proof -
  have ge: "si + 1 \<le> sr_NextSource r" using assms(1) by (simp add: next_ok_def)
  then have "nat (sr_NextSource r - si) = Suc (nat (sr_NextSource r - (si + 1)))" by linarith
  then have n: "(s # ss) ! nat (sr_NextSource r - si) = ss ! nat (sr_NextSource r - (si + 1))" by simp
  have "source_part re (q_Source q) (q_start q) (sr_next r) s si = source_part re (q_Source q) (q_start q) (si + int (length (s # ss)), 1) s si"
    using ge by (simp add: source_part_def)
  moreover have "names_distinct (s # ss) \<Longrightarrow> names_distinct ss" by (simp add: names_distinct_def)
  ultimately show ?thesis using assms(1) unfolding next_ok_def n by (auto simp: algebra_simps)
qed

lemma stop_here:
  assumes q: "q_Source q = '''' \<or> q_Source q = ms_name (src_Meta s)" and start: "q_StartSource q \<le> si"
    and st: "st = (if si = q_StartSource q then max 1 (q_StartLine q) else 1)" and em: "st \<le> em" "em \<le> n_lines s"
    and f: "found_lines re (q_Before q) (q_After q) s st em new"
    and m: "q_Max q \<le> matches"
    and r: "r = (if em = n_lines s
      then \<lparr>sr_Lines = lines @ new, sr_Matches = matches, sr_NextSource = si + 1, sr_NextLine = 1,
            sr_Done = (q_Source q \<noteq> '''' \<or> ss = [])\<rparr>
      else \<lparr>sr_Lines = lines @ new, sr_Matches = matches, sr_NextSource = si, sr_NextLine = em + 1, sr_Done = False\<rparr>)"
  shows "shown_ok q re (s # ss) new (region re (q_Source q) (q_start q) (sr_next r) (s # ss) si)"
    and "next_ok q re (s # ss) si r"
proof -
  have part: "source_part re (q_Source q) (q_start q) (sr_next r) s si = marked re s st em"
    using q start r by (auto simp: source_part_def st)
  have rest: "region re (q_Source q) (q_start q) (sr_next r) ss (si + 1) = []"
    by (rule region_after) (simp add: r)
  then show "shown_ok q re (s # ss) new (region re (q_Source q) (q_start q) (sr_next r) (s # ss) si)"
    using f part by (auto simp: shown_ok_def found_lines_def)
  have "1 \<le> st" and l: "later (q_start q) (sr_next r)"
    using start st em r by (auto simp: later_def max_def split: if_splits)
  have "region re (q_Source q) (q_start q) (sr_next r) (s # ss) si =
      region re (q_Source q) (q_start q) (si + int (length (s # ss)), 1) (s # ss) si"
    if "sr_Done r" "q_Source q = '''' \<or> names_distinct (s # ss)"
  proof -
    from that(1) r have e: "em = n_lines s" "q_Source q \<noteq> '''' \<or> ss = []" by (auto split: if_splits)
    have "region re (q_Source q) (q_start q) (si + int (length (s # ss)), 1) ss (si + 1) = []"
    proof (cases "ss = []")
      case False
      with e(2) that(2) q have "q_Source q \<noteq> ''''" "q_Source q \<notin> (\<lambda>s. ms_name (src_Meta s)) ` set ss"
        by (auto simp: names_distinct_def)
      then show ?thesis by (rule region_not_named)
    qed simp
    moreover have "source_part re (q_Source q) (q_start q) (si + int (length (s # ss)), 1) s si = marked re s st em"
      using q start e(1) by (auto simp: source_part_def st)
    ultimately show ?thesis using part rest by simp
  qed
  with l \<open>1 \<le> st\<close> em m r show "next_ok q re (s # ss) si r"
    by (auto simp: next_ok_def n_lines_def)
qed

lemma search_sources_ok:
  assumes "\<forall>s \<in> set ss. sizes_ok (q_Before q) (q_After q) s" and "matches < q_Max q" and "q_StartSource q \<le> int si"
  shows "\<exists>r new. search_sources q re (si + length ss) ss si lines matches = Some r \<and> sr_Lines r = lines @ new \<and>
    sr_Matches r = matches + int (length (filter ln_Match new)) \<and>
    shown_ok q re ss new (region re (q_Source q) (q_start q) (sr_next r) ss (int si)) \<and> next_ok q re ss (int si) r"
  using assms
proof (induction ss arbitrary: si lines matches)
  case Nil
  then show ?case by (simp add: shown_ok_def next_ok_def)
next
  case (Cons s ss)
  have IH: "\<exists>r new. search_sources q re (si + length (s # ss)) ss (Suc si) lines' matches' = Some r \<and> sr_Lines r = lines' @ new \<and>
    sr_Matches r = matches' + int (length (filter ln_Match new)) \<and>
    shown_ok q re ss new (region re (q_Source q) (q_start q) (sr_next r) ss (int si + 1)) \<and> next_ok q re ss (int si + 1) r"
    if "matches' < q_Max q" for lines' matches'
    using Cons.IH [of matches' "Suc si" lines'] Cons.prems that by (simp add: add.commute)
  show ?case
  proof (cases "q_Source q \<noteq> '''' \<and> q_Source q \<noteq> ms_name (src_Meta s)")
    case True
    then have "source_part re (q_Source q) p nx s (int si) = []" for p nx by (simp add: source_part_def)
    with IH [OF Cons.prems(2), of lines] True next_ok_Cons [OF _ Cons.prems(3), of re ss] show ?thesis
      by (fastforce simp: shown_ok_def)
  next
    case False
    then have el: "q_Source q = '''' \<or> q_Source q = ms_name (src_Meta s)" by blast
    define st where "st = (if int si = q_StartSource q then max 1 (q_StartLine q) else 1)"
    have "1 \<le> st" "0 \<le> st - 1" "st - 1 < st" by (simp_all add: st_def max_def)
    moreover have "\<forall>k. st - 1 < k \<and> k < st \<longrightarrow> \<not> matches_at re s k" by auto
    ultimately obtain stop em new where sl: "search_lines re (q_Before q) (q_After q) (q_Max q) s st (st - 1) lines matches =
          Some (stop, em, lines @ new, matches + int (length (filter ln_Match new)))"
      and f: "found_lines re (q_Before q) (q_After q) s st (if stop then em else n_lines s) new"
      and e: "if stop then st - 1 < em \<and> em \<le> n_lines s \<and> q_Max q \<le> matches + int (length (filter ln_Match new))
          else matches + int (length (filter ln_Match new)) < q_Max q"
      using search_lines_ok [of "q_Before q" "q_After q" s st "st - 1" matches "q_Max q" re lines] Cons.prems(1,2)
      by (simp only: list.set ball_simps diff_add_cancel) blast
    let ?m = "matches + int (length (filter ln_Match new))"
    show ?thesis
    proof (cases stop)
      case True
      define r where "r = (if em = n_lines s
        then \<lparr>sr_Lines = lines @ new, sr_Matches = ?m, sr_NextSource = int si + 1, sr_NextLine = 1,
              sr_Done = (q_Source q \<noteq> '''' \<or> ss = [])\<rparr>
        else \<lparr>sr_Lines = lines @ new, sr_Matches = ?m, sr_NextSource = int si, sr_NextLine = em + 1, sr_Done = False\<rparr>)"
      have "search_sources q re (si + length (s # ss)) (s # ss) si lines matches = Some r"
        using el sl True by (auto simp: r_def simp flip: st_def)
      moreover have "sr_Lines r = lines @ new" "sr_Matches r = ?m" by (simp_all add: r_def)
      ultimately show ?thesis
        using stop_here [OF el Cons.prems(3) st_def _ _ _ _ r_def, of re] f e True by auto
    next
      case nonstop: False
      with e IH [of ?m "lines @ new"] obtain r new' where r: "search_sources q re (si + length (s # ss)) ss (Suc si) (lines @ new) ?m = Some r"
          "sr_Lines r = (lines @ new) @ new'" "sr_Matches r = ?m + int (length (filter ln_Match new'))"
          "shown_ok q re ss new' (region re (q_Source q) (q_start q) (sr_next r) ss (int si + 1))" "next_ok q re ss (int si + 1) r"
        by auto
      have ge: "int si < sr_NextSource r" using r(5) by (simp add: next_ok_def)
      have part: "marked re s st (n_lines s) = source_part re (q_Source q) (q_start q) (sr_next r) s (int si)"
        using el ge Cons.prems(3) by (auto simp: source_part_def st_def)
      have "search_sources q re (si + length (s # ss)) (s # ss) si lines matches = Some r"
        using el sl nonstop r(1) by (auto simp flip: st_def)
      moreover have "shown_ok q re (s # ss) (new @ new') (region re (q_Source q) (q_start q) (sr_next r) (s # ss) (int si))"
        using shown_append [OF _ part r(4)] f nonstop by simp
      ultimately show ?thesis
        using r(2,3) next_ok_Cons [OF r(5) Cons.prems(3), of s] by (intro exI [of _ r] exI [of _ "new @ new'"]) auto
    qed
  qed
qed

section \<open>Pages\<close>

definition query_ok :: "artifact \<Rightarrow> searchQuery \<Rightarrow> bool" where
  "query_ok a q \<longleftrightarrow>
     (q_Source q = '''' \<or> q_Source q \<in> (\<lambda>s. ms_name (src_Meta s)) ` set (art_Sources a)) \<and>
     0 \<le> q_Before q \<and> q_Before q < 2 ^ 61 \<and> 0 \<le> q_After q \<and> q_After q < 2 ^ 61 \<and> 1 \<le> q_Max q \<and>
     0 \<le> q_StartSource q \<and> q_StartSource q \<le> int (length (art_Sources a)) \<and> 0 \<le> q_StartLine q \<and>
     (\<forall>s \<in> set (art_Sources a). n_lines s < 2 ^ 61)"

definition artifact_end :: "artifact \<Rightarrow> position" where
  "artifact_end a = (int (length (art_Sources a)), 1)"

lemma unknown_source_None:
  "unknown_source a name = None \<longleftrightarrow> name \<in> (\<lambda>s. ms_name (src_Meta s)) ` set (art_Sources a)"
proof -
  have "filter (\<lambda>s. ms_name (src_Meta s) = name) (art_Sources a) = [] \<longleftrightarrow> name \<notin> (\<lambda>s. ms_name (src_Meta s)) ` set (art_Sources a)"
    by (auto simp: filter_empty_conv)
  then show ?thesis by (auto simp: unknown_source_def Artifact_Source_def split: list.splits)
qed

lemma page_skip:
  assumes "0 \<le> fst p"
  shows "page re name a p nx = region re name p nx (drop (nat (fst p)) (art_Sources a)) (fst p)"
  using region_skip [of re name p nx "art_Sources a" 0] assms by (simp add: page_def max_def)

lemma shown_ok_mono: "shown_ok q re ss xs reg \<Longrightarrow> set ss \<subseteq> set ss' \<Longrightarrow> shown_ok q re ss' xs reg"
  by (fastforce simp: shown_ok_def)

lemma length_drop_int: "0 \<le> k \<Longrightarrow> k \<le> int (length xs) \<Longrightarrow> k + int (length (drop (nat k) xs)) = int (length xs)"
  by (simp add: of_nat_diff nat_le_iff)

lemma Search_found:
  assumes "query_ok a q" and "q_Regex q = Some re"
  obtains r where "Artifact_Search a q = Some (Inr r)" "sr_Matches r = int (length (filter ln_Match (sr_Lines r)))"
    "shown_ok q re (art_Sources a) (sr_Lines r) (page re (q_Source q) a (q_start q) (sr_next r))"
    "next_ok q re (drop (nat (q_StartSource q)) (art_Sources a)) (q_StartSource q) r"
proof -
  define ss where "ss = drop (nat (q_StartSource q)) (art_Sources a)"
  define si where "si = nat (q_StartSource q)"
  have si: "int si = q_StartSource q" "si + length ss = length (art_Sources a)"
    using assms(1) by (auto simp: si_def ss_def query_ok_def)
  have sub: "set ss \<subseteq> set (art_Sources a)" by (simp add: ss_def set_drop_subset)
  with assms(1) have sz: "\<forall>s \<in> set ss. sizes_ok (q_Before q) (q_After q) s" by (auto simp: query_ok_def sizes_ok_def)
  have mx: "0 < q_Max q" using assms(1) by (simp add: query_ok_def)
  obtain r where r: "search_sources q re (si + length ss) ss si [] 0 = Some r"
      "sr_Matches r = int (length (filter ln_Match (sr_Lines r)))"
      "shown_ok q re ss (sr_Lines r) (region re (q_Source q) (q_start q) (sr_next r) ss (int si))" "next_ok q re ss (int si) r"
    using search_sources_ok [OF sz mx, of si re "[]"] si(1) by auto
  have "(if q_Source q = '''' then None else unknown_source a (q_Source q)) = None"
    using assms(1) unknown_source_None by (auto simp: query_ok_def)
  then have "Artifact_Search a q = Some (Inr r)"
    using r(1) assms unfolding si(2) by (simp add: Artifact_Search_def query_ok_def ss_def si_def)
  moreover have "shown_ok q re (art_Sources a) (sr_Lines r) (page re (q_Source q) a (q_start q) (sr_next r))"
    using shown_ok_mono [OF r(3) sub] assms(1) page_skip [of "q_start q" re "q_Source q" a "sr_next r"]
    by (simp add: ss_def si(1) query_ok_def)
  ultimately show thesis using that r(2,4) by (simp add: ss_def si(1))
qed

text \<open>
  A search returns, and its page is exact: the matching lines it shows are exactly the matching lines
  of the selected sources from the start position up to the next position, in order, each once;
  everything it shows lies in that range, is marked as matching if and only if it matches, and is at most
  \<open>before\<close> lines ahead of or \<open>after\<close> lines behind a match. A page that is not the last one has at least the
  number of matches asked for and leaves a next position inside the artifact and after the start.
\<close>

lemma Search_page_exact:
  assumes "query_ok a q" and "q_Regex q = Some re"
  shows "\<exists>r. Artifact_Search a q = Some (Inr r) \<and>
    filter ln_Match (sr_Lines r) = filter ln_Match (page re (q_Source q) a (q_start q) (sr_next r)) \<and>
    subseq (sr_Lines r) (page re (q_Source q) a (q_start q) (sr_next r)) \<and>
    (\<forall>l \<in> set (sr_Lines r). \<exists>s \<in> set (art_Sources a). in_context re (q_Before q) (q_After q) s l) \<and>
    sr_Matches r = int (length (filter ln_Match (sr_Lines r))) \<and>
    (\<not> sr_Done r \<longrightarrow> q_Max q \<le> sr_Matches r \<and> sr_NextSource r < int (length (art_Sources a)) \<and>
       later (q_start q) (sr_next r))"
proof -
  obtain r where r: "Artifact_Search a q = Some (Inr r)" "sr_Matches r = int (length (filter ln_Match (sr_Lines r)))"
    "shown_ok q re (art_Sources a) (sr_Lines r) (page re (q_Source q) a (q_start q) (sr_next r))"
    "next_ok q re (drop (nat (q_StartSource q)) (art_Sources a)) (q_StartSource q) r"
    using Search_found [OF assms] .
  have len: "q_StartSource q + int (length (drop (nat (q_StartSource q)) (art_Sources a))) = int (length (art_Sources a))"
    using assms(1) by (intro length_drop_int) (simp_all add: query_ok_def)
  show ?thesis using r(1-3) r(4) [unfolded next_ok_def len] unfolding shown_ok_def by blast
qed

text \<open>Following the next positions from page to page: the matching lines of all pages.\<close>

fun search_pages :: "nat \<Rightarrow> artifact \<Rightarrow> searchQuery \<Rightarrow> line list" where
  "search_pages 0 a q = []"
| "search_pages (Suc k) a q =
     (case Artifact_Search a q of
        Some (Inr r) \<Rightarrow>
          filter ln_Match (sr_Lines r) @
          (if sr_Done r then []
           else search_pages k a (q\<lparr>q_StartSource := sr_NextSource r, q_StartLine := sr_NextLine r\<rparr>))
      | _ \<Rightarrow> [])"

lemma next_inside:
  assumes "next_ok q re (drop (nat (q_StartSource q)) (art_Sources a)) (q_StartSource q) r" "\<not> sr_Done r"
    and "0 \<le> q_StartSource q" "q_StartSource q \<le> int (length (art_Sources a))"
  shows "q_Max q \<le> sr_Matches r" "sr_NextSource r < int (length (art_Sources a))" "q_StartSource q \<le> sr_NextSource r"
    "1 \<le> sr_NextLine r" "later (q_start q) (sr_next r)"
    "sr_NextLine r \<le> n_lines (drop (nat (q_StartSource q)) (art_Sources a) ! nat (sr_NextSource r - q_StartSource q)) + 1"
  using assms(2) assms(1) [unfolded next_ok_def length_drop_int [OF assms(3,4)]] by blast+

lemma page_split:
  assumes "next_ok q re (drop (nat (q_StartSource q)) (art_Sources a)) (q_StartSource q) r" "\<not> sr_Done r"
    and "0 \<le> q_StartSource q" "q_StartSource q \<le> int (length (art_Sources a))"
  shows "page re name a (q_start q) (sr_next r) @ page re name a (sr_next r) (artifact_end a) =
    page re name a (q_start q) (artifact_end a)"
  unfolding page_def
proof (rule region_split)
  note n = next_inside [OF assms]
  show "later (q_start q) (sr_next r)" "1 \<le> snd (sr_next r)" using n(4,5) by simp_all
  show "later (sr_next r) (artifact_end a)" using n(2) by (simp add: later_def artifact_end_def)
  fix k assume k: "k < length (art_Sources a)" "0 + int k = fst (sr_next r)"
  then have "nat (sr_NextSource r - q_StartSource q) = k - nat (q_StartSource q)" "nat (q_StartSource q) \<le> k"
    using n(3) assms(3) by auto
  then have "drop (nat (q_StartSource q)) (art_Sources a) ! nat (sr_NextSource r - q_StartSource q) = art_Sources a ! k"
    using k(1) by simp
  with n(6) show "snd (sr_next r) \<le> n_lines (art_Sources a ! k) + 1" by simp
qed

lemma page_done:
  assumes "next_ok q re (drop (nat (q_StartSource q)) (art_Sources a)) (q_StartSource q) r" "sr_Done r"
    and "0 \<le> q_StartSource q" "q_StartSource q \<le> int (length (art_Sources a))" "names_distinct (art_Sources a)"
  shows "page re (q_Source q) a (q_start q) (sr_next r) = page re (q_Source q) a (q_start q) (artifact_end a)"
proof -
  have "names_distinct (drop (nat (q_StartSource q)) (art_Sources a))"
    using assms(5) by (simp add: names_distinct_def flip: drop_map)
  then show ?thesis
    using assms(1-3) length_drop_int [OF assms(3,4)] by (simp add: page_skip artifact_end_def next_ok_def)
qed

text \<open>
  Following the cursors misses nothing and repeats nothing: whoever asks for page after page, with
  one more page than there are matching lines as a limit, has seen every matching line of the selected
  sources from the start position on, in order and once.
\<close>

lemma Search_pages_complete:
  assumes "query_ok a q" and "q_Regex q = Some re" and "names_distinct (art_Sources a)"
    and "length (filter ln_Match (page re (q_Source q) a (q_start q) (artifact_end a))) < k"
  shows "search_pages k a q = filter ln_Match (page re (q_Source q) a (q_start q) (artifact_end a))"
  using assms
proof (induction k arbitrary: q)
  case (Suc k)
  note q = Suc.prems(1) [unfolded query_ok_def]
  obtain r where r: "Artifact_Search a q = Some (Inr r)" "sr_Matches r = int (length (filter ln_Match (sr_Lines r)))"
    "shown_ok q re (art_Sources a) (sr_Lines r) (page re (q_Source q) a (q_start q) (sr_next r))"
    "next_ok q re (drop (nat (q_StartSource q)) (art_Sources a)) (q_StartSource q) r"
    using Search_found [OF Suc.prems(1,2)] .
  have shown: "filter ln_Match (sr_Lines r) = filter ln_Match (page re (q_Source q) a (q_start q) (sr_next r))"
    using r(3) by (simp add: shown_ok_def)
  show ?case
  proof (cases "sr_Done r")
    case True
    with r(1) shown page_done [OF r(4)] q Suc.prems(3) show ?thesis by simp
  next
    case False
    define q' where "q' = q\<lparr>q_StartSource := sr_NextSource r, q_StartLine := sr_NextLine r\<rparr>"
    have split: "page re (q_Source q) a (q_start q) (sr_next r) @ page re (q_Source q) a (sr_next r) (artifact_end a) =
        page re (q_Source q) a (q_start q) (artifact_end a)" using page_split [OF r(4) False] q by simp
    have nx: "q_Max q \<le> sr_Matches r" "sr_NextSource r < int (length (art_Sources a))" "q_StartSource q \<le> sr_NextSource r" "1 \<le> sr_NextLine r"
      using next_inside [OF r(4) False] q by simp_all
    have "query_ok a q'" using q nx by (simp add: query_ok_def q'_def)
    moreover have "length (filter ln_Match (page re (q_Source q') a (q_start q') (artifact_end a))) < k"
    proof -
      have "0 < length (filter ln_Match (sr_Lines r))" using nx(1) r(2) q by linarith
      moreover have "length (filter ln_Match (page re (q_Source q) a (q_start q) (artifact_end a))) =
          length (filter ln_Match (sr_Lines r)) + length (filter ln_Match (page re (q_Source q) a (sr_next r) (artifact_end a)))"
        by (simp add: shown flip: split)
      ultimately have "length (filter ln_Match (page re (q_Source q) a (sr_next r) (artifact_end a))) < k"
        using Suc.prems(4) by linarith
      then show ?thesis by (simp add: q'_def)
    qed
    ultimately have "search_pages k a q' = filter ln_Match (page re (q_Source q') a (q_start q') (artifact_end a))"
      using Suc.IH [of q'] Suc.prems(2,3) by (simp add: q'_def)
    with r(1) False shown show ?thesis by (simp add: q'_def flip: split)
  qed
qed simp

definition sample_source :: source_lines where
  "sample_source = \<lparr>src_Meta = \<lparr>ms_name = ''s'', ms_kind = ''file'', ms_target = '''', ms_since = '''', ms_until = '''',
     ms_offset = 0, ms_bytes = 6, ms_lines = 3, ms_linesRedacted = 0, ms_note = ''''\<rparr>, src_Lines = [''a'', ''b'', ''a'']\<rparr>"

definition sample_artifact :: artifact where
  "sample_artifact = \<lparr>art_Manifest = \<lparr>m_version = 1, m_createdAt = 0, m_collector = '''', m_chunkSize = 0, m_chunkCount = 0,
     m_totalBytes = 6, m_chunksSHA256 = [], m_sources = [src_Meta sample_source],
     m_redaction = \<lparr>rs_linesRedacted = 0, rs_byCategory = [], rs_flags = 0, rs_rules = 0\<rparr>\<rparr>, art_Sources = [sample_source]\<rparr>"

definition sample_query :: searchQuery where
  "sample_query = \<lparr>q_Regex = Some (\<lambda>t. t = ''a''), q_Source = '''', q_Before = 0, q_After = 0, q_Max = 1, q_StartSource = 0, q_StartLine = 1\<rparr>"

lemma sample_query_ok: "query_ok sample_artifact sample_query" "q_Regex sample_query = Some (\<lambda>t. t = ''a'')"
    "names_distinct (art_Sources sample_artifact)"
  by (simp_all add: query_ok_def sample_artifact_def sample_query_def sample_source_def n_lines_def names_distinct_def)

lemma sample_page:
  "filter ln_Match (page (\<lambda>t. t = ''a'') (q_Source sample_query) sample_artifact (q_start sample_query) (artifact_end sample_artifact)) =
   [\<lparr>ln_Source = ''s'', ln_N = 1, ln_Text = ''a'', ln_Match = True\<rparr>, \<lparr>ln_Source = ''s'', ln_N = 3, ln_Text = ''a'', ln_Match = True\<rparr>]"
  by (simp add: page_def sample_artifact_def sample_query_def sample_source_def artifact_end_def source_part_def marked_def
      Source_Read_def n_lines_def upto.simps)

lemma Search_page_exact_witness:
  "\<exists>r. Artifact_Search sample_artifact sample_query = Some (Inr r) \<and> sr_Matches r = int (length (filter ln_Match (sr_Lines r)))"
  using Search_page_exact [OF sample_query_ok(1,2)] by blast

lemma Search_pages_complete_witness:
  "search_pages 3 sample_artifact sample_query =
   [\<lparr>ln_Source = ''s'', ln_N = 1, ln_Text = ''a'', ln_Match = True\<rparr>, \<lparr>ln_Source = ''s'', ln_N = 3, ln_Text = ''a'', ln_Match = True\<rparr>]"
  using Search_pages_complete [OF sample_query_ok, of 3] by (simp only: sample_page) simp

end
