(* ===== verification/Source_Path.thy ===== *)
theory Source_Path
  imports Prelude
begin

text \<open>
  Paths and names of log sources: \<^verbatim>\<open>path/filepath\<close> as the collector uses it (\<^verbatim>\<open>Clean\<close>, \<^verbatim>\<open>Rel\<close>, \<^verbatim>\<open>Dir\<close>, \<^verbatim>\<open>IsAbs\<close>
  on a Unix system), the scope of a run (\<^verbatim>\<open>Files.Permits\<close> and the choice of directory in \<^verbatim>\<open>Files.Open\<close>,
  \<^verbatim>\<open>internal/source/file.go\<close>), and the validation of unit and container names
  (\<^verbatim>\<open>internal/source/source.go\<close>). The theorems say which files a scope opens up.
\<close>

section \<open>Path names\<close>

definition sep :: char where "sep = CHR ''/''"
definition dot :: string where "dot = ''.''"
definition dotdot :: string where "dotdot = ''..''"

definition IsAbs :: "string \<Rightarrow> bool" where
  "IsAbs path \<longleftrightarrow> path \<noteq> [] \<and> hd path = sep"

text \<open>
  The elements of a cleaned path. The first argument tells whether the path is rooted, the second holds
  the elements kept so far, the last of them first.
\<close>

fun clean_elems :: "bool \<Rightarrow> string list \<Rightarrow> string list \<Rightarrow> string list" where
  "clean_elems rooted kept [] = rev kept"
| "clean_elems rooted kept (e # es) =
     (if e = [] \<or> e = dot then clean_elems rooted kept es
      else if e = dotdot then
        (case kept of
           [] \<Rightarrow> clean_elems rooted (if rooted then [] else [dotdot]) es
         | k # ks \<Rightarrow> if k = dotdot then clean_elems rooted (dotdot # kept) es else clean_elems rooted ks es)
      else clean_elems rooted (e # kept) es)"

definition elems :: "string \<Rightarrow> string list" where
  "elems path = clean_elems (IsAbs path) [] (split_on sep path)"

definition path_of :: "bool \<Rightarrow> string list \<Rightarrow> string" where
  "path_of rooted es =
     (if rooted then sep # join_with [sep] es
      else if es = [] then dot else join_with [sep] es)"

definition Clean :: "string \<Rightarrow> string" where
  "Clean path = path_of (IsAbs path) (elems path)"

fun strip_common :: "string list \<Rightarrow> string list \<Rightarrow> string list \<times> string list" where
  "strip_common (b # bs) (t # ts) = (if b = t then strip_common bs ts else (b # bs, t # ts))"
| "strip_common bs ts = (bs, ts)"

text \<open>\<^verbatim>\<open>filepath.Rel\<close>: \<open>None\<close> is an error.\<close>

definition Rel :: "string \<Rightarrow> string \<Rightarrow> string option" where
  "Rel base targ =
     (if Clean targ = Clean base then Some dot
      else if IsAbs base \<noteq> IsAbs targ then None
      else (case strip_common (elems base) (elems targ) of (bs, ts) \<Rightarrow>
              if bs \<noteq> [] \<and> hd bs = dotdot then None
              else Some (join_with [sep] (replicate (length bs) dotdot @ ts))))"

text \<open>\<^verbatim>\<open>filepath.Dir\<close> of a cleaned absolute path.\<close>

definition Dir :: "string \<Rightarrow> string" where
  "Dir path = path_of (IsAbs path) (butlast (elems path))"

section \<open>The scope of a run\<close>

record files =
  f_Allowed :: "string list"
  f_Paths :: "string list"
  f_Tail :: int
  f_ModifiedAfter :: time

definition under :: "string \<Rightarrow> string \<Rightarrow> bool" where
  "under dir path =
     (case Rel dir path of
        None \<Rightarrow> False
      | Some rel \<Rightarrow> rel \<noteq> dotdot \<and> \<not> has_prefix rel (dotdot @ [sep]))"

definition Permits :: "files \<Rightarrow> string \<Rightarrow> bool" where
  "Permits f path \<longleftrightarrow> path \<in> set (f_Paths f) \<or> (\<exists>dir \<in> set (f_Allowed f). under dir path)"

datatype open_error = NotClean | Outside "string list"

text \<open>
  The first half of \<^verbatim>\<open>Open\<close> and \<^verbatim>\<open>openIn\<close>: the directory that is opened as a root and the name opened in
  it, or the refusal. The second half asks the operating system.
\<close>

definition open_target :: "files \<Rightarrow> string \<Rightarrow> open_error + string \<times> string option" where
  "open_target f path =
     (if \<not> IsAbs path \<or> Clean path \<noteq> path then Inl NotClean
      else (case filter (\<lambda>dir. under dir path) (f_Allowed f) of
              dir # _ \<Rightarrow> Inr (dir, Rel dir path)
            | [] \<Rightarrow>
                if path \<in> set (f_Paths f) \<and> Dir path \<noteq> path then Inr (Dir path, Rel (Dir path) path)
                else Inl (Outside (f_Allowed f))))"

section \<open>Names\<close>

definition name_letter :: "char \<Rightarrow> bool" where
  "name_letter c \<longleftrightarrow>
     (let n = (of_char c :: nat) in (97 \<le> n \<and> n \<le> 122) \<or> (65 \<le> n \<and> n \<le> 90) \<or> (48 \<le> n \<and> n \<le> 57))"

definition unitName :: "string \<Rightarrow> bool" where
  "unitName s \<longleftrightarrow> 1 \<le> length s \<and> length s \<le> 256 \<and>
     list_all (\<lambda>c. name_letter c \<or> c \<in> {CHR '':'', CHR ''_'', CHR ''.'', CHR ''@'', CHR 0x5C, CHR ''-''}) s"

definition containerName :: "string \<Rightarrow> bool" where
  "containerName s \<longleftrightarrow>
     (case s of
        [] \<Rightarrow> False
      | c # cs \<Rightarrow> name_letter c \<and> length cs \<le> 127 \<and>
                  list_all (\<lambda>c. name_letter c \<or> c \<in> {CHR ''_'', CHR ''.'', CHR ''-''}) cs)"

definition ValidateUnit :: "string \<Rightarrow> bool" where
  "ValidateUnit name \<longleftrightarrow> \<not> (\<not> unitName name \<or> has_prefix name ''-'')"

definition ValidateContainer :: "string \<Rightarrow> bool" where
  "ValidateContainer name \<longleftrightarrow> containerName name"

section \<open>Cleaned paths\<close>

definition elem_ok :: "string \<Rightarrow> bool" where
  "elem_ok e \<longleftrightarrow> e \<noteq> [] \<and> e \<noteq> dot \<and> e \<noteq> dotdot \<and> sep \<notin> set e"

lemma dots [simp]: "dot \<noteq> []" "dotdot \<noteq> []" "dot \<noteq> dotdot" "dotdot \<noteq> dot" "sep \<notin> set dot" "sep \<notin> set dotdot"
  by (simp_all add: dot_def dotdot_def sep_def)

lemma split_join:
  "es \<noteq> [] \<Longrightarrow> \<forall>e \<in> set es. c \<notin> set e \<Longrightarrow> split_on c (join_with [c] es) = es"
proof (induction es)
  case (Cons e es)
  then show ?case
    by (cases "es = []") (simp_all add: split_on_absent join_with_Cons split_on_prefix)
qed simp

lemma clean_elems_rooted:
  "\<forall>e \<in> set kept. elem_ok e \<Longrightarrow> \<forall>e \<in> set es. sep \<notin> set e \<Longrightarrow> \<forall>e \<in> set (clean_elems True kept es). elem_ok e"
proof (induction es arbitrary: kept)
  case (Cons e es)
  consider "e = [] \<or> e = dot" | "e = dotdot" | "elem_ok e" using Cons.prems by (auto simp: elem_ok_def)
  then show ?case
  proof cases
    case 1
    then have "clean_elems True kept (e # es) = clean_elems True kept es" by auto
    with Cons.IH [of kept] Cons.prems show ?thesis by simp
  next
    case 2
    show ?thesis
    proof (cases kept)
      case Nil
      with 2 Cons.IH [of "[]"] Cons.prems(2) show ?thesis by simp
    next
      case (Cons k ks)
      with Cons.prems(1) have "k \<noteq> dotdot" "\<forall>e \<in> set ks. elem_ok e" by (simp_all add: elem_ok_def)
      with 2 Cons Cons.IH [of ks] Cons.prems(2) show ?thesis by simp
    qed
  next
    case 3
    then have "clean_elems True kept (e # es) = clean_elems True (e # kept) es" by (simp add: elem_ok_def)
    with Cons.IH [of "e # kept"] Cons.prems 3 show ?thesis by simp
  qed
qed simp

lemma elems_ok: "IsAbs path \<Longrightarrow> \<forall>e \<in> set (elems path). elem_ok e"
  using clean_elems_rooted [of "[]" "split_on sep path"] split_on_no_sep by (simp add: elems_def)

lemma clean_elems_ok: "\<forall>e \<in> set es. elem_ok e \<Longrightarrow> clean_elems r kept es = rev kept @ es"
  by (induction es arbitrary: kept) (auto simp: elem_ok_def)

lemma elems_path_of:
  assumes "\<forall>e \<in> set es. elem_ok e"
  shows "elems (path_of True es) = es"
proof -
  have "split_on sep (sep # join_with [sep] es) = [] # (if es = [] then [[]] else es)"
    using assms by (simp add: split_join elem_ok_def)
  then show ?thesis using assms by (simp add: elems_def path_of_def IsAbs_def clean_elems_ok)
qed

lemma Clean_eq_iff: "IsAbs a \<Longrightarrow> IsAbs b \<Longrightarrow> Clean a = Clean b \<longleftrightarrow> elems a = elems b"
  by (auto simp: Clean_def dest: elems_ok) (metis elems_ok elems_path_of)

lemma strip_common_eq: "strip_common bs ts = (x, y) \<Longrightarrow> \<exists>p. bs = p @ x \<and> ts = p @ y \<and> (x = [] \<or> y = [] \<or> hd x \<noteq> hd y)"
proof (induction bs ts arbitrary: x y rule: strip_common.induct)
  case (1 b bs t ts)
  show ?case
  proof (cases "b = t")
    case True
    with 1 obtain p where "bs = p @ x" "ts = p @ y" "x = [] \<or> y = [] \<or> hd x \<noteq> hd y" by auto
    with True show ?thesis by (intro exI [of _ "b # p"]) simp
  next
    case False
    with 1 show ?thesis by auto
  qed
qed auto

lemma goes_up_iff:
  assumes "es \<noteq> []" "\<forall>e \<in> set es. sep \<notin> set e"
  shows "(join_with [sep] es = dotdot \<or> has_prefix (join_with [sep] es) (dotdot @ [sep])) \<longleftrightarrow> hd es = dotdot"
proof
  assume "join_with [sep] es = dotdot \<or> has_prefix (join_with [sep] es) (dotdot @ [sep])"
  then have "split_on sep (join_with [sep] es) \<in> {[dotdot]} \<union> {dotdot # split_on sep t | t. True}"
  proof
    assume "has_prefix (join_with [sep] es) (dotdot @ [sep])"
    then obtain t where "join_with [sep] es = dotdot @ sep # t" unfolding has_prefix_iff by auto
    moreover have "split_on sep (dotdot @ sep # t) = dotdot # split_on sep t" by (rule split_on_prefix) simp
    ultimately show ?thesis by auto
  qed (simp add: split_on_absent)
  with split_join [OF assms] show "hd es = dotdot" by auto
next
  assume h: "hd es = dotdot"
  show "join_with [sep] es = dotdot \<or> has_prefix (join_with [sep] es) (dotdot @ [sep])"
  proof (cases "tl es = []")
    case True
    with h assms(1) show ?thesis by (cases es) auto
  next
    case False
    with h assms(1) have "join_with [sep] es = (dotdot @ [sep]) @ join_with [sep] (tl es)"
      by (cases es) (simp_all add: join_with_Cons)
    then show ?thesis by (metis has_prefix_append)
  qed
qed

text \<open>What \<^verbatim>\<open>under\<close> means: the elements of the directory are a prefix of the elements of the path.\<close>

lemma under_iff:
  assumes "IsAbs dir" "IsAbs path"
  shows "under dir path \<longleftrightarrow> prefix (elems dir) (elems path)"
proof (cases "elems path = elems dir")
  case True
  with assms show ?thesis by (simp add: under_def Rel_def Clean_eq_iff has_prefix_def dot_def dotdot_def)
next
  case False
  obtain bs ts where s: "strip_common (elems dir) (elems path) = (bs, ts)" by fastforce
  from strip_common_eq [OF s] obtain p where p: "elems dir = p @ bs" "elems path = p @ ts" "bs = [] \<or> ts = [] \<or> hd bs \<noteq> hd ts" by blast
  have ok: "\<forall>e \<in> set bs \<union> set ts. elem_ok e" using elems_ok [OF assms(1)] elems_ok [OF assms(2)] by (auto simp: p)
  have pre: "prefix (elems dir) (elems path) \<longleftrightarrow> bs = []" using p by (cases bs; cases ts) auto
  let ?es = "replicate (length bs) dotdot @ ts"
  have ne: "?es \<noteq> []" using False p by auto
  have up: "hd ?es = dotdot \<longleftrightarrow> bs \<noteq> []"
    using ne ok by (cases bs; cases ts) (auto simp: elem_ok_def)
  have "\<forall>e \<in> set ?es. sep \<notin> set e" using ok by (metis Un_iff dots(6) elem_ok_def in_set_replicate set_append)
  note g = goes_up_iff [OF ne this]
  have "\<not> (bs \<noteq> [] \<and> hd bs = dotdot)" using ok by (cases bs) (auto simp: elem_ok_def)
  then have "Rel dir path = Some (join_with [sep] ?es)"
    using False assms s by (simp add: Rel_def Clean_eq_iff)
  then have "under dir path \<longleftrightarrow> \<not> (join_with [sep] ?es = dotdot \<or> has_prefix (join_with [sep] ?es) (dotdot @ [sep]))"
    by (simp add: under_def)
  with g up pre show ?thesis by blast
qed

lemma Rel_under:
  assumes "IsAbs dir" "IsAbs path" "elems path = elems dir @ es"
  shows "Rel dir path = Some (if es = [] then dot else join_with [sep] es)"
proof -
  have "strip_common xs (xs @ es) = ([], es)" for xs by (induction xs) auto
  with assms show ?thesis by (simp add: Rel_def Clean_eq_iff)
qed

section \<open>What a scope opens up\<close>

lemma Dir_elems: "IsAbs path \<Longrightarrow> elems (Dir path) = butlast (elems path) \<and> IsAbs (Dir path)"
  using elems_ok [of path] elems_path_of [of "butlast (elems path)"]
  by (auto simp: Dir_def dest: in_set_butlastD) (simp add: path_of_def IsAbs_def)

lemma clean_path_eq: "IsAbs path \<Longrightarrow> Clean path = path \<Longrightarrow> path = path_of True (elems path)"
  by (simp add: Clean_def)

lemma Dir_same:
  assumes "IsAbs path" "Clean path = path"
  shows "Dir path = path \<longleftrightarrow> elems path = []"
proof
  assume "Dir path = path"
  with Dir_elems [OF assms(1)] have "butlast (elems path) = elems path" by simp
  then have "length (elems path) - 1 = length (elems path)" by (metis length_butlast)
  then show "elems path = []" by (cases "elems path") auto
next
  assume "elems path = []"
  then have "Dir path = path_of True (elems path)" using assms(1) by (simp add: Dir_def)
  with clean_path_eq [OF assms] show "Dir path = path" by simp
qed

text \<open>
  C32. The scope is a fence. A path is opened only if it is absolute and clean, and then through an allowed
  directory, or, when it was granted by name, through its own parent. Its elements are those of that
  directory followed by the elements of the name opened in it, none of which is ``..'': the name does not
  lead out of the directory. A path granted by name gives access to one element of the parent only. And
  every clean absolute path that the scope covers is opened, except a granted root directory.
\<close>

theorem Open_fenced:
  assumes "\<forall>dir \<in> set (f_Allowed f). IsAbs dir"
  shows "(\<forall>dir rel. open_target f path = Inr (dir, rel) \<longrightarrow>
      IsAbs path \<and> Clean path = path \<and>
      (\<exists>es. rel = Some (if es = [] then dot else join_with [sep] es) \<and> elems path = elems dir @ es \<and> (\<forall>e \<in> set es. elem_ok e) \<and>
        (dir \<in> set (f_Allowed f) \<or> (path \<in> set (f_Paths f) \<and> dir = Dir path \<and> length es = 1)))) \<and>
    ((\<exists>r. open_target f path = Inr r) \<longleftrightarrow>
      IsAbs path \<and> Clean path = path \<and> Permits f path \<and> (elems path \<noteq> [] \<or> (\<exists>dir \<in> set (f_Allowed f). under dir path)))"
proof (cases "IsAbs path \<and> Clean path = path")
  case False
  then show ?thesis by (auto simp: open_target_def)
next
  case True
  note ok = elems_ok [of path]
  show ?thesis
  proof (cases "filter (\<lambda>dir. under dir path) (f_Allowed f)")
    case (Cons d ds)
    then have d: "d \<in> set (f_Allowed f)" "under d path" by (metis Cons_eq_filterD in_set_conv_decomp, metis Cons_eq_filterD)
    with assms True obtain es where es: "elems path = elems d @ es" by (auto simp: under_iff prefix_def)
    have "open_target f path = Inr (d, Rel d path)" using True Cons by (simp add: open_target_def)
    moreover have "Rel d path = Some (if es = [] then dot else join_with [sep] es)"
      using Rel_under [OF _ _ es] assms d(1) True by blast
    moreover have "\<forall>e \<in> set es. elem_ok e" using ok es True by auto
    ultimately show ?thesis using True d es by (auto simp: Permits_def)
  next
    case Nil
    then have none: "\<not> (\<exists>dir \<in> set (f_Allowed f). under dir path)" by (auto simp: filter_empty_conv)
    have same: "Dir path \<noteq> path \<longleftrightarrow> elems path \<noteq> []" using Dir_same True by blast
    show ?thesis
    proof (cases "path \<in> set (f_Paths f) \<and> elems path \<noteq> []")
      case p: True
      define e where "e = last (elems path)"
      have es: "elems path = elems (Dir path) @ [e]" using p Dir_elems True by (simp add: e_def)
      have "open_target f path = Inr (Dir path, Rel (Dir path) path)" using True Nil p same by (simp add: open_target_def)
      moreover have "Rel (Dir path) path = Some (join_with [sep] [e])"
        using Rel_under [OF _ _ es] Dir_elems True by simp
      moreover have "elem_ok e" using ok p True by (simp add: e_def)
      ultimately show ?thesis using True p es by (fastforce simp: Permits_def)
    next
      case np: False
      then have "open_target f path = Inl (Outside (f_Allowed f))" using True Nil same by (auto simp: open_target_def)
      with np none show ?thesis by (auto simp: Permits_def)
    qed
  qed
qed

theorem Open_fenced_witness:
  "\<exists>r. open_target \<lparr>f_Allowed = [''/l''], f_Paths = [], f_Tail = 0, f_ModifiedAfter = 0\<rparr> ''/l/a'' = Inr r"
proof -
  have "IsAbs ''/l/a'' \<and> Clean ''/l/a'' = ''/l/a'' \<and> elems ''/l/a'' = [''l'', ''a''] \<and> IsAbs ''/l'' \<and> elems ''/l'' = [''l'']"
    by (simp add: IsAbs_def Clean_def elems_def path_of_def sep_def dot_def dotdot_def)
  then show ?thesis
    using Open_fenced [of "\<lparr>f_Allowed = [''/l''], f_Paths = [], f_Tail = 0, f_ModifiedAfter = 0\<rparr>" "''/l/a''"]
    by (simp add: Permits_def under_iff)
qed

end
