(* ===== verification/Source_Files.thy ===== *)
theory Source_Files
  imports Source_Path
begin

text \<open>
  Reading log files (\<^verbatim>\<open>internal/source/file.go\<close>, \<^verbatim>\<open>source.go\<close>): whole files, their last lines, ranges and
  searches, through the scope of \<open>Source_Path\<close>.

  The operating system is a parameter (\<open>os_files\<close>): what opening a name in a directory gives, how links
  resolve, what a pattern matches, and what decompressing gives. A stream is its text and the error that
  ends it, if it does not end with the file. \<^verbatim>\<open>bufio.Reader.ReadSlice\<close> is written out (\<open>read_slice\<close>), since the
  scan depends on what it returns for a full buffer.
\<close>

section \<open>Files\<close>

datatype os_error = EscapesParent | NotExist | Permission | OsOther string

datatype stream_error = Os os_error | Corrupt

type_synonym stream = "string \<times> stream_error option"

record file_obj =
  fo_Regular :: bool
  fo_Size :: nat
  fo_ModTime :: time
  fo_Data :: string
  fo_ReadErr :: "os_error option"
  fo_StatErr :: "os_error option"

record os_files =
  os_openIn :: "string \<Rightarrow> string \<Rightarrow> os_error + file_obj"
  os_EvalSymlinks :: "string \<Rightarrow> os_error + string"
  os_Glob :: "string \<Rightarrow> string list option"
  os_gunzip :: "string \<Rightarrow> stream option"

datatype file_error =
    FE_Open open_error
  | FE_Os os_error
  | FE_NotRegular
  | FE_SourceNotRegular
  | FE_TooLarge
  | FE_TailTooLarge
  | FE_GzipCorrupt
  | FE_GzipTruncated
  | FE_Stream stream_error
  | FE_LineTooLong
  | FE_Pattern
  | FE_LineRange
  | FE_TailCount
  | FE_Regex
  | FE_SearchLimits
  | FE_Cursor

definition newline :: char where "newline = CHR 0x0A"

definition maxFileBytes :: nat where "maxFileBytes = 128 * 2 ^ 20"
definition bufSize :: nat where "bufSize = 64 * 2 ^ 10"

definition splitLines :: "string \<Rightarrow> string list" where
  "splitLines data =
     (if data = [] then []
      else let lines = split_on newline data in
           if last lines = [] then butlast lines else lines)"

definition Files_Open :: "os_files \<Rightarrow> files \<Rightarrow> string \<Rightarrow> file_error + file_obj" where
  "Files_Open os f path =
     (case open_target f path of
        Inl e \<Rightarrow> Inl (FE_Open e)
      | Inr (dir, None) \<Rightarrow> Inl (FE_Os (OsOther ''rel''))
      | Inr (dir, Some rel) \<Rightarrow>
          (case os_openIn os dir rel of Inl e \<Rightarrow> Inl (FE_Os e) | Inr file \<Rightarrow> Inr file))"

definition file_stream :: "file_obj \<Rightarrow> stream" where
  "file_stream file = (fo_Data file, map_option Os (fo_ReadErr file))"

text \<open>\<^verbatim>\<open>decompress\<close>: the reader and whether the content was compressed.\<close>

definition decompress :: "os_files \<Rightarrow> stream \<Rightarrow> file_error + stream \<times> bool" where
  "decompress os s =
     (if length (fst s) < 2 \<and> snd s \<noteq> None then Inl (FE_Stream (the (snd s)))
      else if take 2 (fst s) \<noteq> [CHR 0x1F, CHR 0x8B] then Inr (s, False)
      else (case os_gunzip os (fst s) of
              None \<Rightarrow> Inl FE_GzipCorrupt
            | Some z \<Rightarrow> Inr (z, True)))"

definition readError :: "stream_error \<Rightarrow> bool \<Rightarrow> file_error" where
  "readError e compressed = (if compressed \<and> e = Corrupt then FE_GzipTruncated else FE_Stream e)"

section \<open>Line by line\<close>

datatype slice_end = LineEnd | BufferFull | StreamEnd

text \<open>\<^verbatim>\<open>ReadSlice('\n')\<close> on a reader with a buffer of 64 KiB: the slice, why it ends there, and the rest.\<close>

definition read_slice :: "string \<Rightarrow> string \<times> slice_end \<times> string" where
  "read_slice data =
     (let line = takeWhile (\<lambda>c. c \<noteq> newline) (take bufSize data) in
      if length line < length (take bufSize data)
      then (line @ [newline], LineEnd, drop (length line + 1) data)
      else if bufSize \<le> length data then (take bufSize data, BufferFull, drop bufSize data)
      else (data, StreamEnd, []))"

lemma read_slice_shrinks:
  assumes "read_slice data = (chunk, e, rest)" "e \<noteq> StreamEnd"
  shows "length rest < length data"
proof -
  have ne: "data \<noteq> []" using assms by (auto simp: read_slice_def Let_def bufSize_def split: if_splits)
  show ?thesis
  proof (cases "length (takeWhile (\<lambda>c. c \<noteq> newline) (take bufSize data)) < length (take bufSize data)")
    case True
    with assms have "rest = drop (length (takeWhile (\<lambda>c. c \<noteq> newline) (take bufSize data)) + 1) data"
      by (auto simp: read_slice_def Let_def split: if_splits)
    with ne show ?thesis by simp
  next
    case False
    with assms have "rest = drop bufSize data" by (auto simp: read_slice_def Let_def split: if_splits)
    with ne show ?thesis by (simp add: bufSize_def)
  qed
qed

definition trim_newline :: "string \<Rightarrow> string" where
  "trim_newline l = (if l \<noteq> [] \<and> last l = newline then butlast l else l)"

datatype scan_error = LineTooLong | ReadFailed stream_error

text \<open>
  \<^verbatim>\<open>scanLines\<close>: the callback gets the number and the text of a line and the state, and says whether to go
  on. The result is the number of lines and the last state, or the error.
\<close>

function scan_loop ::
  "(nat \<Rightarrow> string \<Rightarrow> 's \<Rightarrow> bool \<times> 's) \<Rightarrow> stream_error option \<Rightarrow> string \<Rightarrow> string \<Rightarrow> nat \<Rightarrow> 's \<Rightarrow> scan_error + nat \<times> 's" where
  "scan_loop fn err data line n s =
     (case read_slice data of (chunk, e, rest) \<Rightarrow>
        if length line + length chunk > maxFileBytes then Inl LineTooLong
        else
          let line' = line @ chunk in
          if e = BufferFull then scan_loop fn err rest line' n s
          else
            let (go, s', n') = (if line' \<noteq> [] then (case fn (n + 1) (trim_newline line') s of (g, t) \<Rightarrow> (g, t, n + 1)) else (True, s, n))
            in if \<not> go then Inr (n', s')
               else if e = StreamEnd then (case err of None \<Rightarrow> Inr (n', s') | Some x \<Rightarrow> Inl (ReadFailed x))
               else scan_loop fn err rest [] n' s')"
  by pat_completeness auto

termination
  by (relation "measure (\<lambda>(_, _, data, _). length data)") (auto dest: sym read_slice_shrinks)

declare scan_loop.simps [simp del]

definition scanLines :: "(nat \<Rightarrow> string \<Rightarrow> 's \<Rightarrow> bool \<times> 's) \<Rightarrow> stream \<Rightarrow> 's \<Rightarrow> scan_error + nat \<times> 's" where
  "scanLines fn r s = scan_loop fn (snd r) (fst r) [] 0 s"

definition scan_failure :: "scan_error \<Rightarrow> bool \<Rightarrow> file_error" where
  "scan_failure e compressed = (case e of LineTooLong \<Rightarrow> FE_LineTooLong | ReadFailed x \<Rightarrow> readError x compressed)"

text \<open>\<^verbatim>\<open>Files.open\<close>: the text of a regular file, decompressed.\<close>

definition Files_open :: "os_files \<Rightarrow> files \<Rightarrow> string \<Rightarrow> file_error + stream \<times> bool" where
  "Files_open os f path =
     (case Files_Open os f path of
        Inl e \<Rightarrow> Inl e
      | Inr file \<Rightarrow>
          (case fo_StatErr file of
             Some e \<Rightarrow> Inl (FE_Os e)
           | None \<Rightarrow>
               if \<not> fo_Regular file then Inl FE_SourceNotRegular
               else decompress os (file_stream file)))"

definition Files_scan ::
  "os_files \<Rightarrow> files \<Rightarrow> string \<Rightarrow> (nat \<Rightarrow> string \<Rightarrow> 's \<Rightarrow> bool \<times> 's) \<Rightarrow> 's \<Rightarrow> file_error + nat \<times> 's" where
  "Files_scan os f path fn s =
     (case Files_open os f path of
        Inl e \<Rightarrow> Inl e
      | Inr (r, compressed) \<Rightarrow>
          (case scanLines fn r s of Inl e \<Rightarrow> Inl (scan_failure e compressed) | Inr x \<Rightarrow> Inr x))"

definition ReadLines :: "os_files \<Rightarrow> files \<Rightarrow> string \<Rightarrow> int \<Rightarrow> int \<Rightarrow> file_error + string list \<times> nat" where
  "ReadLines os f path a b =
     (if a < 1 \<or> b < a then Inl FE_LineRange
      else (case Files_scan os f path (\<lambda>n line ls. (True, if a \<le> int n \<and> int n \<le> b then ls @ [line] else ls)) [] of
              Inl e \<Rightarrow> Inl e
            | Inr (count, lines) \<Rightarrow> Inr (lines, count)))"

definition keep_last :: "nat \<Rightarrow> 'a \<Rightarrow> 'a list \<Rightarrow> 'a list" where
  "keep_last n x xs = (if length xs = n then tl xs else xs) @ [x]"

definition lastLines :: "stream \<Rightarrow> nat \<Rightarrow> scan_error + string list \<times> nat" where
  "lastLines r n =
     (case scanLines (\<lambda>_ line ls. (True, keep_last n line ls)) r [] of
        Inl e \<Rightarrow> Inl e
      | Inr (count, lines) \<Rightarrow> Inr (lines, count))"

definition TailLines :: "os_files \<Rightarrow> files \<Rightarrow> string \<Rightarrow> int \<Rightarrow> file_error + string list \<times> nat" where
  "TailLines os f path n =
     (if n < 1 then Inl FE_TailCount
      else (case Files_open os f path of
              Inl e \<Rightarrow> Inl e
            | Inr (r, compressed) \<Rightarrow>
                (case lastLines r (nat n) of Inl e \<Rightarrow> Inl (scan_failure e compressed) | Inr x \<Rightarrow> Inr x)))"

section \<open>Whole files\<close>

definition ReadAt :: "file_obj \<Rightarrow> nat \<Rightarrow> nat \<Rightarrow> os_error + string" where
  "ReadAt file len pos =
     (if pos + len \<le> length (fo_Data file) then Inr (take len (drop pos (fo_Data file)))
      else Inl (case fo_ReadErr file of Some e \<Rightarrow> e | None \<Rightarrow> OsOther ''EOF''))"

text \<open>The loop of \<^verbatim>\<open>readTail\<close>, from the end of the file; the blocks read so far are kept joined.\<close>

function tail_loop :: "file_obj \<Rightarrow> nat \<Rightarrow> nat \<Rightarrow> string \<Rightarrow> nat \<Rightarrow> file_error + string" where
  "tail_loop file n pos data newlines =
     (if pos > 0 \<and> newlines \<le> n then
        let len = min pos bufSize; pos' = pos - len in
        (case ReadAt file len pos' of
           Inl e \<Rightarrow> Inl (FE_Os e)
         | Inr block \<Rightarrow>
             if length data + length block > maxFileBytes then Inl FE_TailTooLarge
             else tail_loop file n pos' (block @ data) (newlines + length (filter (\<lambda>c. c = newline) block)))
      else Inr data)"
  by pat_completeness auto

termination by (relation "measure (\<lambda>(_, _, pos, _). pos)") (auto simp: bufSize_def)

declare tail_loop.simps [simp del]

definition readTail :: "file_obj \<Rightarrow> nat \<Rightarrow> nat \<Rightarrow> file_error + string" where
  "readTail file sz n = tail_loop file n sz [] 0"

text \<open>\<^verbatim>\<open>io.ReadAll(io.LimitReader(r, limit))\<close>\<close>

definition read_all :: "stream \<Rightarrow> nat \<Rightarrow> stream" where
  "read_all r limit = (take limit (fst r), if length (fst r) < limit then snd r else None)"

record log_source =
  s_Kind :: string
  s_Target :: string
  s_Name :: string
  s_Lines :: "string list"
  s_Since :: time
  s_Until :: time
  s_Stderr :: string
  s_Note :: string

text \<open>The three ways of reading the lines of a file, and the error they end with.\<close>

definition file_lines :: "files \<Rightarrow> file_obj \<Rightarrow> stream \<Rightarrow> bool \<Rightarrow> file_error + string list" where
  "file_lines f file r compressed =
     (if compressed \<and> f_Tail f > 0 then
        (case lastLines r (nat (f_Tail f)) of Inl e \<Rightarrow> Inl (scan_failure e compressed) | Inr (lines, _) \<Rightarrow> Inr lines)
      else if f_Tail f > 0 then
        (case readTail file (fo_Size file) (nat (f_Tail f)) of Inl e \<Rightarrow> Inl e | Inr data \<Rightarrow> Inr (splitLines data))
      else
        (case read_all r (maxFileBytes + 1) of
           (data, Some e) \<Rightarrow> Inl (readError e compressed)
         | (data, None) \<Rightarrow> if length data > maxFileBytes then Inl FE_TooLarge else Inr (splitLines data)))"

definition tail_note :: "int \<Rightarrow> string" where
  "tail_note n = ''last '' @ show_nat (nat n) @ '' lines''"

definition file_source :: "files \<Rightarrow> string \<Rightarrow> string list \<Rightarrow> log_source" where
  "file_source f path lines =
     \<lparr>s_Kind = ''file'', s_Target = path, s_Name = ''file:'' @ path,
      s_Lines = (if f_Tail f > 0 \<and> length lines > nat (f_Tail f) then drop (length lines - nat (f_Tail f)) lines else lines),
      s_Since = 0, s_Until = 0, s_Stderr = '''', s_Note = (if f_Tail f > 0 then tail_note (f_Tail f) else '''')\<rparr>"

text \<open>
  \<^verbatim>\<open>readFile\<close>: no source when the file was read before under another name. The set of canonical names is
  the Go map \<^verbatim>\<open>seen\<close>.
\<close>

definition readFile :: "os_files \<Rightarrow> files \<Rightarrow> string \<Rightarrow> string set \<Rightarrow> file_error + log_source option \<times> string set" where
  "readFile os f path seen =
     (case Files_Open os f path of
        Inl e \<Rightarrow> Inl e
      | Inr file \<Rightarrow>
          (case fo_StatErr file of
             Some e \<Rightarrow> Inl (FE_Os e)
           | None \<Rightarrow>
               if \<not> fo_Regular file then Inl FE_NotRegular
               else (case os_EvalSymlinks os path of
                       Inl e \<Rightarrow> Inl (FE_Os e)
                     | Inr canonical \<Rightarrow>
                         if canonical \<in> seen then Inr (None, seen)
                         else (case decompress os (file_stream file) of
                                 Inl e \<Rightarrow> Inl e
                               | Inr (r, compressed) \<Rightarrow>
                                   (case file_lines f file r compressed of
                                      Inl e \<Rightarrow> Inl e
                                    | Inr lines \<Rightarrow> Inr (Some (file_source f path lines), insert canonical seen))))))"

text \<open>Errors for which a name found by a pattern is left out; every other error ends the run.\<close>

definition Files_skip :: "file_error \<Rightarrow> bool" where
  "Files_skip e =
     (case e of
        FE_Os EscapesParent \<Rightarrow> True
      | FE_Os NotExist \<Rightarrow> True
      | FE_Os Permission \<Rightarrow> True
      | FE_NotRegular \<Rightarrow> True
      | _ \<Rightarrow> False)"

fun glob_loop :: "os_files \<Rightarrow> files \<Rightarrow> string list \<Rightarrow> string set \<Rightarrow> file_error + log_source list \<times> string set" where
  "glob_loop os f [] seen = Inr ([], seen)"
| "glob_loop os f (path # paths) seen =
     (case Files_Open os f path of
        Inl e \<Rightarrow> if Files_skip e then glob_loop os f paths seen else Inl e
      | Inr file \<Rightarrow>
          (case fo_StatErr file of
             Some e \<Rightarrow> if Files_skip (FE_Os e) then glob_loop os f paths seen else Inl (FE_Os e)
           | None \<Rightarrow>
               if \<not> fo_Regular file then glob_loop os f paths seen
               else if fo_ModTime file < f_ModifiedAfter f then glob_loop os f paths seen
               else (case readFile os f path seen of
                       Inl e \<Rightarrow> if Files_skip e then glob_loop os f paths seen else Inl e
                     | Inr (s, seen') \<Rightarrow>
                         (case glob_loop os f paths seen' of
                            Inl e \<Rightarrow> Inl e
                          | Inr (ss, seen'') \<Rightarrow> Inr ((case s of None \<Rightarrow> [] | Some x \<Rightarrow> [x]) @ ss, seen'')))))"

definition Files_glob :: "os_files \<Rightarrow> files \<Rightarrow> string \<Rightarrow> string set \<Rightarrow> file_error + log_source list \<times> string set" where
  "Files_glob os f pat seen =
     (case os_Glob os pat of None \<Rightarrow> Inl FE_Pattern | Some matches \<Rightarrow> glob_loop os f matches seen)"

fun read_paths :: "os_files \<Rightarrow> files \<Rightarrow> string list \<Rightarrow> string set \<Rightarrow> file_error + log_source list \<times> string set" where
  "read_paths os f [] seen = Inr ([], seen)"
| "read_paths os f (path # paths) seen =
     (case readFile os f path seen of
        Inl e \<Rightarrow> Inl e
      | Inr (s, seen') \<Rightarrow>
          (case read_paths os f paths seen' of
             Inl e \<Rightarrow> Inl e
           | Inr (ss, seen'') \<Rightarrow> Inr ((case s of None \<Rightarrow> [] | Some x \<Rightarrow> [x]) @ ss, seen'')))"

fun read_patterns :: "os_files \<Rightarrow> files \<Rightarrow> string list \<Rightarrow> string set \<Rightarrow> file_error + log_source list" where
  "read_patterns os f [] seen = Inr []"
| "read_patterns os f (pat # pats) seen =
     (case Files_glob os f pat seen of
        Inl e \<Rightarrow> Inl e
      | Inr (ss, seen') \<Rightarrow>
          (case read_patterns os f pats seen' of Inl e \<Rightarrow> Inl e | Inr ss' \<Rightarrow> Inr (ss @ ss')))"

definition ReadFiles :: "os_files \<Rightarrow> files \<Rightarrow> string list \<Rightarrow> string list \<Rightarrow> file_error + log_source list" where
  "ReadFiles os f paths patterns =
     (case read_paths os f paths {} of
        Inl e \<Rightarrow> Inl e
      | Inr (ss, seen) \<Rightarrow>
          (case read_patterns os f patterns seen of Inl e \<Rightarrow> Inl e | Inr ss' \<Rightarrow> Inr (ss @ ss')))"

section \<open>Searching\<close>

record file_query =
  fq_Paths :: "string list"
  fq_Before :: int
  fq_After :: int
  fq_Max :: int
  fq_Cursor :: string

text \<open>The variables of a search: the output, the next position, and what the callback keeps.\<close>

record search_state =
  ss_Lines :: "string list"
  ss_Next :: "(nat \<times> nat) option"
  ss_matches :: int
  ss_before :: "(nat \<times> string) list"
  ss_after :: int

definition search_text :: "string \<Rightarrow> (string \<Rightarrow> bool) \<Rightarrow> nat \<Rightarrow> string \<Rightarrow> string" where
  "search_text path re n line = path @ '':'' @ show_nat n @ (if re line then '':'' else ''-'') @ '' '' @ line"

definition emit :: "string \<Rightarrow> (string \<Rightarrow> bool) \<Rightarrow> nat \<Rightarrow> string \<Rightarrow> search_state \<Rightarrow> search_state" where
  "emit path re n line s = s\<lparr>ss_Lines := ss_Lines s @ [search_text path re n line]\<rparr>"

text \<open>The callback of a search in the file with index \<open>i\<close>, where matches count from line \<open>first\<close> on.\<close>

definition search_line ::
  "file_query \<Rightarrow> (string \<Rightarrow> bool) \<Rightarrow> string \<Rightarrow> nat \<Rightarrow> nat \<Rightarrow> nat \<Rightarrow> string \<Rightarrow> search_state \<Rightarrow> bool \<times> search_state" where
  "search_line q re path i first n line s0 =
     (let hit = (n \<ge> first \<and> re line);
          s = (if hit \<and> ss_matches s0 = fq_Max q \<and> ss_Next s0 = None then s0\<lparr>ss_Next := Some (i, n)\<rparr> else s0)
      in if ss_Next s \<noteq> None then
           (if ss_after s = 0 then (False, s)
            else (True, (emit path re n line s)\<lparr>ss_after := ss_after s - 1\<rparr>))
         else if hit then
           let s1 = fold (\<lambda>(k, l). emit path re k l) (ss_before s) s
           in (True, (emit path re n line s1)\<lparr>ss_matches := ss_matches s + 1, ss_before := [], ss_after := fq_After q\<rparr>)
         else if ss_after s > 0 then (True, (emit path re n line s)\<lparr>ss_after := ss_after s - 1\<rparr>)
         else if fq_Before q > 0 then (True, s\<lparr>ss_before := keep_last (nat (fq_Before q)) (n, line) (ss_before s)\<rparr>)
         else (True, s))"

text \<open>The loop over the files, from index \<open>i\<close> on.\<close>

fun search_files ::
  "os_files \<Rightarrow> files \<Rightarrow> file_query \<Rightarrow> (string \<Rightarrow> bool) \<Rightarrow> string list \<Rightarrow> nat \<Rightarrow> nat \<Rightarrow> search_state \<Rightarrow> file_error + search_state" where
  "search_files os f q re [] i first s = Inr s"
| "search_files os f q re (path # paths) i first s =
     (case Files_scan os f path (search_line q re path i first) (s\<lparr>ss_before := [], ss_after := 0\<rparr>) of
        Inl e \<Rightarrow> Inl e
      | Inr (_, s') \<Rightarrow>
          if ss_Next s' \<noteq> None then Inr s'
          else search_files os f q re paths (Suc i) 1 s')"

definition parse_cursor :: "nat \<Rightarrow> string \<Rightarrow> (nat \<times> nat) option" where
  "parse_cursor count c =
     (if c = [] then Some (0, 1)
      else (case cut_at (CHR '':'') c of (a, b, ok) \<Rightarrow>
              (case (Atoi a, Atoi b) of
                 (Some i, Some n) \<Rightarrow>
                   if ok \<and> \<not> i < 0 \<and> \<not> i \<ge> int count \<and> \<not> n < 1 then Some (nat i, nat n) else None
               | _ \<Rightarrow> None)))"

definition show_cursor :: "(nat \<times> nat) option \<Rightarrow> string" where
  "show_cursor p = (case p of None \<Rightarrow> '''' | Some (i, n) \<Rightarrow> show_nat i @ '':'' @ show_nat n)"

definition Files_Search ::
  "os_files \<Rightarrow> (string \<Rightarrow> (string \<Rightarrow> bool) option) \<Rightarrow> files \<Rightarrow> string \<Rightarrow> file_query \<Rightarrow> file_error + string list \<times> string" where
  "Files_Search os compile f pat q =
     (case compile pat of
        None \<Rightarrow> Inl FE_Regex
      | Some re \<Rightarrow>
          if fq_Before q < 0 \<or> fq_Before q > 50 \<or> fq_After q < 0 \<or> fq_After q > 50 \<or> fq_Max q < 1 \<or> fq_Max q > 200
             \<or> length (fq_Paths q) > 200
          then Inl FE_SearchLimits
          else (case parse_cursor (length (fq_Paths q)) (fq_Cursor q) of
                  None \<Rightarrow> Inl FE_Cursor
                | Some (i, first) \<Rightarrow>
                    (case search_files os f q re (drop i (fq_Paths q)) i first
                            \<lparr>ss_Lines = [], ss_Next = None, ss_matches = 0, ss_before = [], ss_after = 0\<rparr> of
                       Inl e \<Rightarrow> Inl e
                     | Inr s \<Rightarrow> Inr (ss_Lines s, show_cursor (ss_Next s)))))"

section \<open>Output of a command\<close>

record commandStderr =
  ce_line :: string
  ce_done :: bool

definition is_space :: "char \<Rightarrow> bool" where
  "is_space c \<longleftrightarrow> c \<in> {CHR '' '', CHR 0x09, CHR 0x0A, CHR 0x0B, CHR 0x0C, CHR 0x0D}"

definition trim_space :: "string \<Rightarrow> string" where
  "trim_space s = trim_set {c. is_space c} s"

definition stderr_byte :: "char \<Rightarrow> commandStderr \<Rightarrow> commandStderr" where
  "stderr_byte b s =
     (if ce_done s then s
      else if b = newline then
        (if trim_space (ce_line s) \<noteq> [] then s\<lparr>ce_done := True\<rparr> else s\<lparr>ce_line := []\<rparr>)
      else if length (ce_line s) < 200 then s\<lparr>ce_line := ce_line s @ [b]\<rparr>
      else s)"

definition Stderr_Write :: "string \<Rightarrow> commandStderr \<Rightarrow> commandStderr" where
  "Stderr_Write p s = fold stderr_byte p s"

definition Stderr_String :: "commandStderr \<Rightarrow> string" where
  "Stderr_String s = trim_space (ce_line s)"

end
