(* ===== verification/Source_Proofs.thy ===== *)
theory Source_Proofs
  imports Source_Files
begin

text \<open>
  What reading log files gives: the buffered scan is the plain one, the last
  lines of a file are found from its end as well as by streaming it, and a search counts the matches
  from its cursor on and leaves the cursor at the first match it did not count.
\<close>

section \<open>Splitting into lines\<close>

lemma splitLines_step: "newline \<notin> set a \<Longrightarrow> splitLines (a @ newline # rest) = a # splitLines rest"
  by (cases "rest = []") (simp_all add: splitLines_def split_on_prefix Let_def)

lemma splitLines_last: "newline \<notin> set a \<Longrightarrow> a \<noteq> [] \<Longrightarrow> splitLines a = [a]"
  by (simp add: splitLines_def split_on_absent)

lemma splitLines_Nil [simp]: "splitLines [] = []"
  by (simp add: splitLines_def)

lemma first_line_cases:
  obtains "newline \<notin> set data" | a rest where "newline \<notin> set a" "data = a @ newline # rest"
  by (metis split_list_first)

lemma splitLines_append: "splitLines (x @ newline # b) = splitLines (x @ [newline]) @ splitLines b"
proof (induction "length x" arbitrary: x rule: less_induct)
  case less
  show ?case
  proof (cases x rule: first_line_cases)
    case 1
    then show ?thesis by (simp add: splitLines_step)
  next
    case (2 a rest)
    with less [of rest] show ?thesis by (simp add: splitLines_step)
  qed
qed

lemma count_le_lines: "length (filter (\<lambda>c. c = newline) b) \<le> length (splitLines b)"
proof (induction "length b" arbitrary: b rule: less_induct)
  case less
  show ?case
  proof (cases b rule: first_line_cases)
    case 1
    then have "filter (\<lambda>c. c = newline) b = []" by (auto simp: filter_empty_conv)
    then show ?thesis by simp
  next
    case (2 a rest)
    then have "filter (\<lambda>c. c = newline) a = []" by (auto simp: filter_empty_conv)
    with less [of rest] 2 show ?thesis by (simp add: splitLines_step)
  qed
qed

definition last_n :: "nat \<Rightarrow> 'a list \<Rightarrow> 'a list" where
  "last_n n xs = drop (length xs - n) xs"

lemma last_n_append: "n \<le> length ys \<Longrightarrow> last_n n (xs @ ys) = last_n n ys"
  by (simp add: last_n_def)

lemma last_n_last_n: "last_n k (last_n k xs @ ys) = last_n k (xs @ ys)"
proof (cases "length xs \<le> k")
  case False
  then have "xs @ ys = take (length xs - k) xs @ last_n k xs @ ys" "k \<le> length (last_n k xs @ ys)"
    by (simp_all add: last_n_def)
  then show ?thesis by (metis last_n_append)
qed (simp add: last_n_def)

text \<open>The last lines of a text are those of any tail of it that has more line ends than lines asked for.\<close>

lemma last_lines_tail:
  assumes "n < length (filter (\<lambda>c. c = newline) b)"
  shows "last_n n (splitLines (a @ b)) = last_n n (splitLines b)"
proof (cases b rule: first_line_cases)
  case 1
  then have "filter (\<lambda>c. c = newline) b = []" by (auto simp: filter_empty_conv)
  with assms show ?thesis by simp
next
  case (2 x rest)
  then have "filter (\<lambda>c. c = newline) x = []" by (auto simp: filter_empty_conv)
  with assms 2 have "n \<le> length (splitLines rest)" using count_le_lines [of rest] by simp
  then show ?thesis
    using 2 splitLines_append [of "a @ x" rest] last_n_append [of n "splitLines rest" "[x]"]
    by (simp add: splitLines_step last_n_append)
qed

section \<open>The scan\<close>

text \<open>The reference: the lines one after the other, as long as the callback goes on.\<close>

fun deliver :: "(nat \<Rightarrow> string \<Rightarrow> 's \<Rightarrow> bool \<times> 's) \<Rightarrow> string list \<Rightarrow> nat \<Rightarrow> 's \<Rightarrow> nat \<times> 's" where
  "deliver fn [] n s = (n, s)"
| "deliver fn (l # ls) n s =
     (case fn (n + 1) l s of (go, s') \<Rightarrow> if go then deliver fn ls (n + 1) s' else (n + 1, s'))"

definition lines_short :: "string \<Rightarrow> bool" where
  "lines_short text \<longleftrightarrow> (\<forall>l \<in> set (splitLines text). length l < maxFileBytes)"

lemma read_slice_cases:
  assumes "read_slice data = (chunk, e, rest)"
  shows "(e = LineEnd \<and> (\<exists>x. newline \<notin> set x \<and> chunk = x @ [newline] \<and> data = x @ newline # rest)) \<or>
    (e = BufferFull \<and> newline \<notin> set chunk \<and> data = chunk @ rest \<and> chunk \<noteq> []) \<or>
    (e = StreamEnd \<and> newline \<notin> set chunk \<and> data = chunk \<and> rest = [])"
proof -
  define line where "line = takeWhile (\<lambda>c. c \<noteq> newline) (take bufSize data)"
  have nl: "newline \<notin> set line" using set_takeWhileD by (fastforce simp: line_def)
  have R: "read_slice data = (if length line < length (take bufSize data) then (line @ [newline], LineEnd, drop (length line + 1) data)
      else if bufSize \<le> length data then (take bufSize data, BufferFull, drop bufSize data) else (data, StreamEnd, []))"
    by (simp only: read_slice_def Let_def line_def)
  show ?thesis
  proof (cases "length line < length (take bufSize data)")
    case True
    then have "take bufSize data ! length line = newline" unfolding line_def using nth_length_takeWhile by blast
    with True have at: "data ! length line = newline" "length line < length data" by simp_all
    have "line = take (length line) data"
      unfolding line_def by (metis min.absorb_iff1 take_take takeWhile_eq_take linorder_le_cases length_take min.cobounded2 length_takeWhile_le)
    then have "data = line @ newline # drop (length line + 1) data" using id_take_nth_drop [OF at(2)] at(1) by simp
    moreover have "(chunk, e, rest) = (line @ [newline], LineEnd, drop (length line + 1) data)"
      using R True assms by (simp only: if_True)
    ultimately show ?thesis using nl by blast
  next
    case False
    then have all: "line = take bufSize data"
      unfolding line_def by (metis length_takeWhile_le linorder_not_less nat_less_le takeWhile_eq_take take_all_iff)
    show ?thesis
    proof (cases "bufSize \<le> length data")
      case True
      moreover from True have "take bufSize data \<noteq> []" by (auto simp: bufSize_def)
      moreover have "(chunk, e, rest) = (take bufSize data, BufferFull, drop bufSize data)"
        using R False True assms by (simp only: if_True if_False)
      ultimately show ?thesis using nl all by (metis append_take_drop_id prod.inject)
    next
      case short: False
      with all have "line = data" by simp
      moreover have "(chunk, e, rest) = (data, StreamEnd, [])"
        using R False short assms by (simp only: if_False)
      ultimately show ?thesis using nl by blast
    qed
  qed
qed

lemma trim_newline_simps: "newline \<notin> set x \<Longrightarrow> trim_newline (x @ [newline]) = x" "newline \<notin> set x \<Longrightarrow> trim_newline x = x"
  by (simp_all add: trim_newline_def) (metis last_in_set)

text \<open>
  The text cut after each newline: each line with its newline, the last one perhaps without.
\<close>

fun raw_lines :: "string \<Rightarrow> string list" where
  "raw_lines [] = []"
| "raw_lines (c # cs) =
     (if c = newline then [c] # raw_lines cs
      else (case raw_lines cs of [] \<Rightarrow> [[c]] | l # ls \<Rightarrow> (c # l) # ls))"

lemma raw_lines_step: "newline \<notin> set x \<Longrightarrow> raw_lines (x @ newline # rest) = (x @ [newline]) # raw_lines rest"
  by (induction x) auto

lemma raw_lines_last: "newline \<notin> set x \<Longrightarrow> raw_lines x = (if x = [] then [] else [x])"
  by (induction x) auto

lemma raw_lines_hd: "newline \<notin> set x \<Longrightarrow> x \<noteq> [] \<Longrightarrow> \<exists>y ls. raw_lines (x @ rest) = (x @ y) # ls"
proof (induction x)
  case (Cons c x)
  then show ?case by (cases "x = []") (auto split: list.split)
qed simp

lemma concat_raw_lines: "concat (raw_lines text) = text"
  by (induction "text") (auto split: list.split)

lemma trim_raw_lines: "map trim_newline (raw_lines text) = splitLines text"
proof (induction "length text" arbitrary: "text" rule: less_induct)
  case less
  show ?case
  proof (cases "newline \<in> set text")
    case True
    then obtain x rest where x: "text = x @ newline # rest" "newline \<notin> set x" by (meson split_list_first)
    with less [of rest] show ?thesis by (simp add: raw_lines_step splitLines_step trim_newline_simps)
  next
    case False
    then show ?thesis using splitLines_last [OF False] by (simp add: raw_lines_last trim_newline_simps)
  qed
qed

text \<open>
  The reference: the raw lines one after the other, each refused when it is longer than 128 MiB and
  otherwise delivered without its newline, as long as the callback goes on; at the end of the text a
  failure of the stream, if there is one.
\<close>

fun scan_reference ::
  "(nat \<Rightarrow> string \<Rightarrow> 's \<Rightarrow> bool \<times> 's) \<Rightarrow> stream_error option \<Rightarrow> string list \<Rightarrow> nat \<Rightarrow> 's \<Rightarrow> scan_error + nat \<times> 's" where
  "scan_reference fn err [] n s = (case err of None \<Rightarrow> Inr (n, s) | Some x \<Rightarrow> Inl (ReadFailed x))"
| "scan_reference fn err (raw # raws) n s =
     (if length raw > 128 * 2 ^ 20 then Inl LineTooLong
      else (case fn (n + 1) (trim_newline raw) s of (go, s') \<Rightarrow>
              if go then scan_reference fn err raws (n + 1) s' else Inr (n + 1, s')))"

text \<open>
  The buffered scan, with a partial line kept from full buffers, is the reference on the lines of the
  text.
\<close>

lemma scan_loop_reference:
  assumes "newline \<notin> set line" "length line \<le> maxFileBytes"
  shows "scan_loop fn err data line n s = scan_reference fn err (raw_lines (line @ data)) n s"
  using assms
proof (induction "length data" arbitrary: data line n s rule: less_induct)
  case less
  have M: "maxFileBytes = 128 * 2 ^ 20" by (rule maxFileBytes_def)
  obtain chunk e rest where r: "read_slice data = (chunk, e, rest)" by (metis prod_cases3)
  consider (line) x where "e = LineEnd" "newline \<notin> set x" "chunk = x @ [newline]" "data = x @ newline # rest"
    | (full) "e = BufferFull" "newline \<notin> set chunk" "data = chunk @ rest" "chunk \<noteq> []"
    | (eof) "e = StreamEnd" "newline \<notin> set chunk" "data = chunk" "rest = []"
    using read_slice_cases [OF r] by blast
  then show ?case
  proof cases
    case line
    have raw: "raw_lines (line @ data) = (line @ chunk) # raw_lines rest"
      using raw_lines_step [of "line @ x" rest] line less.prems(1) by simp
    have next_line: "scan_loop fn err rest [] m t = scan_reference fn err (raw_lines rest) m t" for m t
      using less.hyps [of rest "[]" m t] line by simp
    show ?thesis unfolding raw using r line(1,3)
      by (subst scan_loop.simps) (auto simp: next_line M split: prod.splits)
  next
    case full
    obtain y ls where raw: "raw_lines (line @ data) = ((line @ chunk) @ y) # ls"
      using raw_lines_hd [of "line @ chunk" rest] full less.prems(1) by auto
    show ?thesis
    proof (cases "length line + length chunk > maxFileBytes")
      case True
      then show ?thesis unfolding raw using r by (subst scan_loop.simps) (simp add: M)
    next
      case False
      then have "scan_loop fn err rest (line @ chunk) n s = scan_reference fn err (raw_lines ((line @ chunk) @ rest)) n s"
        using less.prems full by (intro less.hyps) auto
      then show ?thesis using r full False by (subst scan_loop.simps) simp
    qed
  next
    case eof
    then have raw: "raw_lines (line @ data) = (if line @ chunk = [] then [] else [line @ chunk])"
      using less.prems(1) raw_lines_last [of "line @ chunk"] by simp
    show ?thesis unfolding raw using r eof(1) less.prems(2)
      by (subst scan_loop.simps) (auto simp: M split: prod.splits option.splits)
  qed
qed

lemma scan_reference_deliver:
  "\<forall>raw \<in> set raws. length (trim_newline raw) < maxFileBytes \<Longrightarrow>
   scan_reference fn None raws n s = Inr (deliver fn (map trim_newline raws) n s)"
  by (induction raws arbitrary: n s) (auto simp: trim_newline_def maxFileBytes_def split: prod.split if_splits)

lemma scan_loop_deliver:
  assumes "lines_short text"
  shows "scan_loop fn None text [] n s = Inr (deliver fn (splitLines text) n s)"
proof -
  have "\<forall>raw \<in> set (raw_lines text). length (trim_newline raw) < maxFileBytes"
    using assms by (auto simp: lines_short_def trim_raw_lines [symmetric])
  from scan_reference_deliver [OF this] show ?thesis
    using scan_loop_reference [of "[]" fn None "text" n s] by (simp add: trim_raw_lines)
qed

text \<open>
  C33. The buffered scan is the plain one, on every stream: whatever the callback does, scanning a text
  through a 64 KiB buffer, with long lines put together from several full buffers, gives the callback
  exactly the lines of the text, numbered from 1, until it asks to stop. A line of more than 128 MiB,
  its newline included, ends the scan with that error before it is delivered, and a stream that fails
  is reported after the lines read before it. The scan always ends; without an error its result is the
  number of lines delivered. The lines are the text cut after each newline, without the newlines.
\<close>

theorem scanLines_reference:
  "scanLines fn (text, err) s = scan_reference fn err (raw_lines text) 0 s \<and>
   concat (raw_lines text) = text \<and> map trim_newline (raw_lines text) = splitLines text"
  using scan_loop_reference [of "[]" fn err "text" 0 s] by (simp add: scanLines_def concat_raw_lines trim_raw_lines)

section \<open>The last lines\<close>

lemma deliver_keep:
  assumes "0 < k" "length acc \<le> k"
  shows "deliver (\<lambda>_ line ls. (True, keep_last k line ls)) xs n acc = (n + length xs, last_n k (acc @ xs))"
  using assms(2)
proof (induction xs arbitrary: n acc)
  case Nil
  then show ?case by (simp add: last_n_def)
next
  case (Cons x xs)
  have k: "keep_last k x acc = last_n k (acc @ [x])"
    using assms(1) Cons.prems by (cases acc) (auto simp: keep_last_def last_n_def Suc_diff_le)
  then have "length (keep_last k x acc) \<le> k" by (simp add: last_n_def)
  moreover have "last_n k (keep_last k x acc @ xs) = last_n k (acc @ x # xs)"
    using last_n_last_n [of k "acc @ [x]" xs] by (simp add: k)
  ultimately show ?case using Cons.IH by simp
qed

lemma lastLines_ok:
  "lines_short text \<Longrightarrow> 0 < n \<Longrightarrow> lastLines (text, None) n = Inr (last_n n (splitLines text), length (splitLines text))"
  by (simp add: lastLines_def scanLines_def scan_loop_deliver deliver_keep)

lemma tail_loop_ok:
  assumes "pos \<le> length (fo_Data file)" "length (fo_Data file) \<le> maxFileBytes"
    and "newlines = length (filter (\<lambda>c. c = newline) (drop pos (fo_Data file)))"
  shows "\<exists>p. tail_loop file n pos (drop pos (fo_Data file)) newlines = Inr (drop p (fo_Data file)) \<and>
    (p = 0 \<or> n < length (filter (\<lambda>c. c = newline) (drop p (fo_Data file))))"
  using assms
proof (induction pos arbitrary: newlines rule: less_induct)
  case (less pos)
  let ?D = "fo_Data file"
  show ?case
  proof (cases "0 < pos \<and> newlines \<le> n")
    case False
    with less.prems(3) show ?thesis by (subst tail_loop.simps) auto
  next
    case True
    define len where "len = min pos bufSize"
    define pos' where "pos' = pos - len"
    have l: "0 < len" "len \<le> pos" "pos' < pos" "pos' + len = pos" using True by (auto simp: len_def pos'_def bufSize_def)
    define block where "block = take len (drop pos' ?D)"
    have b: "block @ drop pos ?D = drop pos' ?D"
      using l(4) by (metis append_take_drop_id block_def drop_drop add.commute)
    have r: "ReadAt file len pos' = Inr block" using l(4) less.prems(1) by (simp add: ReadAt_def block_def)
    have "length (block @ drop pos ?D) \<le> maxFileBytes" unfolding b using less.prems(2) by simp
    then have le: "\<not> maxFileBytes < length (drop pos ?D) + length block" by simp
    have c: "newlines + length (filter (\<lambda>c. c = newline) block) = length (filter (\<lambda>c. c = newline) (drop pos' ?D))"
      using less.prems(3) by (metis add.commute b filter_append length_append)
    have step: "tail_loop file n pos (drop pos ?D) newlines =
        tail_loop file n pos' (drop pos' ?D) (length (filter (\<lambda>c. c = newline) (drop pos' ?D)))"
      by (subst tail_loop.simps)
        (simp only: True if_True Let_def len_def [symmetric] pos'_def [symmetric] r sum.case le if_False b c simp_thms)
    show ?thesis unfolding step using l less.prems by (intro less.IH) auto
  qed
qed

lemma readTail_ok:
  assumes "length (fo_Data file) \<le> maxFileBytes"
  obtains data where "readTail file (length (fo_Data file)) n = Inr data" "last_n n (splitLines data) = last_n n (splitLines (fo_Data file))"
proof -
  obtain p where p: "readTail file (length (fo_Data file)) n = Inr (drop p (fo_Data file))"
      "p = 0 \<or> n < length (filter (\<lambda>c. c = newline) (drop p (fo_Data file)))"
    using tail_loop_ok [of "length (fo_Data file)" "file" 0 n] assms by (auto simp: readTail_def)
  then have "last_n n (splitLines (drop p (fo_Data file))) = last_n n (splitLines (fo_Data file))"
    by (metis append_take_drop_id drop0 last_lines_tail)
  with p(1) that show thesis by blast
qed

text \<open>
  A file gives its lines, whichever way they are read: without \<^verbatim>\<open>--tail\<close> all lines of its text, with
  \<^verbatim>\<open>--tail n\<close> the last \<open>n\<close> of them, the same for a plain file, which is read backwards in blocks, and for a
  compressed one, which is streamed. The file counts as read from then on, under its canonical name.
\<close>

lemma readFile_lines:
  assumes "Files_Open os f path = Inr file" "fo_StatErr file = None" "fo_Regular file"
    and "os_EvalSymlinks os path = Inr canonical" "canonical \<notin> seen"
    and "decompress os (file_stream file) = Inr ((text, None), compressed)"
    and "lines_short text" "length text \<le> maxFileBytes" "fo_Size file = length (fo_Data file)"
  shows "\<exists>src. readFile os f path seen = Inr (Some src, insert canonical seen) \<and> s_Name src = ''file:'' @ path \<and>
    s_Lines src = (if f_Tail f > 0 then last_n (nat (f_Tail f)) (splitLines text) else splitLines text)"
proof -
  have plain: "fo_Data file = text" if "\<not> compressed"
    using assms(6) that by (auto simp: decompress_def file_stream_def split: if_splits option.splits)
  define t where "t = nat (f_Tail f)"
  have "\<exists>lines. file_lines f file (text, None) compressed = Inr lines \<and>
      (if f_Tail f > 0 then last_n t lines = last_n t (splitLines text) else lines = splitLines text)"
  proof (cases "f_Tail f > 0")
    case True
    then have "0 < t" by (simp add: t_def)
    show ?thesis
    proof (cases compressed)
      case c: True
      then show ?thesis using True lastLines_ok [OF assms(7) \<open>0 < t\<close>]
        by (simp add: file_lines_def t_def last_n_def)
    next
      case False
      obtain data where "readTail file (length text) t = Inr data" "last_n t (splitLines data) = last_n t (splitLines text)"
        using readTail_ok [of "file" t] plain [OF False] assms(8) by metis
      with True False plain [OF False] assms(9) show ?thesis by (simp add: file_lines_def t_def)
    qed
  next
    case False
    with assms(8) show ?thesis by (simp add: file_lines_def read_all_def)
  qed
  then obtain lines where l: "file_lines f file (text, None) compressed = Inr lines"
      "if f_Tail f > 0 then last_n t lines = last_n t (splitLines text) else lines = splitLines text" by blast
  have "readFile os f path seen = Inr (Some (file_source f path lines), insert canonical seen)"
    using assms(1-6) l(1) by (simp add: readFile_def)
  moreover have "s_Lines (file_source f path lines) = (if f_Tail f > 0 then last_n t lines else lines)"
    by (auto simp: file_source_def last_n_def t_def)
  ultimately show ?thesis using l(2) by (auto simp: file_source_def t_def)
qed

definition sample_file :: file_obj where
  "sample_file = \<lparr>fo_Regular = True, fo_Size = 4, fo_ModTime = 0, fo_Data = [CHR ''a'', newline, CHR ''b'', newline],
     fo_ReadErr = None, fo_StatErr = None\<rparr>"

definition sample_os :: os_files where
  "sample_os = \<lparr>os_openIn = (\<lambda>_ _. Inr sample_file), os_EvalSymlinks = Inr, os_Glob = (\<lambda>_. None), os_gunzip = (\<lambda>_. None)\<rparr>"

definition sample_files :: files where
  "sample_files = \<lparr>f_Allowed = [''/l''], f_Paths = [], f_Tail = 1, f_ModifiedAfter = 0\<rparr>"

lemma sample_open: "Files_Open sample_os sample_files ''/l/a'' = Inr sample_file"
  by (simp add: Files_Open_def sample_os_def sample_files_def open_target_def IsAbs_def Clean_def elems_def path_of_def
      sep_def under_def Rel_def dot_def dotdot_def has_prefix_def)

lemma sample_text:
  "splitLines (fo_Data sample_file) = [''a'', ''b'']" "lines_short (fo_Data sample_file)" "length (fo_Data sample_file) \<le> maxFileBytes"
  "fo_Size sample_file = length (fo_Data sample_file)" "fo_StatErr sample_file = None" "fo_Regular sample_file"
proof -
  show s: "splitLines (fo_Data sample_file) = [''a'', ''b'']" by (simp add: sample_file_def splitLines_def newline_def)
  show "lines_short (fo_Data sample_file)" by (simp add: lines_short_def s maxFileBytes_def)
qed (simp_all add: sample_file_def maxFileBytes_def)

lemma sample_plain: "decompress sample_os (file_stream sample_file) = Inr ((fo_Data sample_file, None), False)"
  by (simp add: decompress_def file_stream_def sample_file_def)

lemma readFile_lines_witness:
  "\<exists>src. readFile sample_os sample_files ''/l/a'' {} = Inr (Some src, {''/l/a''}) \<and> s_Lines src = [''b'']"
  using readFile_lines [OF sample_open sample_text(5,6) _ _ sample_plain sample_text(2-4), of "''/l/a''" "{}"]
  by (simp add: sample_os_def sample_files_def sample_text(1) last_n_def) blast

section \<open>Searching\<close>

text \<open>The lines of one file that count as matches, with their numbers.\<close>

fun hits :: "(string \<Rightarrow> bool) \<Rightarrow> nat \<Rightarrow> string list \<Rightarrow> nat \<Rightarrow> (nat \<times> string) list" where
  "hits re first [] n = []"
| "hits re first (l # ls) n = (if first \<le> n + 1 \<and> re l then [(n + 1, l)] else []) @ hits re first ls (n + 1)"

lemma hits_above: "(h, l) \<in> set (hits re first ls n) \<Longrightarrow> n < h \<and> first \<le> h \<and> h \<le> n + length ls"
  by (induction ls arbitrary: n) (fastforce split: if_splits)+

lemma hits_from: "hits re first ls n = xs @ (h, l) # ys \<Longrightarrow> hits re h ls n = (h, l) # ys"
proof (induction ls arbitrary: n xs)
  case (Cons a ls)
  show ?case
  proof (cases "first \<le> n + 1 \<and> re a \<and> xs = []")
    case True
    with Cons.prems have eq: "h = n + 1" "l = a" "ys = hits re first ls (n + 1)" by auto
    have "hits re first ls m = hits re h ls m" if "first \<le> m + 1" "h \<le> m + 1" for m
      using that by (induction ls arbitrary: m) auto
    with True eq show ?thesis by auto
  next
    case False
    with Cons.prems obtain xs' where rest: "hits re first ls (n + 1) = xs' @ (h, l) # ys"
      by (cases xs) (auto split: if_splits)
    then have "n + 1 < h" using hits_above [of h l re first ls "n + 1"] by simp
    with Cons.IH [OF rest] show ?thesis by simp
  qed
qed simp

definition found :: "string \<Rightarrow> (string \<Rightarrow> bool) \<Rightarrow> (nat \<times> string) list \<Rightarrow> search_state \<Rightarrow> bool" where
  "found path re hs s \<longleftrightarrow> (\<forall>(h, l) \<in> set hs. search_text path re h l \<in> set (ss_Lines s))"

lemma emit_simps [simp]:
  "ss_Lines (emit path re n l s) = ss_Lines s @ [search_text path re n l]"
  "ss_Next (emit path re n l s) = ss_Next s" "ss_matches (emit path re n l s) = ss_matches s"
  "ss_after (emit path re n l s) = ss_after s"
  by (simp_all add: emit_def)

lemma emits_simps:
  "set (ss_Lines s) \<subseteq> set (ss_Lines (fold (\<lambda>(k, l). emit path re k l) xs s))"
  "ss_Next (fold (\<lambda>(k, l). emit path re k l) xs s) = ss_Next s"
  by (induction xs arbitrary: s) (auto simp: subset_iff)

lemma deliver_stopped:
  assumes "ss_Next s \<noteq> None" "deliver (search_line q re path i first) ls n s = (m, s')"
  shows "ss_Next s' = ss_Next s \<and> set (ss_Lines s) \<subseteq> set (ss_Lines s')"
  using assms
proof (induction ls arbitrary: n s)
  case (Cons l ls)
  show ?case
  proof (cases "ss_after s = 0")
    case True
    with Cons.prems show ?thesis by (auto simp: search_line_def)
  next
    case False
    define s1 where "s1 = (emit path re (n + 1) l s)\<lparr>ss_after := ss_after s - 1\<rparr>"
    have "search_line q re path i first (n + 1) l s = (True, s1)" using Cons.prems(1) False by (auto simp: search_line_def s1_def)
    with Cons.prems(2) have "deliver (search_line q re path i first) ls (n + 1) s1 = (m, s')" by simp
    with Cons.IH [of s1 "n + 1"] Cons.prems(1) show ?thesis by (auto simp: s1_def)
  qed
qed simp

text \<open>One step of the callback while the page is not full.\<close>

lemma search_line_open:
  assumes "ss_Next s = None" "ss_matches s \<le> fq_Max q" "search_line q re path i first n l s = (go, s')"
  shows "set (ss_Lines s) \<subseteq> set (ss_Lines s')"
    and "first \<le> n \<and> re l \<and> ss_matches s = fq_Max q \<Longrightarrow> ss_Next s' = Some (i, n)"
    and "first \<le> n \<and> re l \<and> ss_matches s < fq_Max q \<Longrightarrow>
      go \<and> ss_Next s' = None \<and> ss_matches s' = ss_matches s + 1 \<and> search_text path re n l \<in> set (ss_Lines s')"
    and "\<not> (first \<le> n \<and> re l) \<Longrightarrow> go \<and> ss_Next s' = None \<and> ss_matches s' = ss_matches s"
  using assms emits_simps [where s = s and path = path and re = re and xs = "ss_before s"]
  by (auto simp: search_line_def Let_def split: if_splits)

lemma deliver_search:
  assumes "ss_Next s = None" "ss_matches s \<le> fq_Max q" "deliver (search_line q re path i first) ls n s = (m, s')"
  defines "k \<equiv> nat (fq_Max q - ss_matches s)" and "H \<equiv> hits re first ls n"
  shows "set (ss_Lines s) \<subseteq> set (ss_Lines s') \<and> found path re (take k H) s' \<and>
    (if length H \<le> k then ss_Next s' = None \<and> ss_matches s' = ss_matches s + int (length H)
     else ss_Next s' = Some (i, fst (H ! k)))"
  using assms(1-3) unfolding k_def H_def
proof (induction ls arbitrary: n s)
  case Nil
  then show ?case by (simp add: found_def)
next
  case (Cons l ls)
  obtain go s1 where st: "search_line q re path i first (n + 1) l s = (go, s1)" by fastforce
  note o = search_line_open [OF Cons.prems(1,2) st]
  consider (full) "first \<le> n + 1 \<and> re l \<and> ss_matches s = fq_Max q" | (hit) "first \<le> n + 1 \<and> re l \<and> ss_matches s < fq_Max q"
    | (miss) "\<not> (first \<le> n + 1 \<and> re l)" using Cons.prems(2) by fastforce
  then show ?case
  proof cases
    case full
    then have "ss_Next s1 = Some (i, n + 1)" using o(2) by blast
    moreover have "ss_Next s' = ss_Next s1 \<and> set (ss_Lines s1) \<subseteq> set (ss_Lines s')"
    proof (cases go)
      case True
      with Cons.prems(3) st have "deliver (search_line q re path i first) ls (n + 1) s1 = (m, s')" by simp
      with deliver_stopped calculation show ?thesis by blast
    qed (use Cons.prems(3) st in auto)
    ultimately show ?thesis using full o(1) by (auto simp: found_def)
  next
    case hit
    then have h: "go" "ss_Next s1 = None" "ss_matches s1 = ss_matches s + 1" "search_text path re (n + 1) l \<in> set (ss_Lines s1)"
      using o(3) by blast+
    with Cons.prems(3) st have d: "deliver (search_line q re path i first) ls (n + 1) s1 = (m, s')" by simp
    have "nat (fq_Max q - ss_matches s) = Suc (nat (fq_Max q - ss_matches s1))" using hit h(3) by linarith
    with Cons.IH [OF h(2) _ d] hit h o(1) show ?thesis by (auto simp: found_def)
  next
    case miss
    then have h: "go" "ss_Next s1 = None" "ss_matches s1 = ss_matches s" using o(4) by blast+
    with Cons.prems(3) st have d: "deliver (search_line q re path i first) ls (n + 1) s1 = (m, s')" by simp
    from miss have "hits re first (l # ls) n = hits re first ls (n + 1)" by auto
    with Cons.IH [OF h(2) _ d] Cons.prems(2) h(3) o(1) show ?thesis by auto
  qed
qed

text \<open>All matches of the files from one on, in order: file index, path, line number and line.\<close>

fun all_hits ::
  "(string \<Rightarrow> bool) \<Rightarrow> (string \<Rightarrow> string list) \<Rightarrow> string list \<Rightarrow> nat \<Rightarrow> nat \<Rightarrow> (nat \<times> string \<times> nat \<times> string) list" where
  "all_hits re lines [] i first = []"
| "all_hits re lines (p # ps) i first =
     map (\<lambda>(h, l). (i, p, h, l)) (hits re first (lines p) 0) @ all_hits re lines ps (Suc i) 1"

lemma all_hits_from:
  "all_hits re lines ps i first = xs @ (j, p, h, l) # ys \<Longrightarrow>
   i \<le> j \<and> j - i < length ps \<and> ps ! (j - i) = p \<and> 0 < h \<and> h \<le> length (lines p) \<and>
   all_hits re lines (drop (j - i) ps) j h = (j, p, h, l) # ys"
proof (induction ps arbitrary: i first xs)
  case (Cons a ps)
  let ?m = "map (\<lambda>(h, l). (i, a, h, l)) (hits re first (lines a) 0)"
  from Cons.prems have eq: "?m @ all_hits re lines ps (Suc i) 1 = xs @ (j, p, h, l) # ys" by simp
  then consider (here) us where "?m = xs @ (j, p, h, l) # us" "ys = us @ all_hits re lines ps (Suc i) 1"
    | (there) us where "all_hits re lines ps (Suc i) 1 = us @ (j, p, h, l) # ys"
    by (auto simp: append_eq_append_conv2 append_eq_Cons_conv Cons_eq_append_conv)
  then show ?case
  proof cases
    case here
    then have j: "j = i" "p = a" by (auto simp: map_eq_append_conv)
    from here(1) obtain vs ws where v: "hits re first (lines a) 0 = vs @ (h, l) # ws" "us = map (\<lambda>(h, l). (i, a, h, l)) ws"
      by (auto simp: map_eq_append_conv map_eq_Cons_conv)
    then have "0 < h \<and> h \<le> length (lines a)" using hits_above [of h l re first "lines a" 0] by simp
    with hits_from [OF v(1)] v(2) here(2) j show ?thesis by simp
  next
    case there
    from Cons.IH [OF there] have "Suc i \<le> j" "j - Suc i < length ps" "ps ! (j - Suc i) = p" "0 < h" "h \<le> length (lines p)"
      "all_hits re lines (drop (j - Suc i) ps) j h = (j, p, h, l) # ys" by auto
    moreover from this have "j - i = Suc (j - Suc i)" by simp
    ultimately show ?thesis by simp
  qed
qed simp

definition readable :: "os_files \<Rightarrow> files \<Rightarrow> (string \<Rightarrow> string) \<Rightarrow> string \<Rightarrow> bool" where
  "readable os f content path \<longleftrightarrow>
     (\<exists>c. Files_open os f path = Inr ((content path, None), c)) \<and> lines_short (content path) \<and> length (splitLines (content path)) < 2 ^ 62"

definition all_found :: "(string \<Rightarrow> bool) \<Rightarrow> (nat \<times> string \<times> nat \<times> string) list \<Rightarrow> string list \<Rightarrow> bool" where
  "all_found re hs lines \<longleftrightarrow> (\<forall>(i, path, h, l) \<in> set hs. search_text path re h l \<in> set lines)"

definition next_of :: "(nat \<times> string \<times> nat \<times> string) list \<Rightarrow> nat \<Rightarrow> (nat \<times> nat) option" where
  "next_of hs k = (if length hs \<le> k then None else (case hs ! k of (j, _, h, _) \<Rightarrow> Some (j, h)))"

lemma search_files_ok:
  fixes re :: "string \<Rightarrow> bool" and i first :: nat
  assumes "\<forall>path \<in> set paths. readable os f content path" "ss_Next s = None" "ss_matches s \<le> fq_Max q"
  defines "k \<equiv> nat (fq_Max q - ss_matches s)" and "H \<equiv> all_hits re (\<lambda>p. splitLines (content p)) paths i first"
  shows "\<exists>s'. search_files os f q re paths i first s = Inr s' \<and> set (ss_Lines s) \<subseteq> set (ss_Lines s') \<and>
    all_found re (take k H) (ss_Lines s') \<and> ss_Next s' = next_of H k"
  using assms(1-3) unfolding k_def H_def
proof (induction paths arbitrary: i first s)
  case Nil
  then show ?case by (simp add: all_found_def next_of_def)
next
  case (Cons p ps)
  define s0 where "s0 = s\<lparr>ss_before := [], ss_after := 0\<rparr>"
  obtain m s1 where d: "deliver (search_line q re p i first) (splitLines (content p)) 0 s0 = (m, s1)" by fastforce
  from Cons.prems(1) obtain c where "Files_open os f p = Inr ((content p, None), c)" "lines_short (content p)"
    by (auto simp: readable_def)
  then have scan: "Files_scan os f p (search_line q re p i first) s0 = Inr (m, s1)"
    using d by (simp add: Files_scan_def scanLines_def scan_loop_deliver)
  let ?h = "hits re first (splitLines (content p)) 0" and ?k = "nat (fq_Max q - ss_matches s)"
  let ?R = "all_hits re (\<lambda>p. splitLines (content p)) ps (Suc i) 1"
  have s0: "ss_Next s0 = None" "ss_matches s0 = ss_matches s" "ss_Lines s0 = ss_Lines s" "ss_matches s0 \<le> fq_Max q"
    using Cons.prems(2,3) by (simp_all add: s0_def)
  note o = deliver_search [OF s0(1,4) d, unfolded s0(2,3)]
  have found_p: "all_found re (map (\<lambda>(h, l). (i, p, h, l)) (take ?k ?h)) (ss_Lines s1)"
    using o by (auto simp: found_def all_found_def)
  show ?case
  proof (cases "length ?h \<le> ?k")
    case False
    with o have nx: "ss_Next s1 = Some (i, fst (?h ! ?k))" by simp
    have "next_of (map (\<lambda>(h, l). (i, p, h, l)) ?h @ ?R) ?k = Some (i, fst (?h ! ?k))"
      using False by (simp add: next_of_def nth_append split: prod.splits)
    with scan nx o found_p False show ?thesis by (simp add: take_map flip: s0_def)
  next
    case True
    with o have nx: "ss_Next s1 = None" "ss_matches s1 = ss_matches s + int (length ?h)" by simp_all
    have k1: "nat (fq_Max q - ss_matches s1) = ?k - length ?h" "ss_matches s1 \<le> fq_Max q" using nx(2) True Cons.prems(3) by auto
    with Cons.IH [of s1 "Suc i" 1] Cons.prems(1) nx(1) obtain s' where s': "search_files os f q re ps (Suc i) 1 s1 = Inr s'"
        "set (ss_Lines s1) \<subseteq> set (ss_Lines s')" "all_found re (take (?k - length ?h) ?R) (ss_Lines s')" "ss_Next s' = next_of ?R (?k - length ?h)"
      by auto
    have "next_of (xs @ ys) n = next_of ys (n - length xs)" if "length xs \<le> n" for xs ys n
      using that by (auto simp: next_of_def nth_append)
    then have "next_of (map (\<lambda>(h, l). (i, p, h, l)) ?h @ ?R) ?k = next_of ?R (?k - length ?h)"
      using True by simp
    moreover have "all_found re (take ?k (map (\<lambda>(h, l). (i, p, h, l)) ?h @ ?R)) (ss_Lines s')"
      using found_p s'(2,3) True by (fastforce simp: all_found_def)
    ultimately show ?thesis using scan nx(1) s' o by (auto simp flip: s0_def)
  qed
qed

lemma Atoi_show: "n < 2 ^ 63 \<Longrightarrow> Atoi (show_nat n) = Some (int n)"
proof -
  assume n: "n < 2 ^ 63"
  obtain c cs where s: "show_nat n = c # cs" by (meson neq_Nil_conv show_nat_ne)
  with show_nat_digits [of n] have "is_digit c" by simp
  then have "hd (show_nat n) \<noteq> CHR ''-''" "hd (show_nat n) \<noteq> CHR ''+''" by (auto simp: is_digit_def s)
  with n show ?thesis by (simp add: Atoi_def)
qed

lemma parse_show_cursor:
  assumes "j < count" "0 < h" "h < 2 ^ 63" "j < 2 ^ 63"
  shows "parse_cursor count (show_cursor (Some (j, h))) = Some (j, h)"
proof -
  have "CHR '':'' \<notin> set (show_nat j)"
    using show_nat_digits [of j] by (auto simp: list_all_iff is_digit_def)
  then have "cut_at (CHR '':'') (show_nat j @ CHR '':'' # show_nat h) = (show_nat j, show_nat h, True)" by (rule cut_at_append)
  with assms show ?thesis by (simp add: parse_cursor_def show_cursor_def Atoi_show)
qed

text \<open>
  A search on the host counts and shows the matches from its cursor on: the first \<^verbatim>\<open>Max\<close> of them are
  among the lines of the page, and the next cursor is empty exactly when there are no more. Otherwise it
  is accepted by the next search, whose matches are exactly those left over, so that following the
  cursors shows every match.
\<close>

lemma Files_Search_complete:
  assumes "compile pat = Some re" and "0 \<le> fq_Before q" "fq_Before q \<le> 50" "0 \<le> fq_After q" "fq_After q \<le> 50"
    and "1 \<le> fq_Max q" "fq_Max q \<le> 200" "length (fq_Paths q) \<le> 200"
    and "parse_cursor (length (fq_Paths q)) (fq_Cursor q) = Some (i, first)"
    and "\<forall>path \<in> set (fq_Paths q). readable os f content path"
  defines "lines \<equiv> (\<lambda>p. splitLines (content p))"
  defines "H \<equiv> all_hits re lines (drop i (fq_Paths q)) i first"
  shows "\<exists>shown cursor. Files_Search os compile f pat q = Inr (shown, cursor) \<and>
    all_found re (take (nat (fq_Max q)) H) shown \<and>
    (if length H \<le> nat (fq_Max q) then cursor = ''''
     else \<exists>j h. parse_cursor (length (fq_Paths q)) cursor = Some (j, h) \<and>
                all_hits re lines (drop j (fq_Paths q)) j h = drop (nat (fq_Max q)) H)"
proof -
  define k where "k = nat (fq_Max q)"
  define s where "s = \<lparr>ss_Lines = [], ss_Next = None, ss_matches = 0, ss_before = [], ss_after = 0\<rparr>"
  have "\<forall>path \<in> set (drop i (fq_Paths q)). readable os f content path" using assms(10) by (meson in_set_dropD)
  then obtain s' where s': "search_files os f q re (drop i (fq_Paths q)) i first s = Inr s'"
      "all_found re (take k H) (ss_Lines s')" "ss_Next s' = next_of H k"
    using search_files_ok [of "drop i (fq_Paths q)" os f content s q re i first] assms(6) by (auto simp: s_def H_def lines_def k_def)
  have run: "Files_Search os compile f pat q = Inr (ss_Lines s', show_cursor (next_of H k))"
    using assms(1-9) s'(1,3) by (simp add: Files_Search_def flip: s_def)
  show ?thesis
  proof (cases "length H \<le> k")
    case True
    with run s'(2) show ?thesis by (simp add: next_of_def show_cursor_def k_def)
  next
    case False
    obtain j p h l where x: "H ! k = (j, p, h, l)" by (metis prod_cases4)
    with False have "H = take k H @ (j, p, h, l) # drop (Suc k) H" "drop k H = (j, p, h, l) # drop (Suc k) H"
      by (metis id_take_nth_drop linorder_not_le, metis Cons_nth_drop_Suc linorder_not_le)
    with all_hits_from [of re lines "drop i (fq_Paths q)" i first "take k H" j p h l "drop (Suc k) H"]
    have a: "i \<le> j" "j - i < length (drop i (fq_Paths q))" "drop i (fq_Paths q) ! (j - i) = p" "0 < h" "h \<le> length (lines p)"
        "all_hits re lines (drop (j - i) (drop i (fq_Paths q))) j h = drop k H"
      by (metis H_def)+
    have "p \<in> set (fq_Paths q)" using a(2,3) by (metis in_set_dropD nth_mem)
    with assms(10) have "length (lines p) < 2 ^ 62" by (auto simp: readable_def lines_def)
    with a assms(8) have c: "parse_cursor (length (fq_Paths q)) (show_cursor (Some (j, h))) = Some (j, h)"
      by (intro parse_show_cursor) auto
    have "next_of H k = Some (j, h)" using False x by (simp add: next_of_def)
    with run s'(2) False c a(1,6) show ?thesis by (auto simp: k_def)
  qed
qed

lemma Files_Search_complete_witness:
  "\<exists>shown cursor. Files_Search sample_os (\<lambda>_. Some (\<lambda>_. True)) sample_files ''x''
     \<lparr>fq_Paths = [''/l/a''], fq_Before = 0, fq_After = 0, fq_Max = 1, fq_Cursor = ''''\<rparr> = Inr (shown, cursor) \<and>
   all_found (\<lambda>_. True) [(0, ''/l/a'', 1, ''a'')] shown \<and> cursor \<noteq> ''''"
proof -
  let ?q = "\<lparr>fq_Paths = [''/l/a''], fq_Before = 0, fq_After = 0, fq_Max = 1, fq_Cursor = ''''\<rparr>"
  have o: "Files_open sample_os sample_files ''/l/a'' = Inr ((fo_Data sample_file, None), False)"
    by (simp add: Files_open_def sample_open sample_text sample_plain)
  have r: "readable sample_os sample_files (\<lambda>_. fo_Data sample_file) ''/l/a''"
    by (auto simp: readable_def o sample_text)
  have H: "all_hits (\<lambda>_. True) (\<lambda>p. splitLines (fo_Data sample_file)) (drop 0 (fq_Paths ?q)) 0 1 = [(0, ''/l/a'', 1, ''a''), (0, ''/l/a'', 2, ''b'')]"
    by (simp add: sample_text)
  have "parse_cursor 1 '''' = Some (0, 1)" by (simp add: parse_cursor_def)
  moreover have "\<exists>shown cursor. Files_Search sample_os (\<lambda>_. Some (\<lambda>_. True)) sample_files ''x'' ?q = Inr (shown, cursor) \<and>
      all_found (\<lambda>_. True) [(0, ''/l/a'', 1, ''a'')] shown \<and>
      (\<exists>j h. parse_cursor 1 cursor = Some (j, h) \<and> all_hits (\<lambda>_. True) (\<lambda>p. splitLines (fo_Data sample_file)) (drop j [''/l/a'']) j h = [(0, ''/l/a'', 2, ''b'')])"
    using Files_Search_complete [of "\<lambda>_. Some (\<lambda>_. True)" "''x''" "\<lambda>_. True" ?q 0 1 sample_os sample_files "\<lambda>_. fo_Data sample_file", unfolded H] r
    by (simp add: parse_cursor_def)
  ultimately show ?thesis by (fastforce simp: sample_text)
qed

end
