(* ===== verification/Source_Journal.thy ===== *)
theory Source_Journal
  imports Source_Files Encoding "HOL-Library.Char_ord" "HOL-Library.List_Lexorder"
begin

text \<open>
  Journal sources (\<^verbatim>\<open>internal/source/journal.go\<close>): finding the containers a name stands for, and reading the
  entries of a unit or container with \<^verbatim>\<open>journalctl\<close>. Running a command is a parameter: what it writes and
  whether it fails, for a path and arguments; so is whether a file exists.
\<close>

record command_output =
  co_stdout :: string
  co_stderr :: string
  co_error :: "string option"

record journal_env =
  je_exists :: "string \<Rightarrow> bool"  \<comment> \<open>\<^verbatim>\<open>os.Stat\<close> succeeds\<close>
  je_missing :: "string \<Rightarrow> bool"  \<comment> \<open>\<^verbatim>\<open>os.Stat\<close> fails with \<^verbatim>\<open>ErrNotExist\<close>\<close>
  je_run :: "string \<Rightarrow> string list \<Rightarrow> command_output"

datatype journal_error =
    JE_Name
  | JE_Kind
  | JE_Binary string
  | JE_Command string string "string list"  \<comment> \<open>the failure, the first line of the error output, the lines written\<close>
  | JE_NoContainers
  | JE_UnknownContainer string "string list"

definition BinaryPath :: "journal_env \<Rightarrow> string \<Rightarrow> journal_error + string" where
  "BinaryPath E name =
     (if name = '''' \<or> CHR ''/'' \<in> set name \<or> CHR 0x5C \<in> set name \<or> name = ''.'' \<or> name = ''..'' then Inl (JE_Binary name)
      else
        let path = (if je_missing E (''/usr/bin/'' @ name) then ''/bin/'' @ name else ''/usr/bin/'' @ name) in
        if \<not> je_exists E path then Inl (JE_Binary name) else Inr path)"

text \<open>The first line of a command's error output that is not blank, cut at 200 bytes.\<close>

definition first_stderr :: "string \<Rightarrow> string" where
  "first_stderr out = Stderr_String (Stderr_Write out \<lparr>ce_line = [], ce_done = False\<rparr>)"

definition hex_id :: "string \<Rightarrow> bool" where
  "hex_id name \<longleftrightarrow> (length name = 12 \<or> length name = 64) \<and> hex_decode name \<noteq> None"

definition container_names :: "string \<Rightarrow> string list" where
  "container_names out =
     remdups_adj (sort (filter (\<lambda>l. l \<noteq> []) (map trim_space (split_on newline out))))"

definition container_match :: "string \<Rightarrow> string \<Rightarrow> bool" where
  "container_match name c \<longleftrightarrow> has_prefix c (name @ ''.'') \<or> has_prefix c (name @ ''_'') \<or> has_prefix c (name @ ''-'')"

definition ResolveContainers :: "journal_env \<Rightarrow> string \<Rightarrow> journal_error + string list" where
  "ResolveContainers E name =
     (if \<not> ValidateContainer name then Inl JE_Name
      else if hex_id name then Inr [name]
      else (case BinaryPath E ''journalctl'' of
              Inl e \<Rightarrow> Inl e
            | Inr path \<Rightarrow>
                let out = je_run E path [''--no-pager'', ''-q'', ''-F'', ''CONTAINER_NAME''] in
                (case co_error out of
                   Some e \<Rightarrow> Inl (JE_Command e (first_stderr (co_stderr out)) [])
                 | None \<Rightarrow>
                     let names = container_names (co_stdout out);
                         matches = filter (container_match name) names
                     in if name \<in> set names then Inr [name]
                        else if matches \<noteq> [] then Inr matches
                        else if names = [] then Inl JE_NoContainers
                        else Inl (JE_UnknownContainer name (take 20 names)))))"

record spec =
  sp_Kind :: string
  sp_Target :: string
  sp_Match :: string

definition journal_match :: "spec \<Rightarrow> journal_error + string" where
  "journal_match sp =
     (let chosen = (\<lambda>m. Inr (if sp_Match sp \<noteq> '''' then sp_Match sp else m)) in
      if sp_Kind sp = ''unit'' then
        (if \<not> ValidateUnit (sp_Target sp) then Inl JE_Name else chosen (''--unit='' @ sp_Target sp))
      else if sp_Kind sp = ''container'' then
        (if \<not> ValidateContainer (sp_Target sp) then Inl JE_Name else chosen (''CONTAINER_NAME='' @ sp_Target sp))
      else Inl JE_Kind)"

definition show_int :: "int \<Rightarrow> string" where
  "show_int n = (if n < 0 then ''-'' @ show_nat (nat (- n)) else show_nat (nat n))"

text \<open>Times are given to \<^verbatim>\<open>journalctl\<close> in whole seconds; \<open>unix\<close> is \<^verbatim>\<open>Time.Unix\<close>.\<close>

definition journal_argv :: "(time \<Rightarrow> int) \<Rightarrow> string \<Rightarrow> time \<Rightarrow> time \<Rightarrow> string list" where
  "journal_argv unix m since until =
     [''--no-pager'', ''-q'', ''--utc'', ''-o'', ''short-iso-precise'', ''--no-hostname'',
      ''--since=@'' @ show_int (unix since), ''--until=@'' @ show_int (unix until), m]"

definition ReadJournal :: "journal_env \<Rightarrow> (time \<Rightarrow> int) \<Rightarrow> spec \<Rightarrow> time \<Rightarrow> time \<Rightarrow> journal_error + log_source" where
  "ReadJournal E unix sp since until =
     (case journal_match sp of
        Inl e \<Rightarrow> Inl e
      | Inr m \<Rightarrow>
          (case BinaryPath E ''journalctl'' of
             Inl e \<Rightarrow> Inl e
           | Inr path \<Rightarrow>
               let out = je_run E path (journal_argv unix m since until) in
               (case co_error out of
                  Some e \<Rightarrow> Inl (JE_Command e (first_stderr (co_stderr out)) (splitLines (co_stdout out)))
                | None \<Rightarrow>
                    Inr \<lparr>s_Kind = sp_Kind sp, s_Target = sp_Target sp, s_Name = sp_Kind sp @ '':'' @ sp_Target sp,
                         s_Lines = splitLines (co_stdout out), s_Since = since, s_Until = until,
                         s_Stderr = first_stderr (co_stderr out), s_Note = ''''\<rparr>)))"

section \<open>What is run\<close>

lemma splitLines_no_newline: "l \<in> set (splitLines data) \<Longrightarrow> newline \<notin> set l"
  by (auto simp: splitLines_def Let_def split: if_splits dest: in_set_butlastD split_on_no_sep)

end
