(* ===== verification/Collect.thy ===== *)
theory Collect
  imports Redact_Proofs Artifact Source_Journal
begin

text \<open>
  A collection run (\<^verbatim>\<open>internal/collect\<close>): checking the options, loading the rules, reading the sources,
  building the redacted plaintext with its manifest, and the upload. The artifact is then read back by
  the functions of \<open>Artifact\<close>; the last theorem follows the lines all the way.

  The embedded rules, the rules file and the answers of the relay are arguments; the review screen is the
  choice it returns. Counts are Go's \<^verbatim>\<open>int64\<close>, far below its limits: an artifact has at most 128 MiB.
\<close>

section \<open>Options\<close>

record options =
  o_Units :: "string list"
  o_Containers :: "string list"
  o_Files :: "string list"
  o_Globs :: "string list"
  o_Since :: time
  o_Until :: time
  o_Tail :: int
  o_Allow :: "string list"
  o_Keep :: "string list"
  o_KeepCategories :: "string list"
  o_RulesFile :: string
  o_TTL :: duration
  o_RelayURL :: string
  o_DryRun :: bool
  o_Retention :: duration
  o_Collector :: string

datatype collect_error =
    NoSource
  | BadName
  | BadWindow
  | BadTTL
  | BadTail
  | BadRetention
  | BadAllow
  | BadCategory string
  | BadRelayURL
  | NeedsTerminal
  | CE_Client client_error
  | CE_Rules string
  | CE_Merge rules_error
  | CE_Prune string
  | CE_Journal journal_error
  | CE_File file_error
  | ArtifactTooLarge int
  | NoLines
  | CE_Blob blob_error
  | CE_Review string
  | RelayChunkCap
  | RelayTTLCap
  | CE_LocalCopy string
  | CE_JSON_Manifest

definition MaxTTL :: duration where "MaxTTL = 24 * hour"

definition ValidateKeepCategories :: "string list \<Rightarrow> collect_error option" where
  "ValidateKeepCategories cs =
     (case filter (\<lambda>c. c \<notin> set RedactionCategories) cs of [] \<Rightarrow> None | c # _ \<Rightarrow> Some (BadCategory c))"

definition collect_validate :: "(string \<Rightarrow> url option) \<Rightarrow> (string \<Rightarrow> bool) \<Rightarrow> options \<Rightarrow> collect_error option" where
  "collect_validate parse isLoopback op =
     (if length (o_Units op) + length (o_Containers op) + length (o_Files op) + length (o_Globs op) = 0 then Some NoSource
      else if \<not> list_all ValidateUnit (o_Units op) then Some BadName
      else if \<not> list_all ValidateContainer (o_Containers op) then Some BadName
      else if \<not> o_Since op < o_Until op then Some BadWindow
      else if o_TTL op \<le> 0 \<or> o_TTL op > MaxTTL then Some BadTTL
      else if o_Tail op < 0 then Some BadTail
      else if o_Retention op < 0 then Some BadRetention
      else if \<not> list_all IsAbs (o_Allow op) then Some BadAllow
      else (case ValidateKeepCategories (o_KeepCategories op) of
              Some e \<Rightarrow> Some e
            | None \<Rightarrow> if NewRelayClient parse isLoopback (o_RelayURL op) (replicate 32 0) = None then Some BadRelayURL else None))"

section \<open>Rules\<close>

text \<open>
  What reading a rules file gives: a read or parse error, or the parsed file. \<open>default_rules\<close> tells whether
  \<^verbatim>\<open>/etc/aken/rules.json\<close> is there, or the error of looking.
\<close>

record rules_env =
  rv_base :: "string + rules_file"
  rv_default :: "string + bool"
  rv_read :: "string \<Rightarrow> string + rules_file"

definition defaultRulesPath :: string where "defaultRulesPath = ''/etc/aken/rules.json''"

definition rules_path :: "rules_env \<Rightarrow> string \<Rightarrow> string + string" where
  "rules_path R rulesFile =
     (if rulesFile \<noteq> '''' then Inr rulesFile
      else (case rv_default R of
              Inl e \<Rightarrow> Inl e
            | Inr there \<Rightarrow> Inr (if there then defaultRulesPath else '''')))"

record loaded_rules =
  lr_engine :: engine
  lr_merged :: rules_file
  lr_path :: string
  lr_defaults :: nat
  lr_extras :: nat

definition rule_active :: "string list \<Rightarrow> rule \<Rightarrow> bool" where
  "rule_active keepCategories r \<longleftrightarrow> \<not> (rule_Enabled r = Some False \<or> rule_Category r \<in> set keepCategories)"

definition LoadRules ::
  "(string \<Rightarrow> (nat \<times> finder) option) \<Rightarrow> rules_env \<Rightarrow> string \<Rightarrow> string list \<Rightarrow> string list \<Rightarrow> collect_error + loaded_rules" where
  "LoadRules re R rulesFile keep keepCategories =
     (case rv_base R of
        Inl e \<Rightarrow> Inl (CE_Rules e)
      | Inr base \<Rightarrow>
          (case rules_path R rulesFile of
             Inl e \<Rightarrow> Inl (CE_Rules e)
           | Inr path \<Rightarrow>
               (case (if path = '''' then Inr (base, [])
                      else (case rv_read R path of
                              Inl e \<Rightarrow> Inl (CE_Rules e)
                            | Inr extra \<Rightarrow>
                                (case Merge re base extra of
                                   Inl e \<Rightarrow> Inl (CE_Merge e)
                                 | Inr merged \<Rightarrow> Inr (merged, file_Rules extra)))) of
                  Inl e \<Rightarrow> Inl e
                | Inr (merged, extraRules) \<Rightarrow>
                    (case Compile re merged keep keepCategories of
                       Inl e \<Rightarrow> Inl (CE_Merge e)
                     | Inr e \<Rightarrow>
                         let active = filter (rule_active keepCategories) (file_Rules merged);
                             isExtra = (\<lambda>r. rule_Name r \<in> rule_Name ` set extraRules)
                         in Inr \<lparr>lr_engine = e, lr_merged = merged, lr_path = path,
                                 lr_defaults = length (filter (\<lambda>r. \<not> isExtra r) active),
                                 lr_extras = length (filter isExtra active)\<rparr>))))"

section \<open>Sources\<close>

definition container_spec :: "string \<Rightarrow> string \<Rightarrow> spec" where
  "container_spec name target =
     \<lparr>sp_Kind = ''container'', sp_Target = target,
      sp_Match = (if hex_id name then (if length name = 64 then ''CONTAINER_ID_FULL='' @ name else ''CONTAINER_ID='' @ name)
                  else ''CONTAINER_NAME='' @ target)\<rparr>"

fun container_specs :: "journal_env \<Rightarrow> string list \<Rightarrow> journal_error + spec list" where
  "container_specs E [] = Inr []"
| "container_specs E (name # names) =
     (case ResolveContainers E name of
        Inl e \<Rightarrow> Inl e
      | Inr targets \<Rightarrow>
          (case container_specs E names of
             Inl e \<Rightarrow> Inl e
           | Inr sps \<Rightarrow> Inr (map (container_spec name) targets @ sps)))"

fun read_journals :: "journal_env \<Rightarrow> (time \<Rightarrow> int) \<Rightarrow> time \<Rightarrow> time \<Rightarrow> spec list \<Rightarrow> journal_error + log_source list" where
  "read_journals E unix since until [] = Inr []"
| "read_journals E unix since until (sp # sps) =
     (case ReadJournal E unix sp since until of
        Inl e \<Rightarrow> Inl e
      | Inr s \<Rightarrow>
          (case read_journals E unix since until sps of Inl e \<Rightarrow> Inl e | Inr ss \<Rightarrow> Inr (s # ss)))"

definition readSources :: "journal_env \<Rightarrow> (time \<Rightarrow> int) \<Rightarrow> os_files \<Rightarrow> options \<Rightarrow> collect_error + log_source list" where
  "readSources E unix os op =
     (case container_specs E (o_Containers op) of
        Inl e \<Rightarrow> Inl (CE_Journal e)
      | Inr containers \<Rightarrow>
          (case read_journals E unix (o_Since op) (o_Until op)
                  (map (\<lambda>name. \<lparr>sp_Kind = ''unit'', sp_Target = name, sp_Match = ''''\<rparr>) (o_Units op) @ containers) of
             Inl e \<Rightarrow> Inl (CE_Journal e)
           | Inr journals \<Rightarrow>
               (case ReadFiles os \<lparr>f_Allowed = ''/var/log'' # o_Allow op, f_Paths = [], f_Tail = o_Tail op,
                                   f_ModifiedAfter = o_Since op\<rparr> (o_Files op) (o_Globs op) of
                  Inl e \<Rightarrow> Inl (CE_File e)
                | Inr fs \<Rightarrow> Inr (journals @ fs))))"

section \<open>Building the artifact\<close>

record collected =
  col_eng :: engine
  col_text :: string
  col_sources :: "manifestSource list"
  col_lines :: int
  col_redacted :: int
  col_rules :: int
  col_counts :: categoryCounts
  col_flags :: "string list"
  col_idFlags :: "string list"
  col_collapsed :: int

definition text_of :: "string list \<Rightarrow> string" where
  "text_of lines = concat (map (\<lambda>l. l @ [newline]) lines)"

text \<open>The counts of one category after a source; the number of values is the latest one.\<close>

definition add_count :: "(string \<rightharpoonup> categoryCount) \<Rightarrow> string \<Rightarrow> categoryCounts \<Rightarrow> categoryCounts" where
  "add_count by c counts =
     (case by c of
        None \<Rightarrow> counts
      | Some n \<Rightarrow>
          let previous = (case map_of counts c of None \<Rightarrow> \<lparr>cc_Values = 0, cc_Lines = 0\<rparr> | Some p \<Rightarrow> p)
          in AList.update c \<lparr>cc_Values = cc_Values n, cc_Lines = cc_Lines previous + cc_Lines n\<rparr> counts)"

text \<open>
  One turn of the loop over the sources. The map of counts has only known categories, so ranging over
  it is ranging over \<open>RedactionCategories\<close>; the order does not matter.
\<close>

definition collect_source ::
  "(string \<Rightarrow> bool) \<Rightarrow> (string \<Rightarrow> bool) \<Rightarrow> (time \<Rightarrow> string) \<Rightarrow> log_source \<Rightarrow> collected \<Rightarrow> collected" where
  "collect_source addr high fmt src col =
     (case Redact addr high (col_eng col) (s_Lines src) of (res, e) \<Rightarrow>
        let text' = col_text col @ text_of (rd_Lines res);
            isFile = (s_Kind src = ''file'');
            ms = \<lparr>ms_name = s_Name src, ms_kind = s_Kind src, ms_target = s_Target src,
                  ms_since = (if isFile then '''' else fmt (s_Since src)), ms_until = (if isFile then '''' else fmt (s_Until src)),
                  ms_offset = int (length (col_text col)), ms_bytes = int (length text') - int (length (col_text col)),
                  ms_lines = int (length (rd_Lines res)), ms_linesRedacted = int (rd_LinesRedacted res), ms_note = s_Note src\<rparr>
        in \<lparr>col_eng = e, col_text = text', col_sources = col_sources col @ [ms],
            col_lines = col_lines col + int (length (rd_Lines res)),
            col_redacted = col_redacted col + int (rd_LinesRedacted res), col_rules = int (rd_Rules res),
            col_counts = fold (add_count (rd_ByCategory res)) RedactionCategories (col_counts col),
            col_flags = fold List.insert (map flag_Value (filter (\<lambda>f. \<not> flag_IDShaped f) (rd_Flags res))) (col_flags col),
            col_idFlags = fold List.insert (map flag_Value (filter flag_IDShaped (rd_Flags res))) (col_idFlags col),
            col_collapsed = col_collapsed col + int (rd_LinesCollapsed res)\<rparr>)"

definition collect_start :: "engine \<Rightarrow> collected" where
  "collect_start e = \<lparr>col_eng = e, col_text = [], col_sources = [], col_lines = 0, col_redacted = 0, col_rules = 0,
     col_counts = [], col_flags = [], col_idFlags = [], col_collapsed = 0\<rparr>"

definition build_manifest :: "time \<Rightarrow> string \<Rightarrow> collected \<Rightarrow> u32 \<Rightarrow> manifest" where
  "build_manifest created collector col cnt =
     \<lparr>m_version = int BlobVersion, m_createdAt = created, m_collector = collector, m_chunkSize = int ChunkSize,
      m_chunkCount = cnt, m_totalBytes = int (length (col_text col)), m_chunksSHA256 = [], m_sources = col_sources col,
      m_redaction = \<lparr>rs_linesRedacted = col_redacted col, rs_byCategory = col_counts col,
                     rs_flags = int (length (col_flags col)), rs_rules = col_rules col\<rparr>\<rparr>"

text \<open>The part of \<^verbatim>\<open>Run\<close> that turns the sources into the plaintext and the manifest, hashes excepted.\<close>

definition build ::
  "(string \<Rightarrow> bool) \<Rightarrow> (string \<Rightarrow> bool) \<Rightarrow> (time \<Rightarrow> string) \<Rightarrow> time \<Rightarrow> string \<Rightarrow> engine \<Rightarrow> log_source list \<Rightarrow>
   collect_error + collected \<times> manifest" where
  "build addr high fmt created collector e sources =
     (let col = fold (collect_source addr high fmt) sources (collect_start e);
          total_bytes = int (length (col_text col))
      in if total_bytes > int (MaxChunkCount * ChunkSize) then Inl (ArtifactTooLarge total_bytes)
         else if col_lines col = 0 then Inl NoLines
         else (case ChunkCount total_bytes of
                 Inl err \<Rightarrow> Inl (CE_Blob err)
               | Inr cnt \<Rightarrow> Inr (col, build_manifest created collector col cnt)))"

section \<open>The run\<close>

text \<open>
  What the run asks its surroundings, in order: the terminal, the relay's capacity limits, the rules, the
  pruning of old runs, the sources, and the reviewer's choice.
\<close>

record run_env =
  re_interactive :: bool
  re_info :: "client_error + relay_info"
  re_rules :: "collect_error + loaded_rules"
  re_prune :: "string option"
  re_sources :: "collect_error + log_source list"
  re_choice :: "string + char"
  re_created :: time

datatype run_outcome =
    RunFailed collect_error
  | Rendered
  | Reviewed
  | Aborted
  | Upload "relay_info option" collected manifest

definition collect_Run ::
  "(string \<Rightarrow> url option) \<Rightarrow> (string \<Rightarrow> bool) \<Rightarrow> (string \<Rightarrow> bool) \<Rightarrow> (string \<Rightarrow> bool) \<Rightarrow> (time \<Rightarrow> string) \<Rightarrow>
   options \<Rightarrow> run_env \<Rightarrow> run_outcome" where
  "collect_Run parse isLoopback addr high fmt op E =
     (case collect_validate parse isLoopback op of
        Some e \<Rightarrow> RunFailed e
      | None \<Rightarrow>
          if \<not> o_DryRun op \<and> \<not> re_interactive E then RunFailed NeedsTerminal
          else (case (if o_DryRun op then Inr None else map_sum id Some (re_info E)) of
                  Inl e \<Rightarrow> RunFailed (CE_Client e)
                | Inr info \<Rightarrow>
                    (case re_rules E of
                       Inl e \<Rightarrow> RunFailed e
                     | Inr rules \<Rightarrow>
                         (case (if \<not> o_DryRun op \<and> o_Retention op > 0 then re_prune E else None) of
                            Some e \<Rightarrow> RunFailed (CE_Prune e)
                          | None \<Rightarrow>
                              (case re_sources E of
                                 Inl e \<Rightarrow> RunFailed e
                               | Inr sources \<Rightarrow>
                                   (case build addr high fmt (re_created E) (o_Collector op) (lr_engine rules) sources of
                                      Inl e \<Rightarrow> RunFailed e
                                    | Inr (col, m) \<Rightarrow>
                                        if \<not> re_interactive E then Rendered
                                        else (case re_choice E of
                                                Inl e \<Rightarrow> RunFailed (CE_Review e)
                                              | Inr choice \<Rightarrow>
                                                  if o_DryRun op then Reviewed
                                                  else if choice = CHR ''a'' then Aborted
                                                  else Upload info col m)))))))"

section \<open>The upload\<close>

text \<open>The chunks sealed, and the manifest with their hashes.\<close>

fun seal_chunks :: "crypto \<Rightarrow> blobKeys \<Rightarrow> u32 \<Rightarrow> nat \<Rightarrow> bytes list \<Rightarrow> blob_error + bytes list" where
  "seal_chunks C keys cnt i [] = Inr []"
| "seal_chunks C keys cnt i (chunk # chunks) =
     (case SealChunk C keys (of_nat i) cnt chunk of
        Inl e \<Rightarrow> Inl e
      | Inr ct \<Rightarrow>
          (case seal_chunks C keys cnt (Suc i) chunks of Inl e \<Rightarrow> Inl e | Inr cts \<Rightarrow> Inr (ct # cts)))"

definition with_hashes :: "crypto \<Rightarrow> bytes list \<Rightarrow> manifest \<Rightarrow> manifest" where
  "with_hashes C sealed m = m\<lparr>m_chunksSHA256 := m_chunksSHA256 m @ map (\<lambda>ct. hex_encode (sha256 C ct)) sealed\<rparr>"

text \<open>Uploading the sealed chunks in order; the first failure ends it.\<close>

fun put_chunks ::
  "'n client_env \<Rightarrow> client_json \<Rightarrow> relayClient \<Rightarrow> sessionID \<Rightarrow> nat \<Rightarrow> bytes list \<Rightarrow> 'n \<Rightarrow> client_error option \<times> 'n" where
  "put_chunks E js c i k [] n = (None, n)"
| "put_chunks E js c i k (ct # cts) n =
     (case Client_PutChunk E js c i (of_nat k) ct n of
        (Some e, n1) \<Rightarrow> (Some e, n1)
      | (None, n1) \<Rightarrow> put_chunks E js c i (Suc k) cts n1)"

text \<open>
  \<^verbatim>\<open>upload\<close>, for a token already drawn: the outcome and the state of the network. \<open>copy\<close> is the error of
  writing the local copy, if any; the manifest's JSON is a parameter.
\<close>

definition upload ::
  "crypto \<Rightarrow> 'n client_env \<Rightarrow> client_json \<Rightarrow> (string \<Rightarrow> url option) \<Rightarrow> (string \<Rightarrow> bool) \<Rightarrow> (manifest \<Rightarrow> bytes) \<Rightarrow> (manifest \<Rightarrow> string option) \<Rightarrow>
   options \<Rightarrow> caps \<Rightarrow> token \<Rightarrow> bytes \<Rightarrow> manifest \<Rightarrow> 'n \<Rightarrow> (collect_error + sessionInfo) \<times> 'n" where
  "upload C E js parse isLoopback enc_manifest copy op caps token plaintext m n =
     (let i = SessionID C token; keys = DeriveBlobKeys C (Token_ContentRoot C token) in
      case NewRelayClient parse isLoopback (o_RelayURL op) (RelayCredential C token) of
        None \<Rightarrow> (Inl BadRelayURL, n)
      | Some c \<Rightarrow>
          if cap_ChunkCount caps < int (unat (m_chunkCount m)) then (Inl RelayChunkCap, n)
          else if TTLMaxSeconds caps < whole_seconds (o_TTL op) then (Inl RelayTTLCap, n)
          else (case Client_CreateSession E js c i (o_TTL op) (m_chunkCount m) n of
                  (Inl e, n1) \<Rightarrow> (Inl (CE_Client e), n1)
                | (Inr info, n1) \<Rightarrow>
                    (case seal_chunks C keys (m_chunkCount m) 0 (SplitChunks plaintext) of
                       Inl e \<Rightarrow> (Inl (CE_Blob e), n1)
                     | Inr sealed \<Rightarrow>
                         let m' = with_hashes C sealed m in
                         (case copy m' of
                            Some e \<Rightarrow> (Inl (CE_LocalCopy e), n1)
                          | None \<Rightarrow>
                              (case put_chunks E js c i 0 sealed n1 of
                                 (Some e, n2) \<Rightarrow> (Inl (CE_Client e), n2)
                               | (None, n2) \<Rightarrow>
                                   (case SealManifest C keys (m_chunkCount m) (enc_manifest m') of
                                      Inl e \<Rightarrow> (Inl (CE_Blob e), n2)
                                    | Inr encrypted \<Rightarrow>
                                        (case Client_PutManifest E js c i encrypted n2 of
                                           (Some e, n3) \<Rightarrow> (Inl (CE_Client e), n3)
                                         | (None, n3) \<Rightarrow> (Inr info, n3))))))))"

end
