(* ===== verification/Collect_Proofs.thy ===== *)
theory Collect_Proofs
  imports Collect
begin

text \<open>
  From the sources to the reader: redaction keeps lines on one line each, the manifest of a run
  describes its plaintext, the chunks put back together are the plaintext, and so the artifact that is
  loaded with the token has the redacted lines of every source.
\<close>

section \<open>Redaction keeps lines apart\<close>

lemma newline_eq: "newline = CHR 0x0A" by (simp add: newline_def)

lemma placeholder_text_plain: "category_ok c \<Longrightarrow> newline \<notin> set (placeholder_text c n)"
proof -
  assume "category_ok c"
  then have "newline \<notin> set c" by (auto simp: category_ok_def RedactionCategories_def newline_def)
  moreover have "newline \<notin> set (show_nat n)" using show_nat_digits [of n] by (auto simp: list_all_iff is_digit_def newline_def)
  ultimately show ?thesis by (simp add: placeholder_text_def newline_def)
qed

lemma known_plain: "engine_inv e \<Longrightarrow> known e c v p \<Longrightarrow> newline \<notin> set p"
  using known_text placeholder_text_plain by metis

lemma explains_plain:
  assumes "engine_inv e" "explains e a x" "newline \<notin> set a"
  shows "newline \<notin> set x"
proof -
  from assms(2) obtain ps where ps: "list_all (piece_ok e) ps" "a = concat (map piece_original ps)" "x = concat (map piece_shown ps)"
    by (auto simp: explains_def)
  have "newline \<notin> set (piece_shown q)" if "q \<in> set ps" for q
  proof (cases q)
    case (Clear s)
    with that ps(2) assms(3) show ?thesis by force
  next
    case (Hidden c v p)
    with that ps(1) have "known e c v p" by (auto simp: list_all_iff)
    with known_plain [OF assms(1)] Hidden show ?thesis by simp
  qed
  with ps(3) show ?thesis by auto
qed

definition plain :: "string list \<Rightarrow> bool" where
  "plain ls \<longleftrightarrow> (\<forall>l \<in> set ls. newline \<notin> set l)"

lemma redact_loop_plain:
  assumes "engine_inv e" "\<forall>r \<in> set (eng_rules e). rule_ok r" "redact_loop addr high ls (e, res) = (e', res')"
    and "plain ls" "plain (rd_Lines res)"
  shows "plain (rd_Lines res')"
  using assms
proof (induction "length ls" arbitrary: ls e res rule: less_induct)
  case less
  show ?case
  proof (cases ls)
    case Nil
    with less.prems show ?thesis by simp
  next
    case (Cons l rest)
    let ?n = "key_extent (l # rest) 0 64"
    let ?v = "join_with [CHR 0x0A] (take (Suc ?n) (l # rest))"
    have step: ?thesis if "grows e e1" "newline \<notin> set out" "set ys \<subseteq> set rest" "length ys < length ls"
        "redact_loop addr high ys (e1, emit_line high e1 out ch n res) = (e', res')" for e1 out ys ch n
    proof -
      have "engine_inv e1" "\<forall>r \<in> set (eng_rules e1). rule_ok r" using that(1) less.prems(2) by (simp_all add: grows_def same_rules_def)
      moreover have "plain ys" using less.prems(4) that(3) Cons by (auto simp: plain_def)
      moreover have "plain (rd_Lines (emit_line high e1 out ch n res))" using less.prems(5) that(2) by (simp add: plain_def)
      ultimately show ?thesis using less.hyps that(4,5) by blast
    qed
    show ?thesis
    proof (cases "''key'' \<notin> eng_off e \<and> keyBegin l \<and> ?v \<notin> eng_keep e")
      case True
      obtain p e1 where p: "placeholder e ''key'' ?v = (p, e1)" by fastforce
      have c: "category_ok ''key''" by (simp add: category_ok_def RedactionCategories_def)
      note g = placeholder_grows [OF less.prems(1) c p]
      have "newline \<notin> set p" using g known_plain by (auto simp: grows_def)
      moreover have "redact_loop addr high (drop ?n rest) (e1, emit_line high e1 p [''key''] ?n res) = (e', res')"
        using less.prems(3) True p by (simp add: Cons Let_def del: key_extent.simps)
      ultimately show ?thesis using g(1) by (intro step) (auto simp: Cons dest: in_set_dropD)
    next
      case False
      obtain out ch e1 where r: "redact_line addr e l = (out, ch, e1)" by (metis prod_cases3)
      note ok = redact_line_ok [OF less.prems(1,2) r]
      have "newline \<notin> set out"
        using explains_plain [OF _ ok(2)] ok(1) less.prems(4) Cons by (simp add: grows_def plain_def)
      moreover have "redact_loop addr high rest (e1, emit_line high e1 out ch 0 res) = (e', res')"
        using less.prems(3) False r by (auto simp: Cons Let_def simp del: key_extent.simps)
      ultimately show ?thesis using ok(1) by (intro step) (auto simp: Cons)
    qed
  qed
qed

lemma Redact_plain:
  assumes "engine_ready e" "Redact addr high e lines = (res, e')" "plain lines"
  shows "plain (rd_Lines res)"
proof -
  let ?start = "\<lparr>rd_Lines = [], rd_LinesRedacted = 0, rd_LinesCollapsed = 0, rd_ByCategory = Map.empty,
                   rd_Flags = [], rd_Mapping = [], rd_Rules = length (eng_rules e)\<rparr>"
  obtain res0 e0 where run: "redact_loop addr high lines (e, ?start) = (e0, res0)" by fastforce
  then have "rd_Lines res = rd_Lines res0" using assms(2) by (auto simp: Redact_def)
  moreover have "plain (rd_Lines ?start)" by (simp add: plain_def)
  ultimately show ?thesis
    using redact_loop_plain [OF _ _ run assms(3)] assms(1) by (simp add: engine_ready_def)
qed

section \<open>Text and lines\<close>

lemma text_lines_of: "plain ls \<Longrightarrow> text_lines (text_of ls) = ls"
proof -
  assume p: "plain ls"
  then have "split_on newline (text_of ls) = ls @ [[]]"
    by (induction ls) (simp_all add: text_of_def plain_def split_on_prefix)
  then show ?thesis by (simp add: text_lines_def newline_eq)
qed

lemma string_bytes_simps:
  "string_bytes [] = []" "string_bytes (a @ b) = string_bytes a @ string_bytes b" "take n (string_bytes s) = string_bytes (take n s)"
  "drop n (string_bytes s) = string_bytes (drop n s)"
  by (simp_all add: string_bytes_def take_map drop_map)

text \<open>The manifest entries of a run: each source's bytes follow the last one's, and its lines are counted.\<close>

fun layout :: "nat \<Rightarrow> manifestSource list \<Rightarrow> string list list \<Rightarrow> bool" where
  "layout off [] [] = True"
| "layout off (m # ms) (ls # lss) =
     (ms_offset m = int off \<and> ms_bytes m = int (length (text_of ls)) \<and> ms_lines m = int (length ls) \<and>
      layout (off + length (text_of ls)) ms lss)"
| "layout off _ _ = False"

lemma layout_tiles: "layout off ms lss \<Longrightarrow> tiles (int off) ms (int off + int (length (concat (map text_of lss))))"
proof (induction off ms lss rule: layout.induct)
  case (2 off m ms ls lss)
  then show ?case by (simp add: add.assoc)
qed simp_all

lemma layout_length: "layout off ms lss \<Longrightarrow> length ms = length lss"
  by (induction off ms lss rule: layout.induct) simp_all

lemma cut_layout:
  assumes "layout (length pre) ms lss" "\<forall>ls \<in> set lss. plain ls"
  shows "cut_sources valid (string_bytes (pre @ concat (map text_of lss))) ms =
    Inr (map2 (\<lambda>m ls. \<lparr>src_Meta = m, src_Lines = map valid ls\<rparr>) ms lss)"
  using assms
proof (induction "length pre" ms lss arbitrary: pre rule: layout.induct)
  case (2 m ms ls lss)
  have "bytes_string (take (nat (ms_bytes m)) (drop (nat (ms_offset m)) (string_bytes (pre @ concat (map text_of (ls # lss)))))) = text_of ls"
    using 2 by (simp add: string_bytes_simps bytes_string_bytes)
  moreover have "cut_sources valid (string_bytes ((pre @ text_of ls) @ concat (map text_of lss))) ms =
      Inr (map2 (\<lambda>m ls. \<lparr>src_Meta = m, src_Lines = map valid ls\<rparr>) ms lss)"
    using 2 by (intro 2(1)) simp_all
  ultimately show ?case using 2 by (simp add: text_lines_of)
qed simp_all


section \<open>What a run collects\<close>

fun redacted_lines :: "(string \<Rightarrow> bool) \<Rightarrow> (string \<Rightarrow> bool) \<Rightarrow> engine \<Rightarrow> log_source list \<Rightarrow> string list list" where
  "redacted_lines addr high e [] = []"
| "redacted_lines addr high e (s # ss) =
     rd_Lines (fst (Redact addr high e (s_Lines s))) # redacted_lines addr high (snd (Redact addr high e (s_Lines s))) ss"

lemma add_count_keys: "fst ` set (fold (add_count by) cs counts) \<subseteq> set cs \<union> fst ` set counts"
proof (induction cs arbitrary: counts)
  case (Cons c cs)
  have "fst ` set (add_count by c counts) \<subseteq> insert c (fst ` set counts)"
    by (auto simp: add_count_def Let_def AList.dom_update split: option.splits)
  with Cons [of "add_count by c counts"] show ?case by auto
qed simp

lemma collect_source_simps:
  fixes addr high fmt src col
  defines "r \<equiv> Redact addr high (col_eng col) (s_Lines src)"
  shows "col_eng (collect_source addr high fmt src col) = snd r"
    and "col_text (collect_source addr high fmt src col) = col_text col @ text_of (rd_Lines (fst r))"
    and "col_lines (collect_source addr high fmt src col) = col_lines col + int (length (rd_Lines (fst r)))"
    and "fst ` set (col_counts (collect_source addr high fmt src col)) \<subseteq> set RedactionCategories \<union> fst ` set (col_counts col)"
    and "\<exists>m. col_sources (collect_source addr high fmt src col) = col_sources col @ [m] \<and> ms_name m = s_Name src \<and>
           ms_kind m = s_Kind src \<and> ms_offset m = int (length (col_text col)) \<and>
           ms_bytes m = int (length (text_of (rd_Lines (fst r)))) \<and> ms_lines m = int (length (rd_Lines (fst r)))"
  using add_count_keys by (simp_all add: collect_source_def r_def case_prod_beta Let_def)

lemma collect_fold:
  assumes "engine_ready (col_eng col)" "\<forall>s \<in> set ss. plain (s_Lines s)"
  shows "let c' = fold (collect_source addr high fmt) ss col; rl = redacted_lines addr high (col_eng col) ss in
    (\<exists>ms. col_sources c' = col_sources col @ ms \<and> layout (length (col_text col)) ms rl \<and>
      map ms_name ms = map s_Name ss \<and> map ms_kind ms = map s_Kind ss) \<and>
    col_text c' = col_text col @ concat (map text_of rl) \<and> (\<forall>ls \<in> set rl. plain ls) \<and>
    col_lines c' = col_lines col + int (length (concat rl)) \<and>
    fst ` set (col_counts c') \<subseteq> set RedactionCategories \<union> fst ` set (col_counts col)"
  using assms
proof (induction ss arbitrary: col)
  case (Cons s ss)
  let ?c = "collect_source addr high fmt s col"
  obtain res e' where r: "Redact addr high (col_eng col) (s_Lines s) = (res, e')" by fastforce
  note p = Redact_plain [OF Cons.prems(1) r]
  have "engine_ready (col_eng ?c)" using Redact_ok(1) [OF Cons.prems(1) r] grows_ready [OF Cons.prems(1)] r
    by (simp add: collect_source_simps(1))
  note IH = Cons.IH [OF this, unfolded Let_def]
  from collect_source_simps(5) [of addr high fmt s col] r obtain m where
    m: "col_sources ?c = col_sources col @ [m]" "ms_name m = s_Name s" "ms_kind m = s_Kind s" "ms_offset m = int (length (col_text col))"
      "ms_bytes m = int (length (text_of (rd_Lines res)))" "ms_lines m = int (length (rd_Lines res))" by auto
  from IH Cons.prems(2) obtain ms where ms: "col_sources (fold (collect_source addr high fmt) ss ?c) = col_sources ?c @ ms"
    "layout (length (col_text ?c)) ms (redacted_lines addr high e' ss)"
    "map ms_name ms = map s_Name ss" "map ms_kind ms = map s_Kind ss"
    using r by (auto simp: collect_source_simps(1))
  have "\<exists>ms. col_sources (fold (collect_source addr high fmt) (s # ss) col) = col_sources col @ ms \<and>
      layout (length (col_text col)) ms (redacted_lines addr high (col_eng col) (s # ss)) \<and>
      map ms_name ms = map s_Name (s # ss) \<and> map ms_kind ms = map s_Kind (s # ss)"
    using m ms r by (intro exI [of _ "m # ms"]) (simp add: collect_source_simps(2))
  moreover have "fst ` set (col_counts (fold (collect_source addr high fmt) (s # ss) col)) \<subseteq> set RedactionCategories \<union> fst ` set (col_counts col)"
  proof -
    have "fst ` set (col_counts (fold (collect_source addr high fmt) ss ?c)) \<subseteq> set RedactionCategories \<union> fst ` set (col_counts ?c)"
      using IH Cons.prems(2) by simp
    with collect_source_simps(4) [of addr high fmt s col] show ?thesis unfolding fold_Cons comp_apply by blast
  qed
  ultimately show ?case
    using IH Cons.prems(2) p r by (simp add: Let_def collect_source_simps(1-3))
qed simp

section \<open>Sealing and loading chunks\<close>

lemma seal_chunks_all:
  assumes "\<forall>j < length cs. SealChunk C keys (of_nat (i + j)) cnt (cs ! j) = Inr (f (i + j))"
  shows "seal_chunks C keys cnt i cs = Inr (map f [i..<i + length cs])"
  using assms
proof (induction cs arbitrary: i)
  case (Cons c cs)
  have "SealChunk C keys (of_nat (Suc i + j)) cnt (cs ! j) = Inr (f (Suc i + j))" if "j < length cs" for j
    using Cons.prems [rule_format, of "Suc j"] that by (simp add: ac_simps)
  then have "seal_chunks C keys cnt (Suc i) cs = Inr (map f [Suc i..<Suc i + length cs])" by (intro Cons.IH) blast
  moreover have "SealChunk C keys (of_nat i) cnt c = Inr (f i)" using Cons.prems by (auto dest: spec [of _ 0])
  moreover have "[i..<i + length (c # cs)] = i # [Suc i..<Suc i + length cs]" by (subst upt_conv_Cons) simp_all
  ultimately show ?case by (simp del: upt_Suc)
qed simp

lemma length_copy_at: "start \<le> length xs \<Longrightarrow> length (copy_at start chunk xs) = length xs"
  by (auto simp: copy_at_def)

lemma nth_copy_at:
  assumes "start \<le> length xs" "k < length xs"
  shows "copy_at start chunk xs ! k = (if start \<le> k \<and> k < start + length chunk then chunk ! (k - start) else xs ! k)"
proof -
  consider "k < start" | "start \<le> k" "k < start + length chunk" | "start + length chunk \<le> k" by linarith
  then show ?thesis using assms by cases (auto simp: copy_at_def nth_append min_def)
qed

lemma copy_chunk:
  assumes "length xs = length p" "i * ChunkSize \<le> length p"
  shows "length (copy_at (i * ChunkSize) (take ChunkSize (drop (i * ChunkSize) p)) xs) = length p"
    and "k < length p \<Longrightarrow> copy_at (i * ChunkSize) (take ChunkSize (drop (i * ChunkSize) p)) xs ! k =
           (if k div ChunkSize = i then p ! k else xs ! k)"
proof -
  show "length (copy_at (i * ChunkSize) (take ChunkSize (drop (i * ChunkSize) p)) xs) = length p"
    using assms by (simp add: length_copy_at)
  assume k: "k < length p"
  have "k div ChunkSize = i \<longleftrightarrow> i * ChunkSize \<le> k \<and> k < i * ChunkSize + ChunkSize"
    using div_nat_eqI [of ChunkSize i k] div_times_less_eq_dividend [of k ChunkSize]
      dividend_less_div_times [OF ChunkSize_pos, of k] by (auto simp: mult.commute add.commute)
  then show "copy_at (i * ChunkSize) (take ChunkSize (drop (i * ChunkSize) p)) xs ! k =
      (if k div ChunkSize = i then p ! k else xs ! k)"
  proof (cases "k div ChunkSize = i")
    case True
    with \<open>k div ChunkSize = i \<longleftrightarrow> _\<close> have b: "i * ChunkSize \<le> k" "k < i * ChunkSize + ChunkSize" by auto
    then have "k - i * ChunkSize < ChunkSize" "k < i * ChunkSize + min (length p - i * ChunkSize) ChunkSize"
      using k by linarith+
    with b(1) True assms k show ?thesis by (simp add: nth_copy_at)
  next
    case False
    with \<open>k div ChunkSize = i \<longleftrightarrow> _\<close> have "\<not> (i * ChunkSize \<le> k \<and> k < i * ChunkSize + min (length p - i * ChunkSize) ChunkSize)" by auto
    with False assms k show ?thesis by (auto simp: nth_copy_at)
  qed
qed

lemma load_chunks_rebuild:
  assumes "\<forall>i \<in> set is. i * ChunkSize \<le> length p \<and> load_chunk C keys m ans i = Inr (take ChunkSize (drop (i * ChunkSize) p))"
    and "length xs = length p"
  shows "\<exists>ys. load_chunks C keys m ans is xs = Inr ys \<and> length ys = length p \<and>
    (\<forall>k < length p. k div ChunkSize \<in> set is \<or> xs ! k = p ! k \<longrightarrow> ys ! k = p ! k)"
  using assms
proof (induction "is" arbitrary: xs)
  case (Cons i "is")
  let ?x = "copy_at (i * ChunkSize) (take ChunkSize (drop (i * ChunkSize) p)) xs"
  note c = copy_chunk [of xs p i]
  from Cons.IH [of ?x] Cons.prems c(1) obtain ys where ys: "load_chunks C keys m ans is ?x = Inr ys" "length ys = length p"
    and k: "\<And>k. k < length p \<Longrightarrow> k div ChunkSize \<in> set is \<or> ?x ! k = p ! k \<Longrightarrow> ys ! k = p ! k" by auto
  have "ys ! k = p ! k" if "k < length p" "k div ChunkSize \<in> set (i # is) \<or> xs ! k = p ! k" for k
    using k [OF that(1)] c(2) [OF _ _ that(1)] that(2) Cons.prems by (auto split: if_splits)
  with ys Cons.prems(1) show ?case by auto
qed simp

section \<open>The artifact of a run\<close>

text \<open>The chunks as they are sealed, one ciphertext for each chunk of the plaintext.\<close>

definition sealed_chunk :: "crypto \<Rightarrow> blobKeys \<Rightarrow> u32 \<Rightarrow> bytes \<Rightarrow> nat \<Rightarrow> bytes" where
  "sealed_chunk C keys cnt p i = projr (SealChunk C keys (of_nat i) cnt (SplitChunks p ! i))"

lemma split_count: "ChunkCount (int (length p)) = Inr cnt \<Longrightarrow> length (SplitChunks p) = unat cnt"
  using ChunkCount_Inr(3) [of "int (length p)" cnt] by (simp add: SplitChunks_chunks_of length_chunks_of)

lemma sealed_chunk_ok:
  assumes "crypto_ok C" "ChunkCount (int (length p)) = Inr cnt" "i < unat cnt"
  shows "SealChunk C keys (of_nat i) cnt (SplitChunks p ! i) = Inr (sealed_chunk C keys cnt p i)"
    and "OpenChunk C keys (of_nat i) cnt (sealed_chunk C keys cnt p i) = Inr (SplitChunks p ! i)"
proof -
  note c = ChunkCount_Inr(4,5) [OF assms(2)]
  obtain ct where "SealChunk C keys (of_nat i) cnt (SplitChunks p ! i) = Inr ct" "OpenChunk C keys (of_nat i) cnt ct = Inr (SplitChunks p ! i)"
    using seal_open_chunk [OF assms(1) split_count [OF assms(2)] c assms(3)] by metis
  then show "SealChunk C keys (of_nat i) cnt (SplitChunks p ! i) = Inr (sealed_chunk C keys cnt p i)"
    "OpenChunk C keys (of_nat i) cnt (sealed_chunk C keys cnt p i) = Inr (SplitChunks p ! i)" by (simp_all add: sealed_chunk_def)
qed

lemma seal_chunks_ok:
  assumes "crypto_ok C" "ChunkCount (int (length p)) = Inr cnt"
  shows "seal_chunks C keys cnt 0 (SplitChunks p) = Inr (map (sealed_chunk C keys cnt p) [0..<unat cnt])"
  using seal_chunks_all [of "SplitChunks p" C keys 0 cnt "sealed_chunk C keys cnt p"] sealed_chunk_ok(1) [OF assms] split_count [OF assms(2)]
  by simp

lemma chunk_nth:
  assumes "ChunkCount (int (length p)) = Inr cnt" "i < unat cnt"
  shows "SplitChunks p ! i = take ChunkSize (drop (i * ChunkSize) p)" "i * ChunkSize \<le> length p"
    "int (length (SplitChunks p ! i)) = min (int ChunkSize) (int (length p) - int i * int ChunkSize)"
proof -
  have i: "i < length (SplitChunks p)" using assms split_count by simp
  then show s: "SplitChunks p ! i = take ChunkSize (drop (i * ChunkSize) p)" by (simp add: SplitChunks_chunks_of chunks_of_last_partial)
  with chunk_sizes(1) [OF i] show l: "i * ChunkSize \<le> length p" by simp
  then have "int (length p) - int i * int ChunkSize = int (length p - i * ChunkSize)" by (simp add: of_nat_diff)
  with s show "int (length (SplitChunks p ! i)) = min (int ChunkSize) (int (length p) - int i * int ChunkSize)"
    by (simp add: min.commute)
qed

text \<open>What a relay that kept the uploaded artifact answers; the chunks arrive in any order.\<close>

definition stored :: "bytes list \<Rightarrow> bytes \<Rightarrow> u32 \<Rightarrow> answers \<Rightarrow> bool" where
  "stored sealed box cnt ans \<longleftrightarrow>
     (\<exists>info. ans_Session ans = Inr info \<and> si_chunkCount info = cnt) \<and> ans_Manifest ans = Inr box \<and>
     (\<forall>i < length sealed. ans_Chunk ans (of_nat i) = Inr (sealed ! i)) \<and>
     set (ans_order ans) = {0..<length sealed} \<and> \<not> ans_cancelled ans"

lemma load_chunks_stored:
  assumes C: "crypto_ok C" and cnt: "ChunkCount (int (length p)) = Inr cnt"
    and s: "stored (map (sealed_chunk C keys cnt p) [0..<unat cnt]) box cnt ans"
    and m: "m_chunkCount m = cnt" "m_totalBytes m = int (length p)"
      "m_chunksSHA256 m = map (\<lambda>ct. hex_encode (sha256 C ct)) (map (sealed_chunk C keys cnt p) [0..<unat cnt])"
  shows "load_chunks C keys m ans (ans_order ans) (replicate (nat (m_totalBytes m)) 0) = Inr p"
proof -
  have order: "set (ans_order ans) = {0..<unat cnt}" using s by (simp add: stored_def)
  have "load_chunk C keys m ans i = Inr (take ChunkSize (drop (i * ChunkSize) p))" if i: "i < unat cnt" for i
    using s m i sealed_chunk_ok(2) [OF C cnt i, of keys] chunk_nth [OF cnt i] by (simp add: load_chunk_def stored_def)
  then obtain ys where ys: "load_chunks C keys m ans (ans_order ans) (replicate (nat (m_totalBytes m)) 0) = Inr ys" "length ys = length p"
    and nth: "\<forall>k < length p. k div ChunkSize \<in> set (ans_order ans) \<longrightarrow> ys ! k = p ! k"
    using load_chunks_rebuild [of "ans_order ans" p C keys m ans "replicate (nat (m_totalBytes m)) 0"] chunk_nth(2) [OF cnt] order m(2)
    by auto
  have "k div ChunkSize < unat cnt" if "k < length p" for k
  proof -
    have "unat cnt = (length p + ChunkSize - 1) div ChunkSize"
      using split_count [OF cnt] by (simp add: SplitChunks_chunks_of length_chunks_of)
    moreover have "Suc (k div ChunkSize) = (k + ChunkSize) div ChunkSize" using ChunkSize_pos by (simp add: div_add_self2)
    moreover have "(k + ChunkSize) div ChunkSize \<le> (length p + ChunkSize - 1) div ChunkSize" using that by (intro div_le_mono) simp
    ultimately show ?thesis by simp
  qed
  with nth order ys(2) have "ys = p" by (intro nth_equalityI) auto
  with ys(1) show ?thesis by simp
qed

lemma build_Inr:
  assumes "build addr high fmt created collector e sources = Inr (col, m)"
  shows "col = fold (collect_source addr high fmt) sources (collect_start e)"
    and "col_lines col \<noteq> 0" and "ChunkCount (int (length (col_text col))) = Inr (m_chunkCount m)"
    and "m = build_manifest created collector col (m_chunkCount m)"
  using assms by (auto simp: build_def Let_def build_manifest_def split: if_splits sum.splits)

lemma run_manifest_valid:
  assumes C: "crypto_ok C" and e: "engine_ready e" and b: "build addr high fmt created collector e sources = Inr (col, m)"
    and pl: "\<forall>s \<in> set sources. plain (s_Lines s) \<and> s_Kind s \<in> {''unit'', ''container'', ''file''}"
    and sealed: "length sealed = unat (m_chunkCount m)"
  shows "Manifest_Validate (with_hashes C sealed m) = None"
    and "\<exists>ms. m_sources m = ms \<and> map ms_name ms = map s_Name sources \<and> layout 0 ms (redacted_lines addr high e sources)"
    and "col_text col = concat (map text_of (redacted_lines addr high e sources))"
    and "\<forall>ls \<in> set (redacted_lines addr high e sources). plain ls"
proof -
  note r = build_Inr [OF b]
  have f: "col_eng (collect_start e) = e" "col_text (collect_start e) = []" "col_sources (collect_start e) = []"
    "col_counts (collect_start e) = []" "col_lines (collect_start e) = 0" by (simp_all add: collect_start_def)
  have "engine_ready (col_eng (collect_start e))" "\<forall>s \<in> set sources. plain (s_Lines s)" using e pl f by auto
  from collect_fold [OF this, of addr high fmt] obtain ms where
    ms: "col_sources col = ms" "layout 0 ms (redacted_lines addr high e sources)" "map ms_name ms = map s_Name sources"
      "map ms_kind ms = map s_Kind sources"
    and t: "col_text col = concat (map text_of (redacted_lines addr high e sources))"
    and plain: "\<forall>ls \<in> set (redacted_lines addr high e sources). plain ls"
    and l: "col_lines col = int (length (concat (redacted_lines addr high e sources)))"
    and cats: "fst ` set (col_counts col) \<subseteq> set RedactionCategories"
    unfolding r(1) [symmetric] f by (auto simp: Let_def)
  have src: "m_sources m = ms" "m_totalBytes m = int (length (col_text col))" "m_chunksSHA256 m = []"
    "m_version m = 1" "m_chunkSize m = 2 ^ 20" "rs_byCategory (m_redaction m) = col_counts col"
    using ms(1) by (subst r(4); simp add: build_manifest_def BlobVersion_def ChunkSize_def)+
  show "\<exists>ms. m_sources m = ms \<and> map ms_name ms = map s_Name sources \<and> layout 0 ms (redacted_lines addr high e sources)"
    using src ms by blast
  show "col_text col = concat (map text_of (redacted_lines addr high e sources))" by (rule t)
  show "\<forall>ls \<in> set (redacted_lines addr high e sources). plain ls" by (rule plain)
  have "ms \<noteq> []" using ms(2) l r(2) by (cases "redacted_lines addr high e sources") auto
  moreover have "tiles 0 ms (int (length (col_text col)))" using layout_tiles [OF ms(2)] t by simp
  moreover have "\<forall>s \<in> set ms. ms_kind s \<in> {''unit'', ''container'', ''file''}"
  proof -
    have "ms_kind ` set ms = s_Kind ` set sources" using ms(4) by (metis list.set_map)
    then have "\<exists>x \<in> set sources. ms_kind s = s_Kind x" if "s \<in> set ms" for s using that by blast
    then show ?thesis using pl by fastforce
  qed
  moreover have "lowerHex (hex_encode (sha256 C ct)) 64" for ct
    using hex_letters_lower [of "hex_encode (sha256 C ct)"] hex.set_encode [of "sha256 C ct"] C
    by (simp add: crypto_simps hex_encode_def [symmetric])
  ultimately show "Manifest_Validate (with_hashes C sealed m) = None"
    using ChunkCount_iff [THEN iffD1, OF r(3)] src sealed cats
    by (simp add: Manifest_valid manifest_spec_def with_hashes_def)
qed

lemma map2_sources:
  "length ms = length lss \<Longrightarrow>
     map (\<lambda>x. ms_name (src_Meta x)) (map2 (\<lambda>m ls. \<lparr>src_Meta = m, src_Lines = map valid ls\<rparr>) ms lss) = map ms_name ms \<and>
     map src_Lines (map2 (\<lambda>m ls. \<lparr>src_Meta = m, src_Lines = map valid ls\<rparr>) ms lss) = map (map valid) lss"
  by (induction ms lss rule: list_induct2) simp_all

text \<open>
  C29. What is collected is what is read: for every artifact that a run builds, sealing its chunks
  succeeds, and a reader with the token who gets the stored manifest and chunks, in any order, loads an
  artifact with the run's sources whose lines are the redacted lines, in order, none lost and none added.
  The manifest's JSON round trip is a hypothesis; only the repair of invalid UTF-8 is applied to a line.
\<close>

theorem collect_load_roundtrip:
  fixes C token m
  defines "keys \<equiv> DeriveBlobKeys C (Token_ContentRoot C token)"
  assumes C: "crypto_ok C" and e: "engine_ready e"
    and b: "build addr high fmt created collector e sources = Inr (col, m)"
    and s: "\<forall>s \<in> set sources. plain (s_Lines s) \<and> s_Kind s \<in> {''unit'', ''container'', ''file''}"
  shows "\<exists>sealed. seal_chunks C keys (m_chunkCount m) 0 (SplitChunks (string_bytes (col_text col))) = Inr sealed \<and>
    (\<forall>enc_manifest dec_manifest box ans. SealManifest C keys (m_chunkCount m) (enc_manifest (with_hashes C sealed m)) = Inr box \<longrightarrow>
      dec_manifest (enc_manifest (with_hashes C sealed m)) = Some (with_hashes C sealed m) \<longrightarrow>
      stored sealed box (m_chunkCount m) ans \<longrightarrow>
      (\<exists>a. Load C dec_manifest valid ans token = Inr a \<and>
        map (\<lambda>x. ms_name (src_Meta x)) (art_Sources a) = map s_Name sources \<and>
        map src_Lines (art_Sources a) = map (map valid) (redacted_lines addr high e sources)))"
proof -
  let ?p = "string_bytes (col_text col)" and ?cnt = "m_chunkCount m"
  let ?sealed = "map (sealed_chunk C keys ?cnt ?p) [0..<unat ?cnt]"
  let ?m = "with_hashes C ?sealed m"
  let ?cut = "map2 (\<lambda>m ls. \<lparr>src_Meta = m, src_Lines = map valid ls\<rparr>) (m_sources m) (redacted_lines addr high e sources)"
  have cnt: "ChunkCount (int (length ?p)) = Inr ?cnt" using build_Inr(3) [OF b] by (simp add: string_bytes_def)
  have mf: "m_chunkCount ?m = ?cnt" "m_totalBytes ?m = int (length ?p)" "m_sources ?m = m_sources m"
    "m_chunksSHA256 ?m = map (\<lambda>ct. hex_encode (sha256 C ct)) ?sealed"
    using arg_cong [OF build_Inr(4) [OF b], of m_totalBytes] arg_cong [OF build_Inr(4) [OF b], of m_chunksSHA256]
    by (simp_all add: with_hashes_def build_manifest_def string_bytes_def)
  have len: "length ?sealed = unat ?cnt" by simp
  note v = run_manifest_valid [OF C e b s len]
  from v(2) have names: "map ms_name (m_sources m) = map s_Name sources"
    and lay: "layout 0 (m_sources m) (redacted_lines addr high e sources)" by auto
  have cut: "cut_sources valid ?p (m_sources ?m) = Inr ?cut"
    using cut_layout [of "[]" "m_sources m" "redacted_lines addr high e sources" valid] lay v(3,4) mf(3) by simp
  have "\<exists>a. Load C dec_manifest valid ans token = Inr a \<and>
      map (\<lambda>x. ms_name (src_Meta x)) (art_Sources a) = map s_Name sources \<and>
      map src_Lines (art_Sources a) = map (map valid) (redacted_lines addr high e sources)"
    if box: "SealManifest C keys ?cnt (enc_manifest ?m) = Inr box" and dec: "dec_manifest (enc_manifest ?m) = Some ?m"
      and st: "stored ?sealed box ?cnt ans" for enc_manifest dec_manifest box ans
  proof -
    have "OpenManifest C keys ?cnt box = Inr (enc_manifest ?m)"
      using box C by (auto simp: SealManifest_def OpenManifest_def crypto_simps split: if_splits)
    moreover have "load_chunks C keys ?m ans (ans_order ans) (replicate (nat (m_totalBytes ?m)) 0) = Inr ?p"
      by (rule load_chunks_stored [OF C cnt st mf(1,2,4)])
    ultimately have "Load C dec_manifest valid ans token = Inr \<lparr>art_Manifest = ?m, art_Sources = ?cut\<rparr>"
      using st dec v(1) cut mf(1,2) by (auto simp: Load_def stored_def keys_def [symmetric] FromPlaintext_def Let_def)
    then show ?thesis using map2_sources [OF layout_length [OF lay]] names by simp
  qed
  with seal_chunks_ok [OF C cnt] show ?thesis by blast
qed

definition sample_logs :: "log_source list" where
  "sample_logs = [\<lparr>s_Kind = ''file'', s_Target = ''/var/log/a'', s_Name = ''a'', s_Lines = [''as'', ''b''], s_Since = 0,
     s_Until = 0, s_Stderr = '''', s_Note = ''''\<rparr>]"

lemma sample_redacted: "redacted_lines (\<lambda>_. True) (\<lambda>_. False) sample_engine sample_logs = [[''a<secret#1>'', ''b'']]"
  by code_simp

theorem collect_load_roundtrip_witness:
  "\<exists>dec ans a. Load toy_crypto dec id ans (Token []) = Inr a \<and> map src_Lines (art_Sources a) = [[''a<secret#1>'', ''b'']]"
proof -
  let ?keys = "DeriveBlobKeys toy_crypto (Token_ContentRoot toy_crypto (Token []))"
  let ?build = "build (\<lambda>_. True) (\<lambda>_. False) (\<lambda>_. '''') 0 '''' sample_engine sample_logs"
  have e: "engine_ready sample_engine" using Compile_ready [OF sample_re_ok sample_compiles] .
  have "length (col_text (fold (collect_source (\<lambda>_. True) (\<lambda>_. False) (\<lambda>_. '''')) sample_logs (collect_start sample_engine))) = 14"
    "col_lines (fold (collect_source (\<lambda>_. True) (\<lambda>_. False) (\<lambda>_. '''')) sample_logs (collect_start sample_engine)) = 2"
    by code_simp+
  then have "isl ?build = False" by (simp add: build_def Let_def ChunkCount_def MaxChunkCount_def ChunkSize_def)
  then obtain col m where b: "?build = Inr (col, m)" by (cases ?build) auto
  have s: "\<forall>s \<in> set sample_logs. plain (s_Lines s) \<and> s_Kind s \<in> {''unit'', ''container'', ''file''}"
    by (simp add: sample_logs_def plain_def newline_def)
  obtain box where box: "SealManifest toy_crypto ?keys (m_chunkCount m) [1] = Inr box"
    by (simp add: SealManifest_def MaxManifestBytes_def ChunkOverhead_def)
  show ?thesis using collect_load_roundtrip [OF toy_crypto_ok e b s, of "Token []" id]
  proof (elim exE conjE, goal_cases)
    case (1 sealed)
    let ?ans = "\<lparr>ans_Session = Inr \<lparr>si_mode = [], si_joined = False, si_collectorKey = [], si_collectorMAC = [], si_sessionID = [],
        si_expiresAt = 0, si_chunkCount = m_chunkCount m, si_chunksStored = 0, si_manifestStored = True\<rparr>,
      ans_Manifest = Inr box, ans_Chunk = (\<lambda>i. Inr (sealed ! unat i)), ans_order = [0..<length sealed], ans_cancelled = False\<rparr>"
    have cnt: "ChunkCount (int (length (string_bytes (col_text col)))) = Inr (m_chunkCount m)"
      using build_Inr(3) [OF b] by (simp add: length_string_bytes)
    have "length sealed \<le> 128" using 1(1) seal_chunks_ok [OF toy_crypto_ok cnt] ChunkCount_Inr(5) [OF cnt] by auto
    then have "stored sealed box (m_chunkCount m) ?ans" by (auto simp: stored_def unat_of_nat)
    from 1(2) [rule_format, OF _ _ this, of "\<lambda>_. [1]" "\<lambda>_. Some (with_hashes toy_crypto sealed m)"] box sample_redacted
    show ?case by (intro exI [of _ "\<lambda>_. Some (with_hashes toy_crypto sealed m)"] exI [of _ ?ans]) auto
  qed
qed
end
