(* ===== verification/Serve_Jobs.thy ===== *)
theory Serve_Jobs
  imports Source_Journal Envelope
begin

text \<open>
  The jobs of a live session (\<^verbatim>\<open>internal/serve/jobs.go\<close>): checking a requested job against the catalog and the
  scope, and running it. The surroundings of one call are a record: the file system, the journal and the
  commands, the regular-expression library, the parsing and printing of times, and the strict JSON decoder of
  each parameter type, which gives the value and whether it was accepted. One call sees one state
  of the system; two calls may see different ones.
\<close>

section \<open>Parameters and surroundings\<close>

record readFileParams =
  rf_Path :: string
  rf_From :: int
  rf_To :: int

record tailParams =
  tp_Path :: string
  tp_N :: int

record searchParams =
  se_Glob :: string
  se_Regex :: string
  se_Since :: string
  se_Before :: int
  se_After :: int
  se_Max :: int
  se_Cursor :: string

record journalParams =
  jp_Unit :: string
  jp_Since :: string
  jp_Until :: string
  jp_Regex :: string
  jp_Tail :: int
  jp_Max :: int
  jp_Cursor :: string

record dockerLogsParams =
  dl_Container :: string
  dl_Since :: string
  dl_Until :: string
  dl_Regex :: string
  dl_Tail :: int
  dl_Max :: int
  dl_Cursor :: string

record params_json =
  pd_list_dir :: "string \<Rightarrow> string \<times> bool"
  pd_read_file :: "string \<Rightarrow> readFileParams \<times> bool"
  pd_tail :: "string \<Rightarrow> tailParams \<times> bool"
  pd_search :: "string \<Rightarrow> searchParams \<times> bool"
  pd_journal :: "string \<Rightarrow> journalParams \<times> bool"
  pd_docker_logs :: "string \<Rightarrow> dockerLogsParams \<times> bool"
  pd_systemctl :: "string \<Rightarrow> string \<times> bool"

record dir_info =
  di_Name :: string
  di_Mode :: string
  di_Size :: int
  di_ModTime :: time
  di_IsDir :: bool

text \<open>What happens to a started command: its output, the error of reading it, and how it ends.\<close>

datatype command_end = Exited | ExitCode int | Killed

record command_run =
  cr_Pipe :: bool
  cr_Start :: bool
  cr_Stdout :: string
  cr_ReadFailed :: bool
  cr_Canceled :: bool
  cr_Stderr :: string
  cr_End :: command_end

record job_env =
  jv_os :: os_files
  jv_Stat :: "string \<Rightarrow> os_error + bool"
  jv_Lstat :: "string \<Rightarrow> os_error option"
  jv_ReadDir :: "string \<Rightarrow> os_error + (os_error + dir_info) list"
  jv_journal :: journal_env
  jv_command :: "string \<Rightarrow> string list \<Rightarrow> command_run"
  jv_regex :: "string \<Rightarrow> (string \<Rightarrow> bool) option"
  jv_duration :: "string \<Rightarrow> duration option"
  jv_parse :: "string \<Rightarrow> string \<Rightarrow> time option"
  jv_unix :: "time \<Rightarrow> int"
  jv_format :: "time \<Rightarrow> string"
  jv_text :: "file_error \<Rightarrow> string"
  jv_json :: params_json

text \<open>\<^verbatim>\<open>collect.ParseTime\<close>: days, a duration, or one of four layouts.\<close>

definition time_layouts :: "string list" where
  "time_layouts = [''2006-01-02T15:04:05Z07:00'', ''2006-01-02 15:04:05'', ''2006-01-02 15:04'', ''2006-01-02'']"

definition parse_days :: "string \<Rightarrow> int option" where
  "parse_days s =
     (if has_suffix s ''d'' then
        (case Atoi (butlast s) of
           Some days \<Rightarrow> if 0 \<le> days \<and> days \<le> (2 ^ 63 - 1) div (24 * hour) then Some days else None
         | None \<Rightarrow> None)
      else None)"

definition ParseTime :: "job_env \<Rightarrow> string \<Rightarrow> time \<Rightarrow> time option" where
  "ParseTime E s now =
     (case parse_days s of
        Some days \<Rightarrow> Some (now - days * 24 * hour)
      | None \<Rightarrow>
          (case jv_duration E s of
             Some d \<Rightarrow> if 0 \<le> d then Some (now - d)
                        else (case List.map_filter (\<lambda>layout. jv_parse E layout s) time_layouts of [] \<Rightarrow> None | t # _ \<Rightarrow> Some t)
           | None \<Rightarrow> (case List.map_filter (\<lambda>layout. jv_parse E layout s) time_layouts of [] \<Rightarrow> None | t # _ \<Rightarrow> Some t)))"

section \<open>Paths\<close>

text \<open>\<^verbatim>\<open>filepath.Dir\<close>, \<^verbatim>\<open>filepath.Base\<close> and \<^verbatim>\<open>filepath.Join\<close> of two elements, on any path.\<close>

definition path_Dir :: "string \<Rightarrow> string" where
  "path_Dir path = Clean (rev (dropWhile (\<lambda>c. c \<noteq> sep) (rev path)))"

definition path_Base :: "string \<Rightarrow> string" where
  "path_Base path =
     (if path = [] then dot
      else let p = rev (dropWhile (\<lambda>c. c = sep) (rev path)) in
           if p = [] then [sep] else rev (takeWhile (\<lambda>c. c \<noteq> sep) (rev p)))"

definition path_Join :: "string \<Rightarrow> string \<Rightarrow> string" where
  "path_Join a b = (if a \<noteq> [] then Clean (a @ [sep] @ b) else if b \<noteq> [] then Clean b else [])"

datatype job_error = Scoped string "string list" | Failure string

definition error_text :: "job_error \<Rightarrow> string" where
  "error_text e =
     (case e of
        Scoped dir scope \<Rightarrow> ''outside the scope ('' @ join_with '', '' scope @ '')''
      | Failure msg \<Rightarrow> msg)"

definition outsideScope :: "files \<Rightarrow> string \<Rightarrow> bool \<Rightarrow> job_error" where
  "outsideScope f path isDir = Scoped (if isDir then path else path_Dir path) (f_Allowed f)"

definition is_os :: "os_error \<Rightarrow> file_error \<Rightarrow> bool" where
  "is_os x e \<longleftrightarrow> e = FE_Os x \<or> e = FE_Stream (Os x)"

definition failed :: "job_env \<Rightarrow> string \<Rightarrow> file_error \<Rightarrow> job_error" where
  "failed E what e =
     Failure (what @ '': '' @
       (if is_os NotExist e then ''no such file''
        else if is_os Permission e then ''permission denied for the user running aken serve''
        else jv_text E e))"

definition scopeGrant :: "job_env \<Rightarrow> string \<Rightarrow> string + string list" where
  "scopeGrant E dir =
     (case jv_Stat E dir of
        Inl NotExist \<Rightarrow> Inl ''the directory does not exist''
      | Inl _ \<Rightarrow> Inl ''the directory cannot be read''
      | Inr isDir \<Rightarrow>
          if \<not> isDir then Inl ''it is not a directory''
          else (case os_EvalSymlinks (jv_os E) dir of
                  Inl _ \<Rightarrow> Inl ''the directory cannot be resolved''
                | Inr canonical \<Rightarrow> Inr (if canonical = dir then [dir] else [dir, canonical])))"

definition pathGrant :: "job_env \<Rightarrow> string \<Rightarrow> string + string list" where
  "pathGrant E path =
     (if path_Dir path = path then Inl ''it is a filesystem root''
      else (case jv_Lstat E path of
              Some NotExist \<Rightarrow> Inl ''the path does not exist''
            | Some _ \<Rightarrow> Inl ''the path cannot be read''
            | None \<Rightarrow>
                (case os_EvalSymlinks (jv_os E) path of
                   Inl _ \<Rightarrow> Inl ''the path cannot be resolved''
                 | Inr canonical \<Rightarrow> Inr (if canonical = path then [path] else [path, canonical]))))"

text \<open>
  The loop of \<^verbatim>\<open>resolve\<close> up from a missing name to a directory that exists. The number of turns is bounded by
  the number of path elements: the loop stops at the root.
\<close>

fun resolve_up :: "nat \<Rightarrow> job_env \<Rightarrow> string \<Rightarrow> string \<Rightarrow> string option" where
  "resolve_up 0 E path parent = None"
| "resolve_up (Suc n) E path parent =
     (case os_EvalSymlinks (jv_os E) parent of
        Inr resolved \<Rightarrow> Some (path_Join resolved (case Rel parent path of None \<Rightarrow> [] | Some rel \<Rightarrow> rel))
      | Inl e \<Rightarrow> if e \<noteq> NotExist \<or> parent = path_Dir parent then None else resolve_up n E path (path_Dir parent))"

definition canonical_path :: "job_env \<Rightarrow> string \<Rightarrow> string option" where
  "canonical_path E path =
     (case os_EvalSymlinks (jv_os E) path of
        Inr canonical \<Rightarrow> Some canonical
      | Inl NotExist \<Rightarrow> resolve_up (Suc (length (elems path))) E path (path_Dir path)
      | Inl _ \<Rightarrow> None)"

definition resolve :: "job_env \<Rightarrow> files \<Rightarrow> string \<Rightarrow> bool \<Rightarrow> job_error + string" where
  "resolve E f path0 isDir =
     (if \<not> IsAbs path0 then Inl (Failure ''path must be absolute'')
      else
        let path = Clean path0 in
        if \<not> Permits f path then Inl (outsideScope f path isDir)
        else (case (case Files_Open (jv_os E) f path of
                      Inl e \<Rightarrow> if is_os NotExist e then None else Some e
                    | Inr _ \<Rightarrow> None) of
                Some e \<Rightarrow> Inl (failed E ''path cannot be opened inside the scope'' e)
              | None \<Rightarrow>
                  (case canonical_path E path of
                     None \<Rightarrow> Inl (Failure ''path cannot be resolved'')
                   | Some canonical \<Rightarrow>
                       if Permits f canonical then Inr canonical
                       else Inl (Failure ''path resolves outside the scope through a link''))))"

definition sensitive_suffixes :: "string list" where
  "sensitive_suffixes = [''.pem'', ''.key'', ''.p12'', ''.pfx'', ''.kdbx'', ''.keystore'', ''_rsa'', ''_ed25519'', ''_ecdsa'', ''_dsa'']"

definition sensitive :: "string \<Rightarrow> bool" where
  "sensitive path \<longleftrightarrow>
     (\<exists>part \<in> set (split_on sep (Clean path)). part = ''.ssh'' \<or> part = ''.gnupg'' \<or> part = ''.aws'') \<or>
     (let base = path_Base path in
      base = ''.env'' \<or> has_prefix base ''.env.'' \<or> base = ''shadow'' \<or> base = ''gshadow'' \<or> has_prefix base ''id_'' \<or>
      (\<exists>suf \<in> set sensitive_suffixes. has_suffix base suf))"

text \<open>The loop of \<^verbatim>\<open>expand\<close> over the names that match: the paths found so far, in order.\<close>

fun expand_loop :: "job_env \<Rightarrow> files \<Rightarrow> time \<Rightarrow> string list \<Rightarrow> string list \<Rightarrow> job_error + string list" where
  "expand_loop E f since [] paths = Inr paths"
| "expand_loop E f since (m # ms) paths =
     (case resolve E f m False of
        Inl _ \<Rightarrow> expand_loop E f since ms paths
      | Inr path \<Rightarrow>
          if path \<in> set paths then expand_loop E f since ms paths
          else (case Files_Open (jv_os E) f path of
                  Inl _ \<Rightarrow> expand_loop E f since ms paths
                | Inr file \<Rightarrow>
                    if fo_StatErr file \<noteq> None \<or> \<not> fo_Regular file \<or> fo_ModTime file < since then expand_loop E f since ms paths
                    else if length paths + 1 > 200 then Inl (Failure ''glob matches more than 200 files'')
                    else expand_loop E f since ms (paths @ [path])))"

definition glob_base :: "string \<Rightarrow> string" where
  "glob_base pattern = path_Dir (takeWhile (\<lambda>c. c \<notin> {CHR ''*'', CHR ''?'', CHR ''['', CHR 0x5C}) pattern)"

definition expand :: "job_env \<Rightarrow> files \<Rightarrow> string \<Rightarrow> time \<Rightarrow> job_error + string list" where
  "expand E f pattern since =
     (if \<not> IsAbs pattern then Inl (Failure ''glob must be absolute'')
      else (case resolve E f (glob_base pattern) True of
              Inl e \<Rightarrow> Inl e
            | Inr _ \<Rightarrow>
                (case os_Glob (jv_os E) pattern of
                   None \<Rightarrow> Inl (Failure ''invalid glob'')
                 | Some matches \<Rightarrow> expand_loop E f since matches [])))"


section \<open>Preparing a job\<close>

record preparedJob =
  pj_job :: job
  pj_paths :: "string list"
  pj_target :: string
  pj_description :: string
  pj_sensitive :: bool
  pj_widening :: bool
  pj_read :: readFileParams
  pj_tail :: tailParams
  pj_search :: searchParams
  pj_journal :: journalParams
  pj_spec :: spec
  pj_since :: time
  pj_until :: time

definition new_prepared :: "job \<Rightarrow> preparedJob" where
  "new_prepared j =
     \<lparr>pj_job = j, pj_paths = [], pj_target = [], pj_description = [], pj_sensitive = False, pj_widening = False,
      pj_read = \<lparr>rf_Path = [], rf_From = 0, rf_To = 0\<rparr>, pj_tail = \<lparr>tp_Path = [], tp_N = 0\<rparr>,
      pj_search = \<lparr>se_Glob = [], se_Regex = [], se_Since = [], se_Before = 0, se_After = 0, se_Max = 0, se_Cursor = []\<rparr>,
      pj_journal = \<lparr>jp_Unit = [], jp_Since = [], jp_Until = [], jp_Regex = [], jp_Tail = 0, jp_Max = 0, jp_Cursor = []\<rparr>,
      pj_spec = \<lparr>sp_Kind = [], sp_Target = [], sp_Match = []\<rparr>, pj_since = 0, pj_until = 0\<rparr>"

definition params_error :: "bool \<Rightarrow> job_error option" where
  "params_error ok = (if ok then None else Some (Failure ''invalid params''))"

text \<open>The cases of the switch; each gives the job and the error, if any.\<close>

definition prepare_read :: "job_env \<Rightarrow> preparedJob \<Rightarrow> preparedJob \<times> job_error option" where
  "prepare_read E p =
     (case pd_read_file (jv_json E) (job_Params (pj_job p)) of (q0, ok) \<Rightarrow>
        let q1 = (if rf_From q0 = 0 then q0\<lparr>rf_From := 1\<rparr> else q0);
            q = (if rf_To q1 = 0 \<and> rf_From q1 \<le> 2 ^ 63 - 1 - 499 then q1\<lparr>rf_To := rf_From q1 + 499\<rparr> else q1);
            p1 = p\<lparr>pj_read := q, pj_target := rf_Path q\<rparr>
        in if rf_From q < 1 \<or> rf_To q < rf_From q \<or> rf_To q - rf_From q \<ge> 500
           then (p1, Some (Failure ''invalid line range''))
           else (p1\<lparr>pj_description := ''lines '' @ show_int (rf_From q) @ ''-'' @ show_int (rf_To q)\<rparr>, params_error ok))"

definition prepare_tail :: "job_env \<Rightarrow> preparedJob \<Rightarrow> preparedJob \<times> job_error option" where
  "prepare_tail E p =
     (case pd_tail (jv_json E) (job_Params (pj_job p)) of (q0, ok) \<Rightarrow>
        let q = (if tp_N q0 = 0 then q0\<lparr>tp_N := 100\<rparr> else q0);
            p1 = p\<lparr>pj_tail := q, pj_target := tp_Path q\<rparr>
        in if tp_N q < 1 \<or> tp_N q > 500 then (p1, Some (Failure ''invalid tail count''))
           else (p1\<lparr>pj_description := ''last '' @ show_int (tp_N q) @ '' lines''\<rparr>, params_error ok))"

definition search_description :: "string \<Rightarrow> string list \<Rightarrow> string" where
  "search_description regex paths =
     ''regex '' @ regex @ ''  '' @ show_nat (length paths) @ '' files'' @
     (if paths \<noteq> [] then ''; first: '' @ join_with '', '' (take 3 paths) else []) @
     (if length paths > 3 then '' and '' @ show_nat (length paths - 3) @ '' more'' else [])"

definition prepare_search :: "job_env \<Rightarrow> files \<Rightarrow> time \<Rightarrow> preparedJob \<Rightarrow> preparedJob \<times> job_error option" where
  "prepare_search E f now p =
     (case pd_search (jv_json E) (job_Params (pj_job p)) of (q0, ok) \<Rightarrow>
        if \<not> ok then (p\<lparr>pj_search := q0\<rparr>, params_error ok)
        else
          let q = (if se_Max q0 = 0 then q0\<lparr>se_Max := 50\<rparr> else q0);
              p1 = p\<lparr>pj_search := q, pj_target := se_Glob q\<rparr>
          in if se_Before q < 0 \<or> se_Before q > 50 \<or> se_After q < 0 \<or> se_After q > 50 \<or> se_Max q < 1 \<or> se_Max q > 200
             then (p1, Some (Failure ''invalid search limits''))
             else if jv_regex E (se_Regex q) = None then (p1, Some (Failure ''invalid regex''))
             else (case (if se_Since q = [] then Some 0 else ParseTime E (se_Since q) now) of
                     None \<Rightarrow> (p1, Some (Failure ''invalid since''))
                   | Some since \<Rightarrow>
                       let p2 = p1\<lparr>pj_description := ''regex '' @ se_Regex q\<rparr> in
                       (case expand E f (se_Glob q) since of
                          Inl e \<Rightarrow> (p2, Some e)
                        | Inr paths \<Rightarrow>
                            if parse_cursor (length paths) (se_Cursor q) = None
                            then (p2\<lparr>pj_paths := paths\<rparr>, Some (Failure ''invalid cursor''))
                            else (p2\<lparr>pj_paths := paths, pj_description := search_description (se_Regex q) paths\<rparr>, None))))"

definition journal_limits :: "journalParams \<Rightarrow> bool" where
  "journal_limits q \<longleftrightarrow>
     \<not> (jp_Tail q < 0 \<or> jp_Tail q > 500 \<or> jp_Max q < 0 \<or> jp_Max q > 500
        \<or> jp_Tail q > 0 \<and> (jp_Regex q \<noteq> [] \<or> jp_Max q \<noteq> 0 \<or> jp_Cursor q \<noteq> []))"

text \<open>The container a name stands for, as the journal source to read.\<close>

definition container_source :: "job_env \<Rightarrow> spec \<Rightarrow> job_error + spec" where
  "container_source E sp =
     (case ResolveContainers (jv_journal E) (sp_Target sp) of
        Inl _ \<Rightarrow> Inl (Failure ''cannot resolve container'')
      | Inr names \<Rightarrow>
          if \<not> list_all ValidateContainer names then Inl (Failure ''invalid container name'')
          else (case names of
                  [name] \<Rightarrow>
                    Inr (sp\<lparr>sp_Target := name,
                            sp_Match := (if hex_id name then (if length name = 64 then ''CONTAINER_ID_FULL='' else ''CONTAINER_ID='') @ name
                                         else sp_Match sp)\<rparr>)
                | _ \<Rightarrow> Inl (Failure ''name matches several containers'')))"

definition prepareJournal :: "job_env \<Rightarrow> time \<Rightarrow> preparedJob \<Rightarrow> preparedJob \<times> job_error option" where
  "prepareJournal E now p =
     (let q0 = pj_journal p in
      if \<not> journal_limits q0 then (p, Some (Failure ''invalid journal limits''))
      else
        let q1 = (if jp_Max q0 = 0 then q0\<lparr>jp_Max := 200\<rparr> else q0); p1 = p\<lparr>pj_journal := q1\<rparr> in
        if jv_regex E (jp_Regex q1) = None then (p1, Some (Failure ''invalid regex''))
        else if jp_Cursor q1 \<noteq> [] \<and> (case Atoi (jp_Cursor q1) of None \<Rightarrow> True | Some n \<Rightarrow> n < 0) then (p1, Some (Failure ''invalid cursor''))
        else
          let q2 = (if jp_Since q1 = [] then q1\<lparr>jp_Since := ''1h''\<rparr> else q1);
              q = (if jp_Until q2 = [] then q2\<lparr>jp_Until := ''0s''\<rparr> else q2);
              p2 = p\<lparr>pj_journal := q\<rparr>
          in (case ParseTime E (jp_Since q) now of
                None \<Rightarrow> (p2, Some (Failure ''invalid since''))
              | Some since \<Rightarrow>
                  (case ParseTime E (jp_Until q) now of
                     None \<Rightarrow> (p2\<lparr>pj_since := since\<rparr>, Some (Failure ''invalid journal window''))
                   | Some until \<Rightarrow>
                       let p3 = p2\<lparr>pj_since := since, pj_until := until\<rparr> in
                       if \<not> since < until then (p3, Some (Failure ''invalid journal window''))
                       else (case (if sp_Kind (pj_spec p) = ''container'' then container_source E (pj_spec p) else Inr (pj_spec p)) of
                               Inl e \<Rightarrow> (p3, Some e)
                             | Inr sp \<Rightarrow>
                                 (p3\<lparr>pj_spec := sp, pj_target := sp_Kind sp @ '' '' @ sp_Target sp,
                                     pj_description := jv_format E since @ '' to '' @ jv_format E until @
                                       (if jp_Tail q > 0 then ''  last '' @ show_int (jp_Tail q) else ''  first '' @ show_int (jp_Max q)) @ '' lines''\<rparr>,
                                  None)))))"

definition prepare_unit :: "job_env \<Rightarrow> time \<Rightarrow> preparedJob \<Rightarrow> preparedJob \<times> job_error option" where
  "prepare_unit E now p =
     (case pd_journal (jv_json E) (job_Params (pj_job p)) of (q, ok) \<Rightarrow>
        let p1 = p\<lparr>pj_journal := q, pj_spec := \<lparr>sp_Kind = ''unit'', sp_Target = jp_Unit q, sp_Match = []\<rparr>\<rparr> in
        if \<not> ok then (p1, params_error ok)
        else if \<not> ValidateUnit (jp_Unit q) then (p1, Some (Failure ''invalid unit name''))
        else prepareJournal E now p1)"

definition prepare_docker :: "job_env \<Rightarrow> time \<Rightarrow> preparedJob \<Rightarrow> preparedJob \<times> job_error option" where
  "prepare_docker E now p =
     (case pd_docker_logs (jv_json E) (job_Params (pj_job p)) of (q, ok) \<Rightarrow>
        let p1 = p\<lparr>pj_journal := \<lparr>jp_Unit = [], jp_Since = dl_Since q, jp_Until = dl_Until q, jp_Regex = dl_Regex q,
                                   jp_Tail = dl_Tail q, jp_Max = dl_Max q, jp_Cursor = dl_Cursor q\<rparr>,
                     pj_spec := \<lparr>sp_Kind = ''container'', sp_Target = dl_Container q, sp_Match = []\<rparr>\<rparr> in
        if \<not> ok then (p1, params_error ok)
        else if \<not> ValidateContainer (dl_Container q) then (p1, Some (Failure ''invalid container name''))
        else prepareJournal E now p1)"

definition prepare_params :: "job_env \<Rightarrow> files \<Rightarrow> time \<Rightarrow> preparedJob \<Rightarrow> preparedJob \<times> job_error option" where
  "prepare_params E f now p =
     (let name = job_Name (pj_job p); params = job_Params (pj_job p) in
      if name = ''list_dir'' then
        (case pd_list_dir (jv_json E) params of (path, ok) \<Rightarrow> (p\<lparr>pj_target := path\<rparr>, params_error ok))
      else if name = ''read_file'' then prepare_read E p
      else if name = ''tail'' then prepare_tail E p
      else if name = ''search'' then prepare_search E f now p
      else if name = ''journal'' then prepare_unit E now p
      else if name = ''docker_logs'' then prepare_docker E now p
      else if name = ''systemctl_status'' then
        (case pd_systemctl (jv_json E) params of (unit_name, ok) \<Rightarrow>
           (p\<lparr>pj_target := unit_name\<rparr>,
            if \<not> ok then params_error ok else if ValidateUnit unit_name then None else Some (Failure ''invalid unit name'')))
      else (p, None))"

definition path_job :: "string \<Rightarrow> bool" where
  "path_job name \<longleftrightarrow> name = ''read_file'' \<or> name = ''tail'' \<or> name = ''list_dir''"

definition mark_sensitive :: "preparedJob \<Rightarrow> preparedJob" where
  "mark_sensitive p = p\<lparr>pj_sensitive := (pj_sensitive p \<or> (\<exists>path \<in> set (pj_paths p). sensitive path))\<rparr>"

definition prepare :: "job_env \<Rightarrow> job \<Rightarrow> u8 \<Rightarrow> files \<Rightarrow> time \<Rightarrow> preparedJob \<times> job_error option" where
  "prepare E j cls f now =
     (let p = new_prepared j in
      if \<not> ValidateJobID (job_ID j) then (p, Some (Failure ''invalid job id''))
      else (case CatalogClass (job_Name j) of
              None \<Rightarrow> (p, Some (Failure ''unknown job name''))
            | Some expected \<Rightarrow>
                if expected \<noteq> cls then (p, Some (Failure ''class mismatch''))
                else (case prepare_params E f now p of
                        (p1, Some e) \<Rightarrow> (p1, Some e)
                      | (p1, None) \<Rightarrow>
                          if path_job (job_Name j) then
                            let p2 = p1\<lparr>pj_sensitive := sensitive (pj_target p1)\<rparr> in
                            (case resolve E f (pj_target p1) (job_Name j = ''list_dir'') of
                               Inl e \<Rightarrow> (p2, Some e)
                             | Inr t \<Rightarrow> (mark_sensitive (p2\<lparr>pj_target := t, pj_paths := [t]\<rparr>), None))
                          else (mark_sensitive p1, None))))"

section \<open>Running a job\<close>

text \<open>What running a job gives: the lines, the cursor of the next page, and the error, if any.\<close>

type_synonym job_output = "string list \<times> string \<times> job_error option"

definition Files_List :: "job_env \<Rightarrow> files \<Rightarrow> string \<Rightarrow> file_error + dir_info list" where
  "Files_List E f path =
     (case Files_Open (jv_os E) f path of
        Inl e \<Rightarrow> Inl e
      | Inr _ \<Rightarrow>
          (case jv_ReadDir E path of
             Inl e \<Rightarrow> Inl (FE_Os e)
           | Inr entries \<Rightarrow>
               (case List.map_filter (\<lambda>x. case x of Inl e \<Rightarrow> Some e | Inr _ \<Rightarrow> None) entries of
                  e # _ \<Rightarrow> Inl (FE_Os e)
                | [] \<Rightarrow>
                    Inr (map (\<lambda>i. if di_IsDir i then i\<lparr>di_Name := di_Name i @ [sep]\<rparr> else i)
                          (sort_key di_Name (List.map_filter (\<lambda>x. case x of Inl _ \<Rightarrow> None | Inr i \<Rightarrow> Some i) entries))))))"

definition listDir :: "job_env \<Rightarrow> files \<Rightarrow> string \<Rightarrow> job_output" where
  "listDir E f path =
     (case Files_List E f path of
        Inl e \<Rightarrow> ([], [], Some (failed E ''cannot list directory'' e))
      | Inr entries \<Rightarrow>
          (map (\<lambda>i. di_Mode i @ '' '' @ show_int (di_Size i) @ '' '' @ jv_format E (di_ModTime i) @ '' '' @ di_Name i) (take 500 entries),
           if length entries > 500 then di_Name (entries ! 500) else [], None))"

definition numbered :: "int \<Rightarrow> string list \<Rightarrow> string list" where
  "numbered first lines = map (\<lambda>(i, line). show_int (first + int i) @ '': '' @ line) (enumerate 0 lines)"

definition serve_readFile :: "job_env \<Rightarrow> files \<Rightarrow> preparedJob \<Rightarrow> job_output" where
  "serve_readFile E f p =
     (case ReadLines (jv_os E) f (pj_target p) (rf_From (pj_read p)) (rf_To (pj_read p)) of
        Inl e \<Rightarrow> ([], [], Some (failed E ''cannot read file'' e))
      | Inr (data, n) \<Rightarrow>
          (numbered (rf_From (pj_read p)) data,
           if rf_To (pj_read p) < int n then show_int (rf_To (pj_read p) + 1) else [], None))"

definition serve_search :: "job_env \<Rightarrow> files \<Rightarrow> preparedJob \<Rightarrow> job_output" where
  "serve_search E f p =
     (let q = pj_search p in
      case Files_Search (jv_os E) (jv_regex E) f (se_Regex q)
             \<lparr>fq_Paths = pj_paths p, fq_Before = se_Before q, fq_After = se_After q, fq_Max = se_Max q, fq_Cursor = se_Cursor q\<rparr> of
        Inl e \<Rightarrow> ([], [], Some (failed E ''cannot search files'' e))
      | Inr (lines, nxt) \<Rightarrow> (lines, nxt, None))"

definition serve_tail :: "job_env \<Rightarrow> files \<Rightarrow> preparedJob \<Rightarrow> job_output" where
  "serve_tail E f p =
     (case TailLines (jv_os E) f (pj_target p) (tp_N (pj_tail p)) of
        Inl e \<Rightarrow> ([], [], Some (failed E ''cannot read file'' e))
      | Inr (data, n) \<Rightarrow> (numbered (int n - int (length data) + 1) data, [], None))"

definition journal_page :: "journalParams \<Rightarrow> string list \<Rightarrow> job_output" where
  "journal_page q lines =
     (if jp_Tail q > 0 then (drop (length lines - nat (jp_Tail q)) lines, [], None)
      else
        let start = min (case Atoi (jp_Cursor q) of None \<Rightarrow> 0 | Some n \<Rightarrow> n) (int (length lines));
            stop = min (start + jp_Max q) (int (length lines))
        in (take (nat (stop - start)) (drop (nat start) lines),
            if stop < int (length lines) then show_int stop else [], None))"

definition serve_journal :: "job_env \<Rightarrow> preparedJob \<Rightarrow> job_output" where
  "serve_journal E p =
     (let said = (\<lambda>stderr. ([], [], Some (Failure (''journalctl: '' @ stderr))));
          cannot = ([], [], Some (Failure ''cannot read journal'')) in
      case ReadJournal (jv_journal E) (jv_unix E) (pj_spec p) (pj_since p) (pj_until p) of
        Inl (JE_Command _ stderr lines) \<Rightarrow> if lines = [] \<and> stderr \<noteq> [] then said stderr else cannot
      | Inl _ \<Rightarrow> cannot
      | Inr s \<Rightarrow>
          if s_Lines s = [] \<and> s_Stderr s \<noteq> [] then said (s_Stderr s)
          else (case jv_regex E (jp_Regex (pj_journal p)) of
                  None \<Rightarrow> cannot
                | Some re \<Rightarrow> journal_page (pj_journal p) (filter re (s_Lines s))))"

definition command :: "job_env \<Rightarrow> string \<Rightarrow> string list \<Rightarrow> job_error + string list" where
  "command E name args =
     (case BinaryPath (jv_journal E) name of
        Inl _ \<Rightarrow> Inl (Failure (name @ '' not found''))
      | Inr path \<Rightarrow>
          let r = jv_command E path args in
          if \<not> cr_Pipe r then Inl (Failure ''cannot read command output'')
          else if \<not> cr_Start r then Inl (Failure ''cannot start command'')
          else
            let data = take (8 * 2 ^ 20) (cr_Stdout r); capped = (length data = 8 * 2 ^ 20);
                stderr = (if name = ''systemctl'' then first_stderr (cr_Stderr r) else [])
            in if cr_Canceled r then Inl (Failure ''command canceled'')
               else if cr_ReadFailed r then Inl (Failure ''cannot read command output'')
               else if data = [] \<and> stderr \<noteq> [] then Inl (Failure (name @ '': '' @ stderr))
               else
                 let accepted = (name = ''systemctl'' \<and> (case cr_End r of ExitCode n \<Rightarrow> 0 \<le> n \<and> n \<le> 4 | _ \<Rightarrow> False))
                 in if cr_End r \<noteq> Exited \<and> \<not> accepted \<and> \<not> capped then Inl (Failure ''command failed'')
                    else Inr (if data = [] then [] else split_on newline (trim_newline data)))"

definition systemctlStatus :: "job_env \<Rightarrow> string \<Rightarrow> job_output" where
  "systemctlStatus E unit_name =
     (if \<not> ValidateUnit unit_name then ([], [], Some (Failure ''invalid unit name''))
      else (case command E ''systemctl'' [''status'', ''--no-pager'', ''--lines=0'', unit_name] of
              Inl e \<Rightarrow> ([], [], Some e)
            | Inr lines \<Rightarrow> (lines, [], None)))"

definition ps :: "job_env \<Rightarrow> job_output" where
  "ps E =
     (case command E ''ps'' [''-eo'', ''pid,ppid,user,%cpu,%mem,rss,etimes,args'', ''--sort=-%cpu''] of
        Inl e \<Rightarrow> ([], [], Some e)
      | Inr lines \<Rightarrow> (take 500 lines, if length lines > 500 then ''500'' else [], None))"

definition df :: "job_env \<Rightarrow> job_output" where
  "df E =
     (case command E ''df'' [''-hP''] of
        Inl e \<Rightarrow> ([], [], Some e)
      | Inr lines \<Rightarrow> (lines, [], None))"

definition execute :: "job_env \<Rightarrow> preparedJob \<Rightarrow> files \<Rightarrow> job_output" where
  "execute E p f =
     (let name = job_Name (pj_job p) in
      if name = ''list_dir'' then listDir E f (pj_target p)
      else if name = ''read_file'' then serve_readFile E f p
      else if name = ''search'' then serve_search E f p
      else if name = ''tail'' then serve_tail E f p
      else if name = ''journal'' \<or> name = ''docker_logs'' then serve_journal E p
      else if name = ''systemctl_status'' then systemctlStatus E (pj_target p)
      else if name = ''ps'' then ps E
      else if name = ''df'' then df E
      else ([], [], Some (Failure ''unknown job name'')))"
end
