(* ===== verification/Serve.thy ===== *)
theory Serve
  imports Serve_Jobs Collect
begin

text \<open>
  A live session on the collector's side (\<^verbatim>\<open>internal/serve\<close>): the approval screen, the local audit copy, and the
  handling of a job from its envelope to the results that are sent. A step takes the session's state and gives
  an error or a value with the new state; an error ends the session.

  Every effect on the outside (a write of the local copy, a post to the relay) asks the environment whether
  it fails; \<open>sv_tick\<close> numbers the calls, so that time, files and failures may differ from call to call.
  The keys pressed at the terminal are a list that the screens consume. The terminal's output is not modelled.
\<close>

section \<open>State\<close>

record auditEvent =
  ae_Time :: time
  ae_Seq :: u64
  ae_JobID :: string
  ae_Name :: string
  ae_Event :: string
  ae_Params :: string
  ae_Paths :: "string list"
  ae_Status :: string
  ae_Lines :: nat
  ae_LinesRedacted :: int
  ae_Flags :: int
  ae_Error :: string

record session_json =
  sj_Level :: int
  sj_ExpiresAt :: time
  sj_JoinedAt :: time
  sj_JoinedVia :: string
  sj_Scope :: "string list"
  sj_EndedAt :: time

record audit =
  au_log :: "auditEvent list"
  au_results :: "(u64 \<times> string list) list"
  au_session :: session_json
  au_written :: "session_json option"
  au_mapping :: "(string \<times> string) list"
  au_mappingSize :: int

type_synonym keystroke = "string + char"

text \<open>\<open>sv_posted\<close> holds every envelope handed to the relay client, also one whose post failed.\<close>

record serve_session =
  sv_Level :: int
  sv_files :: files
  sv_keys :: sessionKeys
  sv_engine :: engine
  sv_audit :: audit
  sv_input :: "keystroke list"
  sv_posted :: "envelope list"
  sv_nextJob :: u64
  sv_nextResult :: u64
  sv_jobs :: int
  sv_sent :: int
  sv_denied :: int
  sv_rejected :: int
  sv_tick :: nat

record serve_env =
  ev_crypto :: crypto
  ev_id :: sessionID
  ev_addr :: "string \<Rightarrow> bool"
  ev_high :: "string \<Rightarrow> bool"
  ev_fail :: "nat \<Rightarrow> string option"
  ev_now :: "nat \<Rightarrow> time"
  ev_job :: "nat \<Rightarrow> job_env"
  ev_pageLines :: int
  ev_indent :: "string \<Rightarrow> string option"
  ev_json_valid :: "string \<Rightarrow> bool"
  ev_dec_job :: "bytes \<Rightarrow> job \<times> bool"
  ev_dec_plan :: "string \<Rightarrow> job list \<times> bool"
  ev_enc_result :: "result \<Rightarrow> bytes"

type_synonym 'a act = "serve_session \<Rightarrow> (string + 'a) \<times> serve_session"

definition and_then :: "'a act \<Rightarrow> ('a \<Rightarrow> 'b act) \<Rightarrow> 'b act" where
  "and_then m k s = (case m s of (Inl e, s') \<Rightarrow> (Inl e, s') | (Inr x, s') \<Rightarrow> k x s')"

definition effect :: "serve_env \<Rightarrow> (serve_session \<Rightarrow> serve_session) \<Rightarrow> unit act" where
  "effect E upd s =
     (let s1 = s\<lparr>sv_tick := sv_tick s + 1\<rparr> in
      case ev_fail E (sv_tick s) of Some e \<Rightarrow> (Inl e, s1) | None \<Rightarrow> (Inr (), upd s1))"

section \<open>The audit copy\<close>

definition upd_audit :: "(audit \<Rightarrow> audit) \<Rightarrow> serve_session \<Rightarrow> serve_session" where
  "upd_audit g s = s\<lparr>sv_audit := g (sv_audit s)\<rparr>"

definition writeSession :: "serve_env \<Rightarrow> unit act" where
  "writeSession E = effect E (upd_audit (\<lambda>a. a\<lparr>au_written := Some (au_session a)\<rparr>))"

definition audit_mapping :: "serve_env \<Rightarrow> (string \<times> string) list \<Rightarrow> unit act" where
  "audit_mapping E values s =
     (if int (length values) = au_mappingSize (sv_audit s) then (Inr (), s)
      else effect E (upd_audit (\<lambda>a. a\<lparr>au_mapping := values, au_mappingSize := int (length values)\<rparr>)) s)"

definition audit_event :: "serve_env \<Rightarrow> u64 \<Rightarrow> preparedJob \<Rightarrow> string \<Rightarrow> result \<Rightarrow> unit act" where
  "audit_event E seq p event r s =
     effect E (upd_audit (\<lambda>a. a\<lparr>au_log := au_log a @
       [\<lparr>ae_Time = ev_now E (sv_tick s), ae_Seq = seq, ae_JobID = job_ID (pj_job p), ae_Name = job_Name (pj_job p), ae_Event = event,
         ae_Params = (if ev_json_valid E (job_Params (pj_job p)) then job_Params (pj_job p) else ''{}''), ae_Paths = pj_paths p,
         ae_Status = res_Status r, ae_Lines = length (res_Lines r), ae_LinesRedacted = rr_LinesRedacted (res_Redaction r),
         ae_Flags = rr_Flags (res_Redaction r), ae_Error = res_Error r\<rparr>]\<rparr>)) s"

text \<open>The file of a result is created only if it does not exist yet.\<close>

definition audit_result :: "serve_env \<Rightarrow> u64 \<Rightarrow> result \<Rightarrow> unit act" where
  "audit_result E seq r s =
     (if seq \<in> fst ` set (au_results (sv_audit s)) then (Inl ''file exists'', s)
      else effect E (upd_audit (\<lambda>a. a\<lparr>au_results := au_results a @ [(seq, res_Lines r)]\<rparr>)) s)"

section \<open>The screens\<close>

fun Ask :: "char list \<Rightarrow> keystroke list \<Rightarrow> (string + char) \<times> keystroke list" where
  "Ask choices [] = (Inl ''EOF'', [])"
| "Ask choices (Inl e # ks) = (Inl e, ks)"
| "Ask choices (Inr c # ks) = (if c \<in> set choices then (Inr c, ks) else Ask choices ks)"

text \<open>\<^verbatim>\<open>screen.Page\<close>: after every full page but the last a key is read; \<open>i\<close> counts the lines shown.\<close>

fun Page :: "nat \<Rightarrow> nat \<Rightarrow> 'a list \<Rightarrow> keystroke list \<Rightarrow> string option \<times> keystroke list" where
  "Page pageLines i [] ks = (None, ks)"
| "Page pageLines i (line # lines) ks =
     (if Suc i mod pageLines = 0 \<and> lines \<noteq> [] then
        (case ks of
           [] \<Rightarrow> (Some ''EOF'', [])
         | Inl e # ks' \<Rightarrow> (Some e, ks')
         | Inr c # ks' \<Rightarrow> if c = CHR ''q'' then (None, ks') else Page pageLines (Suc i) lines ks')
      else Page pageLines (Suc i) lines ks)"

datatype verdict = Deny | Approve | Once

record widening =
  wd_dirs :: "string list"
  wd_paths :: "string list"
  wd_reason :: string

definition onceReason :: "widening list \<Rightarrow> string" where
  "onceReason ws = (case filter (\<lambda>w. wd_paths w = []) ws of [] \<Rightarrow> [] | w # _ \<Rightarrow> wd_reason w)"

definition approvalKeys :: "bool \<Rightarrow> char list" where
  "approvalKeys once = (if once then ''aodv'' else ''adv'')"

lemma Ask_shorter: "Ask choices ks = (r, ks') \<Longrightarrow> ks \<noteq> [] \<Longrightarrow> length ks' < length ks"
  by (induction choices ks rule: Ask.induct) (auto split: if_splits, fastforce)

lemma Page_shorter: "Page n i lines ks = (r, ks') \<Longrightarrow> length ks' \<le> length ks"
proof (induction n i lines ks rule: Page.induct)
  case (2 n i line lines ks)
  then show ?case by (auto split: if_splits list.splits sum.splits)
qed simp

text \<open>The loop of \<^verbatim>\<open>approve\<close>; viewing the parameters draws the screen again.\<close>

function approve :: "serve_env \<Rightarrow> job \<Rightarrow> preparedJob list \<Rightarrow> bool \<Rightarrow> keystroke list \<Rightarrow> (string + verdict) \<times> keystroke list" where
  "approve E j rows once ks =
     (case Ask (approvalKeys once) ks of
        (Inl e, ks1) \<Rightarrow> (Inl e, ks1)
      | (Inr key, ks1) \<Rightarrow>
          if key = CHR ''a'' then (Inr Approve, ks1)
          else if key = CHR ''o'' then (Inr Once, ks1)
          else if key = CHR ''d'' then (Inr Deny, ks1)
          else (case ev_indent E (job_Params j) of
                  None \<Rightarrow> (Inl ''unexpected end of JSON input'', ks1)
                | Some out \<Rightarrow>
                    (case Page (if ev_pageLines E \<le> 0 then 40 else nat (ev_pageLines E)) 0
                            (split_on newline out @ [''Resolved paths:''] @ concat (map pj_paths rows)) ks1 of
                       (Some e, ks2) \<Rightarrow> (Inl e, ks2)
                     | (None, ks2) \<Rightarrow> approve E j rows once ks2)))"
  by pat_completeness auto

termination
proof (relation "measure (\<lambda>(_, _, _, _, ks). length ks)")
  fix E j rows once ks r ks1 key out r' ks2
  assume a: "r = Inr key" "(r, ks1) = Ask (approvalKeys once) ks"
    and p: "(r', ks2) = Page (if ev_pageLines E \<le> 0 then 40 else nat (ev_pageLines E)) 0
      (split_on newline out @ [''Resolved paths:''] @ concat (map pj_paths rows)) ks1"
  from a have "ks \<noteq> []" by auto
  from Ask_shorter [OF a(2) [symmetric] this] Page_shorter [OF p [symmetric]]
  show "((E, j, rows, once, ks2), E, j, rows, once, ks) \<in> measure (\<lambda>(_, _, _, _, ks). length ks)" by simp
qed auto

declare approve.simps [simp del]


text \<open>\<^verbatim>\<open>reviewFlags\<close>: whether the result is sent.\<close>

definition reviewFlags :: "keystroke list \<Rightarrow> (string + bool) \<times> keystroke list" where
  "reviewFlags ks =
     (case Ask ''sd'' ks of
        (Inl e, ks1) \<Rightarrow> (Inl e, ks1)
      | (Inr key, ks1) \<Rightarrow> (Inr (key = CHR ''s''), ks1))"

section \<open>Cutting a result\<close>

definition no_redaction :: resultRedaction where
  "no_redaction = \<lparr>rr_LinesRedacted = 0, rr_ByCategory = [], rr_Flags = 0\<rparr>"

definition no_result :: result where
  "no_result = \<lparr>res_ID = [], res_Status = [], res_Error = [], res_Lines = [], res_Next = [], res_Redaction = no_redaction\<rparr>"

definition search_cursor :: "string list \<Rightarrow> string \<Rightarrow> string option" where
  "search_cursor paths line =
     (case filter (\<lambda>(index, path). has_prefix line (path @ '':'')) (enumerate 0 paths) of
        [] \<Rightarrow> None
      | (index, path) # _ \<Rightarrow>
          let n = fst (cut_at (CHR '':'') (drop (length path + 1) line))
          in Some (show_nat index @ '':'' @ fst (cut_at (CHR ''-'') n)))"

definition cutCursor :: "preparedJob \<Rightarrow> string list \<Rightarrow> nat \<Rightarrow> string" where
  "cutCursor p lines i =
     (let name = job_Name (pj_job p); line = lines ! i in
      if name = ''read_file'' \<or> name = ''tail'' then fst (cut_at (CHR '':'') line)
      else if name = ''list_dir'' \<and> length (split_on (CHR '' '') line) \<ge> 4
        then join_with '' '' (drop 3 (split_on (CHR '' '') line))
      else if name = ''search'' \<and> search_cursor (pj_paths p) line \<noteq> None then the (search_cursor (pj_paths p) line)
      else if name = ''journal'' \<or> name = ''docker_logs''
        then show_int ((case Atoi (jp_Cursor (pj_journal p)) of None \<Rightarrow> 0 | Some n \<Rightarrow> n) + int i)
      else show_nat i)"

text \<open>The first line at which the text is too long, counting a newline for each line.\<close>

fun cap_index :: "nat \<Rightarrow> nat \<Rightarrow> string list \<Rightarrow> nat option" where
  "cap_index sz i [] = None"
| "cap_index sz i (line # lines) =
     (let sz' = sz + length line + 1 in if sz' > MaxResultPlaintext then Some i else cap_index sz' (Suc i) lines)"

definition cut_result :: "preparedJob \<Rightarrow> result \<Rightarrow> nat \<Rightarrow> result" where
  "cut_result p r i = r\<lparr>res_Next := cutCursor p (res_Lines r) i, res_Lines := take i (res_Lines r)\<rparr>"

function cap_json :: "serve_env \<Rightarrow> preparedJob \<Rightarrow> result \<Rightarrow> result" where
  "cap_json E p r =
     (if res_Lines r \<noteq> [] \<and> \<not> length (ev_enc_result E r) \<le> MaxResultBytes - 16
      then cap_json E p (cut_result p r (length (res_Lines r) - 1))
      else r)"
  by pat_completeness auto

termination by (relation "measure (\<lambda>(_, _, r). length (res_Lines r))") (auto simp: cut_result_def)

declare cap_json.simps [simp del]

definition capResult :: "serve_env \<Rightarrow> preparedJob \<Rightarrow> result \<Rightarrow> result" where
  "capResult E p r =
     cap_json E p (case cap_index 0 0 (res_Lines r) of None \<Rightarrow> r | Some i \<Rightarrow> cut_result p r i)"

section \<open>Sending a result\<close>

definition count_result :: "result \<Rightarrow> serve_session \<Rightarrow> serve_session" where
  "count_result r s =
     s\<lparr>sv_nextResult := sv_nextResult s + 1, sv_jobs := sv_jobs s + 1,
       sv_sent := sv_sent s + (if res_Status r = ''ok'' then 1 else 0),
       sv_denied := sv_denied s + (if res_Status r = ''denied'' then 1 else 0),
       sv_rejected := sv_rejected s + (if res_Status r = ''rejected'' then 1 else 0)\<rparr>"

text \<open>\<^verbatim>\<open>client.PostResult\<close>: the envelope leaves the host whether or not the answer is an error.\<close>

definition post_result :: "serve_env \<Rightarrow> envelope \<Rightarrow> unit act" where
  "post_result E e s = effect E id (s\<lparr>sv_posted := sv_posted s @ [e]\<rparr>)"

definition send :: "serve_env \<Rightarrow> preparedJob \<Rightarrow> result \<Rightarrow> unit act" where
  "send E p r s =
     (if unat (sv_nextResult s) > MaxSessionSeq then (Inl ''result sequence exhausted'', s)
      else
        and_then (audit_result E (sv_nextResult s) r) (\<lambda>_.
        and_then (audit_mapping E (Mapping (sv_engine s))) (\<lambda>_ s1.
          case SealResult (ev_crypto E) (sv_keys s1) (ev_id E) (sv_nextResult s1) ClassRead (ev_enc_result E r) of
            Inl _ \<Rightarrow> (Inl ''cannot seal the result'', s1)
          | Inr e \<Rightarrow>
              and_then (post_result E e) (\<lambda>_.
              and_then (audit_event E (sv_nextResult s1) p ''sent'' r) (\<lambda>_ s2. (Inr (), count_result r s2))) s1)) s)"

definition reject :: "serve_env \<Rightarrow> u64 \<Rightarrow> preparedJob \<Rightarrow> string \<Rightarrow> unit act" where
  "reject E seq p message =
     (let r = no_result\<lparr>res_ID := job_ID (pj_job p), res_Status := ''rejected'', res_Error := message\<rparr>
      in and_then (audit_event E seq p ''rejected'' r) (\<lambda>_. send E p r))"

section \<open>Handling a job\<close>

text \<open>The jobs of an envelope: one, or those of a plan; \<open>Inl\<close> is the reason for a refusal.\<close>

definition plan_jobs :: "serve_env \<Rightarrow> job \<Rightarrow> string + job list" where
  "plan_jobs E j =
     (if job_Name j = ''plan'' then
        (case ev_dec_plan E (job_Params j) of (js, ok) \<Rightarrow>
           if \<not> ValidateJobID (job_ID j) \<or> \<not> ok \<or> length js < 1 \<or> length js > 40 then Inl ''invalid plan''
           else if \<exists>k \<in> set js. job_Name k = ''plan'' then Inl ''nested plan''
           else Inr js)
      else Inr [j])"

text \<open>
  A job as the handler keeps it: the request, the prepared job, why it is refused, and the grants it would
  need. The rows of the approval screen are the jobs that are not refused, so a row's job and grants are
  found here without the indexes that the code keeps beside them.
\<close>

record job_row =
  jr_job :: job
  jr_prep :: preparedJob
  jr_err :: "string option"
  jr_widen :: "widening option"

definition row_widening :: "job_env \<Rightarrow> preparedJob \<Rightarrow> string list \<Rightarrow> widening" where
  "row_widening J p dirs =
     (let glob = \<lparr>wd_dirs = dirs, wd_paths = [], wd_reason = ''a glob needs its directory''\<rparr> in
      if job_Name (pj_job p) = ''search'' then glob
      else (case pathGrant J (Clean (pj_target p)) of
              Inr paths \<Rightarrow> glob\<lparr>wd_paths := paths\<rparr>
            | Inl why \<Rightarrow> glob\<lparr>wd_reason := why\<rparr>))"

definition classify :: "job_env \<Rightarrow> int \<Rightarrow> job \<Rightarrow> preparedJob \<Rightarrow> job_error option \<Rightarrow> job_row" where
  "classify J level j p err =
     (let refused = (\<lambda>msg. \<lparr>jr_job = j, jr_prep = p, jr_err = Some msg, jr_widen = None\<rparr>) in
      case err of
        None \<Rightarrow> \<lparr>jr_job = j, jr_prep = p, jr_err = None, jr_widen = None\<rparr>
      | Some (Failure msg) \<Rightarrow> refused msg
      | Some (Scoped dir scope) \<Rightarrow>
          let text = error_text (Scoped dir scope) in
          if level = 0 then refused (text @ ''; restart aken serve with --allow DIR to widen it'')
          else (case scopeGrant J dir of
                  Inl why \<Rightarrow> refused (text @ ''; it cannot be added to the scope: '' @ why)
                | Inr dirs \<Rightarrow>
                    let p' = p\<lparr>pj_widening := True\<rparr> in
                    \<lparr>jr_job = j, jr_prep = p', jr_err = None, jr_widen = Some (row_widening J p dirs)\<rparr>))"

definition prepare_row :: "serve_env \<Rightarrow> u64 \<Rightarrow> u8 \<Rightarrow> job \<Rightarrow> job_row act" where
  "prepare_row E seq cls j s =
     (case prepare (ev_job E (sv_tick s)) j cls (sv_files s) (ev_now E (sv_tick s)) of (p, err) \<Rightarrow>
        and_then (audit_event E seq p ''received'' no_result)
          (\<lambda>_ s1. (Inr (classify (ev_job E (sv_tick s1)) (sv_Level s1) j p err), s1)) s)"

fun prepare_rows :: "serve_env \<Rightarrow> u64 \<Rightarrow> u8 \<Rightarrow> job list \<Rightarrow> job_row list act" where
  "prepare_rows E seq cls [] s = (Inr [], s)"
| "prepare_rows E seq cls (j # js) s =
     and_then (prepare_row E seq cls j) (\<lambda>row. and_then (prepare_rows E seq cls js) (\<lambda>rows s1. (Inr (row # rows), s1))) s"

definition open_rows :: "job_row list \<Rightarrow> job_row list" where
  "open_rows rows = filter (\<lambda>r. jr_err r = None) rows"

definition widenings :: "job_row list \<Rightarrow> (preparedJob \<times> widening) list" where
  "widenings rows = List.map_filter (\<lambda>r. map_option (Pair (jr_prep r)) (jr_widen r)) (open_rows rows)"

definition ask_verdict :: "serve_env \<Rightarrow> job \<Rightarrow> job_row list \<Rightarrow> verdict act" where
  "ask_verdict E j rows s =
     (if sv_Level s = 0 then (Inr Approve, s)
      else if open_rows rows \<noteq> [] \<and> sv_Level s = 1 then
        let ws = map snd (widenings rows) in
        (case approve E j (map jr_prep (open_rows rows)) (ws \<noteq> [] \<and> onceReason ws = []) (sv_input s) of
           (r, ks) \<Rightarrow> (r, s\<lparr>sv_input := ks\<rparr>))
      else (Inr Deny, s))"

section \<open>Widening the scope\<close>

definition fresh_grants :: "string list \<Rightarrow> string list \<Rightarrow> string list" where
  "fresh_grants target grant =
     foldl (\<lambda>fresh path. if path \<in> set target \<or> path \<in> set fresh then fresh else fresh @ [path]) [] grant"

definition scope_list :: "bool \<Rightarrow> files \<Rightarrow> string list" where
  "scope_list once f = (if once then f_Paths f else f_Allowed f)"

definition add_scope :: "bool \<Rightarrow> string list \<Rightarrow> files \<Rightarrow> files" where
  "add_scope once fresh f =
     (if once then f\<lparr>f_Paths := f_Paths f @ fresh\<rparr> else f\<lparr>f_Allowed := f_Allowed f @ fresh\<rparr>)"

text \<open>The loop of \<^verbatim>\<open>widen\<close>: what was added.\<close>

fun widen_loop :: "serve_env \<Rightarrow> u64 \<Rightarrow> bool \<Rightarrow> (preparedJob \<times> widening) list \<Rightarrow> string list act" where
  "widen_loop E seq once [] s = (Inr [], s)"
| "widen_loop E seq once ((p, w) # ws) s =
     (let fresh = fresh_grants (scope_list once (sv_files s)) (if once then wd_paths w else wd_dirs w) in
      if fresh = [] then widen_loop E seq once ws s
      else
        and_then (audit_event E seq (p\<lparr>pj_paths := fresh\<rparr>) (if once then ''scope-added-once'' else ''scope-added'') no_result) (\<lambda>_.
        and_then (widen_loop E seq once ws) (\<lambda>added s1. (Inr (fresh @ added), s1)))
          (s\<lparr>sv_files := add_scope once fresh (sv_files s)\<rparr>))"

definition widen :: "serve_env \<Rightarrow> u64 \<Rightarrow> (preparedJob \<times> widening) list \<Rightarrow> bool \<Rightarrow> unit act" where
  "widen E seq ws once =
     and_then (widen_loop E seq once ws) (\<lambda>added s.
       if added = [] \<or> once then (Inr (), s)
       else writeSession E (upd_audit (\<lambda>a. a\<lparr>au_session := (au_session a)\<lparr>sj_Scope := f_Allowed (sv_files s)\<rparr>\<rparr>) s))"

text \<open>The rows that were waiting for a grant are prepared again under the widened scope.\<close>

fun reprepare :: "serve_env \<Rightarrow> u8 \<Rightarrow> job_row list \<Rightarrow> job_row list act" where
  "reprepare E cls [] s = (Inr [], s)"
| "reprepare E cls (r # rs) s =
     (if jr_err r = None \<and> jr_widen r \<noteq> None then
        (case prepare (ev_job E (sv_tick s)) (jr_job r) cls (sv_files s) (ev_now E (sv_tick s)) of (p, err) \<Rightarrow>
           and_then (reprepare E cls rs)
             (\<lambda>rows s1. (Inr (r\<lparr>jr_prep := p, jr_err := map_option error_text err\<rparr> # rows), s1)) (s\<lparr>sv_tick := sv_tick s + 1\<rparr>))
      else and_then (reprepare E cls rs) (\<lambda>rows s1. (Inr (r # rows), s1)) s)"

section \<open>Running the rows\<close>

definition flag_values :: "flag list \<Rightarrow> nat \<Rightarrow> string list" where
  "flag_values fl n = remdups (map flag_Value (filter (\<lambda>f. \<not> flag_IDShaped f \<and> flag_Line f \<le> n) fl))"

text \<open>The result of a job that ran: its output redacted, cut to size, with the flags of what is left.\<close>

definition job_result :: "serve_env \<Rightarrow> preparedJob \<Rightarrow> job_output \<Rightarrow> redact_result \<Rightarrow> result" where
  "job_result E p out rd =
     (case out of (lines, nxt, err) \<Rightarrow>
        let r = \<lparr>res_ID = job_ID (pj_job p), res_Status = (if err = None then ''ok'' else ''error''),
                 res_Error = (case err of None \<Rightarrow> [] | Some e \<Rightarrow> error_text e), res_Lines = rd_Lines rd, res_Next = nxt,
                 res_Redaction = \<lparr>rr_LinesRedacted = int (rd_LinesRedacted rd),
                   rr_ByCategory = List.map_filter (\<lambda>c. map_option (Pair c) (rd_ByCategory rd c)) RedactionCategories,
                   rr_Flags = int (length (remdups (map flag_Value (filter (\<lambda>f. \<not> flag_IDShaped f) (rd_Flags rd)))))\<rparr>\<rparr>;
            r' = capResult E p r
        in r'\<lparr>res_Redaction := (res_Redaction r')\<lparr>rr_Flags := int (length (flag_values (rd_Flags rd) (length (res_Lines r'))))\<rparr>\<rparr>)"

definition review_result :: "serve_env \<Rightarrow> u64 \<Rightarrow> preparedJob \<Rightarrow> flag list \<Rightarrow> result \<Rightarrow> result act" where
  "review_result E seq p fl r s =
     (if sv_Level s = 1 \<and> flag_values fl (length (res_Lines r)) \<noteq> [] then
        (case reviewFlags (sv_input s) of
           (Inl e, ks) \<Rightarrow> (Inl e, s\<lparr>sv_input := ks\<rparr>)
         | (Inr True, ks) \<Rightarrow> (Inr r, s\<lparr>sv_input := ks\<rparr>)
         | (Inr False, ks) \<Rightarrow>
             let d = no_result\<lparr>res_ID := job_ID (pj_job p), res_Status := ''denied'', res_Error := ''dropped after review''\<rparr>
             in and_then (audit_event E seq p ''dropped'' d) (\<lambda>_ s1. (Inr d, s1)) (s\<lparr>sv_input := ks\<rparr>))
      else (Inr r, s))"

definition run_job :: "serve_env \<Rightarrow> u64 \<Rightarrow> preparedJob \<Rightarrow> unit act" where
  "run_job E seq p =
     and_then (audit_event E seq p ''approved'' no_result) (\<lambda>_ s.
       let out = execute (ev_job E (sv_tick s)) p (sv_files s) in
       case Redact (ev_addr E) (ev_high E) (sv_engine s) (fst out) of (rd, e') \<Rightarrow>
         and_then (review_result E seq p (rd_Flags rd) (job_result E p out rd)) (send E p)
           (s\<lparr>sv_engine := e', sv_tick := sv_tick s + 1\<rparr>))"

definition deny_job :: "serve_env \<Rightarrow> u64 \<Rightarrow> preparedJob \<Rightarrow> unit act" where
  "deny_job E seq p =
     (let r = no_result\<lparr>res_ID := job_ID (pj_job p), res_Status := ''denied'',
                        res_Error := (if pj_widening p then ''denied by user; nothing was added to the scope'' else ''denied by user'')\<rparr>
      in and_then (audit_event E seq p ''denied'' r) (\<lambda>_. send E p r))"

definition run_row :: "serve_env \<Rightarrow> u64 \<Rightarrow> bool \<Rightarrow> job_row \<Rightarrow> unit act" where
  "run_row E seq approved r =
     (case jr_err r of
        Some msg \<Rightarrow> reject E seq (jr_prep r) msg
      | None \<Rightarrow> if approved then run_job E seq (jr_prep r) else deny_job E seq (jr_prep r))"

fun run_rows :: "serve_env \<Rightarrow> u64 \<Rightarrow> bool \<Rightarrow> job_row list \<Rightarrow> unit act" where
  "run_rows E seq approved [] s = (Inr (), s)"
| "run_rows E seq approved (r # rs) s = and_then (run_row E seq approved r) (\<lambda>_. run_rows E seq approved rs) s"

text \<open>A one-job grant is taken back however the jobs turn out.\<close>

definition grant_and_run :: "serve_env \<Rightarrow> envelope \<Rightarrow> verdict \<Rightarrow> job_row list \<Rightarrow> unit act" where
  "grant_and_run E env v rows s =
     (if v \<noteq> Deny \<and> widenings rows \<noteq> [] then
        (case and_then (widen E (e_seq env) (widenings rows) (v = Once)) (\<lambda>_.
              and_then (reprepare E (e_class env) rows) (\<lambda>rows'. run_rows E (e_seq env) True rows')) s of
           (res, s') \<Rightarrow> (res, if v = Once then s'\<lparr>sv_files := (sv_files s')\<lparr>f_Paths := f_Paths (sv_files s)\<rparr>\<rparr> else s'))
      else run_rows E (e_seq env) (v \<noteq> Deny) rows s)"

definition handle :: "serve_env \<Rightarrow> envelope \<Rightarrow> bytes \<Rightarrow> unit act" where
  "handle E env data =
     (case ev_dec_job E data of (j, ok) \<Rightarrow>
        if \<not> ok then reject E (e_seq env) (new_prepared j) ''invalid job''
        else (case plan_jobs E j of
                Inl msg \<Rightarrow> reject E (e_seq env) (new_prepared j) msg
              | Inr js \<Rightarrow>
                  and_then (prepare_rows E (e_seq env) (e_class env) js) (\<lambda>rows.
                  and_then (ask_verdict E j rows) (\<lambda>v. grant_and_run E env v rows))))"

text \<open>
  The loop over the envelopes that the poller delivers. A context that ends is the end of the list; an
  envelope that does not open is dropped.
\<close>

fun serve_loop :: "serve_env \<Rightarrow> envelope list \<Rightarrow> unit act" where
  "serve_loop E [] s = (Inr (), s)"
| "serve_loop E (env # envs) s =
     (case OpenJob (ev_crypto E) (sv_keys s) env (ev_id E) (sv_nextJob s) of
        Inl _ \<Rightarrow> serve_loop E envs s
      | Inr data \<Rightarrow>
          and_then (handle E env data) (\<lambda>_ s1.
            if unat (e_seq env) = MaxSessionSeq \<or> unat (sv_nextResult s1) > MaxSessionSeq then (Inr (), s1)
            else serve_loop E envs s1) (s\<lparr>sv_nextJob := sv_nextJob s + 1\<rparr>))"

section \<open>Joining\<close>

text \<open>One answer of \<^verbatim>\<open>WaitJoin\<close> after the other; a join with a bad proof is passed over.\<close>

fun serve_join :: "serve_env \<Rightarrow> keyPair \<Rightarrow> bytes \<Rightarrow> (string + joinInfo option) list \<Rightarrow> unit act" where
  "serve_join E pair exchange [] s = (Inl ''context done'', s)"
| "serve_join E pair exchange (Inl e # answers) s = (Inl e, s)"
| "serve_join E pair exchange (Inr None # answers) s = serve_join E pair exchange answers s"
| "serve_join E pair exchange (Inr (Some j) # answers) s =
     (let C = ev_crypto E; public = Public C pair in
      case (DecodeKey (ji_mcpKey j), DecodeKey (ji_mcpMAC j)) of
        (Some key, Some mac) \<Rightarrow>
          if \<not> VerifyMCPMAC C exchange (ev_id E) public key mac then serve_join E pair exchange answers s
          else (case ContentRoot C pair key (ev_id E) public key of
                  Inl _ \<Rightarrow> (Inl ''key exchange failed'', s)
                | Inr root \<Rightarrow>
                    let chat = (ji_via j = ''chat'' \<and> sv_Level s = 0);
                        level = (if chat then 1 else sv_Level s)
                    in writeSession E (upd_audit (\<lambda>a. a\<lparr>au_session := (au_session a)\<lparr>sj_JoinedAt := ji_joinedAt j, sj_JoinedVia := ji_via j,
                                                       sj_Level := (if chat then 1 else sj_Level (au_session a))\<rparr>\<rparr>)
                         (s\<lparr>sv_keys := DeriveSessionKeys C root, sv_Level := level\<rparr>)))
      | _ \<Rightarrow> serve_join E pair exchange answers s)"
end
