(* ===== verification/Serve_Proofs.thy ===== *)
theory Serve_Proofs
  imports Serve Redact_Proofs "HOL-Library.Sublist"
begin

text \<open>
  Properties of a live session. A locale collects what every step may do to the state, one law for each kind
  of update, and shows once that the whole handling of a job stays inside it; it is interpreted for what a
  job leaves alone, for the audit log, for the keys that are consumed and for the redaction engine.
  On top of it: nothing is sent without approval, every line sent is a redacted one that the local copy
  has, grants end when they should, and every job gets one answer.
\<close>

section \<open>Steps as relations\<close>

lemma and_then_cases:
  assumes "and_then m k s = (y, s')"
  obtains (fails) e where "m s = (Inl e, s')" "y = Inl e"
    | (goes) x s1 where "m s = (Inr x, s1)" "k x s1 = (y, s')"
  using assms by (auto simp: and_then_def split: prod.splits sum.splits)

lemma Ask_suffix: "Ask choices ks = (r, ks') \<Longrightarrow> suffix ks' ks"
  by (induction choices ks rule: Ask.induct) (auto split: if_splits intro: suffix_ConsI)

lemma Page_suffix: "Page n i lines ks = (r, ks') \<Longrightarrow> suffix ks' ks"
proof (induction n i lines ks rule: Page.induct)
  case (2 n i line lines ks)
  then show ?case by (auto split: if_splits list.splits sum.splits intro: suffix_ConsI)
qed simp

lemma Ask_key: "Ask choices ks = (Inr c, ks') \<Longrightarrow> \<exists>pre. ks = pre @ Inr c # ks'"
proof (induction choices ks rule: Ask.induct)
  case (3 choices d ks)
  then show ?case by (auto split: if_splits)
qed auto

text \<open>The keys that an answer needs.\<close>

definition verdict_key :: "verdict \<Rightarrow> char" where
  "verdict_key v = (case v of Approve \<Rightarrow> CHR ''a'' | Once \<Rightarrow> CHR ''o'' | Deny \<Rightarrow> CHR ''d'')"

lemma approve_consumes:
  "approve E j rows once ks = (r, ks') \<Longrightarrow> \<exists>pre. ks = pre @ ks' \<and> (\<forall>v. r = Inr v \<longrightarrow> Inr (verdict_key v) \<in> set pre)"
proof (induction E j rows once ks rule: approve.induct)
  case (1 E j rows once ks)
  obtain a ks1 where ask: "Ask (approvalKeys once) ks = (a, ks1)" by fastforce
  obtain pre1 where s1: "ks = pre1 @ ks1" using Ask_suffix [OF ask] by (auto simp: suffix_def)
  let ?lines = "\<lambda>out. split_on newline out @ [''Resolved paths:''] @ concat (map pj_paths rows)"
  let ?n = "if ev_pageLines E \<le> 0 then 40 else nat (ev_pageLines E)"
  consider (stop) e where "a = Inl e" | (answer) key where "a = Inr key" "key \<in> {CHR ''a'', CHR ''o'', CHR ''d''}"
    | (broken) key where "a = Inr key" "key \<notin> {CHR ''a'', CHR ''o'', CHR ''d''}" "ev_indent E (job_Params j) = None"
    | (view) key out pe ks2 where "a = Inr key" "key \<notin> {CHR ''a'', CHR ''o'', CHR ''d''}" "ev_indent E (job_Params j) = Some out"
        "Page ?n 0 (?lines out) ks1 = (pe, ks2)"
    by (metis obj_sumE option.exhaust surj_pair)
  then show ?case
  proof cases
    case answer
    from Ask_key [OF ask [unfolded answer(1)]] obtain pre where "ks = (pre @ [Inr key]) @ ks1" by auto
    with "1.prems" ask answer show ?thesis
      by (subst (asm) approve.simps) (auto simp: verdict_key_def intro!: exI [of _ "pre @ [Inr key]"])
  next
    case view
    obtain pre2 where s2: "ks1 = pre2 @ ks2" using Page_suffix [OF view(4)] by (auto simp: suffix_def)
    show ?thesis
    proof (cases pe)
      case None
      have "approve E j rows once ks2 = (r, ks')"
        using "1.prems" ask view None by (subst (asm) approve.simps) simp
      moreover have k: "key \<noteq> CHR ''a''" "key \<noteq> CHR ''o''" "key \<noteq> CHR ''d''" using view(2) by auto
      ultimately obtain pre3 where "ks2 = pre3 @ ks'" "\<forall>v. r = Inr v \<longrightarrow> Inr (verdict_key v) \<in> set pre3"
        using "1.IH" [OF ask [symmetric] view(1) k view(3) view(4) [symmetric] None] by auto
      with s1 s2 show ?thesis by (intro exI [of _ "pre1 @ pre2 @ pre3"]) auto
    next
      case (Some e)
      with "1.prems" ask view s1 s2 show ?thesis
        by (subst (asm) approve.simps) (auto intro!: exI [of _ "pre1 @ pre2"])
    qed
  qed (use "1.prems" ask s1 in \<open>subst (asm) approve.simps, auto intro!: exI [of _ pre1]\<close>)+
qed

lemma approve_suffix: "approve E j rows once ks = (r, ks') \<Longrightarrow> suffix ks' ks"
  using approve_consumes by (fastforce simp: suffix_def)

lemma reviewFlags_suffix: "reviewFlags ks = (r, ks') \<Longrightarrow> suffix ks' ks"
  using Ask_suffix by (auto simp: reviewFlags_def split: prod.splits sum.splits)

lemma audit_result_engine: "audit_result E q r s = (x, s') \<Longrightarrow> sv_engine s' = sv_engine s"
  by (auto simp: audit_result_def effect_def upd_audit_def Let_def split: if_splits option.splits)

text \<open>Steps that send nothing.\<close>

locale quiet_frame =
  fixes R :: "serve_session \<Rightarrow> serve_session \<Rightarrow> bool"
  assumes R_refl: "R s s"
    and R_trans: "R a b \<Longrightarrow> R b c \<Longrightarrow> R a c"
    and R_tick: "R s (s\<lparr>sv_tick := t\<rparr>)"
    and R_log: "R s (upd_audit (\<lambda>a. a\<lparr>au_log := au_log a @ [x]\<rparr>) s)"
    and R_mapping: "R s (upd_audit (\<lambda>a. a\<lparr>au_mapping := Mapping (sv_engine s), au_mappingSize := int (length (Mapping (sv_engine s)))\<rparr>) s)"
    and R_input: "suffix ks (sv_input s) \<Longrightarrow> R s (s\<lparr>sv_input := ks\<rparr>)"
    and R_redact: "Redact addr high (sv_engine s) ls = (rd, e) \<Longrightarrow> R s (s\<lparr>sv_engine := e\<rparr>)"
begin

lemma effect_R: "effect E upd s = (x, s') \<Longrightarrow> (\<And>t. R t (upd t)) \<Longrightarrow> R s s'"
  using R_tick R_trans by (fastforce simp: effect_def Let_def split: option.splits)

lemma and_then_R:
  assumes "and_then m k s = (y, s')" "\<And>x s1. m s = (x, s1) \<Longrightarrow> R s s1" "\<And>x s1. m s = (Inr x, s1) \<Longrightarrow> k x s1 = (y, s') \<Longrightarrow> R s1 s'"
  shows "R s s'"
  using assms(1)
proof (cases rule: and_then_cases)
  case (goes x s1)
  then show ?thesis using assms(2,3) R_trans by blast
qed (use assms(2) in blast)

lemma audit_event_R: "audit_event E q p ev r s = (x, s') \<Longrightarrow> R s s'"
  unfolding audit_event_def by (erule effect_R) (rule R_log)

lemma audit_mapping_R:
  assumes "audit_mapping E (Mapping (sv_engine s)) s = (x, s')" shows "R s s'"
proof -
  let ?s = "s\<lparr>sv_tick := sv_tick s + 1\<rparr>"
  have "R s ?s" by (rule R_tick)
  moreover have "R ?s (upd_audit (\<lambda>a. a\<lparr>au_mapping := Mapping (sv_engine s), au_mappingSize := int (length (Mapping (sv_engine s)))\<rparr>) ?s)"
    using R_mapping [of ?s] by simp
  ultimately show ?thesis using assms R_refl R_trans by (auto simp: audit_mapping_def effect_def Let_def split: if_splits option.splits)
qed

lemma review_result_R:
  assumes "review_result E q p fl r s = (x, s')" shows "R s s'"
proof (cases "sv_Level s = 1 \<and> flag_values fl (length (res_Lines r)) \<noteq> []")
  case True
  obtain a ks where rv: "reviewFlags (sv_input s) = (a, ks)" by fastforce
  have input: "R s (s\<lparr>sv_input := ks\<rparr>)" by (rule R_input [OF reviewFlags_suffix [OF rv]])
  show ?thesis
  proof (cases "a = Inr False")
    case True
    with \<open>sv_Level s = 1 \<and> _\<close> assms rv obtain d where
      "and_then (audit_event E q p ''dropped'' d) (\<lambda>_ s1. (Inr d, s1)) (s\<lparr>sv_input := ks\<rparr>) = (x, s')"
      by (auto simp: review_result_def Let_def)
    then have "R (s\<lparr>sv_input := ks\<rparr>) s'" by (rule and_then_R) (auto intro: audit_event_R R_refl)
    with input R_trans show ?thesis by blast
  next
    case False
    with \<open>sv_Level s = 1 \<and> _\<close> assms rv input show ?thesis
      by (auto simp: review_result_def split: sum.splits bool.splits)
  qed
qed (use assms R_refl in \<open>auto simp: review_result_def\<close>)

lemma prepare_row_R:
  assumes "prepare_row E q cls j s = (x, s')" shows "R s s'"
proof -
  obtain p err where pr: "prepare (ev_job E (sv_tick s)) j cls (sv_files s) (ev_now E (sv_tick s)) = (p, err)" by fastforce
  from assms pr have "and_then (audit_event E q p ''received'' no_result)
      (\<lambda>_ s1. (Inr (classify (ev_job E (sv_tick s1)) (sv_Level s1) j p err), s1)) s = (x, s')" by (simp add: prepare_row_def)
  then show ?thesis by (rule and_then_R) (auto intro: audit_event_R R_refl)
qed

lemma prepare_rows_R: "prepare_rows E q cls js s = (x, s') \<Longrightarrow> R s s'"
proof (induction js arbitrary: s x s')
  case (Cons j js)
  from Cons.prems have "and_then (prepare_row E q cls j)
      (\<lambda>row. and_then (prepare_rows E q cls js) (\<lambda>rows s1. (Inr (row # rows), s1))) s = (x, s')" by simp
  then show ?case
  proof (rule and_then_R)
    fix y s1
    assume "and_then (prepare_rows E q cls js) (\<lambda>rows s1. (Inr (y # rows), s1)) s1 = (x, s')"
    then show "R s1 s'" by (rule and_then_R) (auto intro: Cons.IH R_refl)
  qed (rule prepare_row_R)
qed (simp add: R_refl)

lemma ask_verdict_R: "ask_verdict E j rows s = (x, s') \<Longrightarrow> R s s'"
  using R_input [OF approve_suffix] R_refl
  by (fastforce simp: ask_verdict_def Let_def split: if_splits prod.splits)

lemma reprepare_R: "reprepare E cls rows s = (x, s') \<Longrightarrow> R s s'"
proof (induction rows arbitrary: s x s')
  case (Cons r rows)
  have rest: "R t s'" if "and_then (reprepare E cls rows) (\<lambda>rows s1. (Inr (g rows), s1)) t = (x, s')" for g t
    using that by (rule and_then_R) (auto intro: Cons.IH R_refl)
  show ?case
  proof (cases "jr_err r = None \<and> jr_widen r \<noteq> None")
    case True
    obtain p err where pr: "prepare (ev_job E (sv_tick s)) (jr_job r) cls (sv_files s) (ev_now E (sv_tick s)) = (p, err)" by fastforce
    with True Cons.prems have "R (s\<lparr>sv_tick := sv_tick s + 1\<rparr>) s'" by (intro rest) simp
    with R_tick R_trans show ?thesis by blast
  next
    case False
    with Cons.prems show ?thesis by (intro rest) auto
  qed
qed (simp add: R_refl)

end

text \<open>Steps that send results as well.\<close>

locale session_frame = quiet_frame +
  assumes R_results: "R s (upd_audit (\<lambda>a. a\<lparr>au_results := au_results a @ [y]\<rparr>) s)"
    and R_posted: "R s (s\<lparr>sv_posted := sv_posted s @ [env]\<rparr>)"
    and R_count: "R s (count_result r s)"
begin

lemma audit_result_R: "audit_result E q r s = (x, s') \<Longrightarrow> R s s'"
  unfolding audit_result_def using effect_R R_results R_refl by (fastforce split: if_splits)

lemma post_result_R: "post_result E e s = (x, s') \<Longrightarrow> R s s'"
proof -
  assume "post_result E e s = (x, s')"
  then have "effect E id (s\<lparr>sv_posted := sv_posted s @ [e]\<rparr>) = (x, s')" by (simp add: post_result_def)
  from effect_R [OF this] R_refl have "R (s\<lparr>sv_posted := sv_posted s @ [e]\<rparr>) s'" by simp
  with R_posted R_trans show ?thesis by blast
qed

lemma send_R: "send E p r s = (x, s') \<Longrightarrow> R s s'"
  unfolding send_def
  apply (auto split: if_splits simp: R_refl)
  apply (erule and_then_R, erule audit_result_R)
  apply (frule audit_result_engine)
  apply (erule and_then_R, rule audit_mapping_R, simp)
  apply (auto split: sum.splits simp: R_refl)
  apply (erule and_then_R, erule post_result_R)
  apply (erule and_then_R, erule audit_event_R)
  apply (auto intro: R_count)
  done

lemma reject_R: "reject E q p msg s = (x, s') \<Longrightarrow> R s s'"
  unfolding reject_def Let_def by (erule and_then_R, erule audit_event_R, erule send_R)

lemma deny_job_R: "deny_job E q p s = (x, s') \<Longrightarrow> R s s'"
  unfolding deny_job_def Let_def by (erule and_then_R, erule audit_event_R, erule send_R)

lemma run_job_R:
  assumes "run_job E q p s = (x, s')" shows "R s s'"
  using assms unfolding run_job_def
proof (rule and_then_R)
  fix y s1
  assume "audit_event E q p ''approved'' no_result s = (y, s1)"
  then show "R s s1" by (rule audit_event_R)
next
  fix y and s1 :: serve_session
  let ?out = "execute (ev_job E (sv_tick s1)) p (sv_files s1)"
  obtain rd e where rd: "Redact (ev_addr E) (ev_high E) (sv_engine s1) (fst ?out) = (rd, e)" by fastforce
  assume "(\<lambda>_ s. let out = execute (ev_job E (sv_tick s)) p (sv_files s) in
       case Redact (ev_addr E) (ev_high E) (sv_engine s) (fst out) of (rd, e') \<Rightarrow>
         and_then (review_result E q p (rd_Flags rd) (job_result E p out rd)) (send E p)
           (s\<lparr>sv_engine := e', sv_tick := sv_tick s + 1\<rparr>)) y s1 = (x, s')"
  then have "and_then (review_result E q p (rd_Flags rd) (job_result E p ?out rd)) (send E p)
      (s1\<lparr>sv_engine := e, sv_tick := sv_tick s1 + 1\<rparr>) = (x, s')" using rd by (simp add: Let_def)
  then have "R (s1\<lparr>sv_engine := e, sv_tick := sv_tick s1 + 1\<rparr>) s'"
    by (rule and_then_R) (auto intro: review_result_R send_R)
  moreover have "R s1 (s1\<lparr>sv_engine := e\<rparr>)" by (rule R_redact [OF rd])
  moreover have "R (s1\<lparr>sv_engine := e\<rparr>) (s1\<lparr>sv_engine := e, sv_tick := sv_tick s1 + 1\<rparr>)"
    using R_tick [of "s1\<lparr>sv_engine := e\<rparr>"] by simp
  ultimately show "R s1 s'" using R_trans by blast
qed

lemma run_row_R: "run_row E q ok r s = (x, s') \<Longrightarrow> R s s'"
  using reject_R run_job_R deny_job_R by (auto simp: run_row_def split: option.splits if_splits)

lemma run_rows_R: "run_rows E q ok rows s = (x, s') \<Longrightarrow> R s s'"
proof (induction rows arbitrary: s)
  case (Cons r rows)
  from Cons.prems have "and_then (run_row E q ok r) (\<lambda>_. run_rows E q ok rows) s = (x, s')" by simp
  then show ?case by (rule and_then_R) (auto intro: run_row_R Cons.IH)
qed (simp add: R_refl)

end

text \<open>Steps that send nothing and may widen the scope.\<close>

locale scope_frame = quiet_frame +
  assumes R_files: "R s (s\<lparr>sv_files := fs\<rparr>)"
    and R_session: "R s (upd_audit (\<lambda>a. a\<lparr>au_session := g (au_session a)\<rparr>) s)"
    and R_written: "R s (upd_audit (\<lambda>a. a\<lparr>au_written := w a\<rparr>) s)"
begin

lemma widen_loop_R: "widen_loop E q once ws s = (x, s') \<Longrightarrow> R s s'"
proof (induction ws arbitrary: s x s')
  case (Cons pw ws)
  obtain p w where pw: "pw = (p, w)" by fastforce
  let ?fresh = "fresh_grants (scope_list once (sv_files s)) (if once then wd_paths w else wd_dirs w)"
  let ?s = "s\<lparr>sv_files := add_scope once ?fresh (sv_files s)\<rparr>"
  show ?case
  proof (cases "?fresh = []")
    case False
    with Cons.prems pw have
      "and_then (audit_event E q (p\<lparr>pj_paths := ?fresh\<rparr>) (if once then ''scope-added-once'' else ''scope-added'') no_result) (\<lambda>_.
        and_then (widen_loop E q once ws) (\<lambda>added s1. (Inr (?fresh @ added), s1))) ?s = (x, s')" by (simp add: Let_def)
    then have "R ?s s'"
    proof (rule and_then_R)
      fix s1
      assume "and_then (widen_loop E q once ws) (\<lambda>added s1. (Inr (?fresh @ added), s1)) s1 = (x, s')"
      then show "R s1 s'" by (rule and_then_R) (auto intro: Cons.IH R_refl)
    qed (rule audit_event_R)
    with R_files R_trans show ?thesis by blast
  qed (use Cons pw in \<open>simp add: Let_def\<close>)
qed (simp add: R_refl)

lemma widen_R:
  assumes "widen E q ws once s = (x, s')" shows "R s s'"
  using assms unfolding widen_def
proof (rule and_then_R)
  fix added s1
  let ?s = "upd_audit (\<lambda>a. a\<lparr>au_session := (au_session a)\<lparr>sj_Scope := f_Allowed (sv_files s1)\<rparr>\<rparr>) s1"
  assume "(if added = [] \<or> once then (Inr (), s1) else writeSession E ?s) = (x, s')"
  then consider "s' = s1" | "writeSession E ?s = (x, s')" by (auto split: if_splits)
  then show "R s1 s'"
  proof cases
    case 2
    then have "R ?s s'" unfolding writeSession_def by (rule effect_R) (rule R_written)
    with R_session R_trans show ?thesis by blast
  qed (simp add: R_refl)
qed (rule widen_loop_R)

end

text \<open>The whole handling of a job.\<close>

locale wide_frame = session_frame + scope_frame
begin

lemma grant_and_run_R:
  assumes "grant_and_run E env v rows s = (x, s')" shows "R s s'"
proof (cases "v \<noteq> Deny \<and> widenings rows \<noteq> []")
  case True
  let ?run = "and_then (widen E (e_seq env) (widenings rows) (v = Once)) (\<lambda>_.
              and_then (reprepare E (e_class env) rows) (\<lambda>rows'. run_rows E (e_seq env) True rows')) s"
  obtain s1 where run: "?run = (x, s1)" and s': "s' = s1 \<or> s' = s1\<lparr>sv_files := (sv_files s1)\<lparr>f_Paths := f_Paths (sv_files s)\<rparr>\<rparr>"
    using assms True by (auto simp: grant_and_run_def split: prod.splits if_splits)
  from run have "R s s1"
  proof (rule and_then_R)
    fix t
    assume "and_then (reprepare E (e_class env) rows) (\<lambda>rows'. run_rows E (e_seq env) True rows') t = (x, s1)"
    then show "R t s1" by (rule and_then_R) (auto intro: reprepare_R run_rows_R)
  qed (rule widen_R)
  with s' R_files R_trans show ?thesis by blast
qed (use assms run_rows_R in \<open>auto simp: grant_and_run_def\<close>)

lemma handle_R:
  assumes "handle E env data s = (x, s')" shows "R s s'"
proof -
  obtain j ok where j: "ev_dec_job E data = (j, ok)" by fastforce
  show ?thesis
  proof (cases "plan_jobs E j")
    case (Inr js)
    show ?thesis
    proof (cases ok)
      case True
      with assms j Inr have "and_then (prepare_rows E (e_seq env) (e_class env) js) (\<lambda>rows.
          and_then (ask_verdict E j rows) (\<lambda>v. grant_and_run E env v rows)) s = (x, s')" by (simp add: handle_def)
      then show ?thesis
      proof (rule and_then_R)
        fix rows s1
        assume "and_then (ask_verdict E j rows) (\<lambda>v. grant_and_run E env v rows) s1 = (x, s')"
        then show "R s1 s'" by (rule and_then_R) (auto intro: ask_verdict_R grant_and_run_R)
      qed (rule prepare_rows_R)
    qed (use assms j reject_R in \<open>auto simp: handle_def\<close>)
  qed (use assms j reject_R in \<open>auto simp: handle_def split: if_splits\<close>)
qed

end

section \<open>What a job leaves alone and what it only adds to\<close>

definition kept :: "serve_session \<Rightarrow> serve_session \<Rightarrow> bool" where
  "kept s s' \<longleftrightarrow> sv_files s' = sv_files s \<and> sv_nextJob s' = sv_nextJob s \<and> au_session (sv_audit s') = au_session (sv_audit s) \<and>
     au_written (sv_audit s') = au_written (sv_audit s)"

interpretation kept: session_frame kept
  by unfold_locales (auto simp: kept_def upd_audit_def count_result_def)

definition later :: "serve_session \<Rightarrow> serve_session \<Rightarrow> bool" where
  "later s s' \<longleftrightarrow> sv_Level s' = sv_Level s \<and> sv_keys s' = sv_keys s \<and> prefix (au_log (sv_audit s)) (au_log (sv_audit s')) \<and>
     prefix (au_results (sv_audit s)) (au_results (sv_audit s')) \<and> suffix (sv_input s') (sv_input s) \<and>
     (engine_ready (sv_engine s) \<longrightarrow> grows (sv_engine s) (sv_engine s'))"

lemma later_refl: "later s s"
  using grows_refl by (simp add: later_def engine_ready_def)

lemma later_trans: "later a b \<Longrightarrow> later b c \<Longrightarrow> later a c"
  using grows_trans grows_ready unfolding later_def by (metis (full_types) prefix_order.trans suffix_order.trans)

lemma later_engine: "Redact addr high (sv_engine s) ls = (rd, e) \<Longrightarrow> later s (s\<lparr>sv_engine := e\<rparr>)"
  using Redact_ok(1) by (auto simp: later_def)

interpretation later: wide_frame later
proof unfold_locales
  show "later a c" if "later a b" "later b c" for a b c using that by (rule later_trans)
qed (auto simp: later_def upd_audit_def count_result_def engine_ready_def grows_refl intro: Redact_ok(1) [unfolded engine_ready_def])

definition quiet :: "serve_session \<Rightarrow> serve_session \<Rightarrow> bool" where
  "quiet s s' \<longleftrightarrow> sv_posted s' = sv_posted s \<and> au_results (sv_audit s') = au_results (sv_audit s) \<and> sv_keys s' = sv_keys s \<and>
     sv_nextResult s' = sv_nextResult s"

interpretation quiet: scope_frame quiet
  by unfold_locales (auto simp: quiet_def upd_audit_def)

section \<open>Results that are sent\<close>

definition posts :: "serve_env \<Rightarrow> sessionKeys \<Rightarrow> envelope list \<Rightarrow> result list \<Rightarrow> bool" where
  "posts E keys es rs \<longleftrightarrow>
     list_all2 (\<lambda>e r. SealResult (ev_crypto E) keys (ev_id E) (e_seq e) ClassRead (ev_enc_result E r) = Inr e) es rs"

definition seqs :: "u64 \<Rightarrow> nat \<Rightarrow> u64 list" where
  "seqs n k = map (\<lambda>i. n + of_nat i) [0..<k]"

text \<open>
  From \<open>s\<close> to \<open>s'\<close> exactly the results \<open>rs\<close> were posted, each of them kept in the local copy first. After a step
  that succeeded (\<open>fin\<close>) they are the answers to \<open>ids\<close>. They are numbered without gap.
\<close>

definition sends :: "serve_env \<Rightarrow> (result \<Rightarrow> bool) \<Rightarrow> serve_session \<Rightarrow> serve_session \<Rightarrow> string list \<Rightarrow> bool \<Rightarrow> bool" where
  "sends E Q s s' ids fin \<longleftrightarrow>
     (\<exists>es rs extra. sv_posted s' = sv_posted s @ es \<and> posts E (sv_keys s) es rs \<and> (\<forall>r \<in> set rs. Q r) \<and>
        au_results (sv_audit s') = au_results (sv_audit s) @ zip (map e_seq es) (map res_Lines rs) @ extra \<and>
        sv_keys s' = sv_keys s \<and> map e_seq es = seqs (sv_nextResult s) (length es) \<and>
        (fin \<longrightarrow> extra = [] \<and> map res_ID rs = ids \<and> sv_nextResult s' = sv_nextResult s + of_nat (length es)))"

lemma seqs_append: "seqs n (k + l) = seqs n k @ seqs (n + of_nat k) l"
  by (induction l) (simp_all add: seqs_def algebra_simps)

lemma seqs_1: "seqs n (Suc 0) = [n]" by (simp add: seqs_def)

lemma sends_quiet: "quiet s s' \<Longrightarrow> sends E Q s s' [] fin"
  unfolding sends_def by (intro exI [of _ "[]"]) (simp add: quiet_def posts_def seqs_def)

lemma sends_mono: "sends E Q s s' ids fin \<Longrightarrow> (\<And>r. Q r \<Longrightarrow> Q' r) \<Longrightarrow> sends E Q' s s' ids fin"
  unfolding sends_def by blast

lemma sends_failed: "sends E Q s s' ids fin \<Longrightarrow> sends E Q s s' ids' False"
  unfolding sends_def by blast

lemma sends_trans:
  assumes "sends E Q s s1 ids True" "sends E Q s1 s' ids' fin"
  shows "sends E Q s s' (ids @ ids') fin"
proof -
  from assms(1) obtain es rs where a: "sv_posted s1 = sv_posted s @ es" "posts E (sv_keys s) es rs" "\<forall>r \<in> set rs. Q r"
      "au_results (sv_audit s1) = au_results (sv_audit s) @ zip (map e_seq es) (map res_Lines rs)" "sv_keys s1 = sv_keys s"
      "map res_ID rs = ids" "map e_seq es = seqs (sv_nextResult s) (length es)" "sv_nextResult s1 = sv_nextResult s + of_nat (length es)"
    by (auto simp: sends_def)
  from assms(2) obtain es' rs' extra where b: "sv_posted s' = sv_posted s1 @ es'" "posts E (sv_keys s1) es' rs'" "\<forall>r \<in> set rs'. Q r"
      "au_results (sv_audit s') = au_results (sv_audit s1) @ zip (map e_seq es') (map res_Lines rs') @ extra" "sv_keys s' = sv_keys s1"
      "map e_seq es' = seqs (sv_nextResult s1) (length es')"
      "fin \<longrightarrow> extra = [] \<and> map res_ID rs' = ids' \<and> sv_nextResult s' = sv_nextResult s1 + of_nat (length es')"
    by (auto simp: sends_def)
  have len: "length es = length rs" using a(2) by (simp add: posts_def list_all2_lengthD)
  have "posts E (sv_keys s) (es @ es') (rs @ rs')" using a(2,5) b(2) by (simp add: posts_def list_all2_appendI)
  moreover have "map e_seq (es @ es') = seqs (sv_nextResult s) (length (es @ es'))"
    using a(7,8) b(6) by (simp add: seqs_append)
  moreover have "zip (map e_seq (es @ es')) (map res_Lines (rs @ rs')) =
      zip (map e_seq es) (map res_Lines rs) @ zip (map e_seq es') (map res_Lines rs')" using len by simp
  then have "au_results (sv_audit s') = au_results (sv_audit s) @ zip (map e_seq (es @ es')) (map res_Lines (rs @ rs')) @ extra"
    unfolding b(4) a(4) by simp
  moreover have "sv_posted s' = sv_posted s @ (es @ es')" "sv_keys s' = sv_keys s" "\<forall>r \<in> set (rs @ rs'). Q r"
    using a(1,3,5) b(1,3,5) by auto
  moreover have "fin \<longrightarrow> extra = [] \<and> map res_ID (rs @ rs') = ids @ ids' \<and> sv_nextResult s' = sv_nextResult s + of_nat (length (es @ es'))"
    using a(6,8) b(7) by simp
  ultimately show ?thesis unfolding sends_def by blast
qed

lemma and_then_sends:
  assumes "and_then m k s = (y, s')"
    and "\<And>x s1. m s = (x, s1) \<Longrightarrow> sends E Q s s1 ids (\<not> isl x)"
    and "\<And>x s1. m s = (Inr x, s1) \<Longrightarrow> k x s1 = (y, s') \<Longrightarrow> sends E Q s1 s' ids' (\<not> isl y)"
  shows "sends E Q s s' (ids @ ids') (\<not> isl y)"
  using assms(1)
proof (cases rule: and_then_cases)
  case (fails e)
  with assms(2) [OF fails(1)] sends_failed show ?thesis by fastforce
next
  case (goes x s1)
  with assms(2) [OF goes(1)] assms(3) sends_trans show ?thesis by fastforce
qed

lemma seal_seq: "SealResult C keys i seq cls p = Inr e \<Longrightarrow> e_seq e = seq"
  by (auto simp: SealResult_def sealSession_def Let_def split: if_splits option.splits)


lemma audit_result_adds:
  "audit_result E q r s = (x, s') \<Longrightarrow> (isl x \<and> quiet s s') \<or>
     (sv_posted s' = sv_posted s \<and> au_results (sv_audit s') = au_results (sv_audit s) @ [(q, res_Lines r)] \<and>
      sv_keys s' = sv_keys s \<and> sv_nextResult s' = sv_nextResult s)"
  by (auto simp: audit_result_def effect_def upd_audit_def quiet_def Let_def split: if_splits option.splits)

lemma post_result_adds:
  "post_result E e s = (x, s') \<Longrightarrow> sv_posted s' = sv_posted s @ [e] \<and> au_results (sv_audit s') = au_results (sv_audit s) \<and>
     sv_keys s' = sv_keys s \<and> sv_nextResult s' = sv_nextResult s"
  by (auto simp: post_result_def effect_def Let_def split: option.splits)

lemma send_sends:
  assumes "send E p r s = (x, s')" "Q r"
  shows "sends E Q s s' [res_ID r] (\<not> isl x)"
proof (cases "unat (sv_nextResult s) > MaxSessionSeq")
  case True
  with assms(1) have "x = Inl ''result sequence exhausted''" "quiet s s'" by (auto simp: send_def quiet_def)
  with sends_failed [OF sends_quiet] show ?thesis by simp
next
  case False
  let ?n = "sv_nextResult s" and ?line = "[(sv_nextResult s, res_Lines r)]"
  let ?rest = "\<lambda>s2. case SealResult (ev_crypto E) (sv_keys s2) (ev_id E) (sv_nextResult s2) ClassRead (ev_enc_result E r) of
            Inl _ \<Rightarrow> (Inl ''cannot seal the result'', s2)
          | Inr e \<Rightarrow>
              and_then (post_result E e) (\<lambda>_.
              and_then (audit_event E (sv_nextResult s2) p ''sent'' r) (\<lambda>_ s3. (Inr (), count_result r s3))) s2"
  have kept_only: ?thesis if "isl x" "quiet s1 s'" "sv_posted s1 = sv_posted s" "sv_keys s1 = sv_keys s"
      "au_results (sv_audit s1) = au_results (sv_audit s) @ ?line" for s1
    unfolding sends_def using that
    by (intro exI [of _ "[]"] exI [of _ ?line]) (simp add: quiet_def posts_def seqs_def)
  from assms(1) False have "and_then (audit_result E ?n r) (\<lambda>_. and_then (audit_mapping E (Mapping (sv_engine s))) (\<lambda>_. ?rest)) s = (x, s')"
    by (simp add: send_def)
  then show ?thesis
  proof (cases rule: and_then_cases)
    case (fails e)
    from audit_result_adds [OF fails(1)] show ?thesis
    proof
      assume "isl (Inl e :: string + unit) \<and> quiet s s'"
      with fails(2) sends_failed [OF sends_quiet] show ?thesis by simp
    next
      assume "sv_posted s' = sv_posted s \<and> au_results (sv_audit s') = au_results (sv_audit s) @ ?line \<and>
        sv_keys s' = sv_keys s \<and> sv_nextResult s' = ?n"
      with fails(2) kept_only [of s'] quiet.R_refl show ?thesis by simp
    qed
  next
    case (goes u s1)
    from audit_result_adds [OF goes(1)] have s1: "sv_posted s1 = sv_posted s" "au_results (sv_audit s1) = au_results (sv_audit s) @ ?line"
      "sv_keys s1 = sv_keys s" "sv_nextResult s1 = ?n" by auto
    note eng = audit_result_engine [OF goes(1), symmetric]
    from goes(2) show ?thesis
    proof (cases rule: and_then_cases)
      case (fails e)
      with kept_only [of s1] s1 quiet.audit_mapping_R [OF fails(1) [unfolded eng]] show ?thesis by simp
    next
      case (goes v s2)
      note q = quiet.audit_mapping_R [OF goes(1) [unfolded eng]]
      then have s2: "sv_keys s2 = sv_keys s" "sv_nextResult s2 = ?n" "sv_posted s2 = sv_posted s"
        "au_results (sv_audit s2) = au_results (sv_audit s) @ ?line" using s1 by (simp_all add: quiet_def)
      show ?thesis
      proof (cases "SealResult (ev_crypto E) (sv_keys s) (ev_id E) ?n ClassRead (ev_enc_result E r)")
        case (Inl err)
        with goes(2) s2 have "x = Inl ''cannot seal the result''" "s' = s2" by auto
        with kept_only [of s1] s1 q show ?thesis by simp
      next
        case (Inr e)
        with goes(2) s2 have "and_then (post_result E e) (\<lambda>_. and_then (audit_event E ?n p ''sent'' r) (\<lambda>_ s3. (Inr (), count_result r s3))) s2 = (x, s')"
          by simp
        then have "sv_posted s' = sv_posted s @ [e] \<and> au_results (sv_audit s') = au_results (sv_audit s) @ ?line \<and> sv_keys s' = sv_keys s \<and>
            (\<not> isl x \<longrightarrow> sv_nextResult s' = ?n + 1)"
        proof (cases rule: and_then_cases)
          case (fails err)
          with post_result_adds s2 show ?thesis by fastforce
        next
          case (goes w s3)
          note s3 = post_result_adds [OF goes(1)]
          from goes(2) show ?thesis
          proof (cases rule: and_then_cases)
            case (fails err)
            with quiet.audit_event_R [OF fails(1)] s3 s2 show ?thesis by (simp add: quiet_def)
          next
            case (goes w' s4)
            with quiet.audit_event_R [OF goes(1)] s3 s2 show ?thesis by (auto simp: quiet_def count_result_def)
          qed
        qed
        moreover have "e_seq e = ?n" by (rule seal_seq [OF Inr])
        ultimately show ?thesis unfolding sends_def using Inr assms(2)
          by (intro exI [of _ "[e]"] exI [of _ "[r]"] exI [of _ "[]"]) (simp add: posts_def seqs_1)
      qed
    qed
  qed
qed

lemma quiet_then_sends:
  assumes "and_then m k s = (y, s')" "\<And>x s1. m s = (x, s1) \<Longrightarrow> quiet s s1"
    and "\<And>x s1. m s = (Inr x, s1) \<Longrightarrow> k x s1 = (y, s') \<Longrightarrow> sends E Q s1 s' ids (\<not> isl y)"
  shows "sends E Q s s' ids (\<not> isl y)"
  using and_then_sends [of m k s y s' E Q "[]" ids] assms sends_quiet by fastforce

lemma reject_sends:
  assumes "reject E q p msg s = (x, s')" "\<And>r. res_Lines r = [] \<Longrightarrow> rr_Flags (res_Redaction r) = 0 \<Longrightarrow> Q r"
  shows "sends E Q s s' [job_ID (pj_job p)] (\<not> isl x)"
  using assms(1) unfolding reject_def Let_def
  by (rule quiet_then_sends) (auto intro: quiet.audit_event_R intro!: assms(2) dest!: send_sends [where Q = Q] simp: no_result_def no_redaction_def)

lemma deny_job_sends:
  assumes "deny_job E q p s = (x, s')" "\<And>r. res_Lines r = [] \<Longrightarrow> rr_Flags (res_Redaction r) = 0 \<Longrightarrow> Q r"
  shows "sends E Q s s' [job_ID (pj_job p)] (\<not> isl x)"
  using assms(1) unfolding deny_job_def Let_def
  by (rule quiet_then_sends) (auto intro: quiet.audit_event_R intro!: assms(2) dest!: send_sends [where Q = Q] simp: no_result_def no_redaction_def)

section \<open>What is in a result\<close>

definition redacted_from :: "serve_env \<Rightarrow> engine \<Rightarrow> string list \<Rightarrow> bool" where
  "redacted_from E e0 ls \<longleftrightarrow>
     (\<exists>e raw k. grows e0 e \<and> ls = take k (rd_Lines (fst (Redact (ev_addr E) (ev_high E) e raw))))"

definition pressed :: "serve_session \<Rightarrow> serve_session \<Rightarrow> char \<Rightarrow> bool" where
  "pressed s s' c \<longleftrightarrow> (\<exists>pre. sv_input s = pre @ sv_input s' \<and> Inr c \<in> set pre)"

definition released :: "serve_env \<Rightarrow> serve_session \<Rightarrow> serve_session \<Rightarrow> result \<Rightarrow> bool" where
  "released E s s' r \<longleftrightarrow>
     (res_Lines r = [] \<or> redacted_from E (sv_engine s) (res_Lines r)) \<and>
     (sv_Level s = 1 \<and> rr_Flags (res_Redaction r) \<noteq> 0 \<longrightarrow> pressed s s' CHR ''s'')"

lemma pressed_later:
  assumes "pressed s1 s2 c" "later s s1" "later s2 s'"
  shows "pressed s s' c"
proof -
  obtain a where "sv_input s = a @ sv_input s1" using assms(2) by (auto simp: later_def suffix_def)
  moreover obtain b where "sv_input s2 = b @ sv_input s'" using assms(3) by (auto simp: later_def suffix_def)
  moreover obtain pre where "sv_input s1 = pre @ sv_input s2" "Inr c \<in> set pre" using assms(1) by (auto simp: pressed_def)
  ultimately show ?thesis unfolding pressed_def by (intro exI [of _ "a @ pre @ b"]) simp
qed

lemma released_later:
  assumes "released E s1 s2 r" "later s s1" "later s2 s'" "engine_ready (sv_engine s)"
  shows "released E s s' r"
proof -
  have "grows (sv_engine s) (sv_engine s1)" "sv_Level s1 = sv_Level s" using assms(2,4) by (auto simp: later_def)
  then have "redacted_from E (sv_engine s) ls" if "redacted_from E (sv_engine s1) ls" for ls
    using that grows_trans unfolding redacted_from_def by blast
  with assms(1) pressed_later [OF _ assms(2,3)] \<open>sv_Level s1 = _\<close> show ?thesis unfolding released_def by metis
qed

lemma released_empty: "res_Lines r = [] \<Longrightarrow> rr_Flags (res_Redaction r) = 0 \<Longrightarrow> released E s s' r"
  by (simp add: released_def)

lemma cap_json_lines:
  "(\<exists>k. res_Lines (cap_json E p r) = take k (res_Lines r)) \<and> res_ID (cap_json E p r) = res_ID r \<and>
   res_Redaction (cap_json E p r) = res_Redaction r \<and> res_Status (cap_json E p r) = res_Status r"
proof (induction E p r rule: cap_json.induct)
  case (1 E p r)
  show ?case
  proof (cases "res_Lines r \<noteq> [] \<and> \<not> length (ev_enc_result E r) \<le> MaxResultBytes - 16")
    case True
    then have eq: "cap_json E p r = cap_json E p (cut_result p r (length (res_Lines r) - 1))" by (subst cap_json.simps) simp
    from 1 [OF True] obtain k where "res_Lines (cap_json E p r) = take k (take (length (res_Lines r) - 1) (res_Lines r))"
      unfolding eq by (auto simp: cut_result_def)
    with 1 [OF True] eq show ?thesis by (auto simp: cut_result_def)
  next
    case False
    then have "cap_json E p r = r" by (subst cap_json.simps) auto
    then show ?thesis by (auto intro: exI [of _ "length (res_Lines r)"])
  qed
qed

lemma capResult_lines:
  "(\<exists>k. res_Lines (capResult E p r) = take k (res_Lines r)) \<and> res_ID (capResult E p r) = res_ID r \<and>
   res_Redaction (capResult E p r) = res_Redaction r \<and> res_Status (capResult E p r) = res_Status r"
proof (cases "cap_index 0 0 (res_Lines r)")
  case None
  then show ?thesis using cap_json_lines [of E p r] by (simp add: capResult_def)
next
  case (Some i)
  then show ?thesis using cap_json_lines [of E p "cut_result p r i"] by (auto simp: capResult_def cut_result_def)
qed

lemma job_result_fields:
  "res_ID (job_result E p out rd) = job_ID (pj_job p)"
  "\<exists>k. res_Lines (job_result E p out rd) = take k (rd_Lines rd)"
  "rr_Flags (res_Redaction (job_result E p out rd)) = int (length (flag_values (rd_Flags rd) (length (res_Lines (job_result E p out rd)))))"
  by (simp_all add: job_result_def case_prod_beta Let_def)
    (use capResult_lines in \<open>(metis (no_types, lifting) result.select_convs)+\<close>)

lemma review_result_cases:
  assumes "review_result E q p fl r s = (Inr r', s')"
  shows "(res_Lines r' = [] \<and> rr_Flags (res_Redaction r') = 0 \<and> res_ID r' = job_ID (pj_job p)) \<or>
    (r' = r \<and> (sv_Level s = 1 \<and> flag_values fl (length (res_Lines r)) \<noteq> [] \<longrightarrow> pressed s s' CHR ''s''))"
proof (cases "sv_Level s = 1 \<and> flag_values fl (length (res_Lines r)) \<noteq> []")
  case True
  obtain a ks where rv: "reviewFlags (sv_input s) = (a, ks)" by fastforce
  with assms True obtain b where a: "a = Inr b" by (auto simp: review_result_def split: sum.splits)
  show ?thesis
  proof (cases b)
    case True
    from rv a True have "Ask ''sd'' (sv_input s) = (Inr CHR ''s'', ks)"
      by (auto simp: reviewFlags_def split: prod.splits sum.splits)
    then obtain pre where "sv_input s = pre @ Inr CHR ''s'' # ks" using Ask_key by blast
    then have "pressed s (s\<lparr>sv_input := ks\<rparr>) CHR ''s''" unfolding pressed_def by (intro exI [of _ "pre @ [Inr CHR ''s'']"]) simp
    with assms \<open>sv_Level s = 1 \<and> _\<close> rv a True show ?thesis by (auto simp: review_result_def)
  next
    case False
    with assms \<open>sv_Level s = 1 \<and> _\<close> rv a show ?thesis
      by (auto simp: review_result_def Let_def no_result_def no_redaction_def elim!: and_then_cases)
  qed
qed (use assms in \<open>auto simp: review_result_def\<close>)

lemma run_job_sends:
  assumes "run_job E q p s = (x, s')" "engine_ready (sv_engine s)"
  shows "sends E (released E s s') s s' [job_ID (pj_job p)] (\<not> isl x)"
  using assms(1) unfolding run_job_def
proof (rule quiet_then_sends)
  fix y s1
  assume "audit_event E q p ''approved'' no_result s = (y, s1)"
  then show "quiet s s1" by (rule quiet.audit_event_R)
next
  fix y and s1 :: serve_session
  assume ev: "audit_event E q p ''approved'' no_result s = (Inr y, s1)"
  let ?out = "execute (ev_job E (sv_tick s1)) p (sv_files s1)"
  obtain rd e where rd: "Redact (ev_addr E) (ev_high E) (sv_engine s1) (fst ?out) = (rd, e)" by fastforce
  let ?r = "job_result E p ?out rd" and ?s2 = "s1\<lparr>sv_engine := e, sv_tick := sv_tick s1 + 1\<rparr>"
  assume "(\<lambda>_ s. let out = execute (ev_job E (sv_tick s)) p (sv_files s) in
       case Redact (ev_addr E) (ev_high E) (sv_engine s) (fst out) of (rd, e') \<Rightarrow>
         and_then (review_result E q p (rd_Flags rd) (job_result E p out rd)) (send E p)
           (s\<lparr>sv_engine := e', sv_tick := sv_tick s + 1\<rparr>)) y s1 = (x, s')"
  then have run: "and_then (review_result E q p (rd_Flags rd) ?r) (send E p) ?s2 = (x, s')" using rd by (simp add: Let_def)
  note l1 = later.audit_event_R [OF ev]
  have l2: "later s1 ?s2" using later_trans [OF later_engine [OF rd] later.R_tick [of _ "sv_tick s1 + 1"]] by simp
  obtain k where k: "res_Lines ?r = take k (rd_Lines rd)" using job_result_fields(2) by blast
  have red: "redacted_from E (sv_engine s) (res_Lines ?r)"
    unfolding redacted_from_def using l1 assms(2) rd k by (intro exI [of _ "sv_engine s1"] exI [of _ "fst ?out"] exI [of _ k]) (simp add: later_def)
  have lvl: "sv_Level ?s2 = sv_Level s" using l1 by (simp add: later_def)
  have "sends E (released E s s') ?s2 s' [job_ID (pj_job p)] (\<not> isl x)"
    using run
  proof (cases rule: and_then_cases)
    case (fails err)
    with sends_failed [OF sends_quiet [OF quiet.review_result_R [OF fails(1)]]] show ?thesis by simp
  next
    case (goes r' s3)
    have ids: "res_ID r' = job_ID (pj_job p)" using review_result_cases [OF goes(1)] job_result_fields(1) by metis
    have "released E s s' r'" using review_result_cases [OF goes(1)]
    proof (elim disjE conjE)
      assume "r' = ?r" and "sv_Level ?s2 = 1 \<and> flag_values (rd_Flags rd) (length (res_Lines ?r)) \<noteq> [] \<longrightarrow> pressed ?s2 s3 CHR ''s''"
      with red lvl job_result_fields(3) [of E p ?out rd] pressed_later [OF _ later_trans [OF l1 l2] later.send_R [OF goes(2)]]
      show ?thesis by (auto simp: released_def)
    qed (simp add: released_empty)
    from sends_trans [OF sends_quiet [OF quiet.review_result_R [OF goes(1)]] send_sends [where Q = "released E s s'", OF goes(2) this]] ids
    show ?thesis by simp
  qed
  moreover have "quiet s1 ?s2" by (simp add: quiet_def)
  ultimately show "sends E (released E s s') s1 s' [job_ID (pj_job p)] (\<not> isl x)"
    using sends_trans [OF sends_quiet] by fastforce
qed

section \<open>The rows of a job\<close>

definition for_job :: "job \<Rightarrow> preparedJob \<times> job_error option \<Rightarrow> bool" where
  "for_job j x \<longleftrightarrow> pj_job (fst x) = j"

lemma for_job_intros:
  "pj_job p = j \<Longrightarrow> for_job j (p, e)"
  "for_job j x \<Longrightarrow> for_job j y \<Longrightarrow> for_job j (if c then x else y)"
  "for_job j x \<Longrightarrow> (\<And>u. for_job j (g u)) \<Longrightarrow> for_job j (case_option x g u')"
  "(\<And>u. for_job j (f' u)) \<Longrightarrow> (\<And>u. for_job j (h u)) \<Longrightarrow> for_job j (case_sum f' h v)"
  "(\<And>a b. for_job j (k a b)) \<Longrightarrow> for_job j (case_prod k w)"
  by (auto simp: for_job_def split: option.splits sum.splits prod.splits)

lemma prepareJournal_job: "pj_job p = j \<Longrightarrow> for_job j (prepareJournal E now p)"
  unfolding prepareJournal_def Let_def by (intro for_job_intros) simp_all

lemma prepare_params_job:
  assumes "pj_job p = j" shows "for_job j (prepare_params E f now p)"
proof -
  have "for_job j (prepare_unit E now p)" "for_job j (prepare_docker E now p)" "for_job j (prepare_read E p)" "for_job j (prepare_tail E p)"
      "for_job j (prepare_search E f now p)"
    unfolding prepare_unit_def prepare_docker_def prepare_read_def prepare_tail_def prepare_search_def Let_def
    by (intro for_job_intros prepareJournal_job; simp add: assms)+
  then show ?thesis unfolding prepare_params_def Let_def by (intro for_job_intros) (simp_all add: assms)
qed

lemma prepare_job: "pj_job (fst (prepare E j cls f now)) = j"
proof -
  obtain p1 err where p1: "prepare_params E f now (new_prepared j) = (p1, err)" by fastforce
  with prepare_params_job [of "new_prepared j" j E f now] have "pj_job p1 = j" by (simp add: new_prepared_def for_job_def)
  with p1 show ?thesis
    by (auto simp: prepare_def Let_def mark_sensitive_def new_prepared_def split: option.splits sum.splits)
qed

definition row_ok :: "job_row \<Rightarrow> bool" where
  "row_ok r \<longleftrightarrow> pj_job (jr_prep r) = jr_job r"

lemma classify_row: "pj_job p = j \<Longrightarrow> row_ok (classify J level j p err) \<and> jr_job (classify J level j p err) = j"
  by (auto simp: row_ok_def classify_def Let_def split: option.splits job_error.splits sum.splits)

lemma prepare_rows_jobs:
  "prepare_rows E q cls js s = (Inr rows, s') \<Longrightarrow> map jr_job rows = js \<and> list_all row_ok rows"
proof (induction js arbitrary: s rows)
  case (Cons j js)
  obtain p err where p: "prepare (ev_job E (sv_tick s)) j cls (sv_files s) (ev_now E (sv_tick s)) = (p, err)" by fastforce
  have pj: "pj_job p = j" using prepare_job [of "ev_job E (sv_tick s)" j cls "sv_files s" "ev_now E (sv_tick s)"] p by simp
  from Cons.prems obtain row s1 rows' where row: "prepare_row E q cls j s = (Inr row, s1)"
    and rows: "prepare_rows E q cls js s1 = (Inr rows', s')" "rows = row # rows'"
    by (auto elim!: and_then_cases)
  from row p pj have "row_ok row" "jr_job row = j" using classify_row [OF pj]
    by (auto simp: prepare_row_def elim!: and_then_cases)
  with Cons.IH [OF rows(1)] rows(2) show ?case by simp
qed simp

lemma reprepare_jobs:
  "reprepare E cls rows s = (Inr rows', s') \<Longrightarrow> list_all row_ok rows \<Longrightarrow> map jr_job rows' = map jr_job rows \<and> list_all row_ok rows'"
proof (induction rows arbitrary: s rows' s')
  case (Cons r rows)
  show ?case
  proof (cases "jr_err r = None \<and> jr_widen r \<noteq> None")
    case True
    obtain p err where p: "prepare (ev_job E (sv_tick s)) (jr_job r) cls (sv_files s) (ev_now E (sv_tick s)) = (p, err)" by fastforce
    have "pj_job p = jr_job r"
      using prepare_job [of "ev_job E (sv_tick s)" "jr_job r" cls "sv_files s" "ev_now E (sv_tick s)"] p by simp
    then have "row_ok (r\<lparr>jr_prep := p, jr_err := map_option error_text err\<rparr>)" by (simp add: row_ok_def)
    moreover from Cons.prems(1) True p obtain rest s1 where "reprepare E cls rows s1 = (Inr rest, s')"
      "rows' = r\<lparr>jr_prep := p, jr_err := map_option error_text err\<rparr> # rest" by (auto elim!: and_then_cases)
    ultimately show ?thesis using Cons.IH Cons.prems(2) by simp
  next
    case False
    with Cons.prems have "and_then (reprepare E cls rows) (\<lambda>rows s1. (Inr (r # rows), s1)) s = (Inr rows', s')" by auto
    with Cons.IH Cons.prems(2) show ?thesis by (fastforce elim!: and_then_cases)
  qed
qed simp

section \<open>Handling a job\<close>

definition row_ids :: "job_row list \<Rightarrow> string list" where
  "row_ids rows = map (\<lambda>r. job_ID (pj_job (jr_prep r))) rows"

lemma row_ids_jobs: "list_all row_ok rows \<Longrightarrow> row_ids rows = map job_ID (map jr_job rows)"
  by (induction rows) (auto simp: row_ids_def row_ok_def)

definition released_if :: "serve_env \<Rightarrow> bool \<Rightarrow> serve_session \<Rightarrow> serve_session \<Rightarrow> result \<Rightarrow> bool" where
  "released_if E ok s s' r \<longleftrightarrow> released E s s' r \<and> (res_Lines r \<noteq> [] \<longrightarrow> ok)"

lemma released_if_later:
  "released_if E ok s1 s2 r \<Longrightarrow> later s s1 \<Longrightarrow> later s2 s' \<Longrightarrow> engine_ready (sv_engine s) \<Longrightarrow> released_if E ok s s' r"
  using released_later by (auto simp: released_if_def)

lemma released_if_empty: "res_Lines r = [] \<Longrightarrow> rr_Flags (res_Redaction r) = 0 \<Longrightarrow> released_if E ok s s' r"
  by (simp add: released_if_def released_empty)

lemma run_row_sends:
  assumes "run_row E q ok r s = (x, s')" "engine_ready (sv_engine s)"
  shows "sends E (released_if E ok s s') s s' [job_ID (pj_job (jr_prep r))] (\<not> isl x)"
proof (cases "jr_err r = None \<and> ok")
  case True
  with assms(1) have "run_job E q (jr_prep r) s = (x, s')" by (simp add: run_row_def)
  from run_job_sends [OF this assms(2)] show ?thesis by (rule sends_mono) (simp add: released_if_def True)
next
  case False
  then consider msg where "reject E q (jr_prep r) msg s = (x, s')" | "deny_job E q (jr_prep r) s = (x, s')"
    using assms(1) by (auto simp: run_row_def split: option.splits if_splits)
  then show ?thesis by cases (erule reject_sends deny_job_sends, rule released_if_empty, assumption+)+
qed

lemma later_ready: "later s s1 \<Longrightarrow> engine_ready (sv_engine s) \<Longrightarrow> engine_ready (sv_engine s1)"
  using grows_ready by (auto simp: later_def)

lemma run_rows_sends:
  assumes "run_rows E q ok rows s = (x, s')" "engine_ready (sv_engine s)"
  shows "sends E (released_if E ok s s') s s' (row_ids rows) (\<not> isl x)"
  using assms
proof (induction rows arbitrary: s)
  case Nil
  then show ?case using sends_quiet quiet.R_refl by (simp add: row_ids_def)
next
  case (Cons r rows)
  from Cons.prems(1) have "and_then (run_row E q ok r) (\<lambda>_. run_rows E q ok rows) s = (x, s')" by simp
  then have "sends E (released_if E ok s s') s s' ([job_ID (pj_job (jr_prep r))] @ row_ids rows) (\<not> isl x)"
  proof (rule and_then_sends)
    fix y s1
    assume row: "run_row E q ok r s = (y, s1)"
    show "sends E (released_if E ok s s') s s1 [job_ID (pj_job (jr_prep r))] (\<not> isl y)"
    proof (rule sends_mono [OF run_row_sends [OF row Cons.prems(2)]])
      have "later s1 s'" using row Cons.prems(1) later.run_rows_R later_refl
        by (fastforce elim!: and_then_cases)
      then show "released_if E ok s s1 r' \<Longrightarrow> released_if E ok s s' r'" for r'
        using released_if_later later_refl Cons.prems(2) by blast
    qed
  next
    fix y s1
    assume row: "run_row E q ok r s = (Inr y, s1)" and rest: "run_rows E q ok rows s1 = (x, s')"
    note l = later.run_row_R [OF row]
    from Cons.IH [OF rest later_ready [OF l Cons.prems(2)]] show "sends E (released_if E ok s s') s1 s' (row_ids rows) (\<not> isl x)"
      using released_if_later [OF _ l later_refl Cons.prems(2)] by (rule sends_mono)
  qed
  then show ?case by (simp add: row_ids_def)
qed

lemma ask_verdict_key:
  assumes "ask_verdict E j rows s = (Inr v, s')" "v \<noteq> Deny"
  shows "sv_Level s = 0 \<and> v = Approve \<or> sv_Level s = 1 \<and> pressed s s' (verdict_key v)"
proof (cases "sv_Level s = 0")
  case False
  let ?ws = "map snd (widenings rows)"
  let ?once = "?ws \<noteq> [] \<and> onceReason ?ws = []"
  from False assms obtain ks where a: "approve E j (map jr_prep (open_rows rows)) ?once (sv_input s) = (Inr v, ks)"
    and s': "s' = s\<lparr>sv_input := ks\<rparr>" and l: "sv_Level s = 1"
    by (auto simp: ask_verdict_def Let_def split: if_splits prod.splits)
  from approve_consumes [OF a] s' l show ?thesis by (auto simp: pressed_def)
qed (use assms in \<open>auto simp: ask_verdict_def\<close>)

definition allowed :: "serve_session \<Rightarrow> serve_session \<Rightarrow> bool" where
  "allowed s s' \<longleftrightarrow> sv_Level s = 0 \<or> pressed s s' CHR ''a'' \<or> pressed s s' CHR ''o''"

lemma allowed_later: "allowed s1 s2 \<Longrightarrow> later s s1 \<Longrightarrow> later s2 s' \<Longrightarrow> allowed s s'"
  using pressed_later by (fastforce simp: allowed_def later_def)

lemma verdict_allowed: "ask_verdict E j rows s = (Inr v, s') \<Longrightarrow> v \<noteq> Deny \<Longrightarrow> allowed s s'"
  using ask_verdict_key [of E j rows s v s'] by (cases v) (auto simp: allowed_def verdict_key_def)

lemma sends_files: "sends E Q s (s'\<lparr>sv_files := f\<rparr>) ids fin = sends E Q s s' ids fin"
  by (simp add: sends_def)

lemma later_files: "later s s' \<Longrightarrow> later s (s'\<lparr>sv_files := f\<rparr>)"
  by (simp add: later_def)

lemma grant_and_run_sends:
  assumes "grant_and_run E env v rows s = (x, s')" "engine_ready (sv_engine s)" "list_all row_ok rows"
  shows "sends E (released_if E (v \<noteq> Deny) s s') s s' (row_ids rows) (\<not> isl x)"
proof (cases "v \<noteq> Deny \<and> widenings rows \<noteq> []")
  case True
  let ?run = "and_then (widen E (e_seq env) (widenings rows) (v = Once)) (\<lambda>_.
              and_then (reprepare E (e_class env) rows) (\<lambda>rows'. run_rows E (e_seq env) True rows')) s"
  obtain s1 f where run: "?run = (x, s1)" and s': "s' = s1\<lparr>sv_files := f\<rparr>"
  proof -
    obtain x1 s1 where r: "?run = (x1, s1)" by fastforce
    with assms(1) True have "x1 = x" "s' = s1\<lparr>sv_files := sv_files s1\<rparr> \<or> s' = s1\<lparr>sv_files := (sv_files s1)\<lparr>f_Paths := f_Paths (sv_files s)\<rparr>\<rparr>"
      by (auto simp: grant_and_run_def split: if_splits)
    with r that show ?thesis by blast
  qed
  from run have "sends E (released_if E True s s') s s1 (row_ids rows) (\<not> isl x)"
  proof (rule quiet_then_sends)
    fix y t
    assume w: "widen E (e_seq env) (widenings rows) (v = Once) s = (Inr y, t)"
      and "and_then (reprepare E (e_class env) rows) (\<lambda>rows'. run_rows E (e_seq env) True rows') t = (x, s1)"
    from this(2) show "sends E (released_if E True s s') t s1 (row_ids rows) (\<not> isl x)"
    proof (rule quiet_then_sends)
      fix rows' u
      assume r: "reprepare E (e_class env) rows t = (Inr rows', u)" and rr: "run_rows E (e_seq env) True rows' u = (x, s1)"
      have l: "later s u" using later_trans [OF later.widen_R [OF w] later.reprepare_R [OF r]] .
      have "later s1 s'" unfolding s' by (rule later_files [OF later_refl])
      from sends_mono [OF run_rows_sends [OF rr later_ready [OF l assms(2)]] released_if_later [OF _ l this assms(2)]]
      have "sends E (released_if E True s s') u s1 (row_ids rows') (\<not> isl x)" .
      with reprepare_jobs [OF r assms(3)] assms(3) show "sends E (released_if E True s s') u s1 (row_ids rows) (\<not> isl x)"
        by (simp add: row_ids_jobs)
    qed (rule quiet.reprepare_R)
  qed (rule quiet.widen_R)
  with True s' show ?thesis by (simp add: sends_files)
next
  case False
  with assms(1) have "run_rows E (e_seq env) (v \<noteq> Deny) rows s = (x, s')" by (auto simp: grant_and_run_def)
  from run_rows_sends [OF this assms(2)] show ?thesis .
qed

text \<open>The identifiers that an envelope asks answers for.\<close>

definition job_ids :: "serve_env \<Rightarrow> bytes \<Rightarrow> string list" where
  "job_ids E data =
     (case ev_dec_job E data of (j, ok) \<Rightarrow>
        if \<not> ok then [job_ID j] else (case plan_jobs E j of Inl _ \<Rightarrow> [job_ID j] | Inr js \<Rightarrow> map job_ID js))"

lemma handle_sends:
  assumes "handle E env data s = (x, s')" "engine_ready (sv_engine s)"
  shows "sends E (released_if E (allowed s s') s s') s s' (job_ids E data) (\<not> isl x)"
proof -
  obtain j ok where j: "ev_dec_job E data = (j, ok)" by fastforce
  have rej: ?thesis if "reject E (e_seq env) (new_prepared j) msg s = (x, s')" "job_ids E data = [job_ID j]" for msg
  proof -
    from that(1) have "sends E (released_if E (allowed s s') s s') s s' [job_ID (pj_job (new_prepared j))] (\<not> isl x)"
      by (rule reject_sends) (rule released_if_empty)
    with that(2) show ?thesis by (simp add: new_prepared_def)
  qed
  show ?thesis
  proof (cases "ok \<and> (\<exists>js. plan_jobs E j = Inr js)")
    case True
    then obtain js where js: ok "plan_jobs E j = Inr js" by blast
    with assms(1) j have "and_then (prepare_rows E (e_seq env) (e_class env) js) (\<lambda>rows.
        and_then (ask_verdict E j rows) (\<lambda>v. grant_and_run E env v rows)) s = (x, s')" by (simp add: handle_def)
    then have "sends E (released_if E (allowed s s') s s') s s' (map job_ID js) (\<not> isl x)"
    proof (rule quiet_then_sends)
      fix rows s1
      assume p: "prepare_rows E (e_seq env) (e_class env) js s = (Inr rows, s1)"
        and "and_then (ask_verdict E j rows) (\<lambda>v. grant_and_run E env v rows) s1 = (x, s')"
      note rows = prepare_rows_jobs [OF p]
      note l1 = later.prepare_rows_R [OF p]
      from \<open>and_then _ _ s1 = _\<close> show "sends E (released_if E (allowed s s') s s') s1 s' (map job_ID js) (\<not> isl x)"
      proof (rule quiet_then_sends)
        fix v s2
        assume v: "ask_verdict E j rows s1 = (Inr v, s2)" and g: "grant_and_run E env v rows s2 = (x, s')"
        note l2 = later_trans [OF l1 later.ask_verdict_R [OF v]]
        have "allowed s s'" if "v \<noteq> Deny"
          using allowed_later [OF verdict_allowed [OF v that] l1 later.grant_and_run_R [OF g]] .
        then have weaker: "released_if E (v \<noteq> Deny) s2 s' r \<Longrightarrow> released_if E (allowed s s') s s' r" for r
          using released_if_later [OF _ l2 later_refl assms(2)] by (auto simp: released_if_def)
        from grant_and_run_sends [OF g later_ready [OF l2 assms(2)]] rows row_ids_jobs [of rows]
        have "sends E (released_if E (v \<noteq> Deny) s2 s') s2 s' (map job_ID js) (\<not> isl x)" by simp
        then show "sends E (released_if E (allowed s s') s s') s2 s' (map job_ID js) (\<not> isl x)" by (rule sends_mono) (rule weaker)
      qed (rule quiet.ask_verdict_R)
    qed (rule quiet.prepare_rows_R)
    with j js show ?thesis by (simp add: job_ids_def)
  next
    case False
    with assms(1) j obtain msg where "reject E (e_seq env) (new_prepared j) msg s = (x, s')"
      by (auto simp: handle_def split: if_splits sum.splits)
    moreover have "job_ids E data = [job_ID j]" using False j by (auto simp: job_ids_def split: sum.splits)
    ultimately show ?thesis by (rule rej)
  qed
qed

section \<open>The scope\<close>

lemma add_scope_simps [simp]:
  "add_scope once [] f = f" "add_scope once b (add_scope once a f) = add_scope once (a @ b) f"
  by (simp_all add: add_scope_def)

lemma kept_widen_files:
  "audit_event E q p ev r s = (x, s') \<Longrightarrow> sv_files s' = sv_files s"
  using kept.audit_event_R by (auto simp: kept_def)

lemma widen_loop_files:
  "widen_loop E q once ws s = (x, s') \<Longrightarrow>
     \<exists>added. sv_files s' = add_scope once added (sv_files s) \<and> (\<forall>y. x = Inr y \<longrightarrow> y = added)"
proof (induction ws arbitrary: s x s')
  case (Cons pw ws)
  obtain p w where pw: "pw = (p, w)" by fastforce
  let ?fresh = "fresh_grants (scope_list once (sv_files s)) (if once then wd_paths w else wd_dirs w)"
  let ?s = "s\<lparr>sv_files := add_scope once ?fresh (sv_files s)\<rparr>"
  show ?case
  proof (cases "?fresh = []")
    case False
    with Cons.prems pw have
      "and_then (audit_event E q (p\<lparr>pj_paths := ?fresh\<rparr>) (if once then ''scope-added-once'' else ''scope-added'') no_result) (\<lambda>_.
        and_then (widen_loop E q once ws) (\<lambda>added s1. (Inr (?fresh @ added), s1))) ?s = (x, s')" by (simp add: Let_def)
    then show ?thesis
    proof (cases rule: and_then_cases)
      case (fails e)
      then show ?thesis using kept_widen_files by (intro exI [of _ ?fresh]) fastforce
    next
      case (goes u s1)
      have s1: "sv_files s1 = add_scope once ?fresh (sv_files s)" using kept_widen_files [OF goes(1)] by simp
      obtain y s2 where rest: "widen_loop E q once ws s1 = (y, s2)" by fastforce
      from Cons.IH [OF rest] obtain more where
        more: "sv_files s2 = add_scope once more (sv_files s1)" "\<forall>z. y = Inr z \<longrightarrow> z = more" by blast
      from goes(2) rest have "s' = s2" "\<forall>z. x = Inr z \<longrightarrow> (\<exists>y'. y = Inr y' \<and> z = ?fresh @ y')"
        by (auto simp: and_then_def split: sum.splits)
      with more s1 show ?thesis by (intro exI [of _ "?fresh @ more"]) auto
    qed
  qed (use Cons pw in \<open>simp add: Let_def\<close>)
qed (auto intro: exI [of _ "[]"])

lemma writeSession_writes:
  "writeSession E s = (x, s') \<Longrightarrow> sv_files s' = sv_files s \<and> (x = Inr () \<longrightarrow> au_written (sv_audit s') = Some (au_session (sv_audit s)))"
  by (auto simp: writeSession_def effect_def upd_audit_def Let_def split: option.splits)

text \<open>After a grant for the session, \<^verbatim>\<open>session.json\<close> has the scope.\<close>

definition scope_written :: "serve_session \<Rightarrow> bool" where
  "scope_written s \<longleftrightarrow> (\<exists>j. au_written (sv_audit s) = Some j \<and> sj_Scope j = f_Allowed (sv_files s))"

lemma widen_files:
  assumes "widen E q ws once s = (x, s')"
  shows "\<exists>added. sv_files s' = add_scope once added (sv_files s) \<and> (x = Inr () \<and> added \<noteq> [] \<and> \<not> once \<longrightarrow> scope_written s')"
  using assms unfolding widen_def
proof (cases rule: and_then_cases)
  case (fails e)
  with widen_loop_files show ?thesis by blast
next
  case (goes added s1)
  note f = widen_loop_files [OF goes(1)]
  show ?thesis
  proof (cases "added = [] \<or> once")
    case True
    with goes(2) f show ?thesis by auto
  next
    case False
    with goes(2) have "writeSession E (upd_audit (\<lambda>a. a\<lparr>au_session := (au_session a)\<lparr>sj_Scope := f_Allowed (sv_files s1)\<rparr>\<rparr>) s1) = (x, s')" by simp
    from writeSession_writes [OF this] f show ?thesis by (auto simp: upd_audit_def scope_written_def)
  qed
qed

lemma kept_scope: "kept s s' \<Longrightarrow> sv_files s' = sv_files s \<and> (scope_written s \<longrightarrow> scope_written s')"
  by (simp add: kept_def scope_written_def)

lemma grant_and_run_files:
  assumes "grant_and_run E env v rows s = (x, s')"
  shows "f_Paths (sv_files s') = f_Paths (sv_files s) \<and>
    (\<exists>added. f_Allowed (sv_files s') = f_Allowed (sv_files s) @ added \<and> (added \<noteq> [] \<longrightarrow> v = Approve \<and> widenings rows \<noteq> []) \<and>
      (x = Inr () \<and> added \<noteq> [] \<longrightarrow> scope_written s'))"
proof (cases "v \<noteq> Deny \<and> widenings rows \<noteq> []")
  case True
  let ?run = "and_then (widen E (e_seq env) (widenings rows) (v = Once)) (\<lambda>_.
              and_then (reprepare E (e_class env) rows) (\<lambda>rows'. run_rows E (e_seq env) True rows')) s"
  obtain s1 where run: "?run = (x, s1)"
    and s': "s' = (if v = Once then s1\<lparr>sv_files := (sv_files s1)\<lparr>f_Paths := f_Paths (sv_files s)\<rparr>\<rparr> else s1)"
    using assms True by (auto simp: grant_and_run_def split: prod.splits)
  obtain y t where w: "widen E (e_seq env) (widenings rows) (v = Once) s = (y, t)" by fastforce
  from widen_files [OF w] obtain added where
    a: "sv_files t = add_scope (v = Once) added (sv_files s)" "y = Inr () \<and> added \<noteq> [] \<and> v \<noteq> Once \<longrightarrow> scope_written t" by auto
  have k: "isl y \<and> x = y \<and> s1 = t \<or> y = Inr () \<and> kept t s1"
  proof (cases y)
    case (Inr u)
    with run w have "and_then (reprepare E (e_class env) rows) (\<lambda>rows'. run_rows E (e_seq env) True rows') t = (x, s1)"
      by (simp add: and_then_def)
    then have "kept t s1" by (rule kept.and_then_R) (auto intro: kept.reprepare_R kept.run_rows_R)
    with Inr show ?thesis by simp
  qed (use run w in \<open>auto simp: and_then_def\<close>)
  then have f: "sv_files s1 = sv_files t" "x = Inr () \<Longrightarrow> scope_written t \<longrightarrow> scope_written s1" "x = Inr () \<Longrightarrow> y = Inr ()"
    using kept_scope by auto
  show ?thesis
  proof (cases "v = Once")
    case True
    with s' f a show ?thesis by (intro conjI exI [of _ "[]"]) (simp_all add: add_scope_def)
  next
    case False
    with True have "v = Approve" by (cases v) auto
    with True False s' f a show ?thesis by (intro conjI exI [of _ added]) (auto simp: add_scope_def)
  qed
next
  case False
  with assms have "run_rows E (e_seq env) (v \<noteq> Deny) rows s = (x, s')" by (auto simp: grant_and_run_def)
  from kept.run_rows_R [OF this] show ?thesis by (auto simp: kept_def)
qed

lemma level_0_rows:
  "prepare_rows E q cls js s = (Inr rows, s') \<Longrightarrow> sv_Level s = 0 \<Longrightarrow> widenings rows = []"
proof (induction js arbitrary: s rows)
  case (Cons j js)
  from Cons.prems obtain row s1 rows' where row: "prepare_row E q cls j s = (Inr row, s1)"
    and rows: "prepare_rows E q cls js s1 = (Inr rows', s')" "rows = row # rows'"
    by (auto elim!: and_then_cases)
  have l: "sv_Level s1 = 0" using later.prepare_row_R [OF row] Cons.prems(2) by (simp add: later_def)
  then have "jr_widen row = None" using row
    by (auto simp: prepare_row_def classify_def Let_def split: prod.splits option.splits job_error.splits elim!: and_then_cases)
  with Cons.IH [OF rows(1) l] rows(2) show ?case by (auto simp: widenings_def open_rows_def map_filter_simps)
qed (auto simp: widenings_def open_rows_def map_filter_simps)

lemma handle_files:
  assumes "handle E env data s = (x, s')"
  shows "f_Paths (sv_files s') = f_Paths (sv_files s) \<and>
    (\<exists>added. f_Allowed (sv_files s') = f_Allowed (sv_files s) @ added \<and> (added \<noteq> [] \<longrightarrow> sv_Level s = 1 \<and> pressed s s' CHR ''a'') \<and>
      (x = Inr () \<and> added \<noteq> [] \<longrightarrow> scope_written s'))"
proof -
  have same: ?thesis if "kept s s'" using that by (auto simp: kept_def)
  obtain j ok where j: "ev_dec_job E data = (j, ok)" by fastforce
  show ?thesis
  proof (cases "ok \<and> (\<exists>js. plan_jobs E j = Inr js)")
    case True
    then obtain js where js: ok "plan_jobs E j = Inr js" by blast
    with assms j have "and_then (prepare_rows E (e_seq env) (e_class env) js) (\<lambda>rows.
        and_then (ask_verdict E j rows) (\<lambda>v. grant_and_run E env v rows)) s = (x, s')" by (simp add: handle_def)
    then show ?thesis
    proof (cases rule: and_then_cases)
      case (fails e)
      with kept.prepare_rows_R same show ?thesis by blast
    next
      case (goes rows s1)
      note p = goes(1)
      note k1 = kept.prepare_rows_R [OF p] and l1 = later.prepare_rows_R [OF p]
      from goes(2) show ?thesis
      proof (cases rule: and_then_cases)
        case (fails e)
        with kept.ask_verdict_R [OF fails(1)] k1 kept.R_trans same show ?thesis by blast
      next
        case (goes v s2)
        have k2: "kept s s2" using kept.R_trans [OF k1 kept.ask_verdict_R [OF goes(1)]] .
        have "sv_Level s = 1 \<and> pressed s s' CHR ''a''" if "v = Approve" "widenings rows \<noteq> []"
        proof -
          have l0: "sv_Level s1 \<noteq> 0" using level_0_rows [OF p] that(2) l1 by (auto simp: later_def)
          with ask_verdict_key [OF goes(1)] that(1) have "sv_Level s1 = 1" "pressed s1 s2 CHR ''a''" by (auto simp: verdict_key_def)
          with l1 pressed_later [OF _ l1 later.grant_and_run_R [OF goes(2)]] show ?thesis by (auto simp: later_def)
        qed
        with grant_and_run_files [OF goes(2)] k2 show ?thesis by (auto simp: kept_def)
      qed
    qed
  next
    case False
    with assms j obtain msg where "reject E (e_seq env) (new_prepared j) msg s = (x, s')"
      by (auto simp: handle_def split: if_splits sum.splits)
    from kept.reject_R [OF this] show ?thesis by (rule same)
  qed
qed

section \<open>A whole session\<close>

lemma serve_loop_later: "serve_loop E envs s = (x, s') \<Longrightarrow> later s s'"
proof (induction envs arbitrary: s)
  case Nil
  then show ?case by (simp add: later_refl)
next
  case (Cons env envs)
  show ?case
  proof (cases "OpenJob (ev_crypto E) (sv_keys s) env (ev_id E) (sv_nextJob s)")
    case (Inl e)
    with Cons show ?thesis by simp
  next
    case (Inr data)
    let ?s = "s\<lparr>sv_nextJob := sv_nextJob s + 1\<rparr>"
    from Cons.prems Inr have "and_then (handle E env data) (\<lambda>_ s1.
        if unat (e_seq env) = MaxSessionSeq \<or> unat (sv_nextResult s1) > MaxSessionSeq then (Inr (), s1) else serve_loop E envs s1) ?s = (x, s')"
      by simp
    then have "later ?s s'" by (rule later.and_then_R) (auto split: if_splits intro: later.handle_R Cons.IH later_refl)
    then show ?thesis by (simp add: later_def)
  qed
qed

lemma sends_nextJob: "sends E Q (s\<lparr>sv_nextJob := n\<rparr>) s' ids fin = sends E Q s s' ids fin"
  by (simp add: sends_def)

lemma serve_loop_sends:
  assumes "serve_loop E envs s = (x, s')" "engine_ready (sv_engine s)"
  shows "\<exists>ids. sends E (released_if E (allowed s s') s s') s s' ids (\<not> isl x)"
  using assms
proof (induction envs arbitrary: s)
  case Nil
  then show ?case using sends_quiet quiet.R_refl by fastforce
next
  case (Cons env envs)
  show ?case
  proof (cases "OpenJob (ev_crypto E) (sv_keys s) env (ev_id E) (sv_nextJob s)")
    case (Inl e)
    with Cons show ?thesis by simp
  next
    case (Inr data)
    let ?s = "s\<lparr>sv_nextJob := sv_nextJob s + 1\<rparr>"
    let ?rest = "\<lambda>s1. if unat (e_seq env) = MaxSessionSeq \<or> unat (sv_nextResult s1) > MaxSessionSeq then (Inr (), s1) else serve_loop E envs s1"
    from Cons.prems(1) Inr have run: "and_then (handle E env data) (\<lambda>_. ?rest) ?s = (x, s')" by simp
    have l0: "later s ?s" and ready: "engine_ready (sv_engine ?s)" using later_refl Cons.prems(2) by (simp_all add: later_def)
    have weaker: "released_if E (allowed s s') s s' r"
      if "released_if E (allowed a b) a b r" "later s a" "later b s'" for a b r
      using that released_if_later [OF that Cons.prems(2)] allowed_later [OF _ that(2,3)] by (auto simp: released_if_def)
    from run show ?thesis
    proof (cases rule: and_then_cases)
      case (fails err)
      from sends_mono [OF handle_sends [OF fails(1) ready] weaker [OF _ l0 later_refl]] fails(2)
      have "sends E (released_if E (allowed s s') s s') ?s s' (job_ids E data) (\<not> isl x)" by simp
      then show ?thesis by (auto simp: sends_nextJob)
    next
      case (goes u s1)
      have l1: "later s s1" using later_trans [OF l0 later.handle_R [OF goes(1)]] .
      have l2: "later s1 s'" using goes(2) serve_loop_later later_refl by (auto split: if_splits)
      from sends_mono [OF handle_sends [OF goes(1) ready] weaker [OF _ l0 l2]]
      have a: "sends E (released_if E (allowed s s') s s') ?s s1 (job_ids E data) True" by simp
      obtain ids where "sends E (released_if E (allowed s s') s s') s1 s' ids (\<not> isl x)"
      proof (cases "unat (e_seq env) = MaxSessionSeq \<or> unat (sv_nextResult s1) > MaxSessionSeq")
        case True
        with goes(2) sends_quiet quiet.R_refl that show ?thesis by fastforce
      next
        case False
        with goes(2) have "serve_loop E envs s1 = (x, s')" by auto
        from Cons.IH [OF this later_ready [OF l1 Cons.prems(2)]] that sends_mono weaker [OF _ l1 later_refl] show ?thesis by blast
      qed
      from sends_trans [OF a this] have "sends E (released_if E (allowed s s') s s') ?s s' (job_ids E data @ ids) (\<not> isl x)" .
      then show ?thesis by (auto simp: sends_nextJob)
    qed
  qed
qed

section \<open>Jobs stay inside the scope\<close>

lemma resolve_permits: "resolve J f path isDir = Inr c \<Longrightarrow> Permits f c"
  by (auto simp: resolve_def Let_def split: if_splits option.splits sum.splits)

lemma expand_loop_permits:
  "expand_loop J f since ms paths = Inr out \<Longrightarrow> (\<forall>q \<in> set paths. Permits f q) \<Longrightarrow> length paths \<le> 200 \<Longrightarrow>
     (\<forall>q \<in> set out. Permits f q) \<and> length out \<le> 200"
proof (induction J f since ms paths rule: expand_loop.induct)
  case (2 J f since m ms paths)
  show ?case
  proof (cases "resolve J f m False")
    case (Inl e)
    with 2 show ?thesis by simp
  next
    case (Inr path)
    note p = resolve_permits [OF Inr]
    show ?thesis
    proof (cases "path \<in> set paths \<or> isl (Files_Open (jv_os J) f path)")
      case True
      with 2(2) [OF Inr] 2(3) [OF Inr] "2.prems" Inr show ?thesis by (auto split: sum.splits)
    next
      case False
      then obtain fo where fo: "path \<notin> set paths" "Files_Open (jv_os J) f path = Inr fo" by (cases "Files_Open (jv_os J) f path") auto
      show ?thesis
      proof (cases "fo_StatErr fo \<noteq> None \<or> \<not> fo_Regular fo \<or> fo_ModTime fo < since")
        case True
        with 2(4) [OF Inr fo] "2.prems" Inr fo show ?thesis by simp
      next
        case False
        with "2.prems"(1) Inr fo have len: "length paths + 1 \<le> 200" and
          rest: "expand_loop J f since ms (paths @ [path]) = Inr out" by (auto split: if_splits)
        have nl: "\<not> length paths + 1 > 200" using len by simp
        from 2(5) [OF Inr fo False nl rest] "2.prems"(2) p len show ?thesis by auto
      qed
    qed
  qed
qed simp

lemma expand_permits: "expand J f pat since = Inr paths \<Longrightarrow> (\<forall>q \<in> set paths. Permits f q) \<and> length paths \<le> 200"
  using expand_loop_permits [of J f since _ "[]" paths] by (auto simp: expand_def split: if_splits sum.splits option.splits)

text \<open>What the cases of the switch promise about an accepted job.\<close>

definition bounded :: "files \<Rightarrow> preparedJob \<Rightarrow> bool" where
  "bounded f p \<longleftrightarrow>
     (\<forall>path \<in> set (pj_paths p). Permits f path) \<and> length (pj_paths p) \<le> 200 \<and>
     (job_Name (pj_job p) = ''read_file'' \<longrightarrow>
        1 \<le> rf_From (pj_read p) \<and> rf_From (pj_read p) \<le> rf_To (pj_read p) \<and> rf_To (pj_read p) - rf_From (pj_read p) < 500) \<and>
     (job_Name (pj_job p) = ''tail'' \<longrightarrow> 1 \<le> tp_N (pj_tail p) \<and> tp_N (pj_tail p) \<le> 500) \<and>
     (job_Name (pj_job p) = ''search'' \<longrightarrow> 1 \<le> se_Max (pj_search p) \<and> se_Max (pj_search p) \<le> 200) \<and>
     (job_Name (pj_job p) \<in> {''journal'', ''docker_logs''} \<longrightarrow>
        0 \<le> jp_Tail (pj_journal p) \<and> jp_Tail (pj_journal p) \<le> 500 \<and> 1 \<le> jp_Max (pj_journal p) \<and> jp_Max (pj_journal p) \<le> 500)"

lemma prepare_read_bounds:
  "prepare_read E p = (p', None) \<Longrightarrow> pj_paths p' = pj_paths p \<and> pj_job p' = pj_job p \<and>
     1 \<le> rf_From (pj_read p') \<and> rf_From (pj_read p') \<le> rf_To (pj_read p') \<and> rf_To (pj_read p') - rf_From (pj_read p') < 500"
  unfolding prepare_read_def Let_def by (auto split: prod.splits if_splits)

lemma prepare_tail_bounds:
  "prepare_tail E p = (p', None) \<Longrightarrow> pj_paths p' = pj_paths p \<and> pj_job p' = pj_job p \<and> 1 \<le> tp_N (pj_tail p') \<and> tp_N (pj_tail p') \<le> 500"
  unfolding prepare_tail_def Let_def by (auto split: prod.splits if_splits)

lemma prepare_search_bounds:
  assumes "prepare_search E f now p = (p', None)"
  shows "pj_job p' = pj_job p \<and> (\<forall>q \<in> set (pj_paths p'). Permits f q) \<and> length (pj_paths p') \<le> 200 \<and>
    1 \<le> se_Max (pj_search p') \<and> se_Max (pj_search p') \<le> 200"
proof -
  obtain q0 ok where q0: "pd_search (jv_json E) (job_Params (pj_job p)) = (q0, ok)" by fastforce
  define q where "q = (if se_Max q0 = 0 then q0\<lparr>se_Max := 50\<rparr> else q0)"
  from assms obtain since paths where "1 \<le> se_Max q" "se_Max q \<le> 200" "expand E f (se_Glob q) since = Inr paths"
    "pj_job p' = pj_job p" "pj_paths p' = paths" "pj_search p' = q"
    unfolding prepare_search_def q0 prod.case Let_def q_def [symmetric]
    by (auto simp: params_error_def split: if_splits option.splits sum.splits)
  with expand_permits show ?thesis by simp
qed

lemma prepareJournal_bounds:
  assumes "prepareJournal E now p = (p', None)"
  shows "pj_job p' = pj_job p \<and> pj_paths p' = pj_paths p \<and> 0 \<le> jp_Tail (pj_journal p') \<and> jp_Tail (pj_journal p') \<le> 500 \<and>
    1 \<le> jp_Max (pj_journal p') \<and> jp_Max (pj_journal p') \<le> 500"
proof -
  define q1 where "q1 = (if jp_Max (pj_journal p) = 0 then (pj_journal p)\<lparr>jp_Max := 200\<rparr> else pj_journal p)"
  define q2 where "q2 = (if jp_Since q1 = [] then q1\<lparr>jp_Since := ''1h''\<rparr> else q1)"
  define q where "q = (if jp_Until q2 = [] then q2\<lparr>jp_Until := ''0s''\<rparr> else q2)"
  from assms have "journal_limits (pj_journal p)" "pj_journal p' = q" "pj_job p' = pj_job p" "pj_paths p' = pj_paths p"
    unfolding prepareJournal_def Let_def q1_def [symmetric] q2_def [symmetric] q_def [symmetric]
    by (auto split: if_splits option.splits sum.splits)
  moreover have "jp_Tail q = jp_Tail (pj_journal p)" "jp_Max q = (if jp_Max (pj_journal p) = 0 then 200 else jp_Max (pj_journal p))"
    by (simp_all add: q_def q2_def q1_def)
  ultimately show ?thesis by (auto simp: journal_limits_def)
qed

lemma prepare_params_bounded:
  assumes "prepare_params E f now p = (p', None)" "pj_paths p = []"
  shows "bounded f p' \<and> (path_job (job_Name (pj_job p)) \<longrightarrow> pj_paths p' = [])"
proof -
  have j: "pj_job p' = pj_job p" using prepare_params_job [OF refl, of p E f now] assms(1) by (simp add: for_job_def)
  let ?n = "job_Name (pj_job p)"
  consider "?n = ''read_file''" | "?n = ''tail''" | "?n = ''search''" | "?n = ''journal''" | "?n = ''docker_logs''"
    | "?n \<notin> {''read_file'', ''tail'', ''search'', ''journal'', ''docker_logs''}" by auto
  then show ?thesis
  proof cases
    case 1
    then have "prepare_read E p = (p', None)" using assms(1) by (simp add: prepare_params_def)
    from prepare_read_bounds [OF this] 1 j assms(2) show ?thesis by (simp add: bounded_def)
  next
    case 2
    then have "prepare_tail E p = (p', None)" using assms(1) by (simp add: prepare_params_def)
    from prepare_tail_bounds [OF this] 2 j assms(2) show ?thesis by (simp add: bounded_def)
  next
    case 3
    then have "prepare_search E f now p = (p', None)" using assms(1) by (simp add: prepare_params_def)
    from prepare_search_bounds [OF this] 3 j assms(2) show ?thesis by (simp add: bounded_def path_job_def)
  next
    case 4
    then have "prepare_unit E now p = (p', None)" using assms(1) by (simp add: prepare_params_def)
    then obtain p1 where "prepareJournal E now p1 = (p', None)" "pj_paths p1 = []" using assms(2)
      by (auto simp: prepare_unit_def Let_def params_error_def split: prod.splits if_splits)
    from prepareJournal_bounds [OF this(1)] this(2) 4 j show ?thesis by (simp add: bounded_def)
  next
    case 5
    then have "prepare_docker E now p = (p', None)" using assms(1) by (simp add: prepare_params_def)
    then obtain p1 where "prepareJournal E now p1 = (p', None)" "pj_paths p1 = []" using assms(2)
      by (auto simp: prepare_docker_def Let_def params_error_def split: prod.splits if_splits)
    from prepareJournal_bounds [OF this(1)] this(2) 5 j show ?thesis by (simp add: bounded_def)
  next
    case 6
    then have "pj_paths p' = pj_paths p" using assms(1) by (auto simp: prepare_params_def Let_def split: prod.splits if_splits)
    with 6 j assms(2) show ?thesis by (simp add: bounded_def)
  qed
qed

lemma bounded_update:
  "bounded f p \<Longrightarrow> bounded f (p\<lparr>pj_sensitive := b\<rparr>)"
  "bounded f p \<Longrightarrow> Permits f t \<Longrightarrow> bounded f (p\<lparr>pj_target := t', pj_paths := [t]\<rparr>)"
  by (simp_all add: bounded_def)

lemma prepare_ok:
  assumes "prepare J j cls f now = (p, None)"
  shows "ValidateJobID (job_ID j) \<and> job_Name j \<in> fst ` set Catalog \<and> cls = ClassRead \<and> bounded f p \<and>
    (path_job (job_Name j) \<longrightarrow> pj_paths p = [pj_target p])"
proof -
  from assms obtain c where v: "ValidateJobID (job_ID j)" "CatalogClass (job_Name j) = Some c" "c = cls"
    by (auto simp: prepare_def Let_def split: if_splits option.splits)
  then have n: "job_Name j \<in> fst ` set Catalog" "cls = ClassRead"
    by (auto simp: catalog_reads_only ClassRead_def split: if_splits)
  obtain p1 err where p1: "prepare_params J f now (new_prepared j) = (p1, err)" by fastforce
  with assms v have err: "err = None" by (auto simp: prepare_def Let_def split: option.splits)
  have new: "pj_paths (new_prepared j) = []" "pj_job (new_prepared j) = j" by (simp_all add: new_prepared_def)
  note b = prepare_params_bounded [OF p1 [unfolded err] new(1)]
  show ?thesis
  proof (cases "path_job (job_Name j)")
    case True
    with assms v p1 err obtain t where t: "resolve J f (pj_target p1) (job_Name j = ''list_dir'') = Inr t"
      and p: "p = mark_sensitive (p1\<lparr>pj_sensitive := sensitive (pj_target p1), pj_target := t, pj_paths := [t]\<rparr>)"
      by (auto simp: prepare_def Let_def split: sum.splits)
    from bounded_update(1) [OF bounded_update(2) [OF bounded_update(1) resolve_permits [OF t]]] b have "bounded f p"
      unfolding p mark_sensitive_def by blast
    moreover have "pj_paths p = [pj_target p]" by (simp add: p mark_sensitive_def)
    ultimately show ?thesis using v n by blast
  next
    case False
    with assms v p1 err have "p = mark_sensitive p1" by (simp add: prepare_def Let_def)
    then have "bounded f p" unfolding mark_sensitive_def using b bounded_update(1) by blast
    with v n False show ?thesis by blast
  qed
qed

section \<open>Cutting a result to size\<close>

definition text_size :: "string list \<Rightarrow> nat" where
  "text_size ls = sum_list (map (\<lambda>l. length l + 1) ls)"

lemma cap_index_size:
  "sz \<le> MaxResultPlaintext \<Longrightarrow>
     (case cap_index sz i ls of
        None \<Rightarrow> sz + text_size ls \<le> MaxResultPlaintext
      | Some k \<Rightarrow> i \<le> k \<and> k < i + length ls \<and> sz + text_size (take (k - i) ls) \<le> MaxResultPlaintext)"
proof (induction sz i ls rule: cap_index.induct)
  case (2 sz i line lines)
  show ?case
  proof (cases "sz + length line + 1 > MaxResultPlaintext")
    case True
    with "2.prems" show ?thesis by (simp add: text_size_def)
  next
    case False
    with "2.IH" [OF refl] show ?thesis by (auto simp: text_size_def Let_def take_Cons' Suc_diff_le split: option.splits)
  qed
qed (simp add: text_size_def)

lemma text_size_take: "text_size (take k ls) \<le> text_size ls"
  by (metis append_take_drop_id le_add1 map_append sum_list.append text_size_def)

lemma cap_json_fits: "res_Lines (cap_json E p r) = [] \<or> length (ev_enc_result E (cap_json E p r)) \<le> MaxResultBytes - 16"
proof (induction E p r rule: cap_json.induct)
  case (1 E p r)
  then show ?case by (subst (1 2) cap_json.simps) auto
qed

lemma cap_json_next: "res_Lines (cap_json E p r) = res_Lines r \<Longrightarrow> cap_json E p r = r"
proof -
  assume eq: "res_Lines (cap_json E p r) = res_Lines r"
  show ?thesis
  proof (cases "res_Lines r \<noteq> [] \<and> \<not> length (ev_enc_result E r) \<le> MaxResultBytes - 16")
    case True
    let ?c = "cut_result p r (length (res_Lines r) - 1)"
    have "cap_json E p r = cap_json E p ?c" using True by (subst cap_json.simps) simp
    moreover obtain k where "res_Lines (cap_json E p ?c) = take k (res_Lines ?c)" using cap_json_lines by blast
    ultimately have "length (res_Lines (cap_json E p r)) \<le> length (res_Lines r) - 1" by (simp add: cut_result_def)
    moreover have "length (res_Lines r) > 0" using True by simp
    ultimately have False unfolding eq by linarith
    then show ?thesis ..
  qed (subst cap_json.simps, auto)
qed

lemma capResult_uncut: "res_Lines (capResult E p r) = res_Lines r \<Longrightarrow> capResult E p r = r"
proof (cases "cap_index 0 0 (res_Lines r)")
  case None
  then show "res_Lines (capResult E p r) = res_Lines r \<Longrightarrow> capResult E p r = r"
    using cap_json_next by (simp add: capResult_def)
next
  case (Some i)
  let ?r = "cut_result p r i"
  from Some cap_index_size [where sz = 0 and i = 0 and ls = "res_Lines r"] have "i < length (res_Lines r)" by simp
  moreover obtain k where "res_Lines (capResult E p r) = take k (res_Lines ?r)"
    using Some cap_json_lines [of E p ?r] by (auto simp: capResult_def)
  ultimately have "length (res_Lines (capResult E p r)) < length (res_Lines r)" by (simp add: cut_result_def)
  then show "res_Lines (capResult E p r) = res_Lines r \<Longrightarrow> capResult E p r = r" by (metis less_irrefl)
qed

text \<open>
  C18. A result is cut to what an envelope can carry: its lines are a first part of the redacted lines, their
  text is at most 256 KiB, the encoded result leaves room for the 16-byte tag in a 1 MiB payload unless no line
  is left, and a result that is not cut keeps the cursor of the job.
\<close>

theorem capResult_fits:
  "text_size (res_Lines (capResult E p r)) \<le> MaxResultPlaintext \<and>
   (res_Lines (capResult E p r) = [] \<or> length (ev_enc_result E (capResult E p r)) \<le> MaxResultBytes - 16) \<and>
   (capResult E p r = r \<or>
    (\<exists>k. k < length (res_Lines r) \<and> res_Lines (capResult E p r) = take k (res_Lines r)))"
proof (intro conjI)
  show "res_Lines (capResult E p r) = [] \<or> length (ev_enc_result E (capResult E p r)) \<le> MaxResultBytes - 16"
    using cap_json_fits by (simp add: capResult_def)
  let ?r = "case cap_index 0 0 (res_Lines r) of None \<Rightarrow> r | Some i \<Rightarrow> cut_result p r i"
  obtain k where k: "res_Lines (capResult E p r) = take k (res_Lines ?r)" using cap_json_lines [of E p ?r] by (auto simp: capResult_def)
  have "text_size (res_Lines ?r) \<le> MaxResultPlaintext"
    using cap_index_size [where sz = 0 and i = 0 and ls = "res_Lines r"] by (auto simp: cut_result_def split: option.splits)
  with text_size_take k show "text_size (res_Lines (capResult E p r)) \<le> MaxResultPlaintext" by (metis order_trans)
  obtain m where m: "res_Lines (capResult E p r) = take m (res_Lines r)" using capResult_lines by blast
  show "capResult E p r = r \<or> (\<exists>k. k < length (res_Lines r) \<and> res_Lines (capResult E p r) = take k (res_Lines r))"
    using m capResult_uncut [of E p r] by (metis not_less take_all)
qed

section \<open>Properties\<close>

text \<open>A session whose only job lists the processes; the listing contains a value that a rule hides.\<close>

definition sample_params :: params_json where
  "sample_params = \<lparr>pd_list_dir = (\<lambda>s. (s, False)), pd_read_file = (\<lambda>s. (\<lparr>rf_Path = s, rf_From = 0, rf_To = 0\<rparr>, False)),
     pd_tail = (\<lambda>s. (\<lparr>tp_Path = s, tp_N = 0\<rparr>, False)),
     pd_search = (\<lambda>s. (\<lparr>se_Glob = s, se_Regex = s, se_Since = s, se_Before = 0, se_After = 0, se_Max = 0, se_Cursor = s\<rparr>, False)),
     pd_journal = (\<lambda>s. (\<lparr>jp_Unit = s, jp_Since = s, jp_Until = s, jp_Regex = s, jp_Tail = 0, jp_Max = 0, jp_Cursor = s\<rparr>, False)),
     pd_docker_logs = (\<lambda>s. (\<lparr>dl_Container = s, dl_Since = s, dl_Until = s, dl_Regex = s, dl_Tail = 0, dl_Max = 0, dl_Cursor = s\<rparr>, False)),
     pd_systemctl = (\<lambda>s. (s, False))\<rparr>"

definition sample_job_env :: job_env where
  "sample_job_env = \<lparr>
     jv_os = \<lparr>os_openIn = (\<lambda>_ _. Inl NotExist), os_EvalSymlinks = Inr, os_Glob = (\<lambda>_. None), os_gunzip = (\<lambda>_. None)\<rparr>,
     jv_Stat = (\<lambda>_. Inr True), jv_Lstat = (\<lambda>_. None), jv_ReadDir = (\<lambda>_. Inr []),
     jv_journal = \<lparr>je_exists = (\<lambda>_. True), je_missing = (\<lambda>_. False), je_run = (\<lambda>_ _. \<lparr>co_stdout = [], co_stderr = [], co_error = None\<rparr>)\<rparr>,
     jv_command = (\<lambda>_ _. \<lparr>cr_Pipe = True, cr_Start = True, cr_Stdout = ''as'' @ [newline], cr_ReadFailed = False, cr_Canceled = False,
                           cr_Stderr = [], cr_End = Exited\<rparr>),
     jv_regex = (\<lambda>_. None), jv_duration = (\<lambda>_. None), jv_parse = (\<lambda>_ _. None), jv_unix = id, jv_format = (\<lambda>_. []), jv_text = (\<lambda>_. []),
     jv_json = sample_params\<rparr>"

definition sample_env :: serve_env where
  "sample_env = \<lparr>ev_crypto = toy_crypto, ev_id = replicate 16 0, ev_addr = (\<lambda>_. True), ev_high = (\<lambda>_. False), ev_fail = (\<lambda>_. None),
     ev_now = (\<lambda>_. 0), ev_job = (\<lambda>_. sample_job_env), ev_pageLines = 40, ev_indent = Some, ev_json_valid = (\<lambda>_. True),
     ev_dec_job = (\<lambda>_. (\<lparr>job_ID = ''j1'', job_Name = ''ps'', job_Params = ''{}''\<rparr>, True)), ev_dec_plan = (\<lambda>_. ([], False)),
     ev_enc_result = (\<lambda>r. map (\<lambda>c. of_nat (of_char c)) (concat (res_Lines r)) @ [0])\<rparr>"

definition sample_session :: "keystroke list \<Rightarrow> serve_session" where
  "sample_session ks = \<lparr>sv_Level = 1, sv_files = \<lparr>f_Allowed = [''/var/log''], f_Paths = [], f_Tail = 0, f_ModifiedAfter = 0\<rparr>,
     sv_keys = \<lparr>sk_job = [], sk_result = []\<rparr>, sv_engine = sample_engine,
     sv_audit = \<lparr>au_log = [], au_results = [], au_session = \<lparr>sj_Level = 1, sj_ExpiresAt = 0, sj_JoinedAt = 0, sj_JoinedVia = [],
       sj_Scope = [''/var/log''], sj_EndedAt = 0\<rparr>, au_written = None, au_mapping = [], au_mappingSize = -1\<rparr>,
     sv_input = ks, sv_posted = [], sv_nextJob = 1, sv_nextResult = 1, sv_jobs = 0, sv_sent = 0, sv_denied = 0, sv_rejected = 0, sv_tick = 0\<rparr>"

definition sample_request :: envelope where
  "sample_request = \<lparr>e_version = 1, e_sessionID = [], e_seq = 1, e_class = 1, e_payload = []\<rparr>"

lemma sample_ready: "engine_ready (sv_engine (sample_session ks))"
  using Compile_ready [OF sample_re_ok sample_compiles] by (simp add: sample_session_def)

lemma SealResult_ok:
  assumes "length i = 16" "1 \<le> unat seq" "unat seq \<le> MaxSessionSeq" "p \<noteq> []" "length p \<le> MaxResultBytes - 16"
  shows "\<exists>e. SealResult C keys i seq ClassRead p = Inr e"
proof -
  let ?e = "\<lparr>e_version = SessionVersion, e_sessionID = SessionID_String i, e_seq = seq, e_class = ClassRead,
    e_payload = replicate (length p + 16) 0\<rparr>"
  have "Canonical ?e = Some (header_bytes i seq ClassRead (length p + 16))"
    unfolding Canonical_Some_iff using assms by (auto simp: header_ok_def ClassRead_def ClassExec_def MaxResultBytes_def)
  with assms(4,5) show ?thesis by (simp add: SealResult_def sealSession_def)
qed

text \<open>A request that does not decode is answered with a refusal.\<close>

definition sample_bad_env :: serve_env where
  "sample_bad_env = sample_env\<lparr>ev_dec_job := (\<lambda>_. (\<lparr>job_ID = ''j1'', job_Name = [], job_Params = []\<rparr>, False))\<rparr>"

lemma sample_bad_handled: "\<exists>s'. handle sample_bad_env env data ((sample_session [])\<lparr>sv_nextJob := n\<rparr>) = (Inr (), s')"
proof -
  have "\<exists>e. SealResult toy_crypto \<lparr>sk_job = [], sk_result = []\<rparr> (replicate 16 0) 1 ClassRead [0] = Inr e"
    by (rule SealResult_ok) (simp_all add: MaxSessionSeq_def MaxResultBytes_def)
  then obtain e where e: "SealResult toy_crypto \<lparr>sk_job = [], sk_result = []\<rparr> (replicate 16 0) 1 ClassRead [0] = Inr e" by blast
  then show ?thesis
    by (simp add: Let_def handle_def sample_bad_env_def sample_env_def reject_def and_then_def audit_event_def effect_def send_def
        audit_result_def audit_mapping_def post_result_def upd_audit_def sample_session_def no_result_def MaxSessionSeq_def)
qed

lemma no_keys_pressed: "sv_input s = [] \<Longrightarrow> \<not> pressed s s' c"
  by (auto simp: pressed_def)

text \<open>
  C7. Nothing readable leaves the host unasked. Whatever a job is and however its handling ends, every line
  of every result that is posted is a redacted line; at level 1 a result has lines only if approve or
  allow once was pressed while the job was handled, and a result with strings to inspect goes out only if
  send was pressed.
\<close>

theorem handle_releases:
  assumes "handle E env data s = (x, s')" and "engine_ready (sv_engine s)"
  shows "\<exists>es rs. sv_posted s' = sv_posted s @ es \<and> posts E (sv_keys s) es rs \<and>
    (\<forall>r \<in> set rs.
       (res_Lines r = [] \<or> redacted_from E (sv_engine s) (res_Lines r)) \<and>
       (res_Lines r \<noteq> [] \<longrightarrow> sv_Level s = 0 \<or> pressed s s' CHR ''a'' \<or> pressed s s' CHR ''o'') \<and>
       (sv_Level s = 1 \<and> rr_Flags (res_Redaction r) \<noteq> 0 \<longrightarrow> pressed s s' CHR ''s''))"
  using handle_sends [OF assms] unfolding sends_def released_if_def released_def allowed_def by blast

theorem handle_releases_witness:
  "\<exists>es rs. sv_posted (snd (handle sample_env sample_request [] (sample_session []))) = es \<and>
     posts sample_env \<lparr>sk_job = [], sk_result = []\<rparr> es rs \<and> (\<forall>r \<in> set rs. res_Lines r = [])"
proof -
  have i: "sv_input (sample_session []) = []" "sv_posted (sample_session []) = []" "sv_Level (sample_session []) = 1"
    "sv_keys (sample_session []) = \<lparr>sk_job = [], sk_result = []\<rparr>" by (simp_all add: sample_session_def)
  from handle_releases [OF surjective_pairing sample_ready, of sample_env sample_request "[]" "[]"] no_keys_pressed [OF i(1)] i(2-4)
  show ?thesis by fastforce
qed

text \<open>
  C10. Every job is answered once. When a job or a plan is handled without error, one result is posted for each
  requested identifier, in the order of the request, numbered on from the last result without gap, and
  the local copy has gained exactly the lines of these results under the same numbers.
\<close>

theorem handle_answers:
  assumes "handle E env data s = (Inr (), s')" and "engine_ready (sv_engine s)"
  shows "\<exists>es rs. sv_posted s' = sv_posted s @ es \<and> posts E (sv_keys s) es rs \<and> map res_ID rs = job_ids E data \<and>
    map e_seq es = seqs (sv_nextResult s) (length es) \<and> sv_nextResult s' = sv_nextResult s + of_nat (length es) \<and>
    au_results (sv_audit s') = au_results (sv_audit s) @ zip (map e_seq es) (map res_Lines rs)"
  using handle_sends [OF assms] unfolding sends_def by auto

theorem handle_answers_witness:
  "\<exists>es rs. sv_posted (snd (handle sample_bad_env sample_request [] (sample_session []))) = es \<and> map res_ID rs = [''j1''] \<and>
     posts sample_bad_env \<lparr>sk_job = [], sk_result = []\<rparr> es rs \<and> map e_seq es = seqs 1 1"
proof -
  obtain s' where s': "handle sample_bad_env sample_request [] (sample_session []) = (Inr (), s')"
    using sample_bad_handled [of sample_request "[]" 1] by (auto simp: sample_session_def)
  have i: "sv_posted (sample_session []) = []" "sv_nextResult (sample_session []) = 1"
    "sv_keys (sample_session []) = \<lparr>sk_job = [], sk_result = []\<rparr>" by (simp_all add: sample_session_def)
  have ids: "job_ids sample_bad_env [] = [''j1'']" by (simp add: job_ids_def sample_bad_env_def)
  show ?thesis using handle_answers [OF s' sample_ready]
  proof (elim exE conjE, goal_cases)
    case (1 es rs)
    have len: "length es = length rs" using 1(2) by (simp add: posts_def list_all2_lengthD)
    have "length rs = 1" using arg_cong [OF 1(3), of length] by (simp add: ids)
    with len 1(4) have q: "map e_seq es = seqs 1 1" by (simp add: i(2))
    have p: "sv_posted s' = es" using 1(1) by (simp add: i(1))
    have "sv_posted s' = es \<and> map res_ID rs = [''j1''] \<and> posts sample_bad_env \<lparr>sk_job = [], sk_result = []\<rparr> es rs \<and> map e_seq es = seqs 1 1"
      by (intro conjI p q 1(2) [unfolded i(3)] 1(3) [unfolded ids])
    then show ?case unfolding s' snd_conv by (intro exI)
  qed
qed

text \<open>
  C8. The scope grows only by an approval. Handling a job leaves the single granted names as they were,
  also when it fails half-way; directories are added only at level 1 and only if approve was pressed, and after a
  job that ended well \<^verbatim>\<open>session.json\<close> shows the scope with them.
\<close>

theorem scope_grants:
  assumes "handle E env data s = (x, s')"
  shows "f_Paths (sv_files s') = f_Paths (sv_files s) \<and>
    (\<exists>added. f_Allowed (sv_files s') = f_Allowed (sv_files s) @ added \<and>
      (added \<noteq> [] \<longrightarrow> sv_Level s = 1 \<and> pressed s s' CHR ''a'') \<and>
      (x = Inr () \<and> added \<noteq> [] \<longrightarrow> scope_written s'))"
  using assms by (rule handle_files)

theorem scope_grants_witness:
  "f_Allowed (sv_files (snd (handle sample_env sample_request [] (sample_session [])))) = [''/var/log'']"
proof -
  have i: "sv_input (sample_session []) = []" "f_Allowed (sv_files (sample_session [])) = [''/var/log'']"
    by (simp_all add: sample_session_def)
  from scope_grants [OF surjective_pairing, of sample_env sample_request "[]" "sample_session []"] no_keys_pressed [OF i(1)] i(2)
  show ?thesis by auto
qed

text \<open>
  Over a whole session, however many envelopes arrive and however it ends, the posted results are
  numbered on without gap or repetition, the local copy has the lines of each of them, and every line is a
  redacted one.
\<close>

lemma session_results:
  assumes "serve_loop E envs s = (x, s')" and "engine_ready (sv_engine s)"
  shows "\<exists>es rs extra. sv_posted s' = sv_posted s @ es \<and> posts E (sv_keys s) es rs \<and>
    map e_seq es = seqs (sv_nextResult s) (length es) \<and>
    au_results (sv_audit s') = au_results (sv_audit s) @ zip (map e_seq es) (map res_Lines rs) @ extra \<and>
    (\<forall>r \<in> set rs. res_Lines r = [] \<or> redacted_from E (sv_engine s) (res_Lines r))"
  using serve_loop_sends [OF assms] unfolding sends_def released_if_def released_def by blast

lemma session_results_witness:
  "\<exists>es. sv_posted (snd (serve_loop sample_env [sample_request] (sample_session []))) = es \<and> map e_seq es = seqs 1 (length es)"
proof -
  have i: "sv_posted (sample_session []) = []" "sv_nextResult (sample_session []) = 1" by (simp_all add: sample_session_def)
  from session_results [OF surjective_pairing sample_ready, of sample_env "[sample_request]" "[]"] i show ?thesis by auto
qed

text \<open>
  C17. A job that passes the checks is a read of the catalog inside the scope: its identifier is well formed, its
  name is in the catalog, its class is the read class, every path it will open is permitted by the scope, there are
  at most 200 of them, and the numbers of lines it may return are bounded.
\<close>

theorem prepare_confined:
  assumes "prepare J j cls f now = (p, None)"
  shows "ValidateJobID (job_ID j) \<and> job_Name j \<in> fst ` set Catalog \<and> cls = ClassRead \<and> bounded f p \<and>
    (path_job (job_Name j) \<longrightarrow> pj_paths p = [pj_target p])"
  using assms by (rule prepare_ok)

definition sample_read :: job_env where
  "sample_read = sample_job_env\<lparr>jv_json := sample_params\<lparr>pd_tail := (\<lambda>s. (\<lparr>tp_Path = s, tp_N = 0\<rparr>, True))\<rparr>\<rparr>"

theorem prepare_confined_witness:
  "Permits (sv_files (sample_session [])) ''/var/log/syslog'' \<and>
   prepare sample_read \<lparr>job_ID = ''j1'', job_Name = ''tail'', job_Params = ''/var/log/../log/syslog''\<rparr> 1 (sv_files (sample_session [])) 0
     = (fst (prepare sample_read \<lparr>job_ID = ''j1'', job_Name = ''tail'', job_Params = ''/var/log/../log/syslog''\<rparr> 1 (sv_files (sample_session [])) 0), None)"
proof -
  let ?j = "\<lparr>job_ID = ''j1'', job_Name = ''tail'', job_Params = ''/var/log/../log/syslog''\<rparr>" and ?f = "sv_files (sample_session [])"
  have none: "snd (prepare sample_read ?j 1 ?f 0) = None" and t: "pj_target (fst (prepare sample_read ?j 1 ?f 0)) = ''/var/log/syslog''"
    by code_simp+
  then have p: "prepare sample_read ?j 1 ?f 0 = (fst (prepare sample_read ?j 1 ?f 0), None)" by (metis prod.collapse)
  from prepare_confined [OF p] t have "Permits ?f ''/var/log/syslog''" by (simp add: bounded_def path_job_def)
  with p show ?thesis by simp
qed
end
