(* ===== verification/Live_Path.thy ===== *)
theory Live_Path
  imports Serve_Proofs Relay_Live
begin

text \<open>
  The way of a live result: the collector seals and posts it, the relay queues it, and the reader opens it. The
  collector's numbering is what the relay's sequence check and the reader's expected number ask for.
\<close>

text \<open>Posting envelopes one after the other to the relay's session object; the statuses and the session.\<close>

fun post_all :: "int \<Rightarrow> envelope list \<Rightarrow> liveSession \<Rightarrow> nat list \<times> liveSession" where
  "post_all maxQueue [] l = ([], l)"
| "post_all maxQueue (e # es) l =
     (case post e True maxQueue l of ((status, _), l1) \<Rightarrow>
        (case post_all maxQueue es l1 of (sts, l2) \<Rightarrow> (status # sts, l2)))"

text \<open>The reader's side: each envelope is opened at the number that comes next.\<close>

fun open_all :: "crypto \<Rightarrow> sessionKeys \<Rightarrow> sessionID \<Rightarrow> u64 \<Rightarrow> envelope list \<Rightarrow> session_error + bytes list" where
  "open_all C keys i n [] = Inr []"
| "open_all C keys i n (e # es) =
     (case OpenResult C keys e i n of
        Inl err \<Rightarrow> Inl err
      | Inr p \<Rightarrow> (case open_all C keys i (n + 1) es of Inl err \<Rightarrow> Inl err | Inr out \<Rightarrow> Inr (p # out)))"

lemma seqs_Suc: "seqs n (Suc k) = n # seqs (n + 1) k"
  using seqs_append [of n 1 k] by (simp add: seqs_1)

lemma post_all_accepts:
  assumes "joined l \<noteq> None" "\<not> gone l" "map e_seq es = seqs (nextResult l) (length es)"
    and "int (length (results l) + length es) \<le> maxQueue" "\<forall>f. lastResult l = Some f \<longrightarrow> e_seq f + 1 = nextResult l"
  shows "fst (post_all maxQueue es l) = replicate (length es) 202 \<and> results (snd (post_all maxQueue es l)) = results l @ es"
  using assms
proof (induction es arbitrary: l)
  case (Cons e es)
  let ?l = "notify (l\<lparr>results := results l @ [e], lastResult := Some e, nextResult := nextResult l + 1\<rparr>)"
  from Cons.prems(3) have seq: "e_seq e = nextResult l" "map e_seq es = seqs (nextResult l + 1) (length es)"
    by (simp_all add: seqs_Suc)
  have "\<not> (case lastResult l of None \<Rightarrow> False | Some f \<Rightarrow> same_envelope e f)"
    using Cons.prems(5) seq(1) by (auto split: option.splits)
  with Cons.prems(1,2,4) seq(1) have p: "post e True maxQueue l = ((202, []), ?l)" by (simp add: post_def Let_def)
  have "fst (post_all maxQueue es ?l) = replicate (length es) 202 \<and> results (snd (post_all maxQueue es ?l)) = results ?l @ es"
    using Cons.prems seq by (intro Cons.IH) (simp_all add: notify_def)
  with p show ?case by (auto simp: notify_def split: prod.splits)
qed simp

lemma sealSession_open:
  assumes "crypto_ok C" "sealSession C key i seq cls p capBytes = Inr e" "capBytes < 2 ^ 32"
  shows "openSession C key e i seq capBytes = Inr p"
proof -
  from assms(2) have p: "0 < length p" "length p \<le> capBytes - 16"
    by (auto simp: sealSession_def split: if_splits)
  let ?e = "\<lparr>e_version = SessionVersion, e_sessionID = SessionID_String i, e_seq = seq, e_class = cls, e_payload = replicate (length p + 16) 0\<rparr>"
  from assms(2) p obtain ad where "Canonical ?e = Some ad"
    by (auto simp: sealSession_def Let_def split: if_splits option.splits)
  then obtain i' where "SessionID_String i = SessionID_String i'" "header_ok i' seq cls" unfolding Canonical_Some_iff by auto
  then have "header_ok i seq cls" by (simp add: SessionID_String_def hex_encode_inj)
  from open_seal [OF assms(1) this p assms(3,2)] show ?thesis by simp
qed

lemma SealResult_open: "crypto_ok C \<Longrightarrow> SealResult C keys i seq cls p = Inr e \<Longrightarrow> OpenResult C keys e i seq = Inr p"
  unfolding SealResult_def OpenResult_def by (rule sealSession_open) (simp_all add: MaxResultBytes_def)

lemma SealJob_open: "crypto_ok C \<Longrightarrow> SealJob C keys i seq cls p = Inr e \<Longrightarrow> OpenJob C keys e i seq = Inr p"
  unfolding SealJob_def OpenJob_def by (rule sealSession_open) (simp_all add: MaxJobBytes_def)

lemma open_all_posts:
  assumes "crypto_ok (ev_crypto E)" "posts E keys es rs" "map e_seq es = seqs n (length es)"
  shows "open_all (ev_crypto E) keys (ev_id E) n es = Inr (map (ev_enc_result E) rs)"
  using assms(2,3) unfolding posts_def
proof (induction es rs arbitrary: n rule: list_all2_induct)
  case (Cons e es r rs)
  from Cons.prems have seq: "e_seq e = n" "map e_seq es = seqs (n + 1) (length es)" by (simp_all add: seqs_Suc)
  from SealResult_open [OF assms(1) Cons.hyps(1)] seq Cons.IH show ?case by simp
qed simp

text \<open>
  C12. From the host to the reader: the results that a session posts are all accepted by the relay while they fit its
  queue, are handed out in the order they were sent, and open at the reader, one after the other, to the encoded
  results; every line in them is a redacted one.
\<close>

theorem live_results_delivered:
  assumes "serve_loop E envs s = (x, s')" and "engine_ready (sv_engine s)" and "crypto_ok (ev_crypto E)"
    and "sv_posted s = []" and "sv_nextResult s = 1"
    and "joined l \<noteq> None" and "\<not> gone l" and "results l = []" and "nextResult l = 1" and "lastResult l = None"
    and "int (length (sv_posted s')) \<le> maxQueue"
  shows "fst (post_all maxQueue (sv_posted s') l) = replicate (length (sv_posted s')) 202 \<and>
    (\<exists>rs. open_all (ev_crypto E) (sv_keys s) (ev_id E) 1 (results (snd (post_all maxQueue (sv_posted s') l))) = Inr (map (ev_enc_result E) rs) \<and>
       (\<forall>r \<in> set rs. res_Lines r = [] \<or> redacted_from E (sv_engine s) (res_Lines r)))"
proof -
  obtain es rs where r: "sv_posted s' = es" "posts E (sv_keys s) es rs" "map e_seq es = seqs 1 (length es)"
      "\<forall>r \<in> set rs. res_Lines r = [] \<or> redacted_from E (sv_engine s) (res_Lines r)"
    using serve_loop_sends [OF assms(1,2)] assms(4,5) by (auto simp: sends_def released_if_def released_def)
  have "fst (post_all maxQueue es l) = replicate (length es) 202 \<and> results (snd (post_all maxQueue es l)) = results l @ es"
    using assms(6-11) r(1,3) by (intro post_all_accepts) simp_all
  with open_all_posts [OF assms(3) r(2,3)] r(1,4) assms(8) show ?thesis by auto
qed

lemma sample_bad_posts:
  assumes "handle sample_bad_env env data s = (Inr (), s')" "engine_ready (sv_engine s)"
  shows "length (sv_posted s') = length (sv_posted s) + 1"
proof -
  have "job_ids sample_bad_env data = [''j1'']" by (simp add: job_ids_def sample_bad_env_def)
  with handle_sends [OF assms] show ?thesis by (auto simp: sends_def posts_def dest!: list_all2_lengthD)
qed

theorem live_results_delivered_witness:
  "\<exists>env. fst (post_all 64 (sv_posted (snd (serve_loop sample_bad_env [env] (sample_session [])))) ((new_live 0)\<lparr>joined := Some
     \<lparr>ji_collectorKey = [], ji_collectorMAC = [], ji_mcpKey = [], ji_mcpMAC = [], ji_via = [], ji_joinedAt = 0\<rparr>\<rparr>)) = [202]"
proof -
  let ?l = "(new_live 0)\<lparr>joined := Some \<lparr>ji_collectorKey = [], ji_collectorMAC = [], ji_mcpKey = [], ji_mcpMAC = [], ji_via = [], ji_joinedAt = 0\<rparr>\<rparr>"
  let ?k = "\<lparr>sk_job = [], sk_result = []\<rparr>" and ?s = "sample_session []"
  have l: "joined ?l \<noteq> None" "\<not> gone ?l" "results ?l = []" "nextResult ?l = 1" "lastResult ?l = None" by (simp_all add: new_live_def)
  have s: "sv_posted ?s = []" "sv_nextResult ?s = 1" "sv_keys ?s = ?k" "sv_nextJob ?s = 1" by (simp_all add: sample_session_def)
  have c: "ev_crypto sample_bad_env = toy_crypto" "ev_id sample_bad_env = replicate 16 0" by (simp_all add: sample_bad_env_def sample_env_def)
  have h: "header_ok (replicate 16 0) 1 ClassRead" by (simp add: header_ok_def MaxSessionSeq_def ClassRead_def ClassExec_def)
  have p: "0 < length [1 :: byte]" "length [1 :: byte] \<le> MaxJobBytes - 16" "MaxJobBytes < 2 ^ 32" by (simp_all add: MaxJobBytes_def)
  obtain env where env: "SealJob toy_crypto ?k (replicate 16 0) 1 ClassRead [1] = Inr env"
    using seal_Inr [OF toy_crypto_ok h p] by (auto simp: SealJob_def)
  have op: "OpenJob toy_crypto ?k env (replicate 16 0) 1 = Inr [1]"
    using open_seal [OF toy_crypto_ok h p env [unfolded SealJob_def]] by (simp add: OpenJob_def)
  have seq: "e_seq env = 1" using seal_Inr [OF toy_crypto_ok h p] env by (auto simp: SealJob_def)
  obtain s1 where s1: "handle sample_bad_env env [1] (?s\<lparr>sv_nextJob := 1 + 1\<rparr>) = (Inr (), s1)" using sample_bad_handled by blast
  have "serve_loop sample_bad_env [env] ?s = (Inr (), s1)"
    using op s1 s c seq by (simp add: and_then_def)
  moreover have n: "length (sv_posted s1) = 1" using sample_bad_posts [OF s1] sample_ready [of "[]"] s(1) by simp
  ultimately have "fst (post_all 64 (sv_posted (snd (serve_loop sample_bad_env [env] ?s))) ?l) = [202]"
    using live_results_delivered [OF surjective_pairing sample_ready _ s(1,2) l, of sample_bad_env "[env]" 64] toy_crypto_ok c(1) by simp
  then show ?thesis by blast
qed

end
