(* ===== verification/Stored_Session.thy ===== *)
theory Stored_Session
  imports Relay_Client Envelope
begin

text \<open>
  The reader's stored session (\<^verbatim>\<open>internal/session/session.go\<close>): the file that \<^verbatim>\<open>aken-mcp join\<close> leaves behind and every tool
  loads. The file is the bytes at the chosen path, if there are any; each call to the operating system
  may fail as the environment decides. JSON coding of the file is a parameter.
\<close>

section \<open>The session and its file\<close>

record session =
  ss_Version :: int
  ss_Mode :: string
  ss_ContentRoot :: string
  ss_NextJobSeq :: u64
  ss_NextResultSeq :: u64
  ss_Token :: string
  ss_Relay :: string
  ss_SessionID :: string
  ss_ExpiresAt :: time
  ss_JoinedAt :: time
  ss_JoinedVia :: string

datatype save_step =
    MkdirAll | OpenRoot | ChmodDir | CloseDir | CreateTemp | WriteTemp | CloseTemp | RenameTemp

datatype stored_error =
    SE_NoSession
  | SE_Read
  | SE_Malformed
  | SE_Marshal
  | SE_Save save_step
  | SE_AlreadyJoined
  | SE_UnknownMode
  | SE_BadAuth
  | SE_ContentRoot
  | SE_NotPersistent
  | SE_Client client_error
  | SE_Exchange session_error

text \<open>What the code asks of the outside: whether a step fails, and the JSON form of a session.\<close>

record 'n session_io =
  io_read :: "'n \<Rightarrow> bool \<times> 'n"
  io_step :: "save_step \<Rightarrow> 'n \<Rightarrow> bool \<times> 'n"
  io_remove :: "'n \<Rightarrow> bool \<times> 'n"
  io_enc :: "session \<Rightarrow> bytes option"
  io_dec :: "bytes \<Rightarrow> session option"
  io_upper :: "string \<Rightarrow> string"

type_synonym 'n disk = "bytes option \<times> 'n"

definition Live :: "session \<Rightarrow> bool" where
  "Live s \<longleftrightarrow> ss_Mode s = ''session''"

definition Expired :: "session \<Rightarrow> time \<Rightarrow> bool" where
  "Expired s now \<longleftrightarrow> \<not> now < ss_ExpiresAt s"

definition ParsedToken :: "(string \<Rightarrow> string) \<Rightarrow> session \<Rightarrow> token option" where
  "ParsedToken up s = ParseToken up (ss_Token s)"

definition ParsedContentRoot :: "session \<Rightarrow> bytes option" where
  "ParsedContentRoot s = DecodeKey (ss_ContentRoot s)"

text \<open>The checks of \<^verbatim>\<open>Load\<close> on what the file decodes to.\<close>

definition check_session :: "crypto \<Rightarrow> (string \<Rightarrow> string) \<Rightarrow> session \<Rightarrow> session option" where
  "check_session C up s0 =
     (if (ss_Version s0 \<noteq> 1 \<and> ss_Version s0 \<noteq> 2) \<or> ss_Relay s0 = '''' \<or> ss_ExpiresAt s0 = 0 \<or> ss_JoinedAt s0 = 0
         \<or> (ss_JoinedVia s0 \<noteq> ''cli'' \<and> ss_JoinedVia s0 \<noteq> ''chat'')
      then None
      else
        let s = (if ss_Version s0 = 1 \<or> ss_Mode s0 = '''' then s0\<lparr>ss_Mode := ''blob''\<rparr> else s0) in
        if ss_Mode s \<noteq> ''blob'' \<and> ss_Mode s \<noteq> ''session'' then None
        else if Live s \<and> (ParsedContentRoot s = None \<or> ss_NextJobSeq s < 1 \<or> ss_NextResultSeq s < 1
             \<or> ss_NextJobSeq s > of_nat MaxSessionSeq + 1 \<or> ss_NextResultSeq s > of_nat MaxSessionSeq + 1)
        then None
        else (case ParsedToken up s of
                None \<Rightarrow> None
              | Some t \<Rightarrow> if SessionID_String (SessionID C t) \<noteq> ss_SessionID s then None else Some s))"

definition Session_Load :: "crypto \<Rightarrow> 'n session_io \<Rightarrow> 'n disk \<Rightarrow> (stored_error + session) \<times> 'n disk" where
  "Session_Load C io d =
     (case d of (content, n) \<Rightarrow>
        (case content of
           None \<Rightarrow> (Inl SE_NoSession, d)
         | Some data \<Rightarrow>
             (case io_read io n of (fails, n1) \<Rightarrow>
                if fails then (Inl SE_Read, (content, n1))
                else (case io_dec io data of
                        None \<Rightarrow> Inl SE_Malformed
                      | Some s \<Rightarrow> (case check_session C (io_upper io) s of None \<Rightarrow> Inl SE_Malformed | Some s' \<Rightarrow> Inr s'),
                      (content, n1)))))"

text \<open>What \<^verbatim>\<open>Save\<close> writes: the current version, and no live fields in a one-shot session.\<close>

definition normal_session :: "session \<Rightarrow> session" where
  "normal_session s0 =
     (let s = s0\<lparr>ss_Version := 2, ss_Mode := (if ss_Mode s0 = '''' then ''blob'' else ss_Mode s0)\<rparr> in
      if Live s then s else s\<lparr>ss_ContentRoot := '''', ss_NextJobSeq := 0, ss_NextResultSeq := 0\<rparr>)"

text \<open>The steps of a save up to the first that fails. The temporary file is removed in every case.\<close>

fun save_steps :: "'n session_io \<Rightarrow> save_step list \<Rightarrow> 'n \<Rightarrow> save_step option \<times> 'n" where
  "save_steps io [] n = (None, n)"
| "save_steps io (st # sts) n =
     (case io_step io st n of (fails, n1) \<Rightarrow> if fails then (Some st, n1) else save_steps io sts n1)"

definition Session_Save :: "'n session_io \<Rightarrow> session \<Rightarrow> 'n disk \<Rightarrow> stored_error option \<times> 'n disk" where
  "Session_Save io s d =
     (case d of (content, n) \<Rightarrow>
        (case io_enc io (normal_session s) of
           None \<Rightarrow> (Some SE_Marshal, d)
         | Some data \<Rightarrow>
             (case save_steps io [MkdirAll, OpenRoot, ChmodDir, CloseDir, CreateTemp, WriteTemp, CloseTemp, RenameTemp] n of
                (Some st, n1) \<Rightarrow> (Some (SE_Save st), (content, n1))
              | (None, n1) \<Rightarrow> (None, (Some data, n1)))))"

definition Session_Remove :: "'n session_io \<Rightarrow> 'n disk \<Rightarrow> stored_error option \<times> 'n disk" where
  "Session_Remove io d =
     (case d of
        (None, n) \<Rightarrow> (None, d)
      | (Some data, n) \<Rightarrow>
          (case io_remove io n of (fails, n1) \<Rightarrow>
             if fails then (Some SE_Read, (Some data, n1)) else (None, (None, n1))))"

text \<open>Only a readable live session with this token stands in the way of a join.\<close>

definition CheckJoin :: "crypto \<Rightarrow> 'n session_io \<Rightarrow> token \<Rightarrow> 'n disk \<Rightarrow> stored_error option \<times> 'n disk" where
  "CheckJoin C io t d =
     (case Session_Load C io d of
        (Inr s, d1) \<Rightarrow>
          (if Live s \<and> ss_SessionID s = SessionID_String (SessionID C t) then Some SE_AlreadyJoined else None, d1)
      | (Inl _, d1) \<Rightarrow> (None, d1))"

section \<open>Joining\<close>

text \<open>\<open>random\<close> is the private key that \<^verbatim>\<open>GenerateKeyPair\<close> draws.\<close>

definition blob_session :: "crypto \<Rightarrow> relayClient \<Rightarrow> token \<Rightarrow> sessionInfo \<Rightarrow> string \<Rightarrow> time \<Rightarrow> session" where
  "blob_session C client t info via now =
     \<lparr>ss_Version = 2, ss_Mode = ''blob'', ss_ContentRoot = '''', ss_NextJobSeq = 0, ss_NextResultSeq = 0,
      ss_Token = Token_Encode t, ss_Relay = BaseURL client, ss_SessionID = SessionID_String (SessionID C t),
      ss_ExpiresAt = si_expiresAt info, ss_JoinedAt = now, ss_JoinedVia = via\<rparr>"

definition Session_Join ::
  "crypto \<Rightarrow> 'n client_env \<Rightarrow> client_json \<Rightarrow> relayClient \<Rightarrow> token \<Rightarrow> sessionInfo \<Rightarrow> string \<Rightarrow> time \<Rightarrow> bytes \<Rightarrow> 'n
   \<Rightarrow> (stored_error + session) \<times> 'n" where
  "Session_Join C E js client t info via now random n =
     (let stored = blob_session C client t info via now; i = SessionID C t; exchange = ExchangeKey C t in
      if si_mode info = '''' \<or> si_mode info = ''blob'' then (Inr stored, n)
      else if si_mode info \<noteq> ''session'' then (Inl SE_UnknownMode, n)
      else
        (case (DecodeKey (si_collectorKey info), DecodeKey (si_collectorMAC info)) of
           (Some collectorKey, Some collectorMAC) \<Rightarrow>
             if \<not> VerifyCollectorMAC C exchange i collectorKey collectorMAC then (Inl SE_BadAuth, n)
             else
               (case KeyPairFromPrivate random of
                  Inl e \<Rightarrow> (Inl (SE_Exchange e), n)
                | Inr pair \<Rightarrow>
                    (case Client_Join E js client i (Public C pair) (MCPMAC C exchange i collectorKey (Public C pair)) via n of
                       (Inl e, n1) \<Rightarrow> (Inl (if IsNotFound e then SE_NotPersistent else SE_Client e), n1)
                     | (Inr j, n1) \<Rightarrow>
                         (case (DecodeKey (ji_collectorKey j), DecodeKey (ji_collectorMAC j)) of
                            (Some joinedKey, Some joinedMAC) \<Rightarrow>
                              (if joinedKey \<noteq> collectorKey \<or> \<not> VerifyCollectorMAC C exchange i joinedKey joinedMAC
                               then Inl SE_BadAuth
                               else (case ContentRoot C pair collectorKey i collectorKey (Public C pair) of
                                       Inl e \<Rightarrow> Inl (SE_Exchange e)
                                     | Inr root \<Rightarrow>
                                         Inr (stored\<lparr>ss_Mode := ''session'', ss_ContentRoot := EncodeKey root,
                                                     ss_NextJobSeq := 1, ss_NextResultSeq := 1, ss_JoinedAt := ji_joinedAt j\<rparr>)),
                               n1)
                          | _ \<Rightarrow> (Inl SE_BadAuth, n1))))
         | _ \<Rightarrow> (Inl SE_BadAuth, n)))"

section \<open>What a stored session looks like\<close>

text \<open>The invariant of the file: what joining leaves and what counting a job or a result keeps.\<close>

definition stored_ok :: "crypto \<Rightarrow> session \<Rightarrow> bool" where
  "stored_ok C s \<longleftrightarrow>
     ss_Version s = 2 \<and> ss_Relay s \<noteq> '''' \<and> ss_ExpiresAt s \<noteq> 0 \<and> ss_JoinedAt s \<noteq> 0 \<and> ss_JoinedVia s \<in> {''cli'', ''chat''} \<and>
     (\<exists>t. token_wf t \<and> ss_Token s = Token_Encode t \<and> ss_SessionID s = SessionID_String (SessionID C t)) \<and>
     (if Live s
      then (\<exists>root. length root = 32 \<and> ss_ContentRoot s = EncodeKey root) \<and>
           1 \<le> ss_NextJobSeq s \<and> ss_NextJobSeq s \<le> of_nat MaxSessionSeq + 1 \<and>
           1 \<le> ss_NextResultSeq s \<and> ss_NextResultSeq s \<le> of_nat MaxSessionSeq + 1
      else ss_Mode s = ''blob'' \<and> ss_ContentRoot s = '''' \<and> ss_NextJobSeq s = 0 \<and> ss_NextResultSeq s = 0)"

text \<open>\<^verbatim>\<open>encoding/json\<close> reads back what it wrote for this session (its strings are valid UTF-8).\<close>

definition json_reads_back :: "'n session_io \<Rightarrow> session \<Rightarrow> bool" where
  "json_reads_back io s \<longleftrightarrow> (\<forall>data. io_enc io s = Some data \<longrightarrow> io_dec io data = Some s)"

lemma normal_stored: "stored_ok C s \<Longrightarrow> normal_session s = s"
  by (cases "Live s") (auto simp: stored_ok_def normal_session_def Let_def Live_def)

lemma ParseToken_Encode: "upper_ok up \<Longrightarrow> token_wf t \<Longrightarrow> ParseToken up (Token_Encode t) = Some t"
  using parse_trimmed [of up t "Token_Encode t"] trim_Token_Encode [of "[]" "[]" t] by simp

lemma check_stored:
  assumes "upper_ok up" "stored_ok C s"
  shows "check_session C up s = Some s"
proof -
  from assms(2) obtain t where t: "token_wf t" "ss_Token s = Token_Encode t" "ss_SessionID s = SessionID_String (SessionID C t)"
    by (auto simp: stored_ok_def)
  then have p: "ParsedToken up s = Some t" using ParseToken_Encode [OF assms(1)] by (simp add: ParsedToken_def)
  have "ss_Mode s = ''session'' \<or> ss_Mode s = ''blob''" using assms(2) by (auto simp: stored_ok_def Live_def split: if_splits)
  with assms(2) p t(3) show ?thesis
    by (auto simp: stored_ok_def check_session_def Let_def Live_def ParsedContentRoot_def codec_simps not_less)
qed

lemma save_load:
  assumes "upper_ok (io_upper io)" "stored_ok C s" "json_reads_back io s" "Session_Save io s d = (None, d1)"
    and "\<not> fst (io_read io (snd d1))"
  shows "fst (Session_Load C io d1) = Inr s"
  using assms normal_stored [OF assms(2)] check_stored [OF assms(1,2)]
  by (auto simp: Session_Save_def Session_Load_def json_reads_back_def split: prod.splits option.splits)

lemma save_fails: "Session_Save io s d = (Some e, d1) \<Longrightarrow> fst d1 = fst d"
  by (auto simp: Session_Save_def split: prod.splits option.splits)

lemma join_blob: "si_mode info = '''' \<or> si_mode info = ''blob'' \<Longrightarrow> Session_Join C E js client t info via now random n = (Inr (blob_session C client t info via now), n)"
  by (simp add: Session_Join_def Let_def)

text \<open>What a successful live join has checked and what it stores.\<close>

lemma join_live:
  assumes "Session_Join C E js client t info via now random n = (Inr s, n1)" "Live s"
  shows "\<exists>collectorKey j root. si_mode info = ''session'' \<and> DecodeKey (si_collectorKey info) = Some collectorKey \<and>
    DecodeKey (si_collectorMAC info) = Some (CollectorMAC C (ExchangeKey C t) (SessionID C t) collectorKey) \<and> length random = 32 \<and>
    Client_Join E js client (SessionID C t) (Public C (Some random)) (MCPMAC C (ExchangeKey C t) (SessionID C t) collectorKey (Public C (Some random))) via n = (Inr j, n1) \<and>
    DecodeKey (ji_collectorKey j) = Some collectorKey \<and>
    ContentRoot C (Some random) collectorKey (SessionID C t) collectorKey (Public C (Some random)) = Inr root \<and>
    s = (blob_session C client t info via now)\<lparr>ss_Mode := ''session'', ss_ContentRoot := EncodeKey root, ss_NextJobSeq := 1, ss_NextResultSeq := 1, ss_JoinedAt := ji_joinedAt j\<rparr>"
proof -
  have "\<not> (si_mode info = '''' \<or> si_mode info = ''blob'')"
  proof
    assume "si_mode info = '''' \<or> si_mode info = ''blob''"
    from join_blob [OF this, of C E js client t via now random n] assms show False by (auto simp: Live_def blob_session_def)
  qed
  with assms(1) show ?thesis
    by (auto simp: Session_Join_def Let_def VerifyCollectorMAC_def KeyPairFromPrivate_def split: if_splits option.splits sum.splits prod.splits)
qed

lemma ContentRoot_length: "crypto_ok C \<Longrightarrow> ContentRoot C k peer i ck mk = Inr root \<Longrightarrow> length root = 32"
  by (auto simp: ContentRoot_def crypto_simps split: option.splits if_splits)

lemma join_stored:
  assumes "Session_Join C E js client t info via now random n = (Inr s, n1)" "crypto_ok C" "token_wf t"
    and "BaseURL client \<noteq> ''''" "si_expiresAt info \<noteq> 0" "ss_JoinedAt s \<noteq> 0" "via \<in> {''cli'', ''chat''}"
  shows "stored_ok C s"
proof (cases "Live s")
  case True
  from join_live [OF assms(1) this] obtain ck root and j :: joinInfo where r: "ContentRoot C (Some random) ck (SessionID C t) ck (Public C (Some random)) = Inr root"
    and s: "s = (blob_session C client t info via now)\<lparr>ss_Mode := ''session'', ss_ContentRoot := EncodeKey root, ss_NextJobSeq := 1, ss_NextResultSeq := 1, ss_JoinedAt := ji_joinedAt j\<rparr>"
    by (elim exE conjE) (rule that)
  have "Live s \<and> 1 \<le> ss_NextJobSeq s \<and> ss_NextJobSeq s \<le> of_nat MaxSessionSeq + 1" using s by (simp add: Live_def MaxSessionSeq_def)
  with s ContentRoot_length [OF assms(2) r] assms(3-7) show ?thesis
    by (auto simp: stored_ok_def blob_session_def)
next
  case False
  then have "s = blob_session C client t info via now"
    using assms(1) by (auto simp: Session_Join_def Let_def Live_def split: if_splits option.splits sum.splits prod.splits)
  with assms(3-7) show ?thesis by (auto simp: stored_ok_def blob_session_def Live_def)
qed

text \<open>
  C27. Joining and the session file: what a join returns, saved without error, is what the next load returns, unless
  reading fails; a save that fails leaves the file as it was. The session of another process is never half replaced.
\<close>

theorem session_file_roundtrip:
  assumes "Session_Join C E js client t info via now random n = (Inr s, n1)"
    and "crypto_ok C" and "upper_ok (io_upper io)" and "json_reads_back io s"
    and "token_wf t" and "BaseURL client \<noteq> ''''" and "si_expiresAt info \<noteq> 0" and "ss_JoinedAt s \<noteq> 0" and "via \<in> {''cli'', ''chat''}"
  shows "case Session_Save io s d of
    (Some e, d1) \<Rightarrow> fst d1 = fst d
  | (None, d1) \<Rightarrow> fst (io_read io (snd d1)) \<or> fst (Session_Load C io d1) = Inr s"
proof -
  obtain err d1 where "Session_Save io s d = (err, d1)" by (rule prod.exhaust)
  with save_fails [of io s d _ d1] save_load [OF assms(3) join_stored [OF assms(1,2,5-9)] assms(4), of d d1]
  show ?thesis by (cases err) auto
qed
definition sample_info :: sessionInfo where
  "sample_info = \<lparr>si_mode = ''blob'', si_joined = False, si_collectorKey = '''', si_collectorMAC = '''', si_sessionID = '''', si_expiresAt = 9,
     si_chunkCount = 1, si_chunksStored = 1, si_manifestStored = True\<rparr>"

definition sample_stored :: session where
  "sample_stored = blob_session toy_crypto \<lparr>BaseURL = ''r'', cl_credential = []\<rparr> (Token (replicate 32 7)) sample_info ''cli'' 5"

definition sample_disk :: "unit session_io" where
  "sample_disk = \<lparr>io_read = (\<lambda>n. (False, n)), io_step = (\<lambda>_ n. (False, n)), io_remove = (\<lambda>n. (False, n)),
     io_enc = (\<lambda>_. Some [1]), io_dec = (\<lambda>_. Some sample_stored), io_upper = map ascii_upper\<rparr>"

theorem session_file_roundtrip_witness:
  "\<exists>d1. Session_Save sample_disk sample_stored (None, ()) = (None, d1) \<and> fst (Session_Load toy_crypto sample_disk d1) = Inr sample_stored"
proof -
  let ?c = "\<lparr>BaseURL = ''r'', cl_credential = []\<rparr>" and ?t = "Token (replicate 32 7)"
  have j: "Session_Join toy_crypto flaky_env no_json ?c ?t sample_info ''cli'' 5 [] 0 = (Inr sample_stored, 0)"
    using join_blob [of sample_info] by (simp add: sample_stored_def sample_info_def)
  have io: "upper_ok (io_upper sample_disk)" "json_reads_back sample_disk sample_stored"
    by (simp_all add: sample_disk_def upper_ok_def json_reads_back_def)
  have w: "token_wf ?t" "BaseURL ?c \<noteq> ''''" "si_expiresAt sample_info \<noteq> 0" "ss_JoinedAt sample_stored \<noteq> 0" "''cli'' \<in> {''cli'', ''chat''}"
    by (simp_all add: token_wf_def TokenSecretSize_def sample_info_def sample_stored_def blob_session_def)
  have s: "Session_Save sample_disk sample_stored (None, ()) = (None, (Some [1], ()))" by (simp add: Session_Save_def sample_disk_def)
  have "\<not> fst (io_read sample_disk ())" by (simp add: sample_disk_def)
  with session_file_roundtrip [OF j toy_crypto_ok io w, of "(None, ())"] s show ?thesis by simp
qed
end
