(* ===== verification/Mcp_Tools.thy ===== *)
theory Mcp_Tools
  imports Stored_Session Artifact Source_Journal
begin

text \<open>
  The reader's tools over an artifact (\<^verbatim>\<open>internal/mcp/server.go\<close> and \<^verbatim>\<open>tools.go\<close>). A call loads the stored session, fetches
  the artifact if it is not the one in memory, checks its arguments and formats what the artifact returns,
  within 200 KiB of text. The JSON line that ends an answer is kept as a list of fields. A call runs under the
  server's lock, so it is one step from the world before to the world after.
\<close>

section \<open>The server\<close>

record mcp_server =
  mv_loaded :: "artifact option"
  mv_loadedFor :: string
  mv_results :: "string \<rightharpoonup> result"
  mv_resultsFor :: string

text \<open>
  The server, the session file, the envelopes handed to the relay client (also those whose post failed), and
  the rest of the outside.
\<close>

record 'n mcp_world =
  mw_server :: mcp_server
  mw_file :: "bytes option"
  mw_posted :: "envelope list"
  mw_rest :: 'n

record 'n mcp_env =
  me_crypto :: crypto
  me_io :: "'n session_io"
  me_net :: "'n client_env"
  me_js :: client_json
  me_client :: "string \<Rightarrow> bytes \<Rightarrow> relayClient option"
  me_relay :: string
  me_default_relay :: string
  me_now :: "'n \<Rightarrow> time \<times> 'n"
  me_answers :: "relayClient \<Rightarrow> 'n \<Rightarrow> answers \<times> 'n"
  me_random :: "'n \<Rightarrow> bytes \<times> 'n"
  me_manifest :: "bytes \<Rightarrow> manifest option"
  me_valid :: "string \<Rightarrow> string"
  me_placeholder :: "string \<Rightarrow> bool"
  me_regex :: "string \<Rightarrow> (string \<Rightarrow> bool) option"
  me_rfc3339 :: "time \<Rightarrow> string"
  me_enc_position :: "string \<times> int \<times> int \<Rightarrow> bytes"
  me_dec_position :: "bytes \<Rightarrow> (string \<times> int \<times> int) option"

datatype tool_error =
    TE_Stored stored_error
  | TE_Expired time
  | TE_WrongMode
  | TE_BadClient
  | TE_Load load_error
  | TE_Argument string
  | TE_UnknownSource "string list"
  | TE_Token
  | TE_NoArtifact string
  | TE_Limit string
  | TE_Relay client_error
  | TE_Context string
  | TE_Sequence
  | TE_Exhausted
  | TE_Pending string
  | TE_Seal session_error
  | TE_Text
  | TE_Diverges

datatype meta_value = MI int | MS string | MB bool

record tool_result =
  tr_Text :: string
  tr_Meta :: "(string \<times> meta_value) list"
  tr_IsError :: bool

type_synonym ('n, 'a) tool = "'n mcp_world \<Rightarrow> (tool_error + 'a) \<times> 'n mcp_world"

definition tool_bind :: "('n, 'a) tool \<Rightarrow> ('a \<Rightarrow> ('n, 'b) tool) \<Rightarrow> ('n, 'b) tool" where
  "tool_bind m k w = (case m w of (Inl e, w1) \<Rightarrow> (Inl e, w1) | (Inr x, w1) \<Rightarrow> k x w1)"

definition pure :: "tool_error + 'a \<Rightarrow> ('n, 'a) tool" where
  "pure r w = (r, w)"

definition stored_session :: "'n mcp_env \<Rightarrow> ('n, session) tool" where
  "stored_session E w =
     (case Session_Load (me_crypto E) (me_io E) (mw_file w, mw_rest w) of
        (r, (content, n)) \<Rightarrow> (case r of Inl e \<Rightarrow> Inl (TE_Stored e) | Inr s \<Rightarrow> Inr s, w\<lparr>mw_file := content, mw_rest := n\<rparr>))"

definition read_clock :: "'n mcp_env \<Rightarrow> ('n, time) tool" where
  "read_clock E w = (case me_now E (mw_rest w) of (t, n) \<Rightarrow> (Inr t, w\<lparr>mw_rest := n\<rparr>))"

text \<open>The part of \<^verbatim>\<open>artifact\<close> after the look at the memory: fetch, decrypt and keep.\<close>

definition fetch_artifact :: "'n mcp_env \<Rightarrow> session \<Rightarrow> ('n, artifact \<times> session) tool" where
  "fetch_artifact E stored w =
     (case ParsedToken (io_upper (me_io E)) stored of
        None \<Rightarrow> (Inl TE_Token, w)
      | Some t \<Rightarrow>
          (case me_client E (ss_Relay stored) (RelayCredential (me_crypto E) t) of
             None \<Rightarrow> (Inl TE_BadClient, w)
           | Some client \<Rightarrow>
               (case me_answers E client (mw_rest w) of (ans, n) \<Rightarrow>
                  (case Load (me_crypto E) (me_manifest E) (me_valid E) ans t of
                     Inl e \<Rightarrow> (Inl (TE_Load e), w\<lparr>mw_rest := n\<rparr>)
                   | Inr a \<Rightarrow>
                       (Inr (a, stored), w\<lparr>mw_server := (mw_server w)\<lparr>mv_loaded := Some a, mv_loadedFor := ss_SessionID stored\<rparr>,
                                            mw_rest := n\<rparr>)))))"

definition mcp_artifact :: "'n mcp_env \<Rightarrow> ('n, artifact \<times> session) tool" where
  "mcp_artifact E =
     tool_bind (stored_session E) (\<lambda>stored.
     tool_bind (read_clock E) (\<lambda>now w.
       if Expired stored now then (Inl (TE_Expired (ss_ExpiresAt stored)), w)
       else if Live stored then (Inl TE_WrongMode, w)
       else
         (case mv_loaded (mw_server w) of
            Some a \<Rightarrow> if mv_loadedFor (mw_server w) = ss_SessionID stored then (Inr (a, stored), w) else fetch_artifact E stored w
          | None \<Rightarrow> fetch_artifact E stored w)))"

section \<open>Answers\<close>

definition textCap :: nat where "textCap = 200 * 2 ^ 10"

definition tool_answer :: "string \<Rightarrow> (string \<times> meta_value) list \<Rightarrow> tool_error + tool_result" where
  "tool_answer text meta =
     (if length text > textCap then Inl TE_Text else Inr \<lparr>tr_Text = text, tr_Meta = meta, tr_IsError = False\<rparr>)"

text \<open>\<open>given\<close>: the names of the arguments that the caller wrote out.\<close>

definition defaultInt :: "string set \<Rightarrow> string \<Rightarrow> int \<Rightarrow> int \<Rightarrow> int" where
  "defaultInt given name v fallback = (if v \<noteq> 0 \<or> name \<in> given then v else fallback)"

definition Plural :: "int \<Rightarrow> string \<Rightarrow> string \<Rightarrow> string" where
  "Plural n one many = (if n = 1 then one else many)"

definition source_row :: "manifestSource \<Rightarrow> string" where
  "source_row m =
     (let window = (if ms_since m \<noteq> '''' \<or> ms_until m \<noteq> '''' then ms_since m @ ''..'' @ ms_until m else ''-'');
          note = (if ms_note m = '''' then ''-'' else ms_note m)
      in ms_name m @ ''  '' @ ms_kind m @ ''  '' @ show_int (ms_lines m) @ ''  '' @ window @ ''  '' @ note @ [newline])"

definition mcp_sources :: "'n mcp_env \<Rightarrow> ('n, tool_result) tool" where
  "mcp_sources E =
     tool_bind (mcp_artifact E) (\<lambda>(a, stored).
       pure (tool_answer (concat (map (source_row \<circ> src_Meta) (art_Sources a)) @
               ''artifact expires '' @ me_rfc3339 E (ss_ExpiresAt stored) @ [newline])
             [(''sources'', MI (int (length (art_Sources a))))]))"

definition category_row :: "categoryCounts \<Rightarrow> string \<Rightarrow> string" where
  "category_row counts c =
     (let n = (case map_of counts c of None \<Rightarrow> \<lparr>cc_Values = 0, cc_Lines = 0\<rparr> | Some n \<Rightarrow> n)
      in ''  '' @ c @ ''  '' @ show_int (cc_Values n) @ '' '' @ Plural (cc_Values n) ''value'' ''values'' @
         ''  '' @ show_int (cc_Lines n) @ '' '' @ Plural (cc_Lines n) ''line'' ''lines'' @ [newline])"

definition mcp_summary :: "'n mcp_env \<Rightarrow> ('n, tool_result) tool" where
  "mcp_summary E =
     tool_bind (mcp_artifact E) (\<lambda>(a, stored).
       let lines = foldl (\<lambda>n s. wrap64 (n + ms_lines (src_Meta s))) 0 (art_Sources a); r = m_redaction (art_Manifest a)
       in pure (tool_answer
            (''created '' @ me_rfc3339 E (m_createdAt (art_Manifest a)) @ [newline] @
             ''expires '' @ me_rfc3339 E (ss_ExpiresAt stored) @ [newline] @
             ''sources '' @ show_nat (length (art_Sources a)) @ [newline] @
             ''total lines '' @ show_int lines @ [newline] @
             ''lines redacted '' @ show_int (rs_linesRedacted r) @ [newline] @ ''by category'' @ [newline] @
             concat (map (category_row (rs_byCategory r)) RedactionCategories) @
             ''flags '' @ show_int (rs_flags r) @ [newline] @ ''rules '' @ show_int (rs_rules r) @ [newline])
            [(''lines'', MI lines), (''lines_redacted'', MI (rs_linesRedacted r)), (''flags'', MI (rs_flags r))]))"

section \<open>Lines\<close>

definition formatLine :: "line \<Rightarrow> string" where
  "formatLine l = show_int (ln_N l) @ '': '' @ ln_Text l @ [newline]"

text \<open>How many of the lines fit into the text, taken in order.\<close>

fun fitting :: "('a \<Rightarrow> string) \<Rightarrow> nat \<Rightarrow> 'a list \<Rightarrow> nat" where
  "fitting fmt used [] = 0"
| "fitting fmt used (l # ls) =
     (if used + length (fmt l) > textCap then 0 else Suc (fitting fmt (used + length (fmt l)) ls))"

text \<open>\<^verbatim>\<open>lineResult\<close>: a tail keeps the last lines that fit, everything else the first ones.\<close>

definition lineResult :: "(string \<Rightarrow> bool) \<Rightarrow> line list \<Rightarrow> bool \<Rightarrow> int \<Rightarrow> tool_error + tool_result" where
  "lineResult ph lines0 is_tail readTo =
     (let lines1 = (if is_tail then drop (length lines0 - fitting formatLine 0 (rev lines0)) lines0 else lines0);
          k = fitting formatLine 0 lines1;
          lines = take k lines1;
          next0 = (if k < length lines1 then ln_N (lines1 ! k) else 0);
          first = (if lines = [] then 0 else ln_N (hd lines));
          final = (if lines = [] then 0 else ln_N (last lines));
          next1 = (if next0 = 0 \<and> final > 0 \<and> final < readTo then final + 1 else next0);
          meta = [(''lines'', MI (int (length lines))), (''lines_redacted'', MI (RedactedLines ph lines))]
      in tool_answer (concat (map formatLine lines))
           (meta @ (if readTo > 0 then (if next1 > 0 then [(''next_from'', MI next1)] else [])
                    else [(''first_line'', MI first), (''last_line'', MI final)])))"

definition named_source :: "artifact \<Rightarrow> string \<Rightarrow> tool_error + source_lines" where
  "named_source a name = (case Artifact_Source a name of Inl names \<Rightarrow> Inl (TE_UnknownSource names) | Inr s \<Rightarrow> Inr s)"

definition mcp_tail :: "'n mcp_env \<Rightarrow> string set \<Rightarrow> string \<Rightarrow> int \<Rightarrow> ('n, tool_result) tool" where
  "mcp_tail E given source n0 =
     tool_bind (mcp_artifact E) (\<lambda>(a, stored).
       let n = defaultInt given ''n'' n0 100 in
       if n < 1 \<or> n > 500 then pure (Inl (TE_Argument ''n: must be between 1 and 500''))
       else tool_bind (pure (named_source a source)) (\<lambda>s. pure (lineResult (me_placeholder E) (Source_Tail s n) True 0)))"

text \<open>The answer of \<^verbatim>\<open>read\<close>, once its artifact is there.\<close>

definition read_lines :: "(string \<Rightarrow> bool) \<Rightarrow> artifact \<Rightarrow> string \<Rightarrow> int \<Rightarrow> int \<Rightarrow> tool_error + tool_result" where
  "read_lines ph a source from to =
     (if from < 1 then Inl (TE_Argument ''from: must be at least 1'')
      else if to < from then Inl (TE_Argument ''to: must be at least from'')
      else (case named_source a source of
              Inl e \<Rightarrow> Inl e
            | Inr s \<Rightarrow>
                if from > n_lines s then Inl (TE_Argument (''from: beyond the last line ('' @ show_int (n_lines s) @ '')''))
                else lineResult ph (Source_Read s from (wrap64 (from + min 499 (wrap64 (to - from))))) False
                       (max 1 (min to (n_lines s)))))"

definition mcp_read :: "'n mcp_env \<Rightarrow> string \<Rightarrow> int \<Rightarrow> int \<Rightarrow> ('n, tool_result) tool" where
  "mcp_read E source from to =
     tool_bind (mcp_artifact E) (\<lambda>(a, stored). pure (read_lines (me_placeholder E) a source from to))"

definition mcp_context :: "'n mcp_env \<Rightarrow> string set \<Rightarrow> string \<Rightarrow> int \<Rightarrow> int \<Rightarrow> ('n, tool_result) tool" where
  "mcp_context E given source line around0 =
     tool_bind (mcp_artifact E) (\<lambda>(a, stored).
       let around = defaultInt given ''around'' around0 20 in
       if line < 1 then pure (Inl (TE_Argument ''line: must be at least 1''))
       else if around < 0 \<or> around > 200 then pure (Inl (TE_Argument ''around: must be between 0 and 200''))
       else tool_bind (pure (named_source a source)) (\<lambda>s.
         if line > n_lines s then pure (Inl (TE_Argument (''line: beyond the last line ('' @ show_int (n_lines s) @ '')'')))
         else pure (lineResult (me_placeholder E) (Source_Context s line around) False 0)))"

section \<open>Searching\<close>

record searchArgs =
  sa_Regex :: string
  sa_Source :: string
  sa_Before :: int
  sa_After :: int
  sa_Max :: int
  sa_Cursor :: string

text \<open>Where a search starts: at the beginning, or at the position that a cursor of this session names.\<close>

definition search_position :: "'n mcp_env \<Rightarrow> artifact \<Rightarrow> string \<Rightarrow> searchArgs \<Rightarrow> tool_error + int \<times> int" where
  "search_position E a sid q =
     (if sa_Cursor q = '''' then Inr (0, 1)
      else (case Option.bind (b64_decode False (sa_Cursor q)) (me_dec_position E) of
              None \<Rightarrow> Inl (TE_Argument ''cursor: invalid cursor'')
            | Some (sid', si, n) \<Rightarrow>
                if sid' \<noteq> sid \<or> si < 0 \<or> si \<ge> int (length (art_Sources a)) \<or> n < 1 \<or> n > n_lines (art_Sources a ! nat si) + 1
                then Inl (TE_Argument ''cursor: invalid cursor'')
                else if sa_Source q \<noteq> '''' \<and> ms_name (src_Meta (art_Sources a ! nat si)) \<noteq> sa_Source q
                then Inl (TE_Argument ''cursor: source does not match'')
                else Inr (si, n)))"

definition ellipsis :: string where "ellipsis = [CHR 0xE2, CHR 0x80, CHR 0xA6]"

text \<open>A matching line is shown up to 2000 bytes.\<close>

definition shorten :: "'n mcp_env \<Rightarrow> line \<Rightarrow> line" where
  "shorten E l =
     (if ln_Match l \<and> length (ln_Text l) > 2000
      then l\<lparr>ln_Text := me_valid E (take 2000 (ln_Text l)) @ '' '' @ ellipsis @ ''[+'' @ show_nat (length (ln_Text l) - 2000) @ '' bytes]''\<rparr>
      else l)"

definition formatHit :: "line \<Rightarrow> string" where
  "formatHit l = ln_Source l @ '':'' @ show_int (ln_N l) @ (if ln_Match l then '':'' else ''-'') @ '' '' @ ln_Text l @ [newline]"

definition first_named :: "artifact \<Rightarrow> string \<Rightarrow> int \<Rightarrow> int" where
  "first_named a name si =
     (case filter (\<lambda>(i, s). ms_name (src_Meta s) = name) (enumerate 0 (art_Sources a)) of
        [] \<Rightarrow> si
      | (i, _) # _ \<Rightarrow> int i)"

text \<open>What is written of the lines found, and where the next page starts.\<close>

definition search_page :: "'n mcp_env \<Rightarrow> artifact \<Rightarrow> searchResult \<Rightarrow> line list \<times> bool \<times> int \<times> int" where
  "search_page E a found =
     (let lines = map (shorten E) (sr_Lines found); k = fitting formatHit 0 lines in
      if k < length lines
      then (take k lines, True, first_named a (ln_Source (lines ! k)) (sr_NextSource found), ln_N (lines ! k))
      else (lines, \<not> sr_Done found, sr_NextSource found, sr_NextLine found))"

definition search_answer :: "'n mcp_env \<Rightarrow> artifact \<Rightarrow> string \<Rightarrow> searchResult \<Rightarrow> tool_error + tool_result" where
  "search_answer E a sid found =
     (case search_page E a found of (lines, truncated, si, n) \<Rightarrow>
        tool_answer (concat (map formatHit lines))
          [(''matches'', MI (int (length (filter ln_Match lines)))), (''lines_redacted'', MI (RedactedLines (me_placeholder E) lines)),
           (''truncated'', MB truncated),
           (''cursor'', MS (if truncated then b64_encode (me_enc_position E (sid, si, n)) else ''''))])"

definition search_query :: "(string \<Rightarrow> bool) \<Rightarrow> searchArgs \<Rightarrow> int \<Rightarrow> int \<times> int \<Rightarrow> searchQuery" where
  "search_query re q mx p =
     \<lparr>q_Regex = Some re, q_Source = sa_Source q, q_Before = sa_Before q, q_After = sa_After q, q_Max = mx,
      q_StartSource = fst p, q_StartLine = snd p\<rparr>"

text \<open>The answer of \<^verbatim>\<open>search\<close>, once its artifact is there.\<close>

definition search_call :: "'n mcp_env \<Rightarrow> artifact \<Rightarrow> string \<Rightarrow> string set \<Rightarrow> searchArgs \<Rightarrow> tool_error + tool_result" where
  "search_call E a sid given q =
     (let mx = defaultInt given ''max'' (sa_Max q) 50 in
      if sa_Before q < 0 \<or> sa_Before q > 50 then Inl (TE_Argument ''before: must be between 0 and 50'')
      else if sa_After q < 0 \<or> sa_After q > 50 then Inl (TE_Argument ''after: must be between 0 and 50'')
      else if mx < 1 \<or> mx > 200 then Inl (TE_Argument ''max: must be between 1 and 200'')
      else (case me_regex E (sa_Regex q) of
              None \<Rightarrow> Inl (TE_Argument ''regex: '')
            | Some re \<Rightarrow>
                (case search_position E a sid q of
                   Inl e \<Rightarrow> Inl e
                 | Inr p \<Rightarrow>
                     (case Artifact_Search a (search_query re q mx p) of
                        None \<Rightarrow> Inl TE_Diverges
                      | Some (Inl (UnknownSource names)) \<Rightarrow> Inl (TE_UnknownSource names)
                      | Some (Inl InvalidQuery) \<Rightarrow> Inl (TE_Argument ''query'')
                      | Some (Inr found) \<Rightarrow> search_answer E a sid found))))"

definition mcp_search :: "'n mcp_env \<Rightarrow> string set \<Rightarrow> searchArgs \<Rightarrow> ('n, tool_result) tool" where
  "mcp_search E given q =
     tool_bind (mcp_artifact E) (\<lambda>(a, stored). pure (search_call E a (ss_SessionID stored) given q))"

section \<open>Joining from the chat\<close>

definition RelayLimitHint :: "client_error \<Rightarrow> tool_error" where
  "RelayLimitHint e =
     (case e of CE_Relay r \<Rightarrow> if re_Code r = ''server_limit'' then TE_Limit (re_Message r) else TE_Relay e | _ \<Rightarrow> TE_Relay e)"

definition check_join :: "'n mcp_env \<Rightarrow> token \<Rightarrow> ('n, unit) tool" where
  "check_join E t w =
     (case CheckJoin (me_crypto E) (me_io E) t (mw_file w, mw_rest w) of
        (r, (content, n)) \<Rightarrow> (case r of Some e \<Rightarrow> Inl (TE_Stored e) | None \<Rightarrow> Inr (), w\<lparr>mw_file := content, mw_rest := n\<rparr>))"

definition save_session :: "'n mcp_env \<Rightarrow> session \<Rightarrow> ('n, unit) tool" where
  "save_session E s w =
     (case Session_Save (me_io E) s (mw_file w, mw_rest w) of
        (r, (content, n)) \<Rightarrow> (case r of Some e \<Rightarrow> Inl (TE_Stored e) | None \<Rightarrow> Inr (), w\<lparr>mw_file := content, mw_rest := n\<rparr>))"

definition join_relay :: "'n mcp_env \<Rightarrow> relayClient \<Rightarrow> token \<Rightarrow> sessionInfo \<Rightarrow> string \<Rightarrow> ('n, session) tool" where
  "join_relay E client t info via w =
     (case me_now E (mw_rest w) of (now, n1) \<Rightarrow>
        (case me_random E n1 of (random, n2) \<Rightarrow>
           (case Session_Join (me_crypto E) (me_net E) (me_js E) client t info via now random n2 of
              (r, n3) \<Rightarrow> (case r of Inl e \<Rightarrow> Inl (TE_Stored e) | Inr s \<Rightarrow> Inr s, w\<lparr>mw_rest := n3\<rparr>))))"

definition forget :: "mcp_server \<Rightarrow> mcp_server" where
  "forget v = v\<lparr>mv_loaded := None, mv_loadedFor := '''', mv_results := Map.empty, mv_resultsFor := ''''\<rparr>"

definition join_message :: "'n mcp_env \<Rightarrow> session \<Rightarrow> tool_error + tool_result" where
  "join_message E s =
     (let at = me_rfc3339 E (ss_ExpiresAt s); warning = ''. This token has been in the chat transcript.'' in
      tool_answer (if Live s then ''Joined live session '' @ ss_SessionID s @ '' via chat. It expires at '' @ at @ warning
                   else ''Joined session '' @ ss_SessionID s @ ''. The artifact expires at '' @ at @ warning)
        [(''session_id'', MS (ss_SessionID s)), (''expires_at'', MS at)])"

definition mcp_join :: "'n mcp_env \<Rightarrow> string \<Rightarrow> ('n, tool_result) tool" where
  "mcp_join E token_text =
     (case ParseToken (io_upper (me_io E)) token_text of
        None \<Rightarrow> pure (Inl TE_Token)
      | Some t \<Rightarrow>
          tool_bind (check_join E t) (\<lambda>_.
          (case me_client E (if me_relay E = '''' then me_default_relay E else me_relay E) (RelayCredential (me_crypto E) t) of
             None \<Rightarrow> pure (Inl TE_BadClient)
           | Some client \<Rightarrow> (\<lambda>w.
               case Client_Session (me_net E) (me_js E) client (SessionID (me_crypto E) t) (mw_rest w) of
                 (Inl e, n) \<Rightarrow> (Inl (if IsNotFound e then TE_NoArtifact (BaseURL client) else RelayLimitHint e), w\<lparr>mw_rest := n\<rparr>)
               | (Inr info, n) \<Rightarrow>
                   tool_bind (join_relay E client t info ''chat'') (\<lambda>stored.
                   tool_bind (save_session E stored) (\<lambda>_ w1.
                     (join_message E stored, w1\<lparr>mw_server := forget (mw_server w1)\<rparr>))) (w\<lparr>mw_rest := n\<rparr>)))))"

end
