(* ===== verification/Mcp_Live.thy ===== *)
theory Mcp_Live
  imports Mcp_Tools Serve_Jobs
begin

text \<open>
  The reader's tools over a live session (\<^verbatim>\<open>internal/mcp/live.go\<close>): submitting a job, waiting for its result, plans, and
  the second look at a job whose call timed out. The clock, the caller's deadline and JSON coding are parameters. Waiting is
  a loop that ends when the result is there or the time is over, so it is a partial function; that it ends is
  proved for a clock that moves.
\<close>

section \<open>Parameters of jobs\<close>

datatype live_params =
    P_ListDir string
  | P_ReadFile readFileParams
  | P_Search searchParams
  | P_Tail tailParams
  | P_Journal journalParams
  | P_DockerLogs dockerLogsParams
  | P_Systemctl string
  | P_None

record 'n live_env =
  lv_mcp :: "'n mcp_env"
  lv_clock :: "'n \<Rightarrow> time \<times> 'n"
  lv_deadline :: "time option"
  lv_marshal :: "live_params \<Rightarrow> string option"
  lv_object :: "string \<Rightarrow> string option"
  lv_enc_job :: "job \<Rightarrow> bytes option"
  lv_enc_plan :: "job list \<Rightarrow> string option"
  lv_dec_result :: "bytes \<Rightarrow> result option"
  lv_dec_id :: "bytes \<Rightarrow> string"

definition jobWait :: duration where "jobWait = 120 * second"
definition resultWait :: duration where "resultWait = 60 * second"

section \<open>The session of a call\<close>

text \<open>\<^verbatim>\<open>live\<close>: the keys, the client and the stored session; a new session drops the old results.\<close>

definition mcp_live :: "'n mcp_env \<Rightarrow> ('n, sessionKeys \<times> relayClient \<times> session) tool" where
  "mcp_live E =
     tool_bind (stored_session E) (\<lambda>stored.
     tool_bind (read_clock E) (\<lambda>now w.
       if Expired stored now then (Inl (TE_Expired (ss_ExpiresAt stored)), w)
       else if \<not> Live stored then (Inl TE_WrongMode, w)
       else
         (case env_context (me_net E) (mw_rest w) of
            Some e \<Rightarrow> (Inl (TE_Context e), w)
          | None \<Rightarrow>
              (case ParsedContentRoot stored of
                 None \<Rightarrow> (Inl (TE_Stored SE_ContentRoot), w)
               | Some root \<Rightarrow>
                   (case ParsedToken (io_upper (me_io E)) stored of
                      None \<Rightarrow> (Inl TE_Token, w)
                    | Some t \<Rightarrow>
                        (case me_client E (ss_Relay stored) (RelayCredential (me_crypto E) t) of
                           None \<Rightarrow> (Inl TE_BadClient, w)
                         | Some client \<Rightarrow>
                             (Inr (DeriveSessionKeys (me_crypto E) root, client, stored),
                              if mv_resultsFor (mw_server w) \<noteq> ss_SessionID stored
                              then w\<lparr>mw_server := (mw_server w)\<lparr>mv_results := Map.empty, mv_resultsFor := ss_SessionID stored\<rparr>\<rparr>
                              else w)))))))"

definition session_id :: "session \<Rightarrow> sessionID" where
  "session_id s = (case ParseSessionID (ss_SessionID s) of None \<Rightarrow> replicate 16 0 | Some i \<Rightarrow> i)"

section \<open>Submitting\<close>

definition liveRelayError :: "client_error \<Rightarrow> tool_error" where
  "liveRelayError e =
     (case e of CE_Relay r \<Rightarrow> if re_Code r = ''bad_sequence'' then TE_Sequence else RelayLimitHint e | _ \<Rightarrow> RelayLimitHint e)"

definition post_job :: "'n mcp_env \<Rightarrow> relayClient \<Rightarrow> sessionID \<Rightarrow> envelope \<Rightarrow> ('n, unit) tool" where
  "post_job E client i e w =
     (case PostJob (me_net E) (me_js E) client i e (mw_rest w) of
        (r, n) \<Rightarrow> (case r of Some err \<Rightarrow> Inl (liveRelayError err) | None \<Rightarrow> Inr (),
                   w\<lparr>mw_posted := mw_posted w @ [e], mw_rest := n\<rparr>))"

text \<open>\<^verbatim>\<open>submit\<close>: the number is counted up and saved before the envelope leaves. The result is the session as counted.\<close>

definition mcp_submit :: "'n live_env \<Rightarrow> sessionKeys \<Rightarrow> relayClient \<Rightarrow> session \<Rightarrow> job \<Rightarrow> ('n, session) tool" where
  "mcp_submit L keys client stored j =
     (let E = lv_mcp L; seq = ss_NextJobSeq stored; stored' = stored\<lparr>ss_NextJobSeq := seq + 1\<rparr>; i = session_id stored in
      case lv_enc_job L j of
        None \<Rightarrow> pure (Inl (TE_Argument ''job: parameters exceed the job limit''))
      | Some raw \<Rightarrow>
          if length raw > MaxJobBytes - 16 then pure (Inl (TE_Argument ''job: parameters exceed the job limit''))
          else if seq \<ge> of_nat MaxSessionSeq then pure (Inl TE_Exhausted)
          else
            tool_bind (save_session E stored') (\<lambda>_.
              case SealJob (me_crypto E) keys i seq ClassRead raw of
                Inl e \<Rightarrow> pure (Inl (TE_Seal e))
              | Inr e \<Rightarrow> tool_bind (post_job E client i e) (\<lambda>_. pure (Inr stored'))))"

section \<open>Waiting\<close>

definition result_status :: "string \<Rightarrow> bool" where
  "result_status s \<longleftrightarrow> s = ''ok'' \<or> s = ''denied'' \<or> s = ''rejected'' \<or> s = ''error''"

text \<open>A malformed result still finishes the call of the job that it names.\<close>

definition read_result :: "'n live_env \<Rightarrow> bytes \<Rightarrow> result" where
  "read_result L raw =
     (let broken = \<lparr>res_ID = lv_dec_id L raw, res_Status = ''error'', res_Error = ''invalid result from collector'', res_Lines = [],
                    res_Next = '''', res_Redaction = \<lparr>rr_LinesRedacted = 0, rr_ByCategory = [], rr_Flags = 0\<rparr>\<rparr>
      in case lv_dec_result L raw of
           None \<Rightarrow> broken
         | Some got \<Rightarrow> if \<not> ValidateJobID (res_ID got) \<or> \<not> result_status (res_Status got) then broken else got)"

definition keep_result :: "result \<Rightarrow> 'n mcp_world \<Rightarrow> 'n mcp_world" where
  "keep_result got w = w\<lparr>mw_server := (mw_server w)\<lparr>mv_results := (mv_results (mw_server w))(res_ID got \<mapsto> got)\<rparr>\<rparr>"

text \<open>The envelopes of one poll: what does not open is dropped, and a wrong number is remembered.\<close>

fun take_results :: "'n live_env \<Rightarrow> sessionKeys \<Rightarrow> envelope list \<Rightarrow> session \<Rightarrow> bool \<Rightarrow> ('n, session \<times> bool) tool" where
  "take_results L keys [] stored bad = pure (Inr (stored, bad))"
| "take_results L keys (e # es) stored bad =
     (case OpenResult (me_crypto (lv_mcp L)) keys e (session_id stored) (ss_NextResultSeq stored) of
        Inl err \<Rightarrow> take_results L keys es stored (bad \<or> err = ErrSequence)
      | Inr raw \<Rightarrow>
          let stored' = stored\<lparr>ss_NextResultSeq := ss_NextResultSeq stored + 1\<rparr> in
          tool_bind (save_session (lv_mcp L) stored') (\<lambda>_ w. take_results L keys es stored' bad (keep_result (read_result L raw) w)))"

definition missing :: "(string \<rightharpoonup> result) \<Rightarrow> string list \<Rightarrow> string option" where
  "missing known ids = (case filter (\<lambda>i. known i = None) ids of [] \<Rightarrow> None | i # _ \<Rightarrow> Some i)"

definition truncate_second :: "duration \<Rightarrow> duration" where
  "truncate_second d = whole_seconds d * second"

definition deadlineExceeded :: string where "deadlineExceeded = ''context deadline exceeded''"

text \<open>One turn of the loop of \<^verbatim>\<open>await\<close>: the end of the wait, or the state of the next turn.\<close>

datatype 'n turn = Ends "tool_error option" "'n mcp_world" | Goes bool session "'n mcp_world"

definition await_turn ::
  "'n live_env \<Rightarrow> sessionKeys \<Rightarrow> relayClient \<Rightarrow> string list \<Rightarrow> time \<Rightarrow> bool \<Rightarrow> session \<Rightarrow> 'n mcp_world \<Rightarrow> 'n turn" where
  "await_turn L keys client ids deadline is_last stored w =
     (case missing (mv_results (mw_server w)) ids of
        None \<Rightarrow> Ends None w
      | Some m \<Rightarrow>
          (case lv_clock L (mw_rest w) of (now, n1) \<Rightarrow>
             let remaining = deadline - now; w1 = w\<lparr>mw_rest := n1\<rparr> in
             if is_last \<or> remaining \<le> 0 then Ends (Some (TE_Pending m)) w1
             else
               let wait = min (30 * second) (truncate_second remaining); E = lv_mcp L in
               (case PollResults (me_net E) (me_js E) client (session_id stored) wait n1 of
                  (Inl e, n2) \<Rightarrow>
                    Ends (Some (if env_context (me_net E) n2 = Some deadlineExceeded then TE_Pending m else liveRelayError e)) (w1\<lparr>mw_rest := n2\<rparr>)
                | (Inr es, n2) \<Rightarrow>
                    (case take_results L keys es stored False (w1\<lparr>mw_rest := n2\<rparr>) of
                       (Inl err, w2) \<Rightarrow> Ends (Some err) w2
                     | (Inr (stored', bad), w2) \<Rightarrow> if bad then Ends (Some TE_Sequence) w2 else Goes (wait = 0) stored' w2))))"

text \<open>\<open>None\<close> is a wait that does not end.\<close>

partial_function (option) await_loop ::
  "'n live_env \<Rightarrow> sessionKeys \<Rightarrow> relayClient \<Rightarrow> string list \<Rightarrow> time \<Rightarrow> bool \<Rightarrow> session \<Rightarrow> 'n mcp_world \<Rightarrow> (tool_error option \<times> 'n mcp_world) option" where
  "await_loop L keys client ids deadline is_last stored w =
     (case await_turn L keys client ids deadline is_last stored w of
        Ends r w1 \<Rightarrow> Some (r, w1)
      | Goes is_last' stored' w1 \<Rightarrow> await_loop L keys client ids deadline is_last' stored' w1)"

text \<open>\<^verbatim>\<open>await\<close> with the deadline of the call, cut to that of the context.\<close>

definition mcp_await ::
  "'n live_env \<Rightarrow> sessionKeys \<Rightarrow> relayClient \<Rightarrow> string list \<Rightarrow> duration \<Rightarrow> session \<Rightarrow> 'n mcp_world \<Rightarrow> (tool_error option \<times> 'n mcp_world) option" where
  "mcp_await L keys client ids wait stored w =
     (case lv_clock L (mw_rest w) of (now, n) \<Rightarrow>
        let deadline = (case lv_deadline L of Some d \<Rightarrow> min d (now + wait) | None \<Rightarrow> now + wait) in
        await_loop L keys client ids deadline False stored (w\<lparr>mw_rest := n\<rparr>))"

section \<open>Answers\<close>

definition renderResult :: "result \<Rightarrow> tool_result" where
  "renderResult got =
     (let failed = (res_Status got \<noteq> ''ok'');
          body = join_with [newline] (res_Lines got) @ (if res_Lines got = [] then '''' else [newline])
      in \<lparr>tr_Text = (if failed then res_Status got @ '': '' @ res_Error got @ [newline] @ body else body),
          tr_Meta = [(''id'', MS (res_ID got)), (''status'', MS (res_Status got)), (''lines'', MI (int (length (res_Lines got)))),
                     (''lines_redacted'', MI (rr_LinesRedacted (res_Redaction got))), (''flags'', MI (rr_Flags (res_Redaction got))),
                     (''next'', MS (res_Next got))] @ (if failed then [(''error'', MS (res_Error got))] else []),
          tr_IsError = failed\<rparr>)"

text \<open>The zero value that a missing key of a map gives.\<close>

definition result_of :: "'n mcp_world \<Rightarrow> string \<Rightarrow> result" where
  "result_of w i =
     (case mv_results (mw_server w) i of
        Some got \<Rightarrow> got
      | None \<Rightarrow> \<lparr>res_ID = '''', res_Status = '''', res_Error = '''', res_Lines = [], res_Next = '''',
                 res_Redaction = \<lparr>rr_LinesRedacted = 0, rr_ByCategory = [], rr_Flags = 0\<rparr>\<rparr>)"

type_synonym ('n, 'a) wait_tool = "'n mcp_world \<Rightarrow> ((tool_error + 'a) \<times> 'n mcp_world) option"

definition job_name :: "u64 \<Rightarrow> string" where
  "job_name seq = ''j'' @ show_nat (unat seq)"

definition finish :: "(tool_error option \<times> 'n mcp_world) option \<Rightarrow> ('n mcp_world \<Rightarrow> 'a) \<Rightarrow> ((tool_error + 'a) \<times> 'n mcp_world) option" where
  "finish r g = (case r of None \<Rightarrow> None | Some (Some e, w) \<Rightarrow> Some (Inl e, w) | Some (None, w) \<Rightarrow> Some (Inr (g w), w))"

definition submitAndAwait :: "'n live_env \<Rightarrow> string \<Rightarrow> live_params \<Rightarrow> ('n, tool_result) wait_tool" where
  "submitAndAwait L name params w =
     (case mcp_live (lv_mcp L) w of
        (Inl e, w1) \<Rightarrow> Some (Inl e, w1)
      | (Inr (keys, client, stored), w1) \<Rightarrow>
          (case lv_marshal L params of
             None \<Rightarrow> Some (Inl (TE_Argument ''job: invalid parameters''), w1)
           | Some raw \<Rightarrow>
               let i = job_name (ss_NextJobSeq stored) in
               (case mcp_submit L keys client stored \<lparr>job_ID = i, job_Name = name, job_Params = raw\<rparr> w1 of
                  (Inl e, w2) \<Rightarrow> Some (Inl e, w2)
                | (Inr stored', w2) \<Rightarrow>
                    finish (mcp_await L keys client [i] jobWait stored' w2) (\<lambda>w. renderResult (result_of w i)))))"

section \<open>The tools\<close>

definition mcp_listDir :: "'n live_env \<Rightarrow> string \<Rightarrow> ('n, tool_result) wait_tool" where
  "mcp_listDir L path = submitAndAwait L ''list_dir'' (P_ListDir path)"

definition mcp_readFile :: "'n live_env \<Rightarrow> string set \<Rightarrow> readFileParams \<Rightarrow> ('n, tool_result) wait_tool" where
  "mcp_readFile L given q =
     (let from = defaultInt given ''from'' (rf_From q) 1; to = defaultInt given ''to'' (rf_To q) (wrap64 (from + 499))
      in submitAndAwait L ''read_file'' (P_ReadFile (q\<lparr>rf_From := from, rf_To := to\<rparr>)))"

definition mcp_searchFiles :: "'n live_env \<Rightarrow> string set \<Rightarrow> searchParams \<Rightarrow> ('n, tool_result) wait_tool" where
  "mcp_searchFiles L given q = submitAndAwait L ''search'' (P_Search (q\<lparr>se_Max := defaultInt given ''max'' (se_Max q) 50\<rparr>))"

definition mcp_tailFile :: "'n live_env \<Rightarrow> string set \<Rightarrow> tailParams \<Rightarrow> ('n, tool_result) wait_tool" where
  "mcp_tailFile L given q = submitAndAwait L ''tail'' (P_Tail (q\<lparr>tp_N := defaultInt given ''n'' (tp_N q) 100\<rparr>))"

definition mcp_journal :: "'n live_env \<Rightarrow> journalParams \<Rightarrow> ('n, tool_result) wait_tool" where
  "mcp_journal L q = submitAndAwait L ''journal'' (P_Journal q)"

definition mcp_dockerLogs :: "'n live_env \<Rightarrow> dockerLogsParams \<Rightarrow> ('n, tool_result) wait_tool" where
  "mcp_dockerLogs L q = submitAndAwait L ''docker_logs'' (P_DockerLogs q)"

definition mcp_systemctlStatus :: "'n live_env \<Rightarrow> string \<Rightarrow> ('n, tool_result) wait_tool" where
  "mcp_systemctlStatus L u = submitAndAwait L ''systemctl_status'' (P_Systemctl u)"

definition mcp_ps :: "'n live_env \<Rightarrow> ('n, tool_result) wait_tool" where
  "mcp_ps L = submitAndAwait L ''ps'' P_None"

definition mcp_df :: "'n live_env \<Rightarrow> ('n, tool_result) wait_tool" where
  "mcp_df L = submitAndAwait L ''df'' P_None"

text \<open>An entry of a plan; \<open>None\<close> are parameters that are missing.\<close>

record planJob =
  pl_Name :: string
  pl_Params :: "string option"

definition catalog_name :: "string \<Rightarrow> string" where
  "catalog_name n = (if n = ''tail_file'' then ''tail'' else if n = ''search_files'' then ''search'' else n)"

fun plan_entries :: "'n live_env \<Rightarrow> string \<Rightarrow> nat \<Rightarrow> planJob list \<Rightarrow> tool_error + job list" where
  "plan_entries L outer k [] = Inr []"
| "plan_entries L outer k (p # asked) =
     (let name = catalog_name (pl_Name p) in
      if CatalogClass name = None then Inl (TE_Argument (''jobs['' @ show_nat k @ '']: unknown catalog name''))
      else (case pl_Params p of
              None \<Rightarrow> Inl (TE_Argument ''jobs: params must be an object'')
            | Some obj \<Rightarrow>
                (case lv_object L obj of
                   None \<Rightarrow> Inl (TE_Argument ''jobs: invalid parameters'')
                 | Some raw \<Rightarrow>
                     (case plan_entries L outer (Suc k) asked of
                        Inl e \<Rightarrow> Inl e
                      | Inr js \<Rightarrow> Inr (\<lparr>job_ID = outer @ ''.'' @ show_nat (k + 1), job_Name = name, job_Params = raw\<rparr> # js)))))"

definition plan_block :: "'n mcp_world \<Rightarrow> nat \<Rightarrow> planJob \<Rightarrow> job \<Rightarrow> tool_result" where
  "plan_block w k p j =
     (let got = result_of w (job_ID j); block = renderResult got
      in block\<lparr>tr_Text := ''## '' @ show_nat (k + 1) @ '' '' @ pl_Name p @ '' '' @ res_Status got @ [newline] @ tr_Text block\<rparr>)"

definition plan_blocks :: "'n mcp_world \<Rightarrow> planJob list \<Rightarrow> job list \<Rightarrow> tool_result list" where
  "plan_blocks w asked js = map (\<lambda>(k, p, j). plan_block w k p j) (enumerate 0 (zip asked js))"

definition mcp_plan :: "'n live_env \<Rightarrow> planJob list \<Rightarrow> ('n, tool_result list) wait_tool" where
  "mcp_plan L asked w =
     (case mcp_live (lv_mcp L) w of
        (Inl e, w1) \<Rightarrow> Some (Inl e, w1)
      | (Inr (keys, client, stored), w1) \<Rightarrow>
          if length asked < 1 \<or> length asked > 40 then Some (Inl (TE_Argument ''jobs: must contain 1 to 40 catalog jobs''), w1)
          else
            let outer = job_name (ss_NextJobSeq stored) in
            (case plan_entries L outer 0 asked of
               Inl e \<Rightarrow> Some (Inl e, w1)
             | Inr js \<Rightarrow>
                 (case lv_enc_plan L js of
                    None \<Rightarrow> Some (Inl (TE_Argument ''jobs''), w1)
                  | Some raw \<Rightarrow>
                      (case mcp_submit L keys client stored \<lparr>job_ID = outer, job_Name = ''plan'', job_Params = raw\<rparr> w1 of
                         (Inl e, w2) \<Rightarrow> Some (Inl e, w2)
                       | (Inr stored', w2) \<Rightarrow>
                           finish (mcp_await L keys client (map job_ID js) jobWait stored' w2) (\<lambda>w. plan_blocks w asked js)))))"

definition known_job :: "session \<Rightarrow> string \<Rightarrow> bool" where
  "known_job stored i \<longleftrightarrow>
     has_prefix i ''j'' \<and>
     (case parse_uint 64 (fst (cut_at (CHR ''.'') (drop 1 i))) of
        None \<Rightarrow> False
      | Some seq \<Rightarrow> seq \<noteq> 0 \<and> seq < unat (ss_NextJobSeq stored))"

definition mcp_jobResult :: "'n live_env \<Rightarrow> string \<Rightarrow> ('n, tool_result) wait_tool" where
  "mcp_jobResult L i w =
     (case mcp_live (lv_mcp L) w of
        (Inl e, w1) \<Rightarrow> Some (Inl e, w1)
      | (Inr (keys, client, stored), w1) \<Rightarrow>
          if \<not> ValidateJobID i then Some (Inl (TE_Argument ''id: invalid job id''), w1)
          else if \<not> known_job stored i then Some (Inl (TE_Argument (''unknown job id '' @ i)), w1)
          else finish (mcp_await L keys client [i] resultWait stored w1) (\<lambda>w. renderResult (result_of w i)))"

end
