(* ===== verification/Mcp_Proofs.thy ===== *)
theory Mcp_Proofs
  imports Mcp_Tools
begin

text \<open>
  What the reader's tools show: a page is within the text limit, pages of \<^verbatim>\<open>read\<close> join up to the range that was
  asked for, and the pages of \<^verbatim>\<open>search\<close> show every match.
\<close>

section \<open>Pages of lines\<close>

lemma fitting_le: "fitting fmt used ls \<le> length ls"
  by (induction fmt used ls rule: fitting.induct) auto

lemma fitting_text:
  "used \<le> textCap \<Longrightarrow> used + length (concat (map fmt (take (fitting fmt used ls) ls))) \<le> textCap"
proof (induction fmt used ls rule: fitting.induct)
  case (2 fmt used l ls)
  then show ?case by (cases "used + length (fmt l) > textCap") (auto simp: add.assoc)
qed simp

lemma fitting_pos: "ls \<noteq> [] \<Longrightarrow> length (fmt (hd ls)) \<le> textCap \<Longrightarrow> 0 < fitting fmt 0 ls"
  by (cases ls) auto

lemma take_Read:
  assumes "1 \<le> a" "int k \<le> min b (n_lines s) - a + 1"
  shows "take k (Source_Read s a b) = Source_Read s a (a + int k - 1)"
proof (cases k)
  case 0
  then show ?thesis using assms by (simp add: Source_Read_def)
next
  case (Suc j)
  have "a + int k - 1 \<le> b" "a + int k - 1 \<le> n_lines s" "a \<le> a + int k - 1 + 1" using assms by linarith+
  with assms(1) have "Source_Read s a (a + int k - 1) @ Source_Read s (a + int k) b = Source_Read s a b"
    using Read_split [of a "a + int k - 1" b s] by simp
  moreover have "length (Source_Read s a (a + int k - 1)) = k" using assms Suc by (simp add: Source_Read_def)
  ultimately show ?thesis by (metis append_eq_conv_conj)
qed

lemma length_Read: "1 \<le> a \<Longrightarrow> length (Source_Read s a b) = nat (min b (n_lines s) - a + 1)"
  by (simp add: Source_Read_def)

lemma nth_Read:
  assumes "1 \<le> a" "int k < min b (n_lines s) - a + 1"
  shows "ln_N (Source_Read s a b ! k) = a + int k"
proof -
  have "a + int k \<le> min b (n_lines s)" using assms by linarith
  from nth_upto [OF this] show ?thesis using assms by (simp add: Source_Read_def)
qed

text \<open>Every line of the source can be shown on a page of its own.\<close>

definition showable :: "source_lines \<Rightarrow> bool" where
  "showable s \<longleftrightarrow> (\<forall>l \<in> set (Source_Read s 1 (n_lines s)). length (formatLine l) \<le> textCap)"

lemma showable_Read: "showable s \<Longrightarrow> l \<in> set (Source_Read s a b) \<Longrightarrow> length (formatLine l) \<le> textCap"
  by (auto simp: showable_def Source_Read_def)

lemma lineResult_page:
  fixes ls :: "line list" and ph to
  defines "k \<equiv> fitting formatLine 0 ls"
  assumes "ls \<noteq> []" "0 < k" "0 < to" "\<forall>j < length ls. ln_N (ls ! j) = from + int j" "0 < from"
  shows "\<exists>r. lineResult ph ls False to = Inr r \<and> tr_Text r = concat (map formatLine (take k ls)) \<and> length (tr_Text r) \<le> textCap \<and>
    map_of (tr_Meta r) ''next_from'' =
      (if k < length ls \<or> from + int k - 1 < to then Some (MI (from + int k)) else None)"
proof -
  have le: "length (concat (map formatLine (take k ls))) \<le> textCap" using fitting_text [of 0 formatLine ls] by (simp add: k_def)
  have kl: "k \<le> length ls" by (simp add: k_def fitting_le)
  with assms(2,3) have "last (take k ls) = ls ! (k - 1)" by (simp add: last_conv_nth min_absorb2)
  then have "ln_N (last (take k ls)) = from + int k - 1" using assms(3,5) kl by (simp add: of_nat_diff)
  moreover have "take k ls \<noteq> []" using assms(2,3) by simp
  ultimately show ?thesis using le assms(3-6) kl k_def
    by (auto simp: lineResult_def Let_def tool_answer_def)
qed

lemma read_page:
  assumes "named_source a source = Inr s" "1 \<le> from" "from \<le> to" "from \<le> n_lines s" "n_lines s < 2 ^ 61" "to < 2 ^ 61" "showable s"
  shows "\<exists>m r. from \<le> m \<and> m \<le> min to (n_lines s) \<and> m \<le> from + 499 \<and> read_lines ph a source from to = Inr r \<and>
    tr_Text r = concat (map formatLine (Source_Read s from m)) \<and> length (tr_Text r) \<le> textCap \<and>
    map_of (tr_Meta r) ''next_from'' = (if m < min to (n_lines s) then Some (MI (m + 1)) else None)"
proof -
  let ?b = "from + min 499 (to - from)"
  let ?ls = "Source_Read s from ?b"
  let ?k = "fitting formatLine 0 ?ls"
  have w: "wrap64 (to - from) = to - from" "wrap64 ?b = ?b" using assms by (simp_all add: wrap64_id)
  have ne: "?ls \<noteq> []" using assms by (simp add: Source_Read_def)
  have pos: "0 < ?k" using ne showable_Read [OF assms(7), of "hd ?ls"] by (intro fitting_pos) (auto intro: list.set_sel(1))
  have kl: "int ?k \<le> min ?b (n_lines s) - from + 1"
    using fitting_le [of formatLine 0 ?ls] assms(2-4) by (simp add: length_Read)
  have num: "\<forall>j < length ?ls. ln_N (?ls ! j) = from + int j" using assms(2) by (auto simp: length_Read nth_Read)
  obtain r where r: "lineResult ph ?ls False (max 1 (min to (n_lines s))) = Inr r" "tr_Text r = concat (map formatLine (take ?k ?ls))"
      "length (tr_Text r) \<le> textCap"
      "map_of (tr_Meta r) ''next_from'' =
        (if ?k < length ?ls \<or> from + int ?k - 1 < max 1 (min to (n_lines s)) then Some (MI (from + int ?k)) else None)"
    using lineResult_page [OF ne pos _ num, of "max 1 (min to (n_lines s))" ph] assms(2) by (elim meta_impE exE conjE) simp_all
  let ?m = "from + int ?k - 1"
  have len: "length ?ls = nat (min ?b (n_lines s) - from + 1)" using assms(2) by (rule length_Read)
  have "read_lines ph a source from to = Inr r" using r(1) assms w by (simp add: read_lines_def)
  moreover have "take ?k ?ls = Source_Read s from ?m" using assms(2) kl by (rule take_Read)
  moreover have "?m \<le> min to (n_lines s) \<and> ?m \<le> from + 499 \<and> from \<le> ?m" using kl pos assms(2-4) by linarith
  moreover have "(?k < length ?ls \<or> ?m < max 1 (min to (n_lines s))) \<longleftrightarrow> ?m < min to (n_lines s)"
    using kl pos assms(2-4) len by linarith
  ultimately show ?thesis using r(2-4) by (intro exI [of _ ?m] exI [of _ r]) simp
qed

text \<open>Page after page, as a reader follows \<^verbatim>\<open>next_from\<close>; \<open>None\<close> if a page fails or the pages do not end in time.\<close>

fun read_pages :: "nat \<Rightarrow> (string \<Rightarrow> bool) \<Rightarrow> artifact \<Rightarrow> string \<Rightarrow> int \<Rightarrow> int \<Rightarrow> string list option" where
  "read_pages 0 ph a source from to = None"
| "read_pages (Suc fuel) ph a source from to =
     (case read_lines ph a source from to of
        Inl e \<Rightarrow> None
      | Inr r \<Rightarrow>
          (case map_of (tr_Meta r) ''next_from'' of
             Some (MI nxt) \<Rightarrow> map_option ((#) (tr_Text r)) (read_pages fuel ph a source nxt to)
           | _ \<Rightarrow> Some [tr_Text r]))"

text \<open>
  C31. Reading page by page: whatever range a reader asks for, following \<^verbatim>\<open>next_from\<close> ends after at most as many calls as the
  range has lines, every page is within 200 KiB, and the pages joined are exactly the lines of the range, each once
  and in order, provided that each line fits a page.
\<close>

theorem read_pages_complete:
  assumes "named_source a source = Inr s" and "showable s" and "n_lines s < 2 ^ 61"
    and "1 \<le> from" and "from \<le> to" and "from \<le> n_lines s" and "to < 2 ^ 61"
    and "nat (min to (n_lines s) - from) < fuel"
  shows "\<exists>pages. read_pages fuel ph a source from to = Some pages \<and> list_all (\<lambda>p. length p \<le> textCap) pages \<and>
    concat pages = concat (map formatLine (Source_Read s from to))"
  using assms(4-8)
proof (induction fuel arbitrary: "from")
  case (Suc fuel)
  obtain m r where p: "from \<le> m" "m \<le> min to (n_lines s)" "read_lines ph a source from to = Inr r"
      "tr_Text r = concat (map formatLine (Source_Read s from m))" "length (tr_Text r) \<le> textCap"
      "map_of (tr_Meta r) ''next_from'' = (if m < min to (n_lines s) then Some (MI (m + 1)) else None)"
    using read_page [OF assms(1) Suc.prems(1-3) assms(3) Suc.prems(4) assms(2), of ph] by auto
  have split: "Source_Read s from to = Source_Read s from m @ Source_Read s (m + 1) to"
    using Read_split [of "from" m to s] Suc.prems p(1,2) by simp
  show ?case
  proof (cases "m < min to (n_lines s)")
    case True
    then have "nat (min to (n_lines s) - (m + 1)) < fuel" using Suc.prems(5) p(1) by linarith
    with True obtain pages where "read_pages fuel ph a source (m + 1) to = Some pages" "list_all (\<lambda>p. length p \<le> textCap) pages"
        "concat pages = concat (map formatLine (Source_Read s (m + 1) to))"
      using Suc.IH [of "m + 1"] Suc.prems p(1) by auto
    with True p split show ?thesis by simp
  next
    case False
    then have "min to (n_lines s) < max 1 (m + 1)" by linarith
    then have "Source_Read s (m + 1) to = []" by (simp add: Source_Read_def)
    with False p split show ?thesis by auto
  qed
qed simp

section \<open>Pages of a search\<close>

lemma shorten_simps [simp]: "ln_Match (shorten E l) = ln_Match l" "ln_N (shorten E l) = ln_N l" "ln_Source (shorten E l) = ln_Source l"
  by (simp_all add: shorten_def)

lemma filter_shorten: "filter ln_Match (map (shorten E) ls) = map (shorten E) (filter ln_Match ls)"
  by (induction ls) auto

text \<open>A list that leaves out some elements of another, cut at an element they share.\<close>

lemma subseq_cut:
  assumes "subseq (xs @ l # ys) (as @ l # bs)" "distinct (as @ l # bs)"
  shows "subseq xs as" "subseq ys bs"
proof -
  from list_emb_appendD [OF assms(1)] obtain us vs where s: "as @ l # bs = us @ vs" "subseq xs us" "subseq (l # ys) vs" by blast
  from list_emb_ConsD [OF s(3)] obtain us' vs' where v: "vs = us' @ l # vs'" "subseq ys vs'" by auto
  have "as @ l # bs = (us @ us') @ l # vs'" using s(1) v(1) by simp
  moreover have "l \<notin> set as" "l \<notin> set bs" using assms(2) by simp_all
  ultimately have "as = us @ us'" "bs = vs'" using append_Cons_eq_iff [of l as bs "us @ us'" vs'] by simp_all
  then show "subseq xs as" "subseq ys bs" using s(2) v(2) by (auto intro: list_emb_prefix)
qed

lemma filter_inside:
  assumes "set xs \<subseteq> A" "set ys \<inter> A = {}"
  shows "filter (\<lambda>x. x \<in> A) (filter P (xs @ ys)) = filter P xs"
proof -
  have "filter (\<lambda>x. x \<in> A) (filter P xs) = filter P xs" using assms(1) by (induction xs) auto
  moreover have "filter (\<lambda>x. x \<in> A) (filter P ys) = []" using assms(2) by (auto simp: filter_empty_conv)
  ultimately show ?thesis by simp
qed

lemma filter_cut:
  assumes "subseq (xs @ l # ys) (as @ l # bs)" "distinct (as @ l # bs)" "filter P (xs @ l # ys) = filter P (as @ l # bs)"
  shows "filter P xs = filter P as"
proof -
  note sub = subseq_cut [OF assms(1,2)]
  have xs: "set xs \<subseteq> set as" and ys: "set (l # ys) \<inter> set as = {}"
    using sub assms(2) by (auto dest: list_emb_set)
  have "filter P as = filter (\<lambda>x. x \<in> set as) (filter P (as @ l # bs))"
    by (rule filter_inside [symmetric]) (use assms(2) in auto)
  also have "\<dots> = filter (\<lambda>x. x \<in> set as) (filter P (xs @ l # ys))" by (simp only: assms(3))
  also have "\<dots> = filter P xs" by (rule filter_inside [OF xs ys])
  finally show ?thesis ..
qed
lemma region_member:
  "l \<in> set (region re name p nx ss si) \<longleftrightarrow> (\<exists>k < length ss. l \<in> set (source_part re name p nx (ss ! k) (si + int k)))"
proof (induction ss arbitrary: si)
  case (Cons s ss)
  have "(\<exists>k < length (s # ss). l \<in> set (source_part re name p nx ((s # ss) ! k) (si + int k))) \<longleftrightarrow>
      l \<in> set (source_part re name p nx s si) \<or> (\<exists>k < length ss. l \<in> set (source_part re name p nx (ss ! k) (si + 1 + int k)))"
    by (simp add: Ex_less_Suc2 add.assoc)
  then show ?case using Cons.IH [of "si + 1"] by simp
qed simp

lemma part_member:
  assumes "l \<in> set (source_part re name p nx s si)"
  shows "ln_Source l = ms_name (src_Meta s)" "1 \<le> ln_N l" "ln_N l \<le> n_lines s" "fst p \<le> si" "si \<le> fst nx"
    "si = fst p \<Longrightarrow> snd p \<le> ln_N l" "si = fst nx \<Longrightarrow> ln_N l < snd nx" "name = '''' \<or> name = ms_name (src_Meta s)"
    "ln_Text l = src_Lines s ! nat (ln_N l - 1)" "ln_Match l = re (ln_Text l)"
  using assms by (auto simp: source_part_def marked_member split: if_splits)

lemma distinct_marked: "distinct (marked re s a b)"
proof -
  have "map ln_N (marked re s a b) = [max 1 a..min b (n_lines s)]" by (simp add: marked_def Source_Read_def comp_def)
  then show ?thesis by (metis distinct_map distinct_upto)
qed

lemma region_distinct: "names_distinct ss \<Longrightarrow> distinct (region re name p nx ss si)"
proof (induction ss arbitrary: si)
  case (Cons s ss)
  have "distinct (source_part re name p nx s si)" by (simp add: source_part_def distinct_marked)
  moreover have "set (source_part re name p nx s si) \<inter> set (region re name p nx ss (si + 1)) = {}"
  proof -
    have "ln_Source l \<noteq> ms_name (src_Meta s)" if "l \<in> set (region re name p nx ss (si + 1))" for l
      using that Cons.prems by (auto simp: region_member names_distinct_def dest!: part_member(1))
    then show ?thesis by (auto dest: part_member(1))
  qed
  ultimately show ?case using Cons by (simp add: names_distinct_def)
qed simp

lemma part_starts:
  assumes "l \<in> set (source_part re name p nx s si)"
  shows "source_part re name (si, ln_N l) nx s si = l # tl (source_part re name (si, ln_N l) nx s si)"
proof -
  note l = part_member [OF assms]
  define b where "b = (if si = fst nx then snd nx - 1 else n_lines s)"
  have b: "ln_N l \<le> b" using l(3,7) by (simp add: b_def)
  have "marked re s (ln_N l) (ln_N l) = [l]"
  proof -
    have "[max 1 (ln_N l)..min (ln_N l) (n_lines s)] = [ln_N l]" using l(2,3) by (simp add: max_def min_def)
    with l(1,9,10) show ?thesis by (simp add: marked_def Source_Read_def)
  qed
  then have "marked re s (ln_N l) b = l # marked re s (ln_N l + 1) b"
    using marked_split [of "ln_N l" "ln_N l" b s re] l(2,3) b by simp
  moreover have "source_part re name (si, ln_N l) nx s si = marked re s (ln_N l) b"
    using l(2,5,8) by (auto simp: source_part_def b_def)
  ultimately show ?thesis by simp
qed

text \<open>A line of a range of positions cuts the range in two.\<close>

lemma page_at:
  assumes "k < length (art_Sources a)" "l \<in> set (source_part re name p nx (art_Sources a ! k) (int k))" "0 \<le> fst p"
  shows "\<exists>rest. page re name a (int k, ln_N l) nx = l # rest \<and> page re name a p nx = page re name a p (int k, ln_N l) @ l # rest"
proof -
  let ?m = "(int k, ln_N l)"
  note l = part_member [OF assms(2)]
  have later: "later p ?m" "later ?m nx" using l(4-7) by (auto simp: later_def)
  have "page re name a p ?m @ page re name a ?m nx = page re name a p nx"
    unfolding page_def using l(2,3) by (intro region_split [OF later]) auto
  moreover have "page re name a ?m nx = source_part re name ?m nx (art_Sources a ! k) (int k) @ region re name ?m nx (drop (Suc k) (art_Sources a)) (int k + 1)"
    using page_skip [of ?m re name a nx] assms(1) by (simp flip: Cons_nth_drop_Suc)
  ultimately show ?thesis using part_starts [OF assms(2)] by (metis append_Cons)
qed

lemma first_named_index:
  assumes "names_distinct (art_Sources a)" "k < length (art_Sources a)"
  shows "first_named a (ms_name (src_Meta (art_Sources a ! k))) d = int k"
proof -
  have "filter (\<lambda>(i, s). ms_name (src_Meta s) = ms_name (src_Meta (ss ! k))) (enumerate n ss) = [(n + k, ss ! k)]"
    if "names_distinct ss" "k < length ss" for n k ss
    using that
  proof (induction ss arbitrary: n k)
    case (Cons s ss)
    have no: "filter (\<lambda>(i, s). ms_name (src_Meta s) = x) (enumerate m ss) = []" if "x \<notin> (\<lambda>s. ms_name (src_Meta s)) ` set ss" for m x
      using that by (auto simp: filter_empty_conv in_set_enumerate_eq)
    show ?case
    proof (cases k)
      case 0
      then show ?thesis using Cons.prems no by (auto simp: names_distinct_def)
    next
      case (Suc j)
      then have "ms_name (src_Meta s) \<noteq> ms_name (src_Meta (ss ! j))" using Cons.prems by (auto simp: names_distinct_def)
      then show ?thesis using Cons.IH [of j "Suc n"] Cons.prems Suc by (simp add: names_distinct_def)
    qed
  qed simp
  from this [OF assms, of 0] show ?thesis by (simp add: first_named_def)
qed
lemma search_sources_named:
  assumes "search_sources q re n ss si lines matches = Some r" "\<not> sr_Done r" "q_Source q \<noteq> ''''"
  shows "\<exists>k < length ss. sr_NextSource r = int (si + k) \<and> ms_name (src_Meta (ss ! k)) = q_Source q"
  using assms(1)
proof (induction ss arbitrary: si lines matches)
  case (Cons s ss)
  have step: ?case if "search_sources q re n ss (Suc si) lines' matches' = Some r" for lines' matches'
  proof -
    from Cons.IH [OF that] obtain k where "k < length ss" "sr_NextSource r = int (Suc si + k)" "ms_name (src_Meta (ss ! k)) = q_Source q" by blast
    then show ?thesis by (intro exI [of _ "Suc k"]) simp
  qed
  show ?case
  proof (cases "q_Source q \<noteq> ms_name (src_Meta s)")
    case True
    with Cons.prems assms(3) show ?thesis by (intro step) simp
  next
    case False
    with Cons.prems assms(2,3) consider lines' matches' where "search_sources q re n ss (Suc si) lines' matches' = Some r" | "sr_NextSource r = int si"
      by (auto simp: Let_def split: option.splits bool.splits if_splits)
    then show ?thesis
    proof cases
      case 2
      with False show ?thesis by (intro exI [of _ 0]) simp
    qed (rule step)
  qed
qed (use assms(2) in auto)

lemma Search_named:
  assumes "Artifact_Search a q = Some (Inr r)" "\<not> sr_Done r" "q_Source q \<noteq> ''''" "0 \<le> q_StartSource q"
  shows "ms_name (src_Meta (art_Sources a ! nat (sr_NextSource r))) = q_Source q"
proof -
  let ?n = "nat (q_StartSource q)"
  obtain re where "search_sources q re (length (art_Sources a)) (drop ?n (art_Sources a)) ?n [] 0 = Some r"
    using assms(1) by (auto simp: Artifact_Search_def split: option.splits if_splits)
  from search_sources_named [OF this assms(2,3)] obtain k where "k < length (drop ?n (art_Sources a))" "sr_NextSource r = int (?n + k)"
      "ms_name (src_Meta (drop ?n (art_Sources a) ! k)) = q_Source q" by blast
  moreover from this(2) have "nat (sr_NextSource r) = ?n + k" by (simp only: nat_int)
  ultimately show ?thesis by simp
qed

text \<open>
  A step of the search: where the next page starts, and that the lines of this one are those before it. The
  text limit may cut a page at any of its lines.
\<close>

definition page_step :: "'n mcp_env \<Rightarrow> artifact \<Rightarrow> searchQuery \<Rightarrow> (string \<Rightarrow> bool) \<Rightarrow> line list \<Rightarrow> position \<Rightarrow> bool" where
  "page_step E a q re lines m \<longleftrightarrow>
     0 \<le> fst m \<and> fst m < int (length (art_Sources a)) \<and> 1 \<le> snd m \<and> snd m \<le> n_lines (art_Sources a ! nat (fst m)) + 1 \<and>
     (q_Source q = '''' \<or> ms_name (src_Meta (art_Sources a ! nat (fst m))) = q_Source q) \<and>
     filter ln_Match lines = map (shorten E) (filter ln_Match (page re (q_Source q) a (q_start q) m)) \<and>
     page re (q_Source q) a (q_start q) (artifact_end a) =
       page re (q_Source q) a (q_start q) m @ page re (q_Source q) a m (artifact_end a) \<and>
     page re (q_Source q) a (q_start q) m \<noteq> []"

lemma page_step_whole:
  assumes "query_ok a q" "Artifact_Search a q = Some (Inr r)" "\<not> sr_Done r" "sr_Matches r = int (length (filter ln_Match (sr_Lines r)))"
    and "shown_ok q re (art_Sources a) (sr_Lines r) (page re (q_Source q) a (q_start q) (sr_next r))"
    and "next_ok q re (drop (nat (q_StartSource q)) (art_Sources a)) (q_StartSource q) r"
  shows "page_step E a q re (map (shorten E) (sr_Lines r)) (sr_next r)"
proof -
  note q = assms(1) [unfolded query_ok_def]
  from q have st: "0 \<le> q_StartSource q" "q_StartSource q \<le> int (length (art_Sources a))" by simp_all
  note nx = next_inside [OF assms(6,3) st]
  have "art_Sources a ! nat (sr_NextSource r) = drop (nat (q_StartSource q)) (art_Sources a) ! nat (sr_NextSource r - q_StartSource q)"
    using st nx(2,3) by (simp add: nat_diff_distrib)
  then have bound: "sr_NextLine r \<le> n_lines (art_Sources a ! nat (sr_NextSource r)) + 1" using nx(6) by simp
  have "filter ln_Match (sr_Lines r) \<noteq> []" using nx(1) assms(4) q by auto
  then have "page re (q_Source q) a (q_start q) (sr_next r) \<noteq> []" using assms(5) by (auto simp: shown_ok_def)
  with nx(2-4) st bound Search_named [OF assms(2,3) _ st(1)] assms(5) page_split [OF assms(6,3) st, of "q_Source q"]
  show ?thesis by (auto simp: page_step_def shown_ok_def filter_shorten)
qed

lemma page_step_cut:
  assumes "query_ok a q" "names_distinct (art_Sources a)" "sr_Lines r = xs @ l # ys" "xs \<noteq> []"
    and "shown_ok q re (art_Sources a) (sr_Lines r) (page re (q_Source q) a (q_start q) (sr_next r))"
  shows "page_step E a q re (map (shorten E) xs) (first_named a (ln_Source l) d, ln_N l)"
proof -
  let ?p = "q_start q" and ?name = "q_Source q"
  have p: "0 \<le> fst ?p" using assms(1) by (simp add: query_ok_def)
  have sub: "subseq (xs @ l # ys) (page re ?name a ?p (sr_next r))" and fil: "filter ln_Match (xs @ l # ys) = filter ln_Match (page re ?name a ?p (sr_next r))"
    using assms(3,5) by (simp_all add: shown_ok_def)
  have "l \<in> set (page re ?name a ?p (sr_next r))" using list_emb_set [OF sub, of l] by auto
  then obtain k where k: "k < length (art_Sources a)" "l \<in> set (source_part re ?name ?p (sr_next r) (art_Sources a ! k) (int k))"
    by (auto simp: page_def region_member)
  note l = part_member [OF k(2)]
  let ?m = "(int k, ln_N l)"
  have m: "first_named a (ln_Source l) d = int k" using first_named_index [OF assms(2) k(1)] l(1) by simp
  obtain rest where cut: "page re ?name a ?p (sr_next r) = page re ?name a ?p ?m @ l # rest" using page_at [OF k p] by blast
  have "distinct (page re ?name a ?p (sr_next r))" unfolding page_def by (rule region_distinct [OF assms(2)])
  then have dist: "distinct (page re ?name a ?p ?m @ l # rest)" by (simp only: cut)
  have "filter ln_Match xs = filter ln_Match (page re ?name a ?p ?m)"
    by (rule filter_cut) (use sub fil cut dist in simp_all)
  moreover have "page re ?name a ?p ?m \<noteq> []"
    using subseq_cut(1) [of xs l ys "page re ?name a ?p ?m" rest] sub dist assms(4) by (auto simp: cut)
  moreover have "page re ?name a ?p (artifact_end a) = page re ?name a ?p ?m @ page re ?name a ?m (artifact_end a)"
  proof -
    have "later ?p ?m" using l(4,6) by (auto simp: later_def)
    moreover have "later ?m (artifact_end a)" using k(1) by (simp add: later_def artifact_end_def)
    ultimately show ?thesis unfolding page_def using l(2,3) by (intro region_split [symmetric]) auto
  qed
  ultimately show ?thesis unfolding m using k(1) l(2,3,8) by (auto simp: page_step_def filter_shorten)
qed
text \<open>Every line that a search may show fits a page of its own.\<close>

definition hits_fit :: "'n mcp_env \<Rightarrow> artifact \<Rightarrow> (string \<Rightarrow> bool) \<Rightarrow> string \<Rightarrow> bool" where
  "hits_fit E a re name \<longleftrightarrow>
     (\<forall>l \<in> set (page re name a (0, 1) (artifact_end a)). length (formatHit (shorten E l)) \<le> textCap)"

lemma page_sub: "set (page re name a p nx) \<subseteq> set (page re name a (0, 1) (artifact_end a))"
proof
  fix l assume "l \<in> set (page re name a p nx)"
  then obtain k where k: "k < length (art_Sources a)" "l \<in> set (source_part re name p nx (art_Sources a ! k) (int k))"
    by (auto simp: page_def region_member)
  have "l \<in> set (source_part re name (0, 1) (artifact_end a) (art_Sources a ! k) (int k))"
    using part_member [OF k(2)] k(1) by (auto simp: source_part_def marked_member artifact_end_def)
  with k(1) show "l \<in> set (page re name a (0, 1) (artifact_end a))" by (auto simp: page_def region_member)
qed

lemma search_page_ok:
  assumes "query_ok a q" "q_Regex q = Some re" "names_distinct (art_Sources a)" "hits_fit E a re (q_Source q)"
  obtains r lines truncated si n where "Artifact_Search a q = Some (Inr r)" "search_page E a r = (lines, truncated, si, n)"
    "length (concat (map formatHit lines)) \<le> textCap"
    "truncated \<Longrightarrow> page_step E a q re lines (si, n)"
    "\<not> truncated \<Longrightarrow> filter ln_Match lines = map (shorten E) (filter ln_Match (page re (q_Source q) a (q_start q) (artifact_end a)))"
proof -
  obtain r where r: "Artifact_Search a q = Some (Inr r)" "sr_Matches r = int (length (filter ln_Match (sr_Lines r)))"
    "shown_ok q re (art_Sources a) (sr_Lines r) (page re (q_Source q) a (q_start q) (sr_next r))"
    "next_ok q re (drop (nat (q_StartSource q)) (art_Sources a)) (q_StartSource q) r"
    using Search_found [OF assms(1,2)] .
  let ?ls = "map (shorten E) (sr_Lines r)"
  let ?k = "fitting formatHit 0 ?ls"
  have fits: "length (concat (map formatHit (take ?k ?ls))) \<le> textCap" using fitting_text [of 0 formatHit ?ls] by simp
  from assms(1) have st: "0 \<le> q_StartSource q" "q_StartSource q \<le> int (length (art_Sources a))" by (simp_all add: query_ok_def)
  show thesis
  proof (cases "?k < length ?ls")
    case True
    define xs l ys where "xs = take ?k (sr_Lines r)" and "l = sr_Lines r ! ?k" and "ys = drop (Suc ?k) (sr_Lines r)"
    have split: "sr_Lines r = xs @ l # ys" using True by (simp add: xs_def l_def ys_def id_take_nth_drop [symmetric])
    have "subseq (sr_Lines r) (page re (q_Source q) a (q_start q) (sr_next r))" using r(3) by (simp add: shown_ok_def)
    then have "set (sr_Lines r) \<subseteq> set (page re (q_Source q) a (0, 1) (artifact_end a))"
      using page_sub [of re "q_Source q" a "q_start q" "sr_next r"] by (auto dest: list_emb_set)
    then have "length (formatHit (hd ?ls)) \<le> textCap" using True assms(4) by (cases "sr_Lines r") (auto simp: hits_fit_def)
    then have "0 < ?k" using True by (intro fitting_pos) auto
    then have "xs \<noteq> []" using True by (auto simp: xs_def)
    have "page_step E a q re (map (shorten E) xs) (first_named a (ln_Source l) (sr_NextSource r), ln_N l)"
      by (rule page_step_cut [OF assms(1,3) split \<open>xs \<noteq> []\<close> r(3)])
    moreover have "search_page E a r = (map (shorten E) xs, True, first_named a (ln_Source l) (sr_NextSource r), ln_N l)"
      using True by (simp add: search_page_def Let_def xs_def l_def take_map)
    ultimately show thesis using that [OF r(1)] fits by (simp add: xs_def take_map)
  next
    case False
    then have "take ?k ?ls = ?ls" by simp
    then have "length (concat (map formatHit ?ls)) \<le> textCap" using fits by simp
    moreover have "search_page E a r = (?ls, \<not> sr_Done r, sr_next r)" using False by (simp add: search_page_def Let_def)
    moreover have "\<not> sr_Done r \<Longrightarrow> page_step E a q re ?ls (sr_next r)" using page_step_whole [OF assms(1) r(1) _ r(2-4)] .
    moreover have "sr_Done r \<Longrightarrow> filter ln_Match ?ls = map (shorten E) (filter ln_Match (page re (q_Source q) a (q_start q) (artifact_end a)))"
      using page_done [OF r(4) _ st assms(3)] r(3) by (simp add: filter_shorten shown_ok_def)
    ultimately show thesis using that [OF r(1), of ?ls "\<not> sr_Done r" "sr_NextSource r" "sr_NextLine r"] by simp
  qed
qed
section \<open>The search tool\<close>

text \<open>\<^verbatim>\<open>encoding/json\<close> reads back a position, and writes it as a non-empty text.\<close>

definition position_json :: "'n mcp_env \<Rightarrow> bool" where
  "position_json E \<longleftrightarrow> (\<forall>x. me_dec_position E (me_enc_position E x) = Some x \<and> me_enc_position E x \<noteq> [])"

definition search_args_ok :: "'n mcp_env \<Rightarrow> artifact \<Rightarrow> string set \<Rightarrow> searchArgs \<Rightarrow> bool" where
  "search_args_ok E a given q \<longleftrightarrow>
     0 \<le> sa_Before q \<and> sa_Before q \<le> 50 \<and> 0 \<le> sa_After q \<and> sa_After q \<le> 50 \<and>
     1 \<le> defaultInt given ''max'' (sa_Max q) 50 \<and> defaultInt given ''max'' (sa_Max q) 50 \<le> 200 \<and>
     (sa_Source q = '''' \<or> sa_Source q \<in> (\<lambda>s. ms_name (src_Meta s)) ` set (art_Sources a)) \<and>
     (\<forall>s \<in> set (art_Sources a). n_lines s < 2 ^ 61)"

text \<open>Call after call, as a reader passes the cursors back; \<open>None\<close> if a call fails or the calls do not end in time.\<close>

fun search_calls :: "nat \<Rightarrow> 'n mcp_env \<Rightarrow> artifact \<Rightarrow> string \<Rightarrow> string set \<Rightarrow> searchArgs \<Rightarrow> string list option" where
  "search_calls 0 E a sid given q = None"
| "search_calls (Suc fuel) E a sid given q =
     (case search_call E a sid given q of
        Inl e \<Rightarrow> None
      | Inr r \<Rightarrow>
          (case map_of (tr_Meta r) ''cursor'' of
             Some (MS c) \<Rightarrow>
               if c = '''' then Some [tr_Text r]
               else map_option ((#) (tr_Text r)) (search_calls fuel E a sid given (q\<lparr>sa_Cursor := c\<rparr>))
           | _ \<Rightarrow> None))"

definition hit_text :: "line list \<Rightarrow> string" where
  "hit_text ls = concat (map formatHit ls)"

lemma cursor_position:
  fixes sid :: string
  assumes "position_json E" "page_step E a (search_query re q mx p) re lines (si, n)"
  defines "c \<equiv> b64_encode (me_enc_position E (sid, si, n))"
  shows "c \<noteq> ''''" "search_position E a sid (q\<lparr>sa_Cursor := c\<rparr>) = Inr (si, n)"
proof -
  have "length (b64_encode []) = 0" by (simp only: b64_encode_def b64.length_encode) simp
  then have "b64_encode [] = []" by simp
  then show c: "c \<noteq> ''''" using assms(1) b64_encode_inj by (metis c_def position_json_def)
  show "search_position E a sid (q\<lparr>sa_Cursor := c\<rparr>) = Inr (si, n)"
    using assms(1,2) c by (auto simp: search_position_def c_def codec_simps position_json_def page_step_def search_query_def)
qed

lemma search_call_ok:
  assumes "search_args_ok E a given q" "me_regex E (sa_Regex q) = Some re" "names_distinct (art_Sources a)"
    and "hits_fit E a re (sa_Source q)" "search_position E a sid q = Inr p" "0 \<le> fst p" "fst p \<le> int (length (art_Sources a))" "0 \<le> snd p"
  obtains lines truncated si n r where "search_call E a sid given q = Inr r" "tr_Text r = hit_text lines" "length (hit_text lines) \<le> textCap"
    "map_of (tr_Meta r) ''cursor'' = Some (MS (if truncated then b64_encode (me_enc_position E (sid, si, n)) else ''''))"
    "truncated \<Longrightarrow> page_step E a (search_query re q (defaultInt given ''max'' (sa_Max q) 50) p) re lines (si, n)"
    "\<not> truncated \<Longrightarrow> filter ln_Match lines = map (shorten E) (filter ln_Match (page re (sa_Source q) a p (artifact_end a)))"
proof -
  let ?q = "search_query re q (defaultInt given ''max'' (sa_Max q) 50) p"
  have "query_ok a ?q" using assms(1,6-8) by (auto simp: query_ok_def search_query_def search_args_ok_def)
  moreover have "q_Regex ?q = Some re" by (simp add: search_query_def)
  moreover have "hits_fit E a re (q_Source ?q)" using assms(4) by (simp add: search_query_def)
  ultimately obtain r lines truncated si n where s: "Artifact_Search a ?q = Some (Inr r)" "search_page E a r = (lines, truncated, si, n)"
    "length (hit_text lines) \<le> textCap" "truncated \<Longrightarrow> page_step E a ?q re lines (si, n)"
    "\<not> truncated \<Longrightarrow> filter ln_Match lines = map (shorten E) (filter ln_Match (page re (q_Source ?q) a (q_start ?q) (artifact_end a)))"
    using assms(3) search_page_ok [of a ?q re E] unfolding hit_text_def by metis
  have "search_call E a sid given q = search_answer E a sid r"
    using s(1) assms(1,2,5) by (auto simp: search_call_def search_args_ok_def Let_def)
  moreover obtain res where "search_answer E a sid r = Inr res" "tr_Text res = hit_text lines"
      "map_of (tr_Meta res) ''cursor'' = Some (MS (if truncated then b64_encode (me_enc_position E (sid, si, n)) else ''''))"
    using s(2,3) by (simp add: search_answer_def tool_answer_def hit_text_def)
  ultimately show thesis using that s(3-5) by (simp add: search_query_def)
qed

lemma search_calls_from:
  assumes "search_args_ok E a given q" "me_regex E (sa_Regex q) = Some re" "names_distinct (art_Sources a)"
    and "hits_fit E a re (sa_Source q)" "position_json E"
    and "search_position E a sid q = Inr p" "0 \<le> fst p" "fst p \<le> int (length (art_Sources a))" "0 \<le> snd p"
    and "length (page re (sa_Source q) a p (artifact_end a)) < fuel"
  shows "\<exists>shown. search_calls fuel E a sid given q = Some (map hit_text shown) \<and> list_all (\<lambda>ls. length (hit_text ls) \<le> textCap) shown \<and>
    filter ln_Match (concat shown) = map (shorten E) (filter ln_Match (page re (sa_Source q) a p (artifact_end a)))"
  using assms
proof (induction fuel arbitrary: q p)
  case (Suc fuel)
  let ?mx = "defaultInt given ''max'' (sa_Max q) 50"
  obtain lines truncated si n r where c: "search_call E a sid given q = Inr r" "tr_Text r = hit_text lines" "length (hit_text lines) \<le> textCap"
    "map_of (tr_Meta r) ''cursor'' = Some (MS (if truncated then b64_encode (me_enc_position E (sid, si, n)) else ''''))"
    "truncated \<Longrightarrow> page_step E a (search_query re q ?mx p) re lines (si, n)"
    "\<not> truncated \<Longrightarrow> filter ln_Match lines = map (shorten E) (filter ln_Match (page re (sa_Source q) a p (artifact_end a)))"
    by (rule search_call_ok [OF Suc.prems(1-4,6-9)]) (rule that)
  show ?case
  proof (cases truncated)
    case False
    with c show ?thesis by (intro exI [of _ "[lines]"]) simp
  next
    case True
    note step = c(5) [OF True]
    let ?c = "b64_encode (me_enc_position E (sid, si, n))"
    let ?q = "q\<lparr>sa_Cursor := ?c\<rparr>"
    note pos = cursor_position [OF Suc.prems(5) step, of sid]
    from step have sp: "0 \<le> si" "si < int (length (art_Sources a))" "1 \<le> n"
        "filter ln_Match lines = map (shorten E) (filter ln_Match (page re (sa_Source q) a p (si, n)))"
        "page re (sa_Source q) a p (artifact_end a) = page re (sa_Source q) a p (si, n) @ page re (sa_Source q) a (si, n) (artifact_end a)"
        "page re (sa_Source q) a p (si, n) \<noteq> []"
      by (simp_all add: page_step_def search_query_def)
    have "length (page re (sa_Source q) a (si, n) (artifact_end a)) < fuel"
      using Suc.prems(10) sp(5,6) by (cases "page re (sa_Source q) a p (si, n)") auto
    then obtain shown where "search_calls fuel E a sid given ?q = Some (map hit_text shown)" "list_all (\<lambda>ls. length (hit_text ls) \<le> textCap) shown"
        "filter ln_Match (concat shown) = map (shorten E) (filter ln_Match (page re (sa_Source q) a (si, n) (artifact_end a)))"
      using Suc.IH [of ?q "(si, n)"] Suc.prems(1-5) pos(2) sp(1-3) by (auto simp: search_args_ok_def)
    with c(1-4) True pos(1) sp(4,5) show ?thesis by (intro exI [of _ "lines # shown"]) simp
  qed
qed simp

text \<open>
  C30. Searching page by page: a reader that passes each cursor back comes to an end, gets pages of at most 200 KiB, and
  has then seen every matching line of the selected sources once and in order, long lines shortened, also
  where the text limit cut a page between two lines; it asks that each line fits a page and that sources
  have different names.
\<close>

theorem search_tool_complete:
  assumes "search_args_ok E a given q" and "me_regex E (sa_Regex q) = Some re" and "names_distinct (art_Sources a)"
    and "hits_fit E a re (sa_Source q)" and "position_json E" and "sa_Cursor q = ''''"
    and "length (page re (sa_Source q) a (0, 1) (artifact_end a)) < fuel"
  shows "\<exists>shown. search_calls fuel E a sid given q = Some (map hit_text shown) \<and> list_all (\<lambda>ls. length (hit_text ls) \<le> textCap) shown \<and>
    filter ln_Match (concat shown) = map (shorten E) (filter ln_Match (page re (sa_Source q) a (0, 1) (artifact_end a)))"
  by (rule search_calls_from [OF assms(1-5)]) (use assms(6,7) in \<open>simp_all add: search_position_def\<close>)
text \<open>A line longer than a page stops the reader: the page is empty and points to the same line.\<close>

lemma read_stops_at_long_line:
  assumes "named_source a source = Inr s" "1 \<le> from" "from \<le> to" "from \<le> n_lines s" "n_lines s < 2 ^ 61" "to < 2 ^ 61"
    and "length (formatLine (hd (Source_Read s from from))) > textCap"
  shows "\<exists>r. read_lines ph a source from to = Inr r \<and> tr_Text r = '''' \<and> map_of (tr_Meta r) ''next_from'' = Some (MI from)"
proof -
  let ?b = "from + min 499 (to - from)"
  have w: "wrap64 (to - from) = to - from" "wrap64 ?b = ?b" using assms by (simp_all add: wrap64_id)
  have "Source_Read s from from @ Source_Read s (from + 1) ?b = Source_Read s from ?b" using assms by (intro Read_split) auto
  moreover have "Source_Read s from from \<noteq> []" using assms by (simp add: Source_Read_def)
  ultimately obtain l ls where ls: "Source_Read s from ?b = l # ls" "hd (Source_Read s from from) = l"
    by (metis append_is_Nil_conv hd_append2 list.collapse)
  have "ln_N l = from" using nth_Read [of "from" 0 ?b s] assms(2-4) ls(1) by simp
  with ls assms w show ?thesis by (simp add: read_lines_def lineResult_def Let_def tool_answer_def)
qed

section \<open>A small environment\<close>

definition enc_int :: "int \<Rightarrow> bytes" where
  "enc_int i = (if i < 0 then 2 else 3) # replicate (nat \<bar>i\<bar>) 1 @ [0]"

definition dec_int :: "bytes \<Rightarrow> int \<times> bytes" where
  "dec_int b =
     (let k = length (takeWhile (\<lambda>x. x = 1) (tl b)) in (if hd b = 2 then - int k else int k, drop (k + 1) (tl b)))"

lemma takeWhile_ones: "takeWhile (\<lambda>x. x = 1) (replicate k (1 :: byte) @ 0 # b) = replicate k 1"
  by (induction k) auto

lemma dec_enc_int: "dec_int (enc_int i @ b) = (i, b)"
  by (simp add: dec_int_def enc_int_def takeWhile_ones Let_def)

definition sample_enc :: "string \<times> int \<times> int \<Rightarrow> bytes" where
  "sample_enc x = (case x of (sid, si, n) \<Rightarrow> enc_int (int (length sid)) @ string_bytes sid @ enc_int si @ enc_int n)"

definition sample_dec :: "bytes \<Rightarrow> (string \<times> int \<times> int) option" where
  "sample_dec b =
     (case dec_int b of (k, b1) \<Rightarrow>
        (case dec_int (drop (nat k) b1) of (si, b2) \<Rightarrow> Some (bytes_string (take (nat k) b1), si, fst (dec_int b2))))"

lemma sample_dec_enc: "sample_dec (sample_enc x) = Some x"
proof (cases x)
  case (fields sid si n)
  have "dec_int (enc_int n) = (n, [])" using dec_enc_int [of n "[]"] by simp
  with fields show ?thesis by (simp add: sample_dec_def sample_enc_def dec_enc_int bytes_string_bytes)
qed

definition sample_io :: "nat session_io" where
  "sample_io = \<lparr>io_read = (\<lambda>n. (False, n)), io_step = (\<lambda>_ n. (False, n)), io_remove = (\<lambda>n. (False, n)),
     io_enc = (\<lambda>_. None), io_dec = (\<lambda>_. None), io_upper = map ascii_upper\<rparr>"

definition sample_mcp :: "nat mcp_env" where
  "sample_mcp = \<lparr>me_crypto = toy_crypto, me_io = sample_io, me_net = flaky_env, me_js = no_json, me_client = (\<lambda>_ _. None),
     me_relay = '''', me_default_relay = '''', me_now = (\<lambda>n. (1, n)),
     me_answers = (\<lambda>_ n. (\<lparr>ans_Session = Inl CE_Build, ans_Manifest = Inl CE_Build, ans_Chunk = (\<lambda>_. Inl CE_Build), ans_order = [], ans_cancelled = False\<rparr>, n)),
     me_random = (\<lambda>n. (replicate 32 1, n)), me_manifest = (\<lambda>_. None), me_valid = id, me_placeholder = (\<lambda>_. False),
     me_regex = (\<lambda>p. Some (\<lambda>t. t = p)), me_rfc3339 = (\<lambda>_. ''''), me_enc_position = sample_enc, me_dec_position = sample_dec\<rparr>"

definition sample_args :: searchArgs where
  "sample_args = \<lparr>sa_Regex = ''a'', sa_Source = '''', sa_Before = 0, sa_After = 0, sa_Max = 1, sa_Cursor = ''''\<rparr>"

lemma show_small: "length (show_nat (Suc 0)) = 1" "length (show_nat 2) = 1" "length (show_nat 3) = 1"
  by (simp_all add: show_nat.simps)

lemma sample_lines:
  "Source_Read sample_source 1 3 = map (\<lambda>(n, t). \<lparr>ln_Source = ''s'', ln_N = n, ln_Text = t, ln_Match = False\<rparr>) [(1, ''a''), (2, ''b''), (3, ''a'')]"
  "n_lines sample_source = 3"
  by (simp_all add: Source_Read_def sample_source_def n_lines_def upto.simps)

lemma sample_marked:
  "page (\<lambda>t. t = ''a'') '''' sample_artifact (0, 1) (artifact_end sample_artifact) =
   map (\<lambda>(n, t, m). \<lparr>ln_Source = ''s'', ln_N = n, ln_Text = t, ln_Match = m\<rparr>) [(1, ''a'', True), (2, ''b'', False), (3, ''a'', True)]"
  by (simp add: page_def sample_artifact_def artifact_end_def source_part_def marked_def sample_lines)

theorem read_pages_complete_witness:
  "\<exists>pages. read_pages 3 (\<lambda>_. False) sample_artifact ''s'' 1 3 = Some pages \<and> concat pages = concat (map formatLine (Source_Read sample_source 1 3))"
proof -
  have n: "named_source sample_artifact ''s'' = Inr sample_source"
    by (simp add: named_source_def Artifact_Source_def sample_artifact_def sample_source_def)
  have "showable sample_source" by (simp add: showable_def sample_lines formatLine_def textCap_def show_int_def show_small)
  then show ?thesis using read_pages_complete [OF n, of 1 3 3 "\<lambda>_. False"] by (auto simp: sample_lines)
qed

theorem search_tool_complete_witness:
  "\<exists>shown. search_calls 4 sample_mcp sample_artifact ''i'' {''max''} sample_args = Some (map hit_text shown) \<and>
    map ln_N (filter ln_Match (concat shown)) = [1, 3]"
proof -
  have args: "search_args_ok sample_mcp sample_artifact {''max''} sample_args"
    by (simp add: search_args_ok_def sample_args_def defaultInt_def sample_artifact_def sample_lines)
  have re: "me_regex sample_mcp (sa_Regex sample_args) = Some (\<lambda>t. t = ''a'')" by (simp add: sample_mcp_def sample_args_def)
  have pos: "position_json sample_mcp"
    by (simp add: position_json_def sample_mcp_def sample_dec_enc) (simp add: sample_enc_def enc_int_def)
  have q: "sa_Source sample_args = ''''" "sa_Cursor sample_args = ''''" by (simp_all add: sample_args_def)
  have fit: "hits_fit sample_mcp sample_artifact (\<lambda>t. t = ''a'') (sa_Source sample_args)"
    unfolding q hits_fit_def sample_marked by (simp add: formatHit_def shorten_def textCap_def show_int_def show_small)
  have len: "length (page (\<lambda>t. t = ''a'') (sa_Source sample_args) sample_artifact (0, 1) (artifact_end sample_artifact)) < 4"
    unfolding q sample_marked by simp
  from search_tool_complete [OF args re sample_query_ok(3) fit pos q(2) len, of "''i''"] obtain shown where
      s: "search_calls 4 sample_mcp sample_artifact ''i'' {''max''} sample_args = Some (map hit_text shown)"
      "filter ln_Match (concat shown) = map (shorten sample_mcp) (filter ln_Match (page (\<lambda>t. t = ''a'') (sa_Source sample_args) sample_artifact (0, 1) (artifact_end sample_artifact)))"
    by (elim exE conjE) (rule that)
  have "map ln_N (filter ln_Match (concat shown)) = [1, 3]" unfolding s(2) q sample_marked by simp
  with s(1) show ?thesis by (intro exI [of _ shown] conjI)
qed
end
