(* ===== verification/Mcp_Live_Proofs.thy ===== *)
theory Mcp_Live_Proofs
  imports Mcp_Live Mcp_Proofs
begin

text \<open>
  Live sessions from the reader's side: the numbers of the jobs that leave it, what reaches the collector, and that
  waiting ends. Every tool is taken through the same frame (\<open>in_order\<close>), which saving, posting, waiting and submitting keep.
\<close>

section \<open>The session file of a run\<close>

definition file_is :: "'n mcp_env \<Rightarrow> 'n mcp_world \<Rightarrow> session \<Rightarrow> bool" where
  "file_is E w s \<longleftrightarrow> (\<exists>data. mw_file w = Some data \<and> io_dec (me_io E) data = Some s)"

definition counted :: "session \<Rightarrow> u64 \<Rightarrow> u64 \<Rightarrow> session" where
  "counted s0 j r = s0\<lparr>ss_NextJobSeq := j, ss_NextResultSeq := r\<rparr>"

text \<open>What is asked of the environment for one session: JSON reads it back whatever the counters are.\<close>

definition env_ok :: "'n mcp_env \<Rightarrow> session \<Rightarrow> bool" where
  "env_ok E s0 \<longleftrightarrow> crypto_ok (me_crypto E) \<and> upper_ok (io_upper (me_io E)) \<and> (\<forall>j r. json_reads_back (me_io E) (counted s0 j r))"

definition live_keys :: "'n mcp_env \<Rightarrow> session \<Rightarrow> sessionKeys" where
  "live_keys E s = DeriveSessionKeys (me_crypto E) (the (ParsedContentRoot s))"

definition sealed_by :: "'n mcp_env \<Rightarrow> session \<Rightarrow> envelope \<Rightarrow> bool" where
  "sealed_by E s e \<longleftrightarrow> (\<exists>raw. SealJob (me_crypto E) (live_keys E s) (session_id s) (e_seq e) ClassRead raw = Inr e)"

text \<open>
  The state of a run: the file holds the session with some counters, every posted envelope is sealed for this
  session, their numbers increase, and all are below the next number in the file.
\<close>

definition in_order :: "'n mcp_env \<Rightarrow> session \<Rightarrow> 'n mcp_world \<Rightarrow> bool" where
  "in_order E s0 w \<longleftrightarrow>
     (\<exists>j r. file_is E w (counted s0 j r) \<and> stored_ok (me_crypto E) (counted s0 j r) \<and>
        (\<forall>e \<in> set (mw_posted w). e_seq e < j \<and> sealed_by E s0 e) \<and> sorted_wrt (<) (map e_seq (mw_posted w)))"

lemma counted_simps [simp]:
  "ss_NextJobSeq (counted s j r) = j" "ss_NextResultSeq (counted s j r) = r" "Live (counted s j r) = Live s"
  "counted (counted s j r) j' r' = counted s j' r'" "(counted s j r)\<lparr>ss_NextJobSeq := j'\<rparr> = counted s j' r"
  "(counted s j r)\<lparr>ss_NextResultSeq := r'\<rparr> = counted s j r'" "session_id (counted s j r) = session_id s"
  "live_keys E (counted s j r) = live_keys E s" "ss_SessionID (counted s j r) = ss_SessionID s"
  by (simp_all add: counted_def Live_def session_id_def live_keys_def ParsedContentRoot_def)

lemma counted_self: "counted s (ss_NextJobSeq s) (ss_NextResultSeq s) = s"
  by (simp add: counted_def)

lemma stored_counted:
  assumes "stored_ok C (counted s j r)" "Live s" "1 \<le> j'" "j' \<le> of_nat MaxSessionSeq + 1" "1 \<le> r'" "r' \<le> of_nat MaxSessionSeq + 1"
  shows "stored_ok C (counted s j' r')"
  using assms by (simp add: stored_ok_def) (simp add: counted_def)

lemma save_file:
  assumes "save_session E s w = (r, w')" "normal_session s = s" "json_reads_back (me_io E) s"
  shows "mw_posted w' = mw_posted w" "mw_server w' = mw_server w" "r = Inr () \<Longrightarrow> file_is E w' s" "r \<noteq> Inr () \<Longrightarrow> mw_file w' = mw_file w"
  using assms by (auto simp: save_session_def Session_Save_def file_is_def json_reads_back_def split: prod.splits option.splits)

lemma load_file:
  assumes "file_is E w s" "stored_ok (me_crypto E) s" "upper_ok (io_upper (me_io E))" "stored_session E w = (r, w')"
  shows "mw_posted w' = mw_posted w" "mw_server w' = mw_server w" "mw_file w' = mw_file w" "r = Inr s \<or> r = Inl (TE_Stored SE_Read)"
  using assms check_stored [OF assms(3,2)]
  by (auto simp: stored_session_def Session_Load_def file_is_def split: prod.splits option.splits sum.splits if_splits)

text \<open>A step that touches neither the file nor the posted envelopes.\<close>

definition same_outside :: "'n mcp_world \<Rightarrow> 'n mcp_world \<Rightarrow> bool" where
  "same_outside w w' \<longleftrightarrow> mw_posted w' = mw_posted w \<and> mw_file w' = mw_file w"

lemma in_order_same: "in_order E s0 w \<Longrightarrow> same_outside w w' \<Longrightarrow> in_order E s0 w'"
  by (auto simp: in_order_def same_outside_def file_is_def)

lemma live_call:
  assumes "in_order E s0 w" "Live s0" "env_ok E s0" "mcp_live E w = (r, w')"
  shows "same_outside w w'" "r = Inr (keys, client, s) \<Longrightarrow> file_is E w' s \<and> (\<exists>j q. s = counted s0 j q) \<and> keys = live_keys E s0"
proof -
  obtain j q where f: "file_is E w (counted s0 j q)" "stored_ok (me_crypto E) (counted s0 j q)" using assms(1) by (auto simp: in_order_def)
  have up: "upper_ok (io_upper (me_io E))" using assms(3) by (simp add: env_ok_def)
  obtain r1 w1 where l: "stored_session E w = (r1, w1)" by (rule prod.exhaust)
  note ld = load_file [OF f up l]
  show "same_outside w w'"
    using assms(4) l ld(1-3)
    by (auto simp: mcp_live_def tool_bind_def read_clock_def same_outside_def split: prod.splits sum.splits if_splits option.splits)
  show "r = Inr (keys, client, s) \<Longrightarrow> file_is E w' s \<and> (\<exists>j q. s = counted s0 j q) \<and> keys = live_keys E s0"
    using assms(4) l ld f(1)
    by (auto simp: mcp_live_def tool_bind_def read_clock_def file_is_def live_keys_def ParsedContentRoot_def counted_def
        split: prod.splits sum.splits if_splits option.splits)
qed

lemma file_is_unique: "file_is E w s \<Longrightarrow> file_is E w s' \<Longrightarrow> s = s'"
  by (auto simp: file_is_def)

lemma counted_eq: "counted s0 j r = counted s0 j' r' \<longleftrightarrow> j = j' \<and> r = r'"
  by (metis counted_simps(1,2))

text \<open>The frame of a run, with the session that the call holds.\<close>

definition holds :: "'n mcp_env \<Rightarrow> session \<Rightarrow> u64 \<Rightarrow> u64 \<Rightarrow> 'n mcp_world \<Rightarrow> bool" where
  "holds E s0 j r w \<longleftrightarrow> file_is E w (counted s0 j r) \<and> stored_ok (me_crypto E) (counted s0 j r) \<and>
     (\<forall>e \<in> set (mw_posted w). e_seq e < j \<and> sealed_by E s0 e) \<and> sorted_wrt (<) (map e_seq (mw_posted w))"

lemma in_order_holds: "in_order E s0 w \<longleftrightarrow> (\<exists>j r. holds E s0 j r w)"
  by (simp add: in_order_def holds_def)

lemma holds_posted: "holds E s0 j r w \<Longrightarrow> mw_file w' = mw_file w \<Longrightarrow> mw_posted w' = mw_posted w \<Longrightarrow> holds E s0 j r w'"
  by (simp add: holds_def file_is_def)

lemma holds_save:
  assumes "holds E s0 j r w" "Live s0" "env_ok E s0" "save_session E (counted s0 j' r') w = (x, w')"
    and "1 \<le> j'" "j' \<le> of_nat MaxSessionSeq + 1" "1 \<le> r'" "r' \<le> of_nat MaxSessionSeq + 1" "j \<le> j'"
  shows "mw_posted w' = mw_posted w" "x = Inr () \<Longrightarrow> holds E s0 j' r' w'" "x \<noteq> Inr () \<Longrightarrow> holds E s0 j r w'"
proof -
  have ok: "stored_ok (me_crypto E) (counted s0 j' r')" using assms(1,2,5-8) stored_counted [of "me_crypto E" s0 j r j' r'] by (simp add: holds_def)
  have "json_reads_back (me_io E) (counted s0 j' r')" using assms(3) by (simp add: env_ok_def)
  note s = save_file [OF assms(4) normal_stored [OF ok] this]
  show "mw_posted w' = mw_posted w" by (rule s(1))
  show "x = Inr () \<Longrightarrow> holds E s0 j' r' w'" using s ok assms(1,9) by (fastforce simp: holds_def)
  show "x \<noteq> Inr () \<Longrightarrow> holds E s0 j r w'" using s assms(1) by (auto simp: holds_def file_is_def)
qed

lemma seal_job_seq: "SealJob C keys i seq cls raw = Inr e \<Longrightarrow> e_seq e = seq"
  by (auto simp: SealJob_def sealSession_def Let_def split: if_splits option.splits)

lemma holds_bounds:
  assumes "holds E s0 j r w" "Live s0"
  shows "1 \<le> j" "j \<le> of_nat MaxSessionSeq + 1" "1 \<le> r" "r \<le> of_nat MaxSessionSeq + 1"
  using assms by (auto simp: holds_def stored_ok_def)

lemma holds_post:
  assumes "holds E s0 j r w" "sealed_by E s0 e" "e_seq e < j" "\<forall>e' \<in> set (mw_posted w). e_seq e' < e_seq e"
    and "mw_file w' = mw_file w" "mw_posted w' = mw_posted w @ [e]"
  shows "holds E s0 j r w'"
  using assms by (auto simp: holds_def file_is_def sorted_wrt_append)

lemma submit_holds:
  assumes "holds (lv_mcp L) s0 j r w" "Live s0" "env_ok (lv_mcp L) s0"
    and "mcp_submit L (live_keys (lv_mcp L) s0) client (counted s0 j r) jb w = (x, w')"
  shows "in_order (lv_mcp L) s0 w'" "x = Inr s' \<Longrightarrow> holds (lv_mcp L) s0 (j + 1) r w' \<and> s' = counted s0 (j + 1) r"
proof -
  let ?E = "lv_mcp L"
  note b = holds_bounds [OF assms(1,2)]
  have main: "in_order ?E s0 w' \<and> (\<forall>s'. x = Inr s' \<longrightarrow> holds ?E s0 (j + 1) r w' \<and> s' = counted s0 (j + 1) r)"
  proof (cases "j < of_nat MaxSessionSeq")
    case False
    then show ?thesis using assms(1,4)
      by (auto simp: mcp_submit_def Let_def pure_def in_order_holds not_less split: option.splits if_splits)
  next
    case True
    then have j: "j < j + 1" "1 \<le> j + 1" "j + 1 \<le> of_nat MaxSessionSeq + 1"
      using b(1) by (simp_all add: word_less_nat_alt word_le_nat_alt MaxSessionSeq_def unat_succ)
    obtain y w1 where sv: "save_session ?E (counted s0 (j + 1) r) w = (y, w1)" by (rule prod.exhaust)
    note s = holds_save [OF assms(1-3) sv j(2,3) b(3,4) order.strict_implies_order [OF j(1)]]
    show ?thesis
    proof (cases y)
      case (Inl e)
      then have "holds ?E s0 j r w1" using s(3) by simp
      with Inl sv assms(1,4) show ?thesis
        by (auto simp: mcp_submit_def Let_def pure_def tool_bind_def in_order_holds split: option.splits if_splits)
    next
      case (Inr u)
      then have h: "holds ?E s0 (j + 1) r w1" using s(2) by simp
      have post: "holds ?E s0 (j + 1) r w2"
        if "SealJob (me_crypto ?E) (live_keys ?E s0) (session_id s0) j ClassRead raw = Inr e" "post_job ?E client (session_id s0) e w1 = (z, w2)" for e raw z w2
      proof (rule holds_post [OF h])
        note eq = seal_job_seq [OF that(1)]
        show "sealed_by ?E s0 e" using that(1) eq by (auto simp: sealed_by_def)
        show "e_seq e < j + 1" using eq j(1) by simp
        show "\<forall>e' \<in> set (mw_posted w1). e_seq e' < e_seq e" using s(1) assms(1) eq by (simp add: holds_def)
        show "mw_file w2 = mw_file w1" "mw_posted w2 = mw_posted w1 @ [e]" using that(2) by (auto simp: post_job_def split: prod.splits)
      qed
      from Inr sv h assms(1,4) show ?thesis
        by (auto simp: mcp_submit_def Let_def pure_def tool_bind_def in_order_holds split: option.splits if_splits sum.splits prod.splits dest!: post)
    qed
  qed
  then show "in_order ?E s0 w'" "x = Inr s' \<Longrightarrow> holds ?E s0 (j + 1) r w' \<and> s' = counted s0 (j + 1) r" by auto
qed
section \<open>Waiting keeps the numbers\<close>

lemma OpenResult_seq: "OpenResult C keys e i n = Inr raw \<Longrightarrow> 1 \<le> n \<and> n \<le> of_nat MaxSessionSeq"
  by (auto simp: OpenResult_def openSession_def Envelope_Validate_def Canonical_def word_le_nat_alt word_less_nat_alt Suc_le_eq unat_gt_0 Let_def
      split: if_splits option.splits)

lemma result_count: "1 \<le> n \<Longrightarrow> n \<le> (of_nat MaxSessionSeq :: u64) \<Longrightarrow> 1 \<le> n + 1 \<and> n + 1 \<le> of_nat MaxSessionSeq + 1"
  by (simp add: word_le_nat_alt MaxSessionSeq_def unat_succ)

lemma take_results_holds:
  assumes "holds (lv_mcp L) s0 j r w" "Live s0" "env_ok (lv_mcp L) s0"
    and "take_results L keys es (counted s0 j r) bad w = (x, w')"
  shows "in_order (lv_mcp L) s0 w' \<and> mw_posted w' = mw_posted w \<and>
    (\<forall>s' bad'. x = Inr (s', bad') \<longrightarrow> (\<exists>r'. holds (lv_mcp L) s0 j r' w' \<and> s' = counted s0 j r'))"
  using assms(1,4)
proof (induction es arbitrary: r bad w)
  case Nil
  then show ?case by (auto simp: pure_def in_order_holds)
next
  case (Cons e es)
  let ?E = "lv_mcp L"
  note b = holds_bounds [OF Cons.prems(1) assms(2)]
  show ?case
  proof (cases "OpenResult (me_crypto ?E) keys e (session_id s0) r")
    case (Inl err)
    then show ?thesis using Cons.IH [OF Cons.prems(1)] Cons.prems(2) by simp
  next
    case (Inr raw)
    obtain y w1 where sv: "save_session ?E (counted s0 j (r + 1)) w = (y, w1)" by (rule prod.exhaust)
    have r1: "1 \<le> r + 1" "r + 1 \<le> of_nat MaxSessionSeq + 1" using result_count OpenResult_seq [OF Inr] by auto
    note s = holds_save [OF Cons.prems(1) assms(2,3) sv b(1,2) r1 order.refl]
    show ?thesis
    proof (cases y)
      case (Inl err)
      then show ?thesis using s(1,3) Cons.prems(2) Inr sv by (auto simp: tool_bind_def in_order_holds Let_def)
    next
      case ok: (Inr u)
      then have "holds ?E s0 j (r + 1) (keep_result (read_result L raw) w1)"
        using s(2) by (auto simp: keep_result_def intro: holds_posted)
      moreover have "take_results L keys es (counted s0 j (r + 1)) bad (keep_result (read_result L raw) w1) = (x, w')"
        using Cons.prems(2) Inr sv ok by (simp add: tool_bind_def Let_def)
      ultimately show ?thesis using Cons.IH s(1) by (simp add: keep_result_def)
    qed
  qed
qed

lemma turn_holds:
  assumes "holds (lv_mcp L) s0 j r w" "Live s0" "env_ok (lv_mcp L) s0"
  shows "case await_turn L keys client ids d l (counted s0 j r) w of
      Ends x w' \<Rightarrow> in_order (lv_mcp L) s0 w'
    | Goes l' s' w' \<Rightarrow> (\<exists>r'. holds (lv_mcp L) s0 j r' w' \<and> s' = counted s0 j r')"
proof -
  have h: "holds (lv_mcp L) s0 j r (w\<lparr>mw_rest := n\<rparr>)" for n using holds_posted [OF assms(1)] by simp
  have n: "in_order (lv_mcp L) s0 (w\<lparr>mw_rest := n\<rparr>)" "in_order (lv_mcp L) s0 w" for n using h assms(1) by (auto simp: in_order_holds)
  show ?thesis
    using n take_results_holds [OF h assms(2,3)]
    by (fastforce simp: await_turn_def Let_def split: option.splits prod.splits sum.splits)
qed

lemma loop_holds:
  assumes "await_loop L keys client ids d l s w = Some (x, w')"
    and "holds (lv_mcp L) s0 j r w" "s = counted s0 j r" "Live s0" "env_ok (lv_mcp L) s0"
  shows "in_order (lv_mcp L) s0 w'"
proof -
  have "\<forall>r. holds (lv_mcp L) s0 j r w \<longrightarrow> s = counted s0 j r \<longrightarrow> env_ok (lv_mcp L) s0 \<longrightarrow> in_order (lv_mcp L) s0 (snd (x, w'))"
  proof (rule await_loop.raw_induct [OF _ assms(1)], intro allI impI)
    fix f L keys client ids d l s w and y :: "tool_error option \<times> 'a mcp_world" and r
    assume IH: "\<And>L keys client ids d l s w y. f L keys client ids d l s w = Some y \<Longrightarrow>
        \<forall>r. holds (lv_mcp L) s0 j r w \<longrightarrow> s = counted s0 j r \<longrightarrow> env_ok (lv_mcp L) s0 \<longrightarrow> in_order (lv_mcp L) s0 (snd y)"
      and y: "(case await_turn L keys client ids d l s w of Ends r w1 \<Rightarrow> Some (r, w1) | Goes l' s' w1 \<Rightarrow> f L keys client ids d l' s' w1) = Some y"
      and h: "holds (lv_mcp L) s0 j r w" "s = counted s0 j r" "env_ok (lv_mcp L) s0"
    note t = turn_holds [OF h(1) assms(4) h(3), of keys client ids d l]
    show "in_order (lv_mcp L) s0 (snd y)"
    proof (cases "await_turn L keys client ids d l s w")
      case (Ends e w1)
      with t y h(2) show ?thesis by auto
    next
      case (Goes l' s' w1)
      with t h(2) obtain r' where r': "holds (lv_mcp L) s0 j r' w1" "s' = counted s0 j r'" by auto
      from y Goes have "f L keys client ids d l' s' w1 = Some y" by simp
      from IH [OF this] r' h(3) show ?thesis by blast
    qed
  qed
  with assms show ?thesis by simp
qed

lemma await_holds:
  assumes "mcp_await L keys client ids wait (counted s0 j r) w = Some (x, w')" "holds (lv_mcp L) s0 j r w" "Live s0" "env_ok (lv_mcp L) s0"
  shows "in_order (lv_mcp L) s0 w'"
proof -
  obtain now n where c: "lv_clock L (mw_rest w) = (now, n)" by (rule prod.exhaust)
  have "holds (lv_mcp L) s0 j r (w\<lparr>mw_rest := n\<rparr>)" using holds_posted [OF assms(2)] by simp
  with assms c show ?thesis by (auto simp: mcp_await_def Let_def intro: loop_holds)
qed
section \<open>Runs of live tools\<close>

datatype live_call = LC_Job string live_params | LC_Plan "planJob list" | LC_Result string

definition run_call :: "'n live_env \<Rightarrow> live_call \<Rightarrow> 'n mcp_world \<Rightarrow> 'n mcp_world option" where
  "run_call L c w =
     (case c of
        LC_Job name params \<Rightarrow> map_option snd (submitAndAwait L name params w)
      | LC_Plan asked \<Rightarrow> map_option snd (mcp_plan L asked w)
      | LC_Result i \<Rightarrow> map_option snd (mcp_jobResult L i w))"

fun run_calls :: "'n live_env \<Rightarrow> live_call list \<Rightarrow> 'n mcp_world \<Rightarrow> 'n mcp_world option" where
  "run_calls L [] w = Some w"
| "run_calls L (c # cs) w = (case run_call L c w of None \<Rightarrow> None | Some w1 \<Rightarrow> run_calls L cs w1)"

lemma finish_Some: "finish r g = Some (y, w') \<Longrightarrow> \<exists>x. r = Some (x, w')"
  by (auto simp: finish_def split: option.splits)

text \<open>What submitting a job and waiting for its results leaves.\<close>

lemma submit_await_holds:
  assumes "holds (lv_mcp L) s0 j r w" "Live s0" "env_ok (lv_mcp L) s0"
    and "(case mcp_submit L (live_keys (lv_mcp L) s0) client (counted s0 j r) jb w of
        (Inl e, w2) \<Rightarrow> Some (Inl e, w2)
      | (Inr s', w2) \<Rightarrow> finish (mcp_await L (live_keys (lv_mcp L) s0) client ids wait s' w2) g) = Some (y, w')"
  shows "in_order (lv_mcp L) s0 w'"
proof -
  obtain x w2 where s: "mcp_submit L (live_keys (lv_mcp L) s0) client (counted s0 j r) jb w = (x, w2)" by (rule prod.exhaust)
  note h = submit_holds [OF assms(1-3) s]
  show ?thesis
  proof (cases x)
    case (Inl e)
    with s h(1) assms(4) show ?thesis by simp
  next
    case (Inr s')
    with h(2) have h2: "holds (lv_mcp L) s0 (j + 1) r w2" "s' = counted s0 (j + 1) r" by auto
    from assms(4) s Inr h2(2) obtain z where "mcp_await L (live_keys (lv_mcp L) s0) client ids wait (counted s0 (j + 1) r) w2 = Some (z, w')"
      by (auto dest: finish_Some)
    then show ?thesis using await_holds h2(1) assms(2,3) by blast
  qed
qed

lemma call_in_order:
  assumes "in_order (lv_mcp L) s0 w" "Live s0" "env_ok (lv_mcp L) s0" "run_call L c w = Some w'"
  shows "in_order (lv_mcp L) s0 w'"
proof -
  obtain x w1 where l: "mcp_live (lv_mcp L) w = (x, w1)" by (rule prod.exhaust)
  note lc = live_call [OF assms(1-3) l]
  have i1: "in_order (lv_mcp L) s0 w1" by (rule in_order_same [OF assms(1) lc(1)])
  show ?thesis
  proof (cases x)
    case (Inl e)
    with l i1 assms(4) show ?thesis
      by (auto simp: run_call_def submitAndAwait_def mcp_plan_def mcp_jobResult_def split: live_call.splits)
  next
    case (Inr t)
    then obtain keys client s where t: "x = Inr (keys, client, s)" by (cases t) auto
    from lc(2) [OF this] obtain j r where s: "s = counted s0 j r" "keys = live_keys (lv_mcp L) s0" "file_is (lv_mcp L) w1 (counted s0 j r)" by auto
    from i1 obtain j' r' where h': "holds (lv_mcp L) s0 j' r' w1" by (auto simp: in_order_holds)
    then have "file_is (lv_mcp L) w1 (counted s0 j' r')" by (simp add: holds_def)
    from file_is_unique [OF s(3) this] have "j' = j" "r' = r" by (simp_all add: counted_eq)
    with h' have h: "holds (lv_mcp L) s0 j r w1" by simp
    show ?thesis
    proof (cases c)
      case (LC_Job name params)
      with assms(4) l t s i1 show ?thesis
        by (auto simp: run_call_def submitAndAwait_def Let_def split: option.splits elim!: submit_await_holds [OF h assms(2,3)])
    next
      case (LC_Plan asked)
      with assms(4) l t s i1 show ?thesis
        by (auto simp: run_call_def mcp_plan_def Let_def split: option.splits sum.splits if_splits elim!: submit_await_holds [OF h assms(2,3)])
    next
      case (LC_Result i)
      with assms(4) l t s i1 show ?thesis
        by (auto simp: run_call_def mcp_jobResult_def split: if_splits dest!: finish_Some intro: await_holds [OF _ h assms(2,3)])
    qed
  qed
qed

lemma calls_in_order:
  "run_calls L cs w = Some w' \<Longrightarrow> in_order (lv_mcp L) s0 w \<Longrightarrow> Live s0 \<Longrightarrow> env_ok (lv_mcp L) s0 \<Longrightarrow> in_order (lv_mcp L) s0 w'"
  by (induction cs arbitrary: w) (auto split: option.splits intro: call_in_order)

text \<open>
  C15. A number is never used twice: in any run of jobs, plans and second looks on one live session, whatever fails on the way
  (saving, sealing, posting, polling), the envelopes handed to the relay are sealed under the session's keys with
  strictly increasing numbers, so that no key and nonce meet twice, and the session file already counts beyond all of
  them, so that a restarted reader goes on with a fresh number.
\<close>

theorem job_numbers_fresh:
  assumes "run_calls L calls w = Some w'" and "file_is (lv_mcp L) w s" and "stored_ok (me_crypto (lv_mcp L)) s" and "Live s"
    and "env_ok (lv_mcp L) s" and "mw_posted w = []"
  shows "sorted_wrt (<) (map e_seq (mw_posted w')) \<and> (\<forall>e \<in> set (mw_posted w'). sealed_by (lv_mcp L) s e) \<and>
    (\<exists>s'. file_is (lv_mcp L) w' s' \<and> ss_SessionID s' = ss_SessionID s \<and> (\<forall>e \<in> set (mw_posted w'). e_seq e < ss_NextJobSeq s'))"
proof -
  have "in_order (lv_mcp L) s w"
    unfolding in_order_def using assms(2,3,6) counted_self [of s]
    by (intro exI [of _ "ss_NextJobSeq s"] exI [of _ "ss_NextResultSeq s"]) simp
  from calls_in_order [OF assms(1) this assms(4,5)] show ?thesis unfolding in_order_def by fastforce
qed
section \<open>Waiting ends\<close>

text \<open>Time passes: \<open>now\<close> reads the clock, a poll takes time, and saving does not turn it back.\<close>

definition time_moves :: "'n live_env \<Rightarrow> ('n \<Rightarrow> time) \<Rightarrow> bool" where
  "time_moves L now \<longleftrightarrow>
     (\<forall>n. lv_clock L n = (now n, n)) \<and>
     (\<forall>c i wait n r n'. PollResults (me_net (lv_mcp L)) (me_js (lv_mcp L)) c i wait n = (r, n') \<longrightarrow> now n < now n') \<and>
     (\<forall>st n b n'. io_step (me_io (lv_mcp L)) st n = (b, n') \<longrightarrow> now n \<le> now n')"

lemma steps_time: "time_moves L now \<Longrightarrow> save_steps (me_io (lv_mcp L)) sts n = (r, n') \<Longrightarrow> now n \<le> now n'"
proof (induction "me_io (lv_mcp L)" sts n rule: save_steps.induct)
  case (2 st sts n)
  obtain b n1 where st: "io_step (me_io (lv_mcp L)) st n = (b, n1)" by (rule prod.exhaust)
  with 2(2) have "now n \<le> now n1" by (simp add: time_moves_def)
  with 2 st show ?case by (fastforce split: if_splits)
qed simp

lemma save_time: "time_moves L now \<Longrightarrow> save_session (lv_mcp L) s w = (r, w') \<Longrightarrow> now (mw_rest w) \<le> now (mw_rest w')"
  by (auto simp: save_session_def Session_Save_def simp del: save_steps.simps split: prod.splits option.splits dest: steps_time)

lemma take_time:
  assumes "time_moves L now"
  shows "take_results L keys es s bad w = (x, w') \<Longrightarrow> now (mw_rest w) \<le> now (mw_rest w')"
proof (induction es arbitrary: s bad w)
  case (Cons e es)
  show ?case
  proof (cases "OpenResult (me_crypto (lv_mcp L)) keys e (session_id s) (ss_NextResultSeq s)")
    case (Inl err)
    with Cons show ?thesis by simp
  next
    case (Inr raw)
    let ?s = "s\<lparr>ss_NextResultSeq := ss_NextResultSeq s + 1\<rparr>"
    obtain y w1 where sv: "save_session (lv_mcp L) ?s w = (y, w1)" by (rule prod.exhaust)
    note t = save_time [OF assms sv]
    show ?thesis
    proof (cases y)
      case (Inl err)
      with Cons.prems Inr sv t show ?thesis by (simp add: tool_bind_def Let_def)
    next
      case ok: (Inr u)
      with Cons.prems Inr sv have "take_results L keys es ?s bad (keep_result (read_result L raw) w1) = (x, w')" by (simp add: tool_bind_def Let_def)
      from Cons.IH [OF this] t show ?thesis by (simp add: keep_result_def)
    qed
  qed
qed (simp add: pure_def)

lemma missing_None: "missing known ids = None \<longleftrightarrow> (\<forall>i \<in> set ids. known i \<noteq> None)"
proof -
  have "missing known ids = None \<longleftrightarrow> filter (\<lambda>i. known i = None) ids = []" by (simp add: missing_def split: list.splits)
  then show ?thesis by (simp add: filter_empty_conv)
qed

lemma turn_time:
  assumes "time_moves L now"
  shows "case await_turn L keys client ids d l s w of
      Ends x w' \<Rightarrow> x = None \<longrightarrow> missing (mv_results (mw_server w')) ids = None
    | Goes l' s' w' \<Rightarrow> now (mw_rest w) < d \<and> now (mw_rest w) < now (mw_rest w')"
proof -
  have c: "lv_clock L n = (now n, n)" for n using assms by (simp add: time_moves_def)
  have p: "now n < now n'" if "PollResults (me_net (lv_mcp L)) (me_js (lv_mcp L)) client i wait n = (r, n')" for i wait n r n'
    using assms that by (auto simp: time_moves_def)
  have t: "now n \<le> now (mw_rest w')" if "take_results L keys es s False (w\<lparr>mw_rest := n\<rparr>) = (x, w')" for es n x w'
    using take_time [OF assms that] by simp
  show ?thesis by (auto simp: await_turn_def Let_def c split: option.splits prod.splits sum.splits dest!: p t)
qed

lemma await_returns:
  assumes "time_moves L now"
  shows "\<exists>x w'. mcp_await L keys client ids wait s w = Some (x, w') \<and> (x = None \<longrightarrow> (\<forall>i \<in> set ids. mv_results (mw_server w') i \<noteq> None))"
proof -
  have loop: "\<exists>x w'. await_loop L keys client ids d l s w = Some (x, w') \<and> (x = None \<longrightarrow> (\<forall>i \<in> set ids. mv_results (mw_server w') i \<noteq> None))" for d l s w
  proof (induction "nat (d - now (mw_rest w))" arbitrary: l s w rule: less_induct)
    case less
    note t = turn_time [OF assms, where keys = keys and client = client and ids = ids and d = d and l = l and s = s and w = w]
    show ?case
    proof (cases "await_turn L keys client ids d l s w")
      case (Ends x w1)
      with t show ?thesis by (subst await_loop.simps) (simp add: missing_None)
    next
      case (Goes l' s' w1)
      with t have "nat (d - now (mw_rest w1)) < nat (d - now (mw_rest w))" by simp
      from less [OF this] Goes show ?thesis by (subst await_loop.simps) simp
    qed
  qed
  then show ?thesis by (simp add: mcp_await_def Let_def split: prod.splits)
qed

lemma await_not_None: "time_moves L now \<Longrightarrow> mcp_await L keys client ids wait s w \<noteq> None"
  using await_returns by fastforce

lemma finish_returns: "r \<noteq> None \<Longrightarrow> finish r g \<noteq> None"
  by (auto simp: finish_def split: option.splits)

lemma call_returns:
  assumes "time_moves L now"
  shows "run_call L c w \<noteq> None"
proof -
  have f: "finish (mcp_await L keys client ids wait s w) g \<noteq> None" for keys client ids wait s w and g :: "'a mcp_world \<Rightarrow> 'b"
    by (rule finish_returns [OF await_not_None [OF assms]])
  have "submitAndAwait L name params w \<noteq> None" for name params using f by (auto simp: submitAndAwait_def Let_def split: prod.splits sum.splits option.splits)
  moreover have "mcp_plan L asked w \<noteq> None" for asked using f by (auto simp: mcp_plan_def Let_def split: prod.splits sum.splits option.splits)
  moreover have "mcp_jobResult L i w \<noteq> None" for i using f by (auto simp: mcp_jobResult_def split: prod.splits sum.splits)
  ultimately show ?thesis by (cases c) (simp_all only: run_call_def live_call.case option.map_disc_iff not_False_eq_True)
qed

text \<open>
  C16. Waiting for results ends: as time passes, every run of live calls returns; a wait ends at the latest with the turn that starts
  after the deadline, and it returns without an error only when every result that was waited for is there.
\<close>

theorem await_ends:
  assumes "time_moves L now"
  shows "(\<exists>w'. run_calls L calls w = Some w') \<and>
    (\<exists>x w'. mcp_await L keys client ids wait s w = Some (x, w') \<and> (x = None \<longrightarrow> (\<forall>i \<in> set ids. mv_results (mw_server w') i \<noteq> None)))"
proof
  show "\<exists>w'. run_calls L calls w = Some w'"
    using call_returns [OF assms] by (induction calls arbitrary: w) (auto split: option.splits)
qed (rule await_returns [OF assms])

section \<open>A small live session\<close>

definition steady_env :: "nat client_env" where
  "steady_env = \<lparr>env_build = (\<lambda>_. True), env_context = (\<lambda>_. None),
     env_send = (\<lambda>q n. (Inr \<lparr>cs_status = 202, cs_retryAfter = '''', cs_body = \<lparr>body_data = [], body_failed = False\<rparr>\<rparr>, Suc n)),
     env_pause = (\<lambda>_ n. (False, n))\<rparr>"

definition sample_live_session :: session where
  "sample_live_session = \<lparr>ss_Version = 2, ss_Mode = ''session'', ss_ContentRoot = EncodeKey (replicate 32 1), ss_NextJobSeq = 1, ss_NextResultSeq = 1,
     ss_Token = Token_Encode (Token (replicate 32 7)), ss_Relay = ''r'', ss_SessionID = SessionID_String (SessionID toy_crypto (Token (replicate 32 7))),
     ss_ExpiresAt = 9, ss_JoinedAt = 5, ss_JoinedVia = ''cli''\<rparr>"

definition enc_counters :: "session \<Rightarrow> bytes" where
  "enc_counters s = enc_int (int (unat (ss_NextJobSeq s))) @ enc_int (int (unat (ss_NextResultSeq s)))"

definition dec_counters :: "bytes \<Rightarrow> session" where
  "dec_counters b =
     (case dec_int b of (j, b1) \<Rightarrow> counted sample_live_session (of_nat (nat j)) (of_nat (nat (fst (dec_int b1)))))"

lemma dec_enc_counters: "dec_counters (enc_counters (counted sample_live_session j r)) = counted sample_live_session j r"
proof -
  have "dec_int (enc_int i) = (i, [])" for i using dec_enc_int [of i "[]"] by simp
  then show ?thesis by (simp add: dec_counters_def enc_counters_def dec_enc_int)
qed

definition sample_live_mcp :: "nat mcp_env" where
  "sample_live_mcp = sample_mcp\<lparr>me_net := steady_env,
     me_io := sample_io\<lparr>io_enc := (\<lambda>s. Some (enc_counters s)), io_dec := (\<lambda>b. Some (dec_counters b))\<rparr>,
     me_client := (\<lambda>u c. Some \<lparr>BaseURL = u, cl_credential = c\<rparr>)\<rparr>"

definition sample_live :: "nat live_env" where
  "sample_live = \<lparr>lv_mcp = sample_live_mcp, lv_clock = (\<lambda>n. (int n, n)), lv_deadline = None, lv_marshal = (\<lambda>_. Some ''{}''), lv_object = Some,
     lv_enc_job = (\<lambda>_. Some [1]), lv_enc_plan = (\<lambda>_. Some ''{}''), lv_dec_result = (\<lambda>_. None), lv_dec_id = (\<lambda>_. '''')\<rparr>"

definition sample_world :: "nat mcp_world" where
  "sample_world = \<lparr>mw_server = \<lparr>mv_loaded = None, mv_loadedFor = '''', mv_results = Map.empty, mv_resultsFor = ''''\<rparr>,
     mw_file = Some (enc_counters sample_live_session), mw_posted = [], mw_rest = 0\<rparr>"

lemma sample_time: "time_moves sample_live int"
proof -
  have "PollResults steady_env no_json c i wait n = (Inr [], Suc n)" for c i wait n
    by (simp add: PollResults_def pollMessages_def client_request_def client_do.simps client_attempt_def steady_env_def readRelayBody_def Let_def)
  then show ?thesis by (simp add: time_moves_def sample_live_def sample_live_mcp_def sample_mcp_def sample_io_def)
qed

lemma sample_live_stored: "stored_ok toy_crypto sample_live_session" "Live sample_live_session"
  by (auto simp: stored_ok_def Live_def sample_live_session_def token_wf_def TokenSecretSize_def MaxSessionSeq_def intro!: exI [of _ "Token (replicate 32 7)"] exI [of _ "replicate 32 1"])

lemma sample_env_ok: "env_ok sample_live_mcp sample_live_session"
  by (simp add: env_ok_def sample_live_mcp_def sample_mcp_def sample_io_def toy_crypto_ok upper_ok_def json_reads_back_def dec_enc_counters)

lemma sample_file: "file_is sample_live_mcp sample_world sample_live_session"
  using dec_enc_counters [of "ss_NextJobSeq sample_live_session" "ss_NextResultSeq sample_live_session"]
  by (simp add: file_is_def sample_world_def sample_live_mcp_def counted_self)

theorem job_numbers_fresh_witness:
  "\<exists>w'. run_calls sample_live [LC_Job ''ps'' P_None, LC_Result ''j1''] sample_world = Some w' \<and> sorted_wrt (<) (map e_seq (mw_posted w'))"
proof -
  have r: "\<exists>w'. run_calls sample_live cs w = Some w'" for cs w
    using call_returns [OF sample_time] by (induction cs arbitrary: w) (auto split: option.splits)
  have m: "lv_mcp sample_live = sample_live_mcp" "me_crypto sample_live_mcp = toy_crypto" "mw_posted sample_world = []"
    by (simp_all add: sample_live_def sample_live_mcp_def sample_mcp_def sample_world_def)
  from r obtain w' where w': "run_calls sample_live [LC_Job ''ps'' P_None, LC_Result ''j1''] sample_world = Some w'" by blast
  from job_numbers_fresh [OF this, of sample_live_session] m sample_file sample_live_stored sample_env_ok w' show ?thesis by auto
qed

theorem await_ends_witness: "\<exists>w'. run_calls sample_live [LC_Plan [], LC_Job ''df'' P_None] sample_world = Some w'"
  using await_ends [OF sample_time] by blast
end
