(* ===== verification/Live_Pairing.thy ===== *)
theory Live_Pairing
  imports Live_Path Mcp_Live_Proofs Relay_Handler
begin

text \<open>
  The three parties of a live session together: the collector that opened it, the relay that passes on the join, and the reader
  that joined; then the way of a job from the reader to the collector, the counterpart of \<open>Live_Path\<close>.
\<close>

section \<open>Joining\<close>

lemma relay_join:
  assumes "handler_join D now sess addr body st = ((201, JoinBody info), st')"
    and "readBody (2 * 2 ^ 20) body = Inr data" "dec_join D data = Some q"
  shows "ji_mcpKey info = jr_mcpKey q" "ji_mcpMAC info = jr_mcpMAC q" "ji_via info = jr_via q" "ji_via info = ''cli'' \<or> ji_via info = ''chat''"
    "joined (rl_heap st' addr) = Some info"
  using assms by (auto simp: handler_join_def set_joined_def upd_live_def notify_def writeError_def Let_def split: if_splits)

lemma collector_join:
  assumes "crypto_ok (ev_crypto V)" "length a = 32"
    and "DecodeKey (ji_mcpKey info) = Some key" "DecodeKey (ji_mcpMAC info) = Some mac"
    and "VerifyMCPMAC (ev_crypto V) exchange (ev_id V) (Public (ev_crypto V) (Some a)) key mac"
    and "ContentRoot (ev_crypto V) (Some a) key (ev_id V) (Public (ev_crypto V) (Some a)) key = Inr root"
    and "serve_join V (Some a) exchange (Inr (Some info) # answers) ss = (x, ss')"
  shows "sv_keys ss' = DeriveSessionKeys (ev_crypto V) root"
    and "sv_Level ss' = (if ji_via info = ''chat'' \<and> sv_Level ss = 0 then 1 else sv_Level ss)"
  using assms by (auto simp: writeSession_def effect_def upd_audit_def Let_def split: option.splits if_splits)

text \<open>What a live join sends: every request of the call is the POST to the session's join path with the reader's key and its MAC.\<close>

lemma join_sends:
  assumes "Client_Join (logged E) js client i key mac via (n, []) = (Inr j, n1, log)"
  shows "log \<noteq> []" and "(q, answer) \<in> set log \<Longrightarrow> cq_method q = ''POST'' \<and> cq_url q = BaseURL client @ sessionPath i @ ''/join'' \<and>
    cq_auth q = AuthorizationHeader (cl_credential client) \<and>
    cq_body q = enc_join js \<lparr>jr_mcpKey = EncodeKey key, jr_mcpMAC = EncodeKey mac, jr_via = via\<rparr>"
proof -
  obtain r where r: "client_request (logged E) js client ''POST'' (sessionPath i @ ''/join'') ''application/json''
      (enc_join js \<lparr>jr_mcpKey = EncodeKey key, jr_mcpMAC = EncodeKey mac, jr_via = via\<rparr>) json_limit (n, []) = (r, n1, log)" "\<exists>out. r = Inr out"
    using assms by (auto simp: Client_Join_def decoded_def apfst_def map_prod_def split: prod.splits sum.splits)
  show "log \<noteq> []" using client_retries [OF r(1)] r(2) by blast
  show "cq_method q = ''POST'' \<and> cq_url q = BaseURL client @ sessionPath i @ ''/join'' \<and> cq_auth q = AuthorizationHeader (cl_credential client) \<and>
    cq_body q = enc_join js \<lparr>jr_mcpKey = EncodeKey key, jr_mcpMAC = EncodeKey mac, jr_via = via\<rparr>" if "(q, answer) \<in> set log"
    using client_retries [OF r(1)] that by (auto simp: list_all_iff)
qed

text \<open>
  C13. Pairing through the relay: take a live join of the reader that succeeded, and any of the requests it sent. When the relay
  takes the body of that request as a join, and its JSON decoder reads what the reader's encoder wrote, the collector that is
  handed the join ends with the keys that the reader stored, although neither side sent a key over the wire in the clear, and a
  session joined from a chat never runs at the level that asks for no approval. The join sent a request, and every request it sent
  is a POST to the session's join path with the session's credential.
\<close>

theorem pairing_agrees:
  assumes "Session_Join C (logged E) js client t sinfo via now random (n, []) = (Inr s, n1, log)" and "Live s" and "crypto_ok C" and "length a = 32"
    and "si_collectorKey sinfo = EncodeKey (Public C (Some a))"
    and "\<forall>key mac. dec_join D (enc_join js \<lparr>jr_mcpKey = EncodeKey key, jr_mcpMAC = EncodeKey mac, jr_via = via\<rparr>)
      = Some \<lparr>jr_mcpKey = EncodeKey key, jr_mcpMAC = EncodeKey mac, jr_via = via\<rparr>"
    and "(q, answer) \<in> set log" and "readBody (2 * 2 ^ 20) body = Inr (cq_body q)"
    and "handler_join D now' sess addr body st = ((201, JoinBody info), st')"
    and "ev_crypto V = C" and "ev_id V = SessionID C t"
    and "serve_join V (Some a) (ExchangeKey C t) (Inr (Some info) # answers) ss = (x, ss')"
  shows "sv_keys ss' = DeriveSessionKeys C (the (ParsedContentRoot s)) \<and> (via = ''chat'' \<longrightarrow> sv_Level ss' \<noteq> 0) \<and>
    joined (rl_heap st' addr) = Some info \<and>
    (\<forall>(q, _) \<in> set log. cq_method q = ''POST'' \<and> cq_url q = BaseURL client @ sessionPath (SessionID C t) @ ''/join'' \<and>
       cq_auth q = AuthorizationHeader (cl_credential client))"
proof -
  let ?pub = "Public C (Some a)" and ?mcp = "Public C (Some random)" and ?i = "SessionID C t"
  let ?mac = "MCPMAC C (ExchangeKey C t) ?i ?pub ?mcp"
  have pub: "length ?pub = 32" using assms(3,4) by (simp add: Public_def crypto_simps)
  obtain ck root and jn :: joinInfo where j: "DecodeKey (si_collectorKey sinfo) = Some ck" "length random = 32"
      "ContentRoot C (Some random) ck ?i ck ?mcp = Inr root" "ss_ContentRoot s = EncodeKey root"
      "Client_Join (logged E) js client ?i ?mcp (MCPMAC C (ExchangeKey C t) ?i ck ?mcp) via (n, []) = (Inr jn, n1, log)"
    using join_live [OF assms(1,2)] by auto
  have ck: "ck = ?pub" using j(1) assms(5) pub by (simp add: codec_simps)
  note sent = join_sends(2) [OF j(5) [unfolded ck]]
  have q: "dec_join D (cq_body q) = Some \<lparr>jr_mcpKey = EncodeKey ?mcp, jr_mcpMAC = EncodeKey ?mac, jr_via = via\<rparr>"
    using sent [OF assms(7)] assms(6) by simp
  have root: "ParsedContentRoot s = Some root" using j(4) ContentRoot_length [OF assms(3) j(3)] by (simp add: ParsedContentRoot_def codec_simps)
  note r = relay_join [OF assms(9,8) q]
  have mcp: "length ?mcp = 32" using assms(3) j(2) by (simp add: Public_def crypto_simps)
  have d: "DecodeKey (ji_mcpKey info) = Some ?mcp" "DecodeKey (ji_mcpMAC info) = Some ?mac"
    using r(1,2) mcp assms(3) by (simp_all add: codec_simps MCPMAC_def crypto_simps)
  have "ContentRoot C (Some a) ?mcp ?i ?pub ?mcp = Inr root"
    using exchange_agrees [OF assms(3,4) j(2), of ?i] j(3) ck by simp
  with collector_join [of V a info ?mcp _ "ExchangeKey C t" root answers ss x ss'] assms(3,4,10-12) d r(3) root r(5) sent
  show ?thesis by (auto simp: VerifyMCPMAC_def)
qed

text \<open>A JSON encoding of joins in miniature: the key with its length, then the MAC.\<close>

definition sample_enc_join :: "joinRequest \<Rightarrow> bytes" where
  "sample_enc_join r = enc_int (int (length (jr_mcpKey r))) @ string_bytes (jr_mcpKey r) @ string_bytes (jr_mcpMAC r)"

definition sample_dec_join :: "bytes \<Rightarrow> joinRequest option" where
  "sample_dec_join b = (case dec_int b of (n, rest) \<Rightarrow>
     Some \<lparr>jr_mcpKey = bytes_string (take (nat n) rest), jr_mcpMAC = bytes_string (drop (nat n) rest), jr_via = ''chat''\<rparr>)"

lemma sample_join_json: "jr_via r = ''chat'' \<Longrightarrow> sample_dec_join (sample_enc_join r) = Some r"
  by (simp add: sample_dec_join_def sample_enc_join_def dec_enc_int bytes_string_bytes)

text \<open>A pairing with keys that are easy to see: the collector's is all ones, the reader's all twos.\<close>

definition sample_token :: token where "sample_token = Token (replicate 32 7)"

definition sample_joined :: joinInfo where
  "sample_joined = \<lparr>ji_collectorKey = EncodeKey (replicate 32 1),
     ji_collectorMAC = EncodeKey (CollectorMAC toy_crypto (ExchangeKey toy_crypto sample_token) (SessionID toy_crypto sample_token) (replicate 32 1)),
     ji_mcpKey = EncodeKey (replicate 32 2),
     ji_mcpMAC = EncodeKey (MCPMAC toy_crypto (ExchangeKey toy_crypto sample_token) (SessionID toy_crypto sample_token) (replicate 32 1) (replicate 32 2)),
     ji_via = ''chat'', ji_joinedAt = 5\<rparr>"

definition sample_open :: sessionInfo where
  "sample_open = sample_info\<lparr>si_mode := ''session'', si_collectorKey := ji_collectorKey sample_joined, si_collectorMAC := ji_collectorMAC sample_joined\<rparr>"

theorem pairing_agrees_witness:
  "\<exists>s ss' r x. Session_Join toy_crypto (logged steady_env) (no_json\<lparr>dec_joinInfo := (\<lambda>_. Some sample_joined), enc_join := sample_enc_join\<rparr>) \<lparr>BaseURL = ''r'', cl_credential = []\<rparr> sample_token
      sample_open ''chat'' 5 (replicate 32 2) (0, []) = (Inr s, r) \<and> Live s \<and>
    serve_join (sample_env\<lparr>ev_id := SessionID toy_crypto sample_token\<rparr>) (Some (replicate 32 1)) (ExchangeKey toy_crypto sample_token)
      [Inr (Some sample_joined)] (Serve_Proofs.sample_session []) = (x, ss') \<and>
    sv_keys ss' = DeriveSessionKeys toy_crypto (the (ParsedContentRoot s)) \<and> sv_Level ss' \<noteq> 0"
proof -
  let ?C = toy_crypto and ?a = "replicate 32 1 :: bytes" and ?b = "replicate 32 2 :: bytes" and ?c = "\<lparr>BaseURL = ''r'', cl_credential = []\<rparr>"
  let ?E = "logged steady_env" and ?js = "no_json\<lparr>dec_joinInfo := (\<lambda>_. Some sample_joined), enc_join := sample_enc_join\<rparr>" and ?i = "SessionID toy_crypto sample_token"
  let ?D = "\<lparr>dec_create = (\<lambda>_. None), dec_join = sample_dec_join, dec_envelope = (\<lambda>_. None)\<rparr>"
  let ?V = "sample_env\<lparr>ev_id := ?i\<rparr>" and ?st = "\<lparr>rl_store = (), rl_heap = (\<lambda>_. new_live 0), rl_sessions = Map.empty, rl_next = 0\<rparr>"
  let ?mac = "CollectorMAC ?C (ExchangeKey ?C sample_token) ?i ?a" and ?mmac = "MCPMAC ?C (ExchangeKey ?C sample_token) ?i ?a ?b"
  let ?q = "\<lparr>jr_mcpKey = EncodeKey ?b, jr_mcpMAC = EncodeKey ?mmac, jr_via = ''chat''\<rparr>"
  let ?body = "\<lparr>body_data = sample_enc_join ?q, body_failed = False\<rparr>"
  let ?m = "\<lparr>Mode = [], meta_CollectorKey = ?a, meta_CollectorMAC = ?mac, CredentialHash = [], ExpiresAt = 9, meta_ChunkCount = 0, ChunksStored = 0,
    ManifestStored = False\<rparr>"
  have pub: "Public ?C (Some x) = x" for x by (simp add: Public_def toy_crypto_def)
  have dec: "DecodeKey (EncodeKey ?a) = Some ?a" "DecodeKey (EncodeKey ?b) = Some ?b" by (simp_all add: codec_simps)
  have mac: "DecodeKey (EncodeKey (CollectorMAC ?C x i y)) = Some (CollectorMAC ?C x i y)" "DecodeKey (EncodeKey (MCPMAC ?C x i y z)) = Some (MCPMAC ?C x i y z)" for x i y z
    using toy_crypto_ok by (simp_all add: CollectorMAC_def MCPMAC_def crypto_simps codec_simps)
  have j: "\<exists>q a. Client_Join ?E ?js ?c i k m v (0, []) = (Inr sample_joined, 1, [(q, a)])" for i k m v
    by (simp add: Client_Join_def decoded_def client_request_def client_do.simps client_attempt_def steady_env_def logged_def readRelayBody_def json_limit_def decodeRelayJSON_def Let_def)
  obtain q ans where jq: "Client_Join ?E ?js ?c ?i ?b ?mmac ''chat'' (0, []) = (Inr sample_joined, 1, [(q, ans)])" using j by metis
  obtain root where cr: "ContentRoot ?C (Some ?b) ?a ?i ?a (Public ?C (Some ?b)) = Inr root" by (simp add: ContentRoot_def toy_crypto_def)
  have f: "si_mode sample_open = ''session''" "si_collectorKey sample_open = EncodeKey ?a" "si_collectorMAC sample_open = EncodeKey ?mac"
      "ji_collectorKey sample_joined = EncodeKey ?a" "ji_collectorMAC sample_joined = EncodeKey ?mac"
    by (simp_all add: sample_open_def sample_joined_def)
  have sj: "\<exists>s. Session_Join ?C ?E ?js ?c sample_token sample_open ''chat'' 5 ?b (0, []) = (Inr s, 1, [(q, ans)]) \<and> Live s"
    using f cr jq by (simp add: Session_Join_def pub dec mac VerifyCollectorMAC_def KeyPairFromPrivate_def Let_def Live_def split: sum.splits)
  have body: "cq_body q = sample_enc_join ?q" using join_sends(2) [OF jq, of q ans] by simp
  have "length ?mmac = 32" using toy_crypto_ok by (simp add: MCPMAC_def crypto_simps)
  then have "length (EncodeKey ?b) = 43" "length (EncodeKey ?mmac) = 43" by (simp_all add: EncodeKey_def length_b64_encode)
  then have "length (sample_enc_join ?q) = 131" by (simp add: sample_enc_join_def enc_int_def)
  then have bd: "readBody (2 * 2 ^ 20) ?body = Inr (cq_body q)" unfolding body by (simp add: readBody_def read_limited_def)
  have json: "\<forall>key mac. dec_join ?D (enc_join ?js \<lparr>jr_mcpKey = EncodeKey key, jr_mcpMAC = EncodeKey mac, jr_via = ''chat''\<rparr>)
      = Some \<lparr>jr_mcpKey = EncodeKey key, jr_mcpMAC = EncodeKey mac, jr_via = ''chat''\<rparr>" by (simp add: sample_join_json)
  have h: "\<exists>st'. handler_join ?D 5 ?m 0 ?body ?st = ((201, JoinBody sample_joined), st')"
    using bd by (simp add: handler_join_def body sample_join_json dec mac set_joined_def new_live_def sample_joined_def Let_def)
  have si: "si_collectorKey sample_open = EncodeKey (Public ?C (Some ?a))" by (simp add: sample_open_def sample_joined_def pub)
  obtain x ss' where sv: "serve_join ?V (Some ?a) (ExchangeKey ?C sample_token) [Inr (Some sample_joined)] (Serve_Proofs.sample_session []) = (x, ss')" by (rule prod.exhaust)
  have V: "ev_crypto ?V = ?C" "ev_id ?V = ?i" by (simp_all add: sample_env_def)
  from sj obtain s where s: "Session_Join ?C ?E ?js ?c sample_token sample_open ''chat'' 5 ?b (0, []) = (Inr s, 1, [(q, ans)])" "Live s" by blast
  from h obtain st' where st': "handler_join ?D 5 ?m 0 ?body ?st = ((201, JoinBody sample_joined), st')" by blast
  from pairing_agrees [OF s toy_crypto_ok _ si json _ bd st' V sv, of ans] have "sv_keys ss' = DeriveSessionKeys ?C (the (ParsedContentRoot s))" "sv_Level ss' \<noteq> 0"
    by simp_all
  with s sv show ?thesis by (intro exI conjI)
qed

section \<open>The way of a job\<close>

lemma save_posted: "save_session E s w = (r, w') \<Longrightarrow> mw_posted w' = mw_posted w"
  by (auto simp: save_session_def split: prod.splits)

text \<open>
  C14. From the reader to the collector: a job that was submitted without an error is the one envelope that left the reader; a relay
  whose next number is the reader's accepts it and queues it last, and counts as the reader now does; and a collector with the
  same keys that expects this number opens it to exactly the encoded job.
\<close>

theorem submit_reaches_collector:
  assumes "mcp_submit L keys client s jb w = (Inr s', w')" and "crypto_ok (me_crypto (lv_mcp L))" and "stored_ok (me_crypto (lv_mcp L)) s" and "Live s"
    and "joined l \<noteq> None" and "\<not> gone l" and "nextJob l = ss_NextJobSeq s" and "int (length (jobs l)) < maxQueue"
    and "\<forall>f. lastJob l = Some f \<longrightarrow> e_seq f + 1 = nextJob l"
  shows "\<exists>e raw. lv_enc_job L jb = Some raw \<and> mw_posted w' = mw_posted w @ [e] \<and>
    OpenJob (me_crypto (lv_mcp L)) keys e (session_id s) (ss_NextJobSeq s) = Inr raw \<and>
    (\<exists>l'. post e False maxQueue l = ((202, ''''), l') \<and> jobs l' = jobs l @ [e] \<and> nextJob l' = ss_NextJobSeq s')"
proof -
  let ?C = "me_crypto (lv_mcp L)" and ?n = "ss_NextJobSeq s"
  let ?s = "s\<lparr>ss_NextJobSeq := ?n + 1\<rparr>"
  obtain y w1 where sv: "save_session (lv_mcp L) ?s w = (y, w1)" by (rule prod.exhaust)
  obtain raw where raw: "lv_enc_job L jb = Some raw" using assms(1) by (cases "lv_enc_job L jb") (auto simp: mcp_submit_def Let_def pure_def)
  with assms(1) have sub: "tool_bind (save_session (lv_mcp L) ?s) (\<lambda>_.
      case SealJob ?C keys (session_id s) ?n ClassRead raw of Inl e \<Rightarrow> pure (Inl (TE_Seal e))
      | Inr e \<Rightarrow> tool_bind (post_job (lv_mcp L) client (session_id s) e) (\<lambda>_. pure (Inr ?s))) w = (Inr s', w')"
    by (auto simp: mcp_submit_def Let_def pure_def split: if_splits)
  obtain e where seal: "SealJob ?C keys (session_id s) ?n ClassRead raw = Inr e"
    using sub sv by (cases "SealJob ?C keys (session_id s) ?n ClassRead raw") (auto simp: tool_bind_def pure_def split: sum.splits)
  obtain z w2 where po: "post_job (lv_mcp L) client (session_id s) e w1 = (z, w2)" by (rule prod.exhaust)
  have "mw_posted w2 = mw_posted w1 @ [e]" using po by (auto simp: post_job_def split: prod.splits)
  then have e: "lv_enc_job L jb = Some raw" "SealJob ?C keys (session_id s) ?n ClassRead raw = Inr e" "mw_posted w' = mw_posted w @ [e]" "s' = ?s"
    using sub sv seal po raw save_posted [OF sv] by (auto simp: tool_bind_def pure_def split: sum.splits)
  have "OpenJob ?C keys e (session_id s) ?n = Inr raw" by (rule SealJob_open [OF assms(2) e(2)])
  moreover have "\<not> (case lastJob l of None \<Rightarrow> False | Some f \<Rightarrow> same_envelope e f)"
    using assms(7,9) seal_job_seq [OF e(2)] by (auto split: option.splits)
  ultimately show ?thesis using e assms(5-8) seal_job_seq [OF e(2)] by (auto simp: post_def Let_def notify_def)
qed


theorem submit_reaches_collector_witness:
  "\<exists>s' w' e. mcp_submit Mcp_Live_Proofs.sample_live \<lparr>sk_job = [], sk_result = []\<rparr> \<lparr>BaseURL = ''r'', cl_credential = []\<rparr> sample_live_session
     \<lparr>job_ID = ''j1'', job_Name = ''ps'', job_Params = ''{}''\<rparr> sample_world = (Inr s', w') \<and> mw_posted w' = [e] \<and>
     OpenJob toy_crypto \<lparr>sk_job = [], sk_result = []\<rparr> e (session_id sample_live_session) 1 = Inr [1]"
proof -
  let ?k = "\<lparr>sk_job = [], sk_result = []\<rparr>" and ?c = "\<lparr>BaseURL = ''r'', cl_credential = []\<rparr>" and ?i = "session_id sample_live_session"
  let ?jb = "\<lparr>job_ID = ''j1'', job_Name = ''ps'', job_Params = ''{}''\<rparr>" and ?s = "sample_live_session\<lparr>ss_NextJobSeq := 2\<rparr>"
  let ?l = "(new_live 0)\<lparr>joined := Some \<lparr>ji_collectorKey = [], ji_collectorMAC = [], ji_mcpKey = [], ji_mcpMAC = [], ji_via = [], ji_joinedAt = 0\<rparr>\<rparr>"
  have m: "lv_mcp Mcp_Live_Proofs.sample_live = sample_live_mcp" "me_crypto sample_live_mcp = toy_crypto"
      "lv_enc_job Mcp_Live_Proofs.sample_live ?jb = Some [1]" "ss_NextJobSeq sample_live_session = 1" "mw_posted sample_world = []"
    by (simp_all add: sample_live_def sample_live_mcp_def sample_mcp_def sample_live_session_def sample_world_def)
  have "length ?i = 16"
    by (simp add: session_id_def sample_live_session_def codec_simps derived_lengths [OF toy_crypto_ok])
  then have h: "header_ok ?i 1 ClassRead" by (simp add: header_ok_def MaxSessionSeq_def ClassRead_def ClassExec_def)
  have p: "0 < length [1 :: byte]" "length [1 :: byte] \<le> MaxJobBytes - 16" "MaxJobBytes < 2 ^ 32" by (simp_all add: MaxJobBytes_def)
  obtain e0 where e0: "SealJob toy_crypto ?k ?i 1 ClassRead [1] = Inr e0" using seal_Inr [OF toy_crypto_ok h p] by (auto simp: SealJob_def)
  obtain w1 where w1: "save_session sample_live_mcp ?s sample_world = (Inr (), w1)"
    by (simp add: save_session_def Session_Save_def sample_live_mcp_def sample_mcp_def sample_io_def split: prod.splits)
  obtain w2 where w2: "post_job sample_live_mcp ?c ?i e0 w1 = (Inr (), w2)"
    by (simp add: post_job_def PostJob_def postEnvelope_def client_request_def client_do.simps client_attempt_def sample_live_mcp_def sample_mcp_def
        steady_env_def readRelayBody_def json_limit_def decodeRelayJSON_def failure_def Let_def)
  have r: "mcp_submit Mcp_Live_Proofs.sample_live ?k ?c sample_live_session ?jb sample_world = (Inr ?s, w2)"
    using w1 w2 e0 p(2) m by (simp add: mcp_submit_def Let_def tool_bind_def pure_def MaxSessionSeq_def MaxJobBytes_def word_le_nat_alt)
  have l: "joined ?l \<noteq> None" "\<not> gone ?l" "nextJob ?l = ss_NextJobSeq sample_live_session" "int (length (jobs ?l)) < 64"
      "\<forall>f. lastJob ?l = Some f \<longrightarrow> e_seq f + 1 = nextJob ?l"
    using m(4) by (simp_all add: new_live_def)
  from submit_reaches_collector [OF r _ _ sample_live_stored(2) l] toy_crypto_ok sample_live_stored(1) m r show ?thesis by auto
qed
end
