(* ===== verification/Screen.thy ===== *)
theory Screen
  imports Prelude
begin

text \<open>
  The terminal of the collector (\<^verbatim>\<open>internal/screen/input.go\<close>, \<^verbatim>\<open>internal/screen/screen.go\<close>): reading single keys from what a terminal
  sends, prompts, paging, and showing text of a log without letting it drive the terminal. A terminal is the list of what its reads return. Which
  runes are graphic is a parameter.
\<close>

section \<open>UTF-8\<close>

definition runeError :: nat where "runeError = 65533"

definition cont_byte :: "byte \<Rightarrow> bool" where
  "cont_byte b \<longleftrightarrow> 128 \<le> unat b \<and> unat b \<le> 191"

text \<open>How many bytes a rune takes that starts with this byte, and which second byte it accepts.\<close>

definition rune_width :: "nat \<Rightarrow> nat" where
  "rune_width x = (if 194 \<le> x \<and> x \<le> 223 then 2 else if 224 \<le> x \<and> x \<le> 239 then 3 else if 240 \<le> x \<and> x \<le> 244 then 4 else 1)"

definition second_ok :: "nat \<Rightarrow> byte \<Rightarrow> bool" where
  "second_ok x b \<longleftrightarrow>
     (if x = 224 then 160 else if x = 240 then 144 else 128) \<le> unat b \<and> unat b \<le> (if x = 237 then 159 else if x = 244 then 143 else 191)"

text \<open>\<^verbatim>\<open>utf8.DecodeRune\<close>: the rune and its size; an invalid byte is \<open>runeError\<close> of size 1.\<close>

definition decode_rune :: "bytes \<Rightarrow> nat \<times> nat" where
  "decode_rune b =
     (case b of
        [] \<Rightarrow> (runeError, 0)
      | b0 # r \<Rightarrow>
          let x = unat b0; w = rune_width x in
          if x < 128 then (x, 1)
          else if w = 1 \<or> length b < w \<or> \<not> second_ok x (b ! 1) \<or> (w > 2 \<and> \<not> cont_byte (b ! 2)) \<or> (w > 3 \<and> \<not> cont_byte (b ! 3)) then (runeError, 1)
          else if w = 2 then ((x mod 32) * 64 + unat (b ! 1) mod 64, 2)
          else if w = 3 then ((x mod 16) * 4096 + unat (b ! 1) mod 64 * 64 + unat (b ! 2) mod 64, 3)
          else ((x mod 8) * 262144 + unat (b ! 1) mod 64 * 4096 + unat (b ! 2) mod 64 * 64 + unat (b ! 3) mod 64, 4))"

text \<open>\<^verbatim>\<open>utf8.FullRune\<close>: no further byte can change the rune at the start.\<close>

definition full_rune :: "bytes \<Rightarrow> bool" where
  "full_rune b \<longleftrightarrow>
     b \<noteq> [] \<and> (let x = unat (hd b) in
       length b \<ge> rune_width x \<or> (length b > 1 \<and> \<not> second_ok x (b ! 1)) \<or> (length b > 2 \<and> \<not> cont_byte (b ! 2)))"

text \<open>\<^verbatim>\<open>strings.Builder.WriteRune\<close>.\<close>

definition encode_rune :: "nat \<Rightarrow> bytes" where
  "encode_rune r0 =
     (let r = (if r0 > 1114111 \<or> (55296 \<le> r0 \<and> r0 \<le> 57343) then runeError else r0) in
      if r < 128 then [of_nat r]
      else if r < 2048 then [of_nat (192 + r div 64), of_nat (128 + r mod 64)]
      else if r < 65536 then [of_nat (224 + r div 4096), of_nat (128 + r div 64 mod 64), of_nat (128 + r mod 64)]
      else [of_nat (240 + r div 262144), of_nat (128 + r div 4096 mod 64), of_nat (128 + r div 64 mod 64), of_nat (128 + r mod 64)])"

lemma decode_size: "b \<noteq> [] \<Longrightarrow> 1 \<le> snd (decode_rune b) \<and> snd (decode_rune b) \<le> length b"
  by (auto simp: decode_rune_def Let_def rune_width_def Suc_le_eq split: list.splits if_splits)

lemma decode_drop: "(r, sz) = decode_rune b \<Longrightarrow> b \<noteq> [] \<Longrightarrow> length b - sz < length b"
  using decode_size [of b] by (metis diff_less length_greater_0_conv less_le_trans snd_conv zero_less_one)

section \<open>Showing text\<close>

definition hex_digit :: "nat \<Rightarrow> byte" where
  "hex_digit n = of_nat (if n < 10 then 48 + n else 87 + n)"

function hex_text :: "nat \<Rightarrow> bytes" where
  "hex_text n = (if n < 16 then [hex_digit n] else hex_text (n div 16) @ [hex_digit (n mod 16)])"
  by pat_completeness auto
termination by (relation "measure id") auto

declare hex_text.simps [simp del]

text \<open>One rune as it is shown: tabs and graphic runes as they are, everything else spelled out.\<close>

definition shown_rune :: "(nat \<Rightarrow> bool) \<Rightarrow> nat \<Rightarrow> nat \<Rightarrow> byte \<Rightarrow> bytes" where
  "shown_rune is_graphic r sz b0 =
     (if r = 9 then encode_rune r
      else if r < 32 \<or> r = 127 \<or> (r = runeError \<and> sz = 1) then [92, 120, hex_digit (unat b0 div 16), hex_digit (unat b0 mod 16)]
      else if \<not> is_graphic r then [92, 117, 123] @ hex_text r @ [125]
      else encode_rune r)"

function Visible :: "(nat \<Rightarrow> bool) \<Rightarrow> bytes \<Rightarrow> bytes" where
  "Visible is_graphic line =
     (if line = [] then []
      else (case decode_rune line of (r, sz) \<Rightarrow> shown_rune is_graphic r sz (hd line) @ Visible is_graphic (drop sz line)))"
  by pat_completeness auto
termination by (relation "measure (\<lambda>(_, line). length line)") (auto intro: decode_drop)

declare Visible.simps [simp del]

section \<open>Reading keys\<close>

text \<open>
  What is buffered, an error that the last read returned, what the reads to come return (then nothing more), and whether switching the terminal
  fails at the next prompts.
\<close>

record keyInput =
  in_keys :: bool
  in_buffer :: bytes
  in_error :: "string option"
  in_coming :: "(string + bytes) list"
  in_raw :: "string option list"

text \<open>
  \<^verbatim>\<open>NewInput\<close>: keys one at a time on a terminal that can be switched, which is tried once. \<^verbatim>\<open>Until\<close>: a fresh buffer over the same source, whose reads
  return what ended the session once it has ended, here before read number \<open>n\<close>.
\<close>

definition NewInput :: "(string + bytes) list \<Rightarrow> bool \<Rightarrow> string option \<Rightarrow> string option list \<Rightarrow> keyInput" where
  "NewInput source terminal tried raw =
     \<lparr>in_keys = (terminal \<and> tried = None), in_buffer = [], in_error = None, in_coming = source, in_raw = raw\<rparr>"

definition Input_Until :: "nat option \<Rightarrow> string \<Rightarrow> keyInput \<Rightarrow> keyInput" where
  "Input_Until ended cause q =
     q\<lparr>in_buffer := [], in_error := None,
       in_coming := (case ended of None \<Rightarrow> in_coming q | Some n \<Rightarrow> take n (in_coming q) @ replicate (Suc (length (in_coming q) - n)) (Inl cause))\<rparr>"

definition input_fill :: "keyInput \<Rightarrow> keyInput" where
  "input_fill q =
     (case in_coming q of
        [] \<Rightarrow> q\<lparr>in_error := Some ''EOF''\<rparr>
      | Inl e # rest \<Rightarrow> q\<lparr>in_error := Some e, in_coming := rest\<rparr>
      | Inr c # rest \<Rightarrow> q\<lparr>in_buffer := in_buffer q @ c, in_coming := rest\<rparr>)"

definition fill_measure :: "keyInput \<Rightarrow> nat" where
  "fill_measure q = length (in_coming q) + (if in_error q = None then 1 else 0)"

lemma input_fill_less: "in_error q = None \<Longrightarrow> fill_measure (input_fill q) < fill_measure q"
  by (auto simp: input_fill_def fill_measure_def split: list.splits sum.splits)

text \<open>\<^verbatim>\<open>bufio.Reader.ReadRune\<close>.\<close>

function read_rune :: "keyInput \<Rightarrow> (string + nat) \<times> keyInput" where
  "read_rune q =
     (if \<not> full_rune (in_buffer q) \<and> in_error q = None then read_rune (input_fill q)
      else if in_buffer q = [] then (Inl (the (in_error q)), q\<lparr>in_error := None\<rparr>)
      else (case decode_rune (in_buffer q) of (r, sz) \<Rightarrow> (Inr r, q\<lparr>in_buffer := drop sz (in_buffer q)\<rparr>)))"
  by pat_completeness auto
termination by (relation "measure fill_measure") (auto intro: input_fill_less)

declare read_rune.simps [simp del]

text \<open>\<^verbatim>\<open>bufio.Reader.ReadString\<close> up to a newline.\<close>

function read_line :: "keyInput \<Rightarrow> (string + bytes) \<times> keyInput" where
  "read_line q =
     (if 10 \<in> set (in_buffer q)
      then (let line = takeWhile (\<lambda>b. b \<noteq> 10) (in_buffer q) in (Inr (line @ [10]), q\<lparr>in_buffer := drop (Suc (length line)) (in_buffer q)\<rparr>))
      else (case in_error q of
              Some e \<Rightarrow> (Inl e, q\<lparr>in_buffer := [], in_error := None\<rparr>)
            | None \<Rightarrow> read_line (input_fill q)))"
  by pat_completeness auto
termination by (relation "measure fill_measure") (auto intro: input_fill_less)

declare read_line.simps [simp del]

text \<open>The rest of an arrow or function key, as far as it is buffered.\<close>

fun escape_tail :: "bytes \<Rightarrow> bytes" where
  "escape_tail [] = []"
| "escape_tail (b # r) = (if 64 \<le> unat b \<and> unat b \<le> 126 then r else escape_tail r)"

definition input_escape :: "bytes \<Rightarrow> bytes" where
  "input_escape buf = (case buf of [] \<Rightarrow> [] | b # r \<Rightarrow> if b \<noteq> 91 \<and> b \<noteq> 79 then r else escape_tail r)"

function text_runes :: "bytes \<Rightarrow> nat list" where
  "text_runes b = (if b = [] then [] else (case decode_rune b of (r, sz) \<Rightarrow> r # text_runes (drop sz b)))"
  by pat_completeness auto
termination by (relation "measure length") (auto intro: decode_drop)

declare text_runes.simps [simp del]

text \<open>\<^verbatim>\<open>unicode.IsSpace\<close>.\<close>

definition is_space :: "nat \<Rightarrow> bool" where
  "is_space r \<longleftrightarrow> (9 \<le> r \<and> r \<le> 13) \<or> r = 32 \<or> r = 133 \<or> r = 160 \<or> r = 5760 \<or> (8192 \<le> r \<and> r \<le> 8202) \<or> r = 8232 \<or> r = 8233 \<or> r = 8239
     \<or> r = 8287 \<or> r = 12288"

definition line_key :: "bytes \<Rightarrow> nat" where
  "line_key line =
     (case rev (dropWhile is_space (rev (dropWhile is_space (text_runes line)))) of [] \<Rightarrow> 10 | [r] \<Rightarrow> r | _ \<Rightarrow> 0)"

definition errInterrupted :: string where "errInterrupted = ''interrupted''"

text \<open>What a rune read from a terminal means.\<close>

definition key_rune :: "(string + nat) \<times> keyInput \<Rightarrow> (string + nat) \<times> keyInput" where
  "key_rune x =
     (case x of
        (Inl e, q1) \<Rightarrow> (Inl e, q1)
      | (Inr r, q1) \<Rightarrow>
          if r = 3 then (Inl errInterrupted, q1)
          else if r = 4 then (Inl ''EOF'', q1)
          else if r = 13 \<or> r = 10 then (Inr 10, q1)
          else if r = 27 then (Inr 0, q1\<lparr>in_buffer := input_escape (in_buffer q1)\<rparr>)
          else if r < 32 \<or> r = 127 then (Inr 0, q1)
          else (Inr r, q1))"

definition Input_Key :: "keyInput \<Rightarrow> (string + nat) \<times> keyInput" where
  "Input_Key q =
     (if \<not> in_keys q then (case read_line q of (Inl e, q1) \<Rightarrow> (Inl e, q1) | (Inr line, q1) \<Rightarrow> (Inr (line_key line), q1))
      else (case in_raw q of
              Some e # rest \<Rightarrow> (Inl e, q\<lparr>in_raw := rest\<rparr>)
            | _ \<Rightarrow> key_rune (read_rune (q\<lparr>in_raw := tl (in_raw q)\<rparr>))))"

lemma Input_Key_raw:
  "in_keys q \<Longrightarrow> \<nexists>e rest. in_raw q = Some e # rest \<Longrightarrow> Input_Key q = key_rune (read_rune (q\<lparr>in_raw := tl (in_raw q)\<rparr>))"
  by (auto simp: Input_Key_def split: list.splits option.splits)

section \<open>Prompts\<close>

text \<open>What is still to be read; every key takes something of it.\<close>

definition input_size :: "keyInput \<Rightarrow> nat" where
  "input_size q = length (in_buffer q) + sum_list (map (\<lambda>c. case c of Inl _ \<Rightarrow> 1 | Inr b \<Rightarrow> Suc (length b)) (in_coming q))"

lemma fill_size: "input_size (input_fill q) \<le> input_size q"
  by (auto simp: input_size_def input_fill_def split: list.splits sum.splits)

lemma read_rune_size: "read_rune q = (x, q') \<Longrightarrow> (case x of Inl _ \<Rightarrow> input_size q' \<le> input_size q | Inr _ \<Rightarrow> input_size q' < input_size q)"
proof (induction q rule: read_rune.induct)
  case (1 q)
  show ?case
  proof (cases "\<not> full_rune (in_buffer q) \<and> in_error q = None")
    case True
    with 1 fill_size [of q] show ?thesis by (subst (asm) (2) read_rune.simps) (fastforce split: sum.splits)
  next
    case False
    obtain r sz where d: "decode_rune (in_buffer q) = (r, sz)" by (rule prod.exhaust)
    show ?thesis
    proof (cases "in_buffer q = []")
      case True
      with False 1(2) have "x = Inl (the (in_error q))" "q' = q\<lparr>in_error := None\<rparr>" by (auto simp: read_rune.simps [of q])
      then show ?thesis by (simp add: input_size_def)
    next
      case ne: False
      with False 1(2) d have "x = Inr r" "q' = q\<lparr>in_buffer := drop sz (in_buffer q)\<rparr>" by (auto simp: read_rune.simps [of q])
      then show ?thesis using decode_drop [OF d [symmetric] ne] by (simp add: input_size_def)
    qed
  qed
qed

lemma read_line_size: "read_line q = (x, q') \<Longrightarrow> (case x of Inl _ \<Rightarrow> input_size q' \<le> input_size q | Inr _ \<Rightarrow> input_size q' < input_size q)"
proof (induction q rule: read_line.induct)
  case (1 q)
  show ?case
  proof (cases "10 \<in> set (in_buffer q)")
    case True
    then have "in_buffer q \<noteq> []" by auto
    with True 1(2) show ?thesis by (auto simp: read_line.simps [of q] input_size_def Let_def)
  next
    case False
    with 1 fill_size [of q] show ?thesis
      by (cases "in_error q") (subst (asm) (2) read_line.simps, fastforce split: sum.splits, auto simp: read_line.simps [of q] input_size_def)
  qed
qed

lemma escape_tail_length: "length (escape_tail b) \<le> length b"
  by (induction b rule: escape_tail.induct) auto

lemma escape_length: "length (input_escape b) \<le> length b"
  using escape_tail_length [of "tl b"] by (cases b) (auto simp: input_escape_def)

lemma Input_Key_size: "Input_Key q = (Inr k, q') \<Longrightarrow> input_size q' < input_size q"
proof -
  assume a: "Input_Key q = (Inr k, q')"
  show ?thesis
  proof (cases "in_keys q")
    case False
    with a show ?thesis using read_line_size [of q] by (auto simp: Input_Key_def split: prod.splits sum.splits)
  next
    case True
    let ?q = "q\<lparr>in_raw := tl (in_raw q)\<rparr>"
    obtain x q1 where r: "read_rune ?q = (x, q1)" by (rule prod.exhaust)
    with a True obtain c where x: "x = Inr c" and q': "in_coming q' = in_coming q1" "in_buffer q' = in_buffer q1 \<or> in_buffer q' = input_escape (in_buffer q1)"
      by (auto simp: Input_Key_def key_rune_def split: list.splits option.splits sum.splits if_splits)
    have "input_size q1 < input_size q" using read_rune_size [OF r] x by (simp add: input_size_def)
    moreover have "input_size q' \<le> input_size q1" using q' escape_length [of "in_buffer q1"] by (auto simp: input_size_def)
    ultimately show ?thesis by simp
  qed
qed

text \<open>The loop of \<^verbatim>\<open>Ask\<close>: keys outside the choices do nothing.\<close>

function ask_loop :: "nat list \<Rightarrow> keyInput \<Rightarrow> (string + nat) \<times> keyInput" where
  "ask_loop choices q =
     (case Input_Key q of
        (Inl e, q1) \<Rightarrow> (Inl e, q1)
      | (Inr k, q1) \<Rightarrow> if k \<in> set choices then (Inr k, q1) else ask_loop choices q1)"
  by pat_completeness auto
termination by (relation "measure (\<lambda>(_, q). input_size q)") (auto dest: Input_Key_size [OF sym])

declare ask_loop.simps [simp del]

definition Input_Ask :: "nat list \<Rightarrow> keyInput \<Rightarrow> (string + nat) \<times> keyInput" where
  "Input_Ask choices q = ask_loop choices (if in_keys q then q\<lparr>in_buffer := []\<rparr> else q)"

text \<open>\<^verbatim>\<open>Page\<close>: \<open>i\<close> counts the lines shown.\<close>

fun page_loop :: "nat \<Rightarrow> nat \<Rightarrow> 'a list \<Rightarrow> keyInput \<Rightarrow> string option \<times> keyInput" where
  "page_loop pageLines i [] q = (None, q)"
| "page_loop pageLines i (line # lines) q =
     (if Suc i mod pageLines = 0 \<and> lines \<noteq> [] then
        (case Input_Key q of
           (Inl e, q1) \<Rightarrow> (Some e, q1)
         | (Inr k, q1) \<Rightarrow> if k = 113 then (None, q1) else page_loop pageLines (Suc i) lines q1)
      else page_loop pageLines (Suc i) lines q)"

definition Input_Page :: "int \<Rightarrow> 'a list \<Rightarrow> keyInput \<Rightarrow> string option \<times> keyInput" where
  "Input_Page pageLines lines q = page_loop (if pageLines \<le> 0 then 40 else nat pageLines) 0 lines q"

lemma ask_loop_size: "ask_loop choices q = (Inr k, q') \<Longrightarrow> input_size q' < input_size q"
proof (induction choices q rule: ask_loop.induct)
  case (1 choices q)
  obtain x q1 where k: "Input_Key q = (x, q1)" by (rule prod.exhaust)
  with 1(2) obtain c where "x = Inr c" by (cases x) (auto simp: ask_loop.simps [of choices q])
  with 1 k Input_Key_size [of q c q1] show ?case by (auto simp: ask_loop.simps [of choices q] split: if_splits)
qed

lemma Input_Ask_size: "Input_Ask choices q = (Inr k, q') \<Longrightarrow> input_size q' < input_size q"
proof -
  assume a: "Input_Ask choices q = (Inr k, q')"
  let ?q = "if in_keys q then q\<lparr>in_buffer := []\<rparr> else q"
  have "input_size ?q \<le> input_size q" by (simp add: input_size_def)
  moreover have "input_size q' < input_size ?q" by (rule ask_loop_size) (use a in \<open>simp add: Input_Ask_def\<close>)
  ultimately show ?thesis by linarith
qed

lemma page_loop_size: "page_loop n i lines q = (None, q') \<Longrightarrow> input_size q' \<le> input_size q"
proof (induction n i lines q rule: page_loop.induct)
  case (2 n i line lines q)
  obtain x q1 where k: "Input_Key q = (x, q1)" by (rule prod.exhaust)
  with 2 Input_Key_size [of q _ q1] show ?case by (cases x) (fastforce split: if_splits)+
qed simp

lemma Input_Page_size: "Input_Page n lines q = (None, q') \<Longrightarrow> input_size q' \<le> input_size q"
  unfolding Input_Page_def by (rule page_loop_size)

section \<open>What is shown\<close>

definition scalar :: "nat \<Rightarrow> bool" where
  "scalar r \<longleftrightarrow> r \<le> 1114111 \<and> \<not> (55296 \<le> r \<and> r \<le> 57343)"

lemma unat_small: "n < 256 \<Longrightarrow> unat (of_nat n :: byte) = n"
  by (simp add: unat_of_nat take_bit_nat_eq_self)

lemma decode_ascii: "r < 128 \<Longrightarrow> decode_rune (of_nat r # b) = (r, 1)"
  by (simp add: decode_rune_def unat_small)

lemma decode_multi:
  "194 \<le> unat b0 \<Longrightarrow> unat b0 \<le> 223 \<Longrightarrow> cont_byte b1 \<Longrightarrow> decode_rune (b0 # b1 # r) = (unat b0 mod 32 * 64 + unat b1 mod 64, 2)"
  "224 \<le> unat b0 \<Longrightarrow> unat b0 \<le> 239 \<Longrightarrow> second_ok (unat b0) b1 \<Longrightarrow> cont_byte b2 \<Longrightarrow>
     decode_rune (b0 # b1 # b2 # r) = (unat b0 mod 16 * 4096 + unat b1 mod 64 * 64 + unat b2 mod 64, 3)"
  "240 \<le> unat b0 \<Longrightarrow> unat b0 \<le> 244 \<Longrightarrow> second_ok (unat b0) b1 \<Longrightarrow> cont_byte b2 \<Longrightarrow> cont_byte b3 \<Longrightarrow>
     decode_rune (b0 # b1 # b2 # b3 # r) = (unat b0 mod 8 * 262144 + unat b1 mod 64 * 4096 + unat b2 mod 64 * 64 + unat b3 mod 64, 4)"
  by (simp_all add: decode_rune_def rune_width_def second_ok_def cont_byte_def Let_def)

lemma low_bits:
  "m < 64 \<Longrightarrow> (128 + m) mod 64 = (m :: nat)" "p < 32 \<Longrightarrow> (192 + p) mod 32 = (p :: nat)"
  "p < 16 \<Longrightarrow> (224 + p) mod 16 = (p :: nat)" "p < 8 \<Longrightarrow> (240 + p) mod 8 = (p :: nat)"
  using mod_mult_self1 [of m 2 64] mod_mult_self1 [of p 6 32] mod_mult_self1 [of p 14 16] mod_mult_self1 [of p 30 8] by (simp_all add: add.commute)

lemma decode_encode_rune:
  assumes "scalar r"
  shows "decode_rune (encode_rune r @ b) = (r, length (encode_rune r))"
proof -
  have v: "\<not> (r > 1114111 \<or> (55296 \<le> r \<and> r \<le> 57343))" using assms by (auto simp: scalar_def)
  define m where "m = r mod 64"
  define n where "n = r div 64 mod 64"
  define k where "k = r div 4096 mod 64"
  have m: "m < 64" "n < 64" "k < 64" by (simp_all add: m_def n_def k_def)
  have r1: "r = r div 64 * 64 + m" unfolding m_def by simp
  have r2: "r div 64 = r div 4096 * 64 + n" using div_mult_mod_eq [of "r div 64" 64] unfolding n_def by (simp add: div_mult2_eq [symmetric])
  have r3: "r div 4096 = r div 262144 * 64 + k" using div_mult_mod_eq [of "r div 4096" 64] unfolding k_def by (simp add: div_mult2_eq [symmetric])
  consider "r < 128" | "128 \<le> r" "r < 2048" | "2048 \<le> r" "r < 65536" | "65536 \<le> r" by linarith
  then show ?thesis
  proof cases
    case 1
    then show ?thesis using decode_ascii [of r b] by (simp add: encode_rune_def)
  next
    case 2
    define p where "p = r div 64"
    define x y :: byte where "x = of_nat (192 + p)" and "y = of_nat (128 + m)"
    have p: "2 \<le> p" "p < 32" using 2 r1 m unfolding p_def [symmetric] by linarith+
    have u: "unat x = 192 + p" "unat y = 128 + m" unfolding x_def y_def by (rule unat_small, use p m in linarith)+
    have e: "encode_rune r = [x, y]" using 2 v by (simp add: encode_rune_def x_def y_def m_def p_def)
    have d: "decode_rune (x # y # b) = (unat x mod 32 * 64 + unat y mod 64, 2)" by (rule decode_multi(1)) (use p m in \<open>simp_all add: u cont_byte_def\<close>)
    have "unat x mod 32 * 64 + unat y mod 64 = r" unfolding u using r1 low_bits(2) [OF p(2)] low_bits(1) [OF m(1)] unfolding p_def [symmetric] by simp
    then show ?thesis using e d by simp
  next
    case 3
    define p where "p = r div 4096"
    define x y z :: byte where "x = of_nat (224 + p)" and "y = of_nat (128 + n)" and "z = of_nat (128 + m)"
    have r: "r = p * 4096 + n * 64 + m" using r1 r2 unfolding p_def by linarith
    have p: "p < 16" "p = 0 \<Longrightarrow> 32 \<le> n" "p = 13 \<Longrightarrow> n < 32" using 3 r m v by linarith+
    have u: "unat x = 224 + p" "unat y = 128 + n" "unat z = 128 + m" unfolding x_def y_def z_def by (rule unat_small, use p m in linarith)+
    have e: "encode_rune r = [x, y, z]" unfolding encode_rune_def if_not_P [OF v] Let_def using 3 by (simp add: x_def y_def z_def m_def n_def p_def)
    have s: "second_ok (unat x) y" unfolding second_ok_def u using p m by auto
    have d: "decode_rune (x # y # z # b) = (unat x mod 16 * 4096 + unat y mod 64 * 64 + unat z mod 64, 3)"
      by (rule decode_multi(2)) (use p m s in \<open>simp_all add: u cont_byte_def\<close>)
    have "unat x mod 16 * 4096 + unat y mod 64 * 64 + unat z mod 64 = r" unfolding u using r low_bits(3) [OF p(1)] low_bits(1) [OF m(1)] low_bits(1) [OF m(2)] by simp
    then show ?thesis using e d by simp
  next
    case 4
    define p where "p = r div 262144"
    define x y z w :: byte where "x = of_nat (240 + p)" and "y = of_nat (128 + k)" and "z = of_nat (128 + n)" and "w = of_nat (128 + m)"
    have r: "r = p * 262144 + k * 4096 + n * 64 + m" using r1 r2 r3 unfolding p_def by linarith
    have p: "p < 5" "p = 0 \<Longrightarrow> 16 \<le> k" "p = 4 \<Longrightarrow> k < 16" using 4 r m v by linarith+
    have u: "unat x = 240 + p" "unat y = 128 + k" "unat z = 128 + n" "unat w = 128 + m"
      unfolding x_def y_def z_def w_def by (rule unat_small, use p m in linarith)+
    have e: "encode_rune r = [x, y, z, w]" unfolding encode_rune_def if_not_P [OF v] Let_def using 4 by (simp add: x_def y_def z_def w_def m_def n_def k_def p_def)
    have s: "second_ok (unat x) y" unfolding second_ok_def u using p m by auto
    have d: "decode_rune (x # y # z # w # b) = (unat x mod 8 * 262144 + unat y mod 64 * 4096 + unat z mod 64 * 64 + unat w mod 64, 4)"
      by (rule decode_multi(3)) (use p m s in \<open>simp_all add: u cont_byte_def\<close>)
    have "unat x mod 8 * 262144 + unat y mod 64 * 4096 + unat z mod 64 * 64 + unat w mod 64 = r"
      unfolding u using r low_bits(4) [of p] p(1) low_bits(1) [OF m(1)] low_bits(1) [OF m(2)] low_bits(1) [OF m(3)] by simp
    then show ?thesis using e d by simp
  qed
qed

lemma hex_digit_ascii: "n < 16 \<Longrightarrow> \<exists>r. hex_digit n = of_nat r \<and> 48 \<le> r \<and> r \<le> 102"
  by (rule exI [of _ "if n < 10 then 48 + n else 87 + n"]) (simp add: hex_digit_def)

lemma encode_rune_ne: "encode_rune r \<noteq> []"
  by (simp add: encode_rune_def Let_def)

lemma text_runes_encode: "scalar r \<Longrightarrow> text_runes (encode_rune r @ b) = r # text_runes b"
  by (subst text_runes.simps) (simp add: decode_encode_rune encode_rune_ne)

lemma text_runes_ascii: "r < 128 \<Longrightarrow> text_runes (of_nat r # b) = r # text_runes b"
  by (subst text_runes.simps) (simp add: decode_ascii)

definition all_runes :: "(nat \<Rightarrow> bool) \<Rightarrow> bytes \<Rightarrow> bool" where
  "all_runes p b \<longleftrightarrow> (\<exists>rs. b = concat (map encode_rune rs) \<and> list_all (\<lambda>r. scalar r \<and> p r) rs)"

lemma all_runes_append: "all_runes p a \<Longrightarrow> all_runes p b \<Longrightarrow> all_runes p (a @ b)"
proof -
  assume "all_runes p a" "all_runes p b"
  then obtain rs ss where "a = concat (map encode_rune rs)" "list_all (\<lambda>r. scalar r \<and> p r) rs" "b = concat (map encode_rune ss)"
    "list_all (\<lambda>r. scalar r \<and> p r) ss"
    unfolding all_runes_def by blast
  then show ?thesis unfolding all_runes_def by (intro exI [of _ "rs @ ss"]) simp
qed

lemma all_runes_Nil: "all_runes p []"
  unfolding all_runes_def by (rule exI [of _ "[]"]) simp

lemma all_runes_encode: "scalar r \<Longrightarrow> p r \<Longrightarrow> all_runes p (encode_rune r)"
  unfolding all_runes_def by (rule exI [of _ "[r]"]) simp

lemma all_runes_ascii: "r < 128 \<Longrightarrow> p r \<Longrightarrow> all_runes p [of_nat r]"
proof -
  assume r: "r < 128" "p r"
  have s: "scalar r" using r(1) by (simp add: scalar_def)
  have "encode_rune r = [of_nat r]" using r(1) by (simp add: encode_rune_def)
  then show ?thesis using all_runes_encode [of r p, OF s r(2)] by (simp only:)
qed

lemma all_runes_text:
  assumes "all_runes p b"
  shows "list_all p (text_runes b)"
proof -
  obtain rs where b: "b = concat (map encode_rune rs)" and l: "list_all (\<lambda>r. scalar r \<and> p r) rs" using assms unfolding all_runes_def by blast
  have "text_runes (concat (map encode_rune rs)) = rs" using l by (induction rs) (auto simp: text_runes_encode text_runes.simps [of "[]"])
  with b l show ?thesis by (simp add: list_all_iff)
qed

lemma cont_low: "128 \<le> y \<Longrightarrow> y < 192 \<Longrightarrow> y mod 64 = y - (128 :: nat)"
  using low_bits(1) [of "y - 128"] by simp

lemma decode_cases:
  assumes "b \<noteq> []" "decode_rune b = (r, sz)"
  obtains "unat (hd b) < 128" "r = unat (hd b)" | "r = runeError"
  | "rune_width (unat (hd b)) = 2" "r = unat (hd b) mod 32 * 64 + unat (b ! 1) mod 64"
  | "rune_width (unat (hd b)) = 3" "second_ok (unat (hd b)) (b ! 1)"
    "r = unat (hd b) mod 16 * 4096 + unat (b ! 1) mod 64 * 64 + unat (b ! 2) mod 64"
  | "rune_width (unat (hd b)) = 4" "second_ok (unat (hd b)) (b ! 1)"
    "r = unat (hd b) mod 8 * 262144 + unat (b ! 1) mod 64 * 4096 + unat (b ! 2) mod 64 * 64 + unat (b ! 3) mod 64"
proof -
  define x w where "x = unat (hd b)" and "w = rune_width x"
  define bad where "bad \<longleftrightarrow> w = 1 \<or> length b < w \<or> \<not> second_ok x (b ! 1) \<or> (w > 2 \<and> \<not> cont_byte (b ! 2)) \<or> (w > 3 \<and> \<not> cont_byte (b ! 3))"
  define r2 r3 r4 where "r2 = x mod 32 * 64 + unat (b ! 1) mod 64" and "r3 = x mod 16 * 4096 + unat (b ! 1) mod 64 * 64 + unat (b ! 2) mod 64"
    and "r4 = x mod 8 * 262144 + unat (b ! 1) mod 64 * 4096 + unat (b ! 2) mod 64 * 64 + unat (b ! 3) mod 64"
  have e: "decode_rune b = (if x < 128 then (x, 1) else if bad then (runeError, 1) else if w = 2 then (r2, 2) else if w = 3 then (r3, 3) else (r4, 4))"
    unfolding bad_def w_def x_def r2_def r3_def r4_def using assms(1) by (cases b) (simp_all only: decode_rune_def Let_def list.case list.sel)
  have w: "w = 1 \<or> w = 2 \<or> w = 3 \<or> w = 4" unfolding w_def rune_width_def by simp
  have s: "w \<noteq> 1 \<and> second_ok x (b ! 1)" if "\<not> bad" using that unfolding bad_def by blast
  note that = that [folded x_def, folded w_def r2_def r3_def r4_def]
  show thesis
  proof (cases "x < 128 \<or> bad")
    case True
    then show thesis using e assms(2) that(1,2) by (auto split: if_splits)
  next
    case False
    then show thesis using e assms(2) w s that(3,4,5) by (auto split: if_splits)
  qed
qed

lemma decode_scalar: "b \<noteq> [] \<Longrightarrow> decode_rune b = (r, sz) \<Longrightarrow> scalar r"
proof -
  assume b: "b \<noteq> []" and d: "decode_rune b = (r, sz)"
  define x y z w where "x = unat (hd b)" and "y = unat (b ! 1)" and "z = unat (b ! 2)" and "w = unat (b ! 3)"
  note u = x_def [symmetric] y_def [symmetric] z_def [symmetric] w_def [symmetric]
  have m: "y mod 64 < 64" "z mod 64 < 64" "w mod 64 < 64" by simp_all
  from b d show ?thesis
  proof (cases rule: decode_cases)
    case 3
    have "x mod 32 < 32" by simp
    then have "r < 2048" using 3(2) m(1) unfolding u by linarith
    then show ?thesis by (simp add: scalar_def)
  next
    case 4
    have x: "224 \<le> x" "x \<le> 239" using 4(1) unfolding u by (auto simp: rune_width_def split: if_splits)
    have xm: "x mod 16 = x - 224" using low_bits(3) [of "x - 224"] x by simp
    have y: "128 \<le> y" "y < 192" "x = 237 \<Longrightarrow> y < 160" "x = 224 \<Longrightarrow> 160 \<le> y" using 4(2) unfolding u second_ok_def by (auto split: if_splits)
    define p q where "p = x - 224" and "q = y - 128"
    have "r = (x - 224) * 4096 + (y - 128) * 64 + z mod 64" using 4(3) xm cont_low [OF y(1,2)] unfolding u by simp
    then have r: "r = p * 4096 + q * 64 + z mod 64" unfolding p_def q_def .
    have q: "q < 64" using y(2) unfolding q_def by linarith
    consider "p \<le> 12" | "p = 13" "q < 32" | "14 \<le> p" "p \<le> 15" using x y(1,3) unfolding p_def q_def by linarith
    then have "r < 55296 \<or> (57344 \<le> r \<and> r < 65536)"
    proof cases
      case 1
      then have "r < 55296" using r q m(2) by linarith
      then show ?thesis ..
    next
      case 2
      then have "r < 55296" using r m(2) by linarith
      then show ?thesis ..
    next
      case 3
      then have "57344 \<le> r" "r < 65536" using r q m(2) by linarith+
      then show ?thesis by blast
    qed
    then show ?thesis unfolding scalar_def by linarith
  next
    case 5
    have x: "240 \<le> x" "x \<le> 244" using 5(1) unfolding u by (auto simp: rune_width_def split: if_splits)
    have xm: "x mod 8 = x - 240" using low_bits(4) [of "x - 240"] x by simp
    have y: "128 \<le> y" "y < 192" "x = 244 \<Longrightarrow> y < 144" "x = 240 \<Longrightarrow> 144 \<le> y" using 5(2) unfolding u second_ok_def by (auto split: if_splits)
    define p q where "p = x - 240" and "q = y - 128"
    have "r = (x - 240) * 262144 + (y - 128) * 4096 + z mod 64 * 64 + w mod 64" using 5(3) xm cont_low [OF y(1,2)] unfolding u by simp
    then have r: "r = p * 262144 + q * 4096 + z mod 64 * 64 + w mod 64" unfolding p_def q_def .
    have "65536 \<le> r"
    proof (cases "p = 0")
      case True
      then have "16 \<le> q" using x y(4) unfolding p_def q_def by linarith
      then show ?thesis using r by linarith
    qed (use r in linarith)
    moreover have "r \<le> 1114111"
    proof (cases "p = 4")
      case True
      then have "q < 16" using x y(1,3) unfolding p_def q_def by linarith
      then show ?thesis using r m(2,3) True by linarith
    next
      case False
      then have "p \<le> 3" "q < 64" using x y(2) unfolding p_def q_def by linarith+
      then show ?thesis using r m(2,3) by linarith
    qed
    ultimately show ?thesis unfolding scalar_def by linarith
  qed (simp_all add: scalar_def runeError_def)
qed

lemma all_runes_hex_digit: "n < 16 \<Longrightarrow> (\<And>r. 32 \<le> r \<Longrightarrow> r \<le> 126 \<Longrightarrow> p r) \<Longrightarrow> all_runes p [hex_digit n]"
proof -
  assume n: "n < 16" and p: "\<And>r. 32 \<le> r \<Longrightarrow> r \<le> 126 \<Longrightarrow> p r"
  obtain r where "hex_digit n = of_nat r" "48 \<le> r" "r \<le> 102" using hex_digit_ascii [OF n] by blast
  with p all_runes_ascii [of r p] show ?thesis by simp
qed

lemma all_runes_hex_text: "(\<And>r. 32 \<le> r \<Longrightarrow> r \<le> 126 \<Longrightarrow> p r) \<Longrightarrow> all_runes p (hex_text n)"
proof (induction n rule: hex_text.induct)
  case (1 n)
  then show ?case by (subst hex_text.simps) (simp add: all_runes_append all_runes_hex_digit)
qed

lemma all_runes_printable: "(\<And>r. 32 \<le> r \<Longrightarrow> r \<le> 126 \<Longrightarrow> p r) \<Longrightarrow> (\<And>b. b \<in> set t \<Longrightarrow> 32 \<le> unat b \<and> unat b \<le> 126) \<Longrightarrow> all_runes p t"
proof (induction t)
  case (Cons b t)
  have "all_runes p [of_nat (unat b)]" by (rule all_runes_ascii) (use Cons(3) [of b] Cons(2) in auto)
  with Cons all_runes_append [of p "[b]" t] show ?case by simp
qed (rule all_runes_Nil)

lemma nibbles: "unat (b :: byte) div 16 < 16" "unat (b :: byte) mod 16 < 16"
proof -
  have "unat b < 256" using unsigned_less [of b] by simp
  then show "unat b div 16 < 16" by linarith
qed simp

text \<open>What may reach the terminal of a line: tabs, and graphic runes that are no control characters.\<close>

definition showable :: "(nat \<Rightarrow> bool) \<Rightarrow> nat \<Rightarrow> bool" where
  "showable is_graphic r \<longleftrightarrow> r = 9 \<or> (32 \<le> r \<and> r \<noteq> 127 \<and> is_graphic r)"

lemma shown_rune_runes:
  assumes p: "\<And>r. 32 \<le> r \<Longrightarrow> r \<le> 126 \<Longrightarrow> g r" and r: "scalar r"
  shows "all_runes (showable g) (shown_rune g r sz b0)"
proof -
  have p': "\<And>r. 32 \<le> r \<Longrightarrow> r \<le> 126 \<Longrightarrow> showable g r" using p by (simp add: showable_def)
  have d: "all_runes (showable g) [hex_digit (unat b0 div 16)]" "all_runes (showable g) [hex_digit (unat b0 mod 16)]"
    by (rule all_runes_hex_digit [OF nibbles(1) p'], assumption+) (rule all_runes_hex_digit [OF nibbles(2) p'], assumption+)
  have e: "all_runes (showable g) [92, 120]" "all_runes (showable g) [92, 117, 123]" "all_runes (showable g) [125]"
    by (rule all_runes_printable, use p' in blast, auto)+
  have x: "all_runes (showable g) [92, 120, hex_digit (unat b0 div 16), hex_digit (unat b0 mod 16)]"
    using all_runes_append [OF all_runes_append [OF e(1) d(1)] d(2)] by simp
  have h: "all_runes (showable g) ([92, 117, 123] @ hex_text r @ [125])" by (intro all_runes_append e all_runes_hex_text) (use p' in blast)
  have "all_runes (showable g) (encode_rune r)" if "showable g r" by (rule all_runes_encode) (use r that in simp_all)
  then have y: "all_runes (showable g) (encode_rune r)" if "r = 9 \<or> (32 \<le> r \<and> r \<noteq> 127 \<and> g r)" using that unfolding showable_def by blast
  show ?thesis
  proof (cases "r = 9")
    case True
    then show ?thesis using y unfolding shown_rune_def by simp
  next
    case False
    then show ?thesis unfolding shown_rune_def using x h y by (auto simp: not_less)
  qed
qed

lemma Visible_runes: "(\<And>r. 32 \<le> r \<Longrightarrow> r \<le> 126 \<Longrightarrow> g r) \<Longrightarrow> all_runes (showable g) (Visible g line)"
proof (induction g line rule: Visible.induct)
  case (1 g line)
  show ?case
  proof (cases "line = []")
    case False
    obtain r sz where d: "decode_rune line = (r, sz)" by (rule prod.exhaust)
    have "all_runes (showable g) (shown_rune g r sz (hd line))" by (rule shown_rune_runes [OF 1(2) decode_scalar [OF False d]])
    moreover have "all_runes (showable g) (Visible g (drop sz line))" by (rule 1(1) [OF False d [symmetric] 1(2)])
    ultimately show ?thesis using False d by (simp add: Visible.simps [of g line] all_runes_append)
  qed (simp add: Visible.simps all_runes_Nil)
qed

lemma shown_rune_id: "scalar r \<Longrightarrow> showable g r \<Longrightarrow> shown_rune g r (length (encode_rune r)) b0 = encode_rune r"
  by (auto simp: shown_rune_def showable_def encode_rune_def runeError_def)

lemma Visible_showable:
  assumes "all_runes (showable g) b"
  shows "Visible g b = b"
proof -
  obtain rs where b: "b = concat (map encode_rune rs)" and l: "list_all (\<lambda>r. scalar r \<and> showable g r) rs" using assms unfolding all_runes_def by blast
  have "Visible g (concat (map encode_rune rs)) = concat (map encode_rune rs)" using l
  proof (induction rs)
    case (Cons r rs)
    then show ?case by (subst Visible.simps) (simp add: decode_encode_rune encode_rune_ne shown_rune_id)
  qed (simp add: Visible.simps)
  with b show ?thesis by simp
qed

text \<open>C36. Text of a log cannot drive the terminal: whatever bytes a line holds, what \<^verbatim>\<open>Visible\<close> writes decodes to tabs and to graphic runes that are no control
  characters (no escape, no carriage return, no invalid byte), provided printable ASCII is graphic; and nothing else is touched: every text that is the
  UTF-8 of such runes, of any script, is shown as it is, a line shown once among them.\<close>

theorem Visible_safe:
  assumes "\<forall>r. 32 \<le> r \<and> r \<le> 126 \<longrightarrow> is_graphic r"
  shows "list_all (showable is_graphic) (text_runes (Visible is_graphic line)) \<and>
    (list_all (\<lambda>r. scalar r \<and> showable is_graphic r) rs \<longrightarrow>
       Visible is_graphic (concat (map encode_rune rs)) = concat (map encode_rune rs)) \<and>
    Visible is_graphic (Visible is_graphic line) = Visible is_graphic line"
proof -
  have v: "all_runes (showable is_graphic) (Visible is_graphic line)" by (rule Visible_runes) (use assms in blast)
  have "all_runes (showable is_graphic) (concat (map encode_rune rs))" if "list_all (\<lambda>r. scalar r \<and> showable is_graphic r) rs"
    using that by (auto simp: all_runes_def)
  then show ?thesis using all_runes_text [OF v] Visible_showable [OF v] Visible_showable by blast
qed

theorem Visible_safe_witness:
  "list_all (showable (\<lambda>r. 32 \<le> r \<and> r \<le> 126)) (text_runes (Visible (\<lambda>r. 32 \<le> r \<and> r \<le> 126) [27, 91, 50, 74])) \<and>
   Visible (\<lambda>r. 32 \<le> r \<and> r \<le> 126) [27, 91, 50, 74] = [92, 120, 49, 98, 91, 50, 74] \<and>
   Visible (\<lambda>r. 32 \<le> r \<and> r \<le> 126 \<or> r = 233) [195, 169] = [195, 169]"
proof -
  let ?g = "\<lambda>r. 32 \<le> r \<and> r \<le> (126 :: nat)"
  have "Visible ?g [27, 91, 50, 74] = [92, 120, 49, 98, 91, 50, 74]"
    by (simp add: Visible.simps decode_rune_def shown_rune_def hex_digit_def encode_rune_def runeError_def)
  moreover have "concat (map encode_rune [233]) = [195, 169]" by (simp add: encode_rune_def)
  moreover have "list_all (\<lambda>r. scalar r \<and> showable (\<lambda>r. 32 \<le> r \<and> r \<le> 126 \<or> r = 233) r) [233]" by (simp add: scalar_def showable_def)
  ultimately show ?thesis using Visible_safe [of ?g "[27, 91, 50, 74]"] Visible_safe [of "\<lambda>r. 32 \<le> r \<and> r \<le> 126 \<or> r = 233" "[]" "[233]"] by simp
qed

section \<open>Answering a prompt\<close>

lemma ask_loop_choice: "ask_loop choices q = (Inr k, q') \<Longrightarrow> k \<in> set choices"
proof (induction choices q rule: ask_loop.induct)
  case (1 choices q)
  obtain x q1 where k: "Input_Key q = (x, q1)" by (rule prod.exhaust)
  with 1 show ?case by (cases x) (auto simp: ask_loop.simps [of choices q] split: if_splits)
qed

lemma Input_Ask_choice: "Input_Ask choices q = (Inr k, q') \<Longrightarrow> k \<in> set choices"
  unfolding Input_Ask_def by (rule ask_loop_choice)

lemma Input_Key_keys: "in_keys q \<Longrightarrow> in_raw q = [] \<Longrightarrow> read_rune q = (Inr r, q1) \<Longrightarrow> r = 27 \<Longrightarrow>
    Input_Key q = (Inr 0, q1\<lparr>in_buffer := input_escape (in_buffer q1)\<rparr>)"
proof -
  assume a: "in_keys q" "in_raw q = []" "read_rune q = (Inr r, q1)" "r = 27"
  have u: "q\<lparr>in_raw := tl (in_raw q)\<rparr> = q" using a(2) by (cases q) simp
  have n: "\<nexists>e rest. in_raw q = Some e # rest" using a(2) by simp
  show ?thesis unfolding Input_Key_raw [OF a(1) n] u a(3,4) by (simp add: key_rune_def)
qed

lemma read_rune_fill: "in_buffer q = [] \<Longrightarrow> in_error q = None \<Longrightarrow> read_rune q = read_rune (input_fill q)"
  by (simp add: read_rune.simps [of q] full_rune_def)

lemma read_rune_ascii: "in_buffer q = b # t \<Longrightarrow> unat b < 128 \<Longrightarrow> read_rune q = (Inr (unat b), q\<lparr>in_buffer := t\<rparr>)"
  using decode_ascii [of "unat b" t] by (simp add: read_rune.simps [of q] full_rune_def rune_width_def Let_def)

lemma escape_tail_skip: "list_all (\<lambda>b. \<not> (64 \<le> unat b \<and> unat b \<le> 126)) ps' \<Longrightarrow> 64 \<le> unat f \<Longrightarrow> unat f \<le> 126 \<Longrightarrow>
    escape_tail (ps' @ f # extra) = extra"
  by (induction ps') auto

lemma Input_Key_buffered:
  "in_keys q \<Longrightarrow> in_buffer q = [] \<Longrightarrow> in_error q = None \<Longrightarrow> in_coming q = Inr extra # rest \<Longrightarrow> in_raw q = [] \<Longrightarrow>
   Input_Key q = Input_Key (q\<lparr>in_buffer := extra, in_coming := rest\<rparr>)"
proof -
  assume q: "in_keys q" "in_buffer q = []" "in_error q = None" "in_coming q = Inr extra # rest" "in_raw q = []"
  let ?q = "q\<lparr>in_buffer := extra, in_coming := rest\<rparr>"
  have "read_rune (q\<lparr>in_raw := tl (in_raw q)\<rparr>) = read_rune (input_fill (q\<lparr>in_raw := tl (in_raw q)\<rparr>))" by (rule read_rune_fill) (simp_all add: q)
  also have "input_fill (q\<lparr>in_raw := tl (in_raw q)\<rparr>) = ?q\<lparr>in_raw := tl (in_raw q)\<rparr>" using q by (simp add: input_fill_def)
  finally show ?thesis using q unfolding Input_Key_def by simp
qed

lemma ask_loop_key: "Input_Key q = Input_Key q2 \<Longrightarrow> ask_loop choices q = ask_loop choices q2"
  by (simp add: ask_loop.simps [of choices q] ask_loop.simps [of choices q2])

lemma ask_loop_escape:
  assumes q: "in_keys q" "in_raw q = []" "in_buffer q = []" "in_error q = None" "in_coming q = Inr (27 # b # ps' @ f # extra) # rest"
    and b: "b = 91 \<or> b = 79"
    and s: "list_all (\<lambda>b. \<not> (64 \<le> unat b \<and> unat b \<le> 126)) ps'" "64 \<le> unat f" "unat f \<le> 126" and z: "0 \<notin> set choices"
  shows "ask_loop choices q = ask_loop choices (q\<lparr>in_coming := Inr extra # rest\<rparr>)"
proof -
  let ?t = "b # ps' @ f # extra" and ?q = "q\<lparr>in_buffer := extra, in_coming := rest\<rparr>"
  have "read_rune q = (Inr 27, q\<lparr>in_buffer := ?t, in_coming := rest\<rparr>)"
    using read_rune_fill [OF q(3,4)] read_rune_ascii [of "input_fill q" 27 ?t] q by (simp add: input_fill_def)
  from Input_Key_keys [OF q(1,2) this refl] have k: "Input_Key q = (Inr 0, ?q)"
    using b escape_tail_skip [OF s, of extra] by (auto simp: input_escape_def)
  have "ask_loop choices q = ask_loop choices ?q" using z by (simp add: ask_loop.simps [of choices q] k)
  also have "\<dots> = ask_loop choices (q\<lparr>in_coming := Inr extra # rest\<rparr>)"
    by (rule ask_loop_key, rule sym) (use q Input_Key_buffered [of "q\<lparr>in_coming := Inr extra # rest\<rparr>" extra rest] in simp)
  finally show ?thesis .
qed

text \<open>C37. A prompt on a terminal that hands over single keys is not answered by what was read ahead: an answer is one of the choices; what was buffered before
  the prompt, whatever it is, has no part in it; and an arrow or function key (escape, \<^verbatim>\<open>[\<close> or \<^verbatim>\<open>O\<close>, parameters, a final byte) that arrives in one read
  does nothing at all, the prompt goes on as if it had not been pressed, though its bytes may include letters that are choices. Keys still queued in
  the terminal may answer, and where whole lines are read instead, buffered lines are the answers.\<close>

theorem Ask_deliberate:
  assumes "in_keys q" "0 \<notin> set choices"
  shows "(Input_Ask choices q = (Inr k, q') \<longrightarrow> k \<in> set choices) \<and>
    Input_Ask choices (q\<lparr>in_buffer := ahead\<rparr>) = Input_Ask choices q \<and>
    (in_raw q = [] \<and> in_error q = None \<and> in_coming q = Inr (27 # b # params @ f # extra) # rest \<and> (b = 91 \<or> b = 79) \<and>
       list_all (\<lambda>c. \<not> (64 \<le> unat c \<and> unat c \<le> 126)) params \<and> 64 \<le> unat f \<and> unat f \<le> 126 \<longrightarrow>
     Input_Ask choices q = Input_Ask choices (q\<lparr>in_coming := Inr extra # rest\<rparr>))"
proof (intro conjI impI)
  show "k \<in> set choices" if "Input_Ask choices q = (Inr k, q')" using that by (rule Input_Ask_choice)
  show "Input_Ask choices (q\<lparr>in_buffer := ahead\<rparr>) = Input_Ask choices q" using assms(1) by (simp add: Input_Ask_def)
next
  assume a: "in_raw q = [] \<and> in_error q = None \<and> in_coming q = Inr (27 # b # params @ f # extra) # rest \<and> (b = 91 \<or> b = 79) \<and>
       list_all (\<lambda>c. \<not> (64 \<le> unat c \<and> unat c \<le> 126)) params \<and> 64 \<le> unat f \<and> unat f \<le> 126"
  show "Input_Ask choices q = Input_Ask choices (q\<lparr>in_coming := Inr extra # rest\<rparr>)"
    unfolding Input_Ask_def using ask_loop_escape [of "q\<lparr>in_buffer := []\<rparr>" b params f extra rest choices] a assms
    by (cases q) simp
qed

theorem Ask_deliberate_witness:
  "let q = \<lparr>in_keys = True, in_buffer = [115], in_error = None, in_coming = [Inr [27, 91, 97, 115]], in_raw = []\<rparr> in
   Input_Ask [115, 97] q = Input_Ask [115, 97] (q\<lparr>in_coming := [Inr [115]]\<rparr>) \<and> fst (Input_Ask [115, 97] (q\<lparr>in_coming := [Inr [115]]\<rparr>)) = Inr 115"
proof -
  let ?q = "\<lparr>in_keys = True, in_buffer = [115], in_error = None, in_coming = [Inr [27, 91, 97, 115]], in_raw = []\<rparr> :: keyInput"
  have "Input_Ask [115, 97] ?q = Input_Ask [115, 97] (?q\<lparr>in_coming := [Inr [115]]\<rparr>)"
    using Ask_deliberate [of ?q "[115, 97]" 0 ?q "[]" 91 "[]" 97 "[115]" "[]"] by simp
  moreover have "fst (Input_Ask [115, 97] (?q\<lparr>in_coming := [Inr [115]]\<rparr>)) = Inr 115"
    using read_rune_fill [of "\<lparr>in_keys = True, in_buffer = [], in_error = None, in_coming = [Inr [115]], in_raw = []\<rparr>"]
    by (simp add: Input_Ask_def ask_loop.simps Input_Key_def key_rune_def input_fill_def read_rune_ascii)
  ultimately show ?thesis unfolding Let_def by blast
qed

section \<open>Where an answer comes from\<close>

text \<open>The bytes the reads to come deliver, and with them those already buffered.\<close>

definition coming_bytes :: "keyInput \<Rightarrow> byte set" where
  "coming_bytes q = (\<Union>c \<in> set (in_coming q). case c of Inl _ \<Rightarrow> {} | Inr b \<Rightarrow> set b)"

definition input_bytes :: "keyInput \<Rightarrow> byte set" where
  "input_bytes q = set (in_buffer q) \<union> coming_bytes q"

definition reads_on :: "keyInput \<Rightarrow> keyInput \<Rightarrow> bool" where
  "reads_on q q' \<longleftrightarrow> in_keys q' = in_keys q \<and> input_bytes q' \<subseteq> input_bytes q \<and> coming_bytes q' \<subseteq> coming_bytes q"

lemma reads_on_refl: "reads_on q q" by (simp add: reads_on_def)

lemma reads_on_trans: "reads_on q q1 \<Longrightarrow> reads_on q1 q2 \<Longrightarrow> reads_on q q2" by (auto simp: reads_on_def)

lemma reads_on_drop: "set b \<subseteq> set (in_buffer q) \<Longrightarrow> reads_on q (q\<lparr>in_buffer := b\<rparr>)"
  by (auto simp: reads_on_def input_bytes_def coming_bytes_def)

lemma reads_on_fill: "reads_on q (input_fill q)"
  by (auto simp: reads_on_def input_bytes_def coming_bytes_def input_fill_def split: list.splits sum.splits)

lemma decode_low: "b \<noteq> [] \<Longrightarrow> decode_rune b = (r, sz) \<Longrightarrow> r < 128 \<Longrightarrow> hd b = of_nat r"
proof -
  assume b: "b \<noteq> []" and d: "decode_rune b = (r, sz)" and r: "r < 128"
  define x y where "x = unat (hd b)" and "y = unat (b ! 1)"
  note u = x_def [symmetric] y_def [symmetric]
  from b d show ?thesis
  proof (cases rule: decode_cases)
    case 3
    have x: "194 \<le> x" "x \<le> 223" using 3(1) unfolding u by (auto simp: rune_width_def split: if_splits)
    have "x mod 32 = x - 192" using low_bits(2) [of "x - 192"] x by simp
    then have "128 \<le> r" using 3(2) x unfolding u by simp
    with r show ?thesis by simp
  next
    case 4
    have x: "224 \<le> x" "x \<le> 239" using 4(1) unfolding u by (auto simp: rune_width_def split: if_splits)
    have xm: "x mod 16 = x - 224" using low_bits(3) [of "x - 224"] x by simp
    have y: "128 \<le> y" "y < 192" "x = 224 \<Longrightarrow> 160 \<le> y" using 4(2) unfolding u second_ok_def by (auto split: if_splits)
    have e: "r = (x - 224) * 4096 + (y - 128) * 64 + unat (b ! 2) mod 64" using 4(3) xm cont_low [OF y(1,2)] unfolding u by simp
    have "128 \<le> r" by (cases "x = 224") (use e x y(3) in linarith)+
    with r show ?thesis by simp
  next
    case 5
    have x: "240 \<le> x" "x \<le> 244" using 5(1) unfolding u by (auto simp: rune_width_def split: if_splits)
    have xm: "x mod 8 = x - 240" using low_bits(4) [of "x - 240"] x by simp
    have y: "128 \<le> y" "y < 192" "x = 240 \<Longrightarrow> 144 \<le> y" using 5(2) unfolding u second_ok_def by (auto split: if_splits)
    have e: "r = (x - 240) * 262144 + (y - 128) * 4096 + unat (b ! 2) mod 64 * 64 + unat (b ! 3) mod 64"
      using 5(3) xm cont_low [OF y(1,2)] unfolding u by simp
    have "128 \<le> r" by (cases "x = 240") (use e x y(3) in linarith)+
    with r show ?thesis by simp
  qed (use r in \<open>simp_all add: runeError_def\<close>)
qed

lemma read_rune_from:
  "read_rune q = (x, q') \<Longrightarrow> reads_on q q' \<and> (\<forall>r. x = Inr r \<and> r < 128 \<longrightarrow> of_nat r \<in> input_bytes q)"
proof (induction q rule: read_rune.induct)
  case (1 q)
  show ?case
  proof (cases "\<not> full_rune (in_buffer q) \<and> in_error q = None")
    case True
    with 1(2) have "read_rune (input_fill q) = (x, q')" by (simp add: read_rune.simps [of q])
    from 1(1) [OF True this] reads_on_fill [of q] show ?thesis using reads_on_trans unfolding reads_on_def by blast
  next
    case False
    obtain r sz where d: "decode_rune (in_buffer q) = (r, sz)" by (rule prod.exhaust)
    show ?thesis
    proof (cases "in_buffer q = []")
      case True
      with False 1(2) have "x = Inl (the (in_error q))" "q' = q\<lparr>in_error := None\<rparr>" by (auto simp: read_rune.simps [of q])
      then show ?thesis by (simp add: reads_on_def input_bytes_def coming_bytes_def)
    next
      case ne: False
      with False 1(2) d have x: "x = Inr r" and q': "q' = q\<lparr>in_buffer := drop sz (in_buffer q)\<rparr>" by (auto simp: read_rune.simps [of q])
      have "of_nat r \<in> input_bytes q" if "r < 128" using decode_low [OF ne d that] ne hd_in_set [OF ne] by (simp add: input_bytes_def)
      then show ?thesis using x q' reads_on_drop [OF set_drop_subset] by simp
    qed
  qed
qed

lemma escape_tail_set: "set (escape_tail b) \<subseteq> set b"
  by (induction b rule: escape_tail.induct) auto

lemma input_escape_set: "set (input_escape b) \<subseteq> set b"
  using escape_tail_set [of "tl b"] by (cases b) (auto simp: input_escape_def)

lemma key_rune_from:
  "key_rune (y, q1) = (x, q') \<Longrightarrow>
   (q' = q1 \<or> q' = q1\<lparr>in_buffer := input_escape (in_buffer q1)\<rparr>) \<and> (\<forall>r. x = Inr r \<and> 32 \<le> r \<longrightarrow> y = Inr r)"
  by (cases y) (auto simp: key_rune_def split: if_splits)

lemma Input_Key_from:
  assumes k: "in_keys q" and r: "Input_Key q = (x, q')"
  shows "reads_on q q' \<and> (\<forall>r. x = Inr r \<and> 32 \<le> r \<and> r < 127 \<longrightarrow> of_nat r \<in> input_bytes q)"
proof (cases "\<exists>e rest. in_raw q = Some e # rest")
  case True
  then obtain e rest where e: "in_raw q = Some e # rest" by blast
  with k r have "x = Inl e" "q' = q\<lparr>in_raw := rest\<rparr>" by (simp_all add: Input_Key_def)
  then show ?thesis by (simp add: reads_on_def input_bytes_def coming_bytes_def)
next
  case False
  let ?q = "q\<lparr>in_raw := tl (in_raw q)\<rparr>"
  obtain y q1 where s: "read_rune ?q = (y, q1)" by (rule prod.exhaust)
  have q: "reads_on q ?q" "input_bytes ?q = input_bytes q" by (simp_all add: reads_on_def input_bytes_def coming_bytes_def)
  note f = read_rune_from [OF s, unfolded q(2)]
  have e: "Input_Key q = key_rune (y, q1)" using Input_Key_raw [OF k False] s by simp
  have "reads_on q q1" using reads_on_trans [OF q(1)] f by blast
  moreover have "reads_on q1 (q1\<lparr>in_buffer := input_escape (in_buffer q1)\<rparr>)" by (rule reads_on_drop [OF input_escape_set])
  ultimately have "reads_on q q'" using key_rune_from [OF r [unfolded e]] reads_on_trans by blast
  moreover have "of_nat k \<in> input_bytes q" if u: "x = Inr k" "32 \<le> k" "k < 127" for k
  proof -
    have "y = Inr k" using key_rune_from [OF r [unfolded e]] u(1,2) by blast
    moreover have "k < 128" using u(3) by simp
    ultimately show ?thesis using f by blast
  qed
  ultimately show ?thesis by blast
qed

lemma ask_loop_from:
  "ask_loop choices q = (x, q') \<Longrightarrow> in_keys q \<Longrightarrow> reads_on q q' \<and> (\<forall>r. x = Inr r \<and> 32 \<le> r \<and> r < 127 \<longrightarrow> of_nat r \<in> input_bytes q)"
proof (induction choices q rule: ask_loop.induct)
  case (1 choices q)
  obtain y q1 where k: "Input_Key q = (y, q1)" by (rule prod.exhaust)
  note f = Input_Key_from [OF 1(3) k]
  show ?case
  proof (cases "\<exists>c. y = Inr c \<and> c \<notin> set choices")
    case True
    then obtain c where c: "y = Inr c" "c \<notin> set choices" by blast
    with 1(2) k have a: "ask_loop choices q1 = (x, q')" by (simp add: ask_loop.simps [of choices q])
    have keys: "in_keys q1" using f 1(3) by (simp add: reads_on_def)
    from 1(1) [OF k [symmetric] c a keys] f reads_on_trans [of q q1 q'] show ?thesis unfolding reads_on_def by blast
  next
    case False
    with 1(2) k have "x = y" "q' = q1" by (auto simp: ask_loop.simps [of choices q] split: sum.splits if_splits)
    with f show ?thesis by simp
  qed
qed

lemma Input_Ask_from:
  assumes a: "Input_Ask choices q = (x, q')" and k: "in_keys q"
  shows "reads_on q q' \<and> (\<forall>r. x = Inr r \<and> 32 \<le> r \<and> r < 127 \<longrightarrow> of_nat r \<in> coming_bytes q)"
proof -
  let ?q = "q\<lparr>in_buffer := []\<rparr>"
  have "ask_loop choices ?q = (x, q')" "in_keys ?q" using a k by (simp_all add: Input_Ask_def)
  from ask_loop_from [OF this] have f: "reads_on ?q q'" "\<forall>r. x = Inr r \<and> 32 \<le> r \<and> r < 127 \<longrightarrow> of_nat r \<in> input_bytes ?q" by blast+
  have "input_bytes ?q = coming_bytes q" by (simp add: input_bytes_def coming_bytes_def)
  with f(2) reads_on_trans [OF reads_on_drop f(1)] show ?thesis by simp
qed

text \<open>A prompt of a session that has ended is not answered by what is typed afterwards; where nothing was read before, it returns what ended the session.\<close>

lemma Until_answer:
  assumes "Input_Ask choices (Input_Until (Some n) cause q) = (Inr r, q')" "in_keys q" "32 \<le> r" "r < 127"
  shows "\<exists>b. Inr b \<in> set (take n (in_coming q)) \<and> of_nat r \<in> set b"
proof -
  have "in_keys (Input_Until (Some n) cause q)" using assms(2) by (simp add: Input_Until_def)
  with Input_Ask_from [OF assms(1)] assms(3,4) have "of_nat r \<in> coming_bytes (Input_Until (Some n) cause q)" by blast
  then obtain x where x: "x \<in> set (take n (in_coming q)) \<or> x = Inl cause" "of_nat r \<in> (case x of Inl _ \<Rightarrow> {} | Inr b \<Rightarrow> set b)"
    by (auto simp: coming_bytes_def Input_Until_def)
  then show ?thesis by (cases x) auto
qed

lemma Until_ended:
  assumes "in_keys q" "in_raw q = []"
  shows "fst (Input_Ask choices (Input_Until (Some 0) cause q)) = Inl cause"
proof -
  let ?q = "Input_Until (Some 0) cause q"
  have "Input_Key (?q\<lparr>in_buffer := []\<rparr>) = (Inl cause, ?q\<lparr>in_coming := tl (in_coming ?q)\<rparr>)"
    using assms by (simp add: Input_Key_def Input_Until_def read_rune.simps [of "_ :: keyInput"] input_fill_def full_rune_def key_rune_def)
  then show ?thesis using assms by (simp add: Input_Ask_def Input_Until_def ask_loop.simps)
qed

lemma page_loop_from: "page_loop n i lines q = (x, q') \<Longrightarrow> in_keys q \<Longrightarrow> reads_on q q'"
proof (induction n i lines q rule: page_loop.induct)
  case (2 n i line lines q)
  obtain y q1 where k: "Input_Key q = (y, q1)" by (rule prod.exhaust)
  have f: "reads_on q q1" using Input_Key_from [OF 2(4) k] by blast
  then have keys: "in_keys q1" using 2(4) by (simp add: reads_on_def)
  show ?case
  proof (cases "Suc i mod n = 0 \<and> lines \<noteq> []")
    case True
    show ?thesis
    proof (cases "\<exists>c. y = Inr c \<and> c \<noteq> 113")
      case c: True
      then obtain c where c: "y = Inr c" "c \<noteq> 113" by blast
      then have "page_loop n (Suc i) lines q1 = (x, q')" using 2(3) True k by simp
      from reads_on_trans [OF f 2(1) [OF True k [symmetric] c(1) c(2) this keys]] show ?thesis .
    next
      case False
      then have "q' = q1" using 2(3) True k by (auto split: sum.splits if_splits)
      with f show ?thesis by simp
    qed
  next
    case False
    then show ?thesis using 2(2) [OF False _ 2(4)] 2(3) by (simp split: if_splits)
  qed
qed (simp add: reads_on_refl)

end
