(* ===== verification/Local_Copy.thy ===== *)
theory Local_Copy
  imports Screen Collect_Proofs
begin

text \<open>
  The local copies a run keeps (\<^verbatim>\<open>internal/collect/local.go\<close>), their pruning (\<^verbatim>\<open>Prune\<close> of \<^verbatim>\<open>internal/collect/options.go\<close>) and how \<^verbatim>\<open>aken reveal\<close>
  undoes the redaction from them (\<^verbatim>\<open>cmd/aken/reveal.go\<close>). The state directory is its two listings; every operation of the file system can fail, and JSON and
  the text of times are parameters.
\<close>

section \<open>The state directory\<close>

record copy_file =
  cf_data :: bytes
  cf_mode :: nat

type_synonym copy_dir = "(string \<times> copy_file) list"

datatype dir_entry = PlainFile | SubDir copy_dir

type_synonym listing = "(string \<times> dir_entry) list"

text \<open>The directories \<^verbatim>\<open>runs\<close> and \<^verbatim>\<open>sessions\<close>, where they exist.\<close>

record state_dir =
  sd_runs :: "listing option"
  sd_sessions :: "listing option"

section \<open>Writing a copy\<close>

datatype copy_op = OpMkdirAll | OpMkdir | OpEncode string | OpOpenRoot | OpOpen string | OpWrite string | OpChmod string | OpClose string

text \<open>How an operation fails: its error, and for a write how many bytes it wrote.\<close>

type_synonym copy_fault = "copy_op \<Rightarrow> (string \<times> nat) option"

definition errExist :: string where "errExist = ''file exists''"

definition write_copy_file :: "copy_fault \<Rightarrow> string \<Rightarrow> bytes \<Rightarrow> copy_dir \<Rightarrow> string option \<times> copy_dir" where
  "write_copy_file fault name data d =
     (case fault (OpOpen name) of
        Some (e, _) \<Rightarrow> (Some e, d)
      | None \<Rightarrow>
          if name \<in> fst ` set d then (Some errExist, d)
          else
            (case (case fault (OpWrite name) of
                     Some (e, n) \<Rightarrow> (Some e, \<lparr>cf_data = take n data, cf_mode = 384\<rparr>)
                   | None \<Rightarrow>
                       (case fault (OpChmod name) of
                          Some (e, _) \<Rightarrow> (Some e, \<lparr>cf_data = data, cf_mode = 384\<rparr>)
                        | None \<Rightarrow> (None, \<lparr>cf_data = data, cf_mode = 256\<rparr>))) of
               (Some e, f) \<Rightarrow> (Some e, d @ [(name, f)])
             | (None, f) \<Rightarrow> (map_option fst (fault (OpClose name)), d @ [(name, f)])))"

fun write_copy_files :: "copy_fault \<Rightarrow> (string \<times> bytes) list \<Rightarrow> copy_dir \<Rightarrow> string option \<times> copy_dir" where
  "write_copy_files fault [] d = (None, d)"
| "write_copy_files fault ((name, data) # fs) d =
     (case write_copy_file fault name data d of
        (Some e, d1) \<Rightarrow> (Some e, d1)
      | (None, d1) \<Rightarrow> write_copy_files fault fs d1)"

definition copy_files :: "bytes \<Rightarrow> bytes \<Rightarrow> bytes \<Rightarrow> bytes \<Rightarrow> (string \<times> bytes) list" where
  "copy_files plaintext manifest mapped info =
     [(''artifact.txt'', plaintext), (''manifest.json'', manifest), (''mapping.json'', mapped), (''run.json'', info)]"

definition first_fault :: "copy_fault \<Rightarrow> copy_op list \<Rightarrow> string option" where
  "first_fault fault ops = (case List.find (\<lambda>x. fault x \<noteq> None) ops of None \<Rightarrow> None | Some x \<Rightarrow> map_option fst (fault x))"

text \<open>\<^verbatim>\<open>writeLocalCopy\<close> for the directory \<^verbatim>\<open>runs/name\<close>; the three values that are written as JSON come encoded.\<close>

definition writeLocalCopy :: "copy_fault \<Rightarrow> string \<Rightarrow> bytes \<Rightarrow> bytes \<Rightarrow> bytes \<Rightarrow> bytes \<Rightarrow> state_dir \<Rightarrow> string option \<times> state_dir" where
  "writeLocalCopy fault name plaintext manifest mapped info st =
     (case fault OpMkdirAll of
        Some (e, _) \<Rightarrow> (Some e, st)
      | None \<Rightarrow>
          let runs = (case sd_runs st of None \<Rightarrow> [] | Some l \<Rightarrow> l); st1 = st\<lparr>sd_runs := Some runs\<rparr> in
          (case fault OpMkdir of
             Some (e, _) \<Rightarrow> (Some e, st1)
           | None \<Rightarrow>
               if name \<in> fst ` set runs then (Some errExist, st1)
               else (case first_fault fault [OpEncode ''manifest'', OpEncode ''mapping'', OpEncode ''run'', OpOpenRoot] of
                       Some e \<Rightarrow> (Some e, st\<lparr>sd_runs := Some (runs @ [(name, SubDir [])])\<rparr>)
                     | None \<Rightarrow>
                         (case write_copy_files fault (copy_files plaintext manifest mapped info) [] of
                            (err, d) \<Rightarrow> (err, st\<lparr>sd_runs := Some (runs @ [(name, SubDir d)])\<rparr>)))))"

section \<open>Pruning\<close>

text \<open>
  The loop of \<^verbatim>\<open>Prune\<close> over the entries in the order of their names: what is left, or the error at which it stopped. \<open>stamp\<close> reads the time in the first 16
  characters, \<open>remove\<close> is the error of removing a directory, which then stays.
\<close>

definition prunes :: "(string \<Rightarrow> time option) \<Rightarrow> time \<Rightarrow> string \<times> dir_entry \<Rightarrow> bool" where
  "prunes stamp olderThan x =
     (snd x \<noteq> PlainFile \<and> length (fst x) \<ge> 16 \<and> (case stamp (take 16 (fst x)) of None \<Rightarrow> False | Some t \<Rightarrow> t < olderThan))"

fun prune_loop :: "(string \<Rightarrow> time option) \<Rightarrow> (string \<Rightarrow> string option) \<Rightarrow> time \<Rightarrow> listing \<Rightarrow> string option \<times> listing" where
  "prune_loop stamp remove olderThan [] = (None, [])"
| "prune_loop stamp remove olderThan (x # xs) =
     (if prunes stamp olderThan x then
        (case remove (fst x) of
           Some e \<Rightarrow> (Some e, x # xs)
         | None \<Rightarrow> prune_loop stamp remove olderThan xs)
      else (case prune_loop stamp remove olderThan xs of (e, ys) \<Rightarrow> (e, x # ys)))"

definition Prune_copies ::
  "(string \<Rightarrow> time option) \<Rightarrow> (string \<Rightarrow> string option) \<Rightarrow> string option \<Rightarrow> time \<Rightarrow> listing option \<Rightarrow> string option \<times> listing option" where
  "Prune_copies stamp remove unreadable olderThan runs =
     (case runs of
        None \<Rightarrow> (None, None)
      | Some l \<Rightarrow>
          (case unreadable of
             Some e \<Rightarrow> (Some e, Some l)
           | None \<Rightarrow> map_prod id Some (prune_loop stamp remove olderThan (sort_key fst l))))"

text \<open>The name of a run's directory.\<close>

definition run_name :: "(time \<Rightarrow> string) \<Rightarrow> time \<Rightarrow> sessionID \<Rightarrow> string" where
  "run_name fmt created i = fmt created @ ''-'' @ take 8 (SessionID_String i)"

section \<open>Revealing\<close>



















section \<open>A copy is written once\<close>

definition run_entry :: "state_dir \<Rightarrow> string \<Rightarrow> dir_entry option" where
  "run_entry st n = (case sd_runs st of None \<Rightarrow> None | Some l \<Rightarrow> map_of l n)"

lemma write_copy_file_ok:
  "write_copy_file fault name data d = (None, d') \<Longrightarrow> d' = d @ [(name, \<lparr>cf_data = data, cf_mode = 256\<rparr>)]"
  by (auto simp: write_copy_file_def split: option.splits if_splits prod.splits)

lemma write_copy_file_can:
  "(\<And>x. fault x = None) \<Longrightarrow> name \<notin> fst ` set d \<Longrightarrow> write_copy_file fault name data d = (None, d @ [(name, \<lparr>cf_data = data, cf_mode = 256\<rparr>)])"
  by (simp add: write_copy_file_def)

lemma write_copy_files_ok:
  "write_copy_files fault fs d = (None, d') \<Longrightarrow> d' = d @ map (map_prod id (\<lambda>b. \<lparr>cf_data = b, cf_mode = 256\<rparr>)) fs"
proof (induction fs arbitrary: d)
  case (Cons x fs)
  obtain name data where x: "x = (name, data)" by (rule prod.exhaust)
  obtain e d1 where w: "write_copy_file fault name data d = (e, d1)" by (rule prod.exhaust)
  with Cons(2) x have e: "e = None" and r: "write_copy_files fault fs d1 = (None, d')" by (auto split: option.splits)
  from Cons(1) [OF r] write_copy_file_ok w e x show ?case by simp
qed simp

lemma write_copy_files_can:
  "(\<And>x. fault x = None) \<Longrightarrow> distinct (map fst fs) \<Longrightarrow> fst ` set fs \<inter> fst ` set d = {} \<Longrightarrow> fst (write_copy_files fault fs d) = None"
  by (induction fs arbitrary: d) (auto simp: write_copy_file_can split: prod.splits)

definition copy_of :: "bytes \<Rightarrow> bytes \<Rightarrow> bytes \<Rightarrow> bytes \<Rightarrow> copy_dir" where
  "copy_of plaintext manifest mapped info = map (map_prod id (\<lambda>b. \<lparr>cf_data = b, cf_mode = 256\<rparr>)) (copy_files plaintext manifest mapped info)"

lemma writeLocalCopy_cases:
  assumes "writeLocalCopy fault name plaintext manifest mapped info st = (err, st')"
  obtains "st' = st" "err \<noteq> None"
  | "st' = st\<lparr>sd_runs := Some (case sd_runs st of None \<Rightarrow> [] | Some l \<Rightarrow> l)\<rparr>" "err \<noteq> None"
  | d where "run_entry st name = None" "st' = st\<lparr>sd_runs := Some ((case sd_runs st of None \<Rightarrow> [] | Some l \<Rightarrow> l) @ [(name, SubDir d)])\<rparr>"
      "err = None \<Longrightarrow> d = copy_of plaintext manifest mapped info"
proof -
  define runs where "runs = (case sd_runs st of None \<Rightarrow> [] | Some l \<Rightarrow> l)"
  have n: "run_entry st name = None" if "name \<notin> fst ` set runs"
    using that by (auto simp: run_entry_def runs_def map_of_eq_None_iff split: option.splits)
  note that = that [folded runs_def]
  show thesis
  proof (cases "fault OpMkdirAll = None \<and> fault OpMkdir = None \<and> name \<notin> fst ` set runs")
    case False
    with assms have "st' = st \<and> err \<noteq> None \<or> st' = st\<lparr>sd_runs := Some runs\<rparr> \<and> err \<noteq> None"
      by (auto simp: writeLocalCopy_def runs_def [symmetric] Let_def split: option.splits if_splits)
    then show thesis using that(1,2) by blast
  next
    case True
    define ff where "ff = first_fault fault [OpEncode ''manifest'', OpEncode ''mapping'', OpEncode ''run'', OpOpenRoot]"
    obtain e d where w: "write_copy_files fault (copy_files plaintext manifest mapped info) [] = (e, d)" by (rule prod.exhaust)
    from assms True have r: "(err, st') = (case ff of Some e \<Rightarrow> (Some e, st\<lparr>sd_runs := Some (runs @ [(name, SubDir [])])\<rparr>)
        | None \<Rightarrow> (e, st\<lparr>sd_runs := Some (runs @ [(name, SubDir d)])\<rparr>))"
      by (cases ff) (auto simp: writeLocalCopy_def runs_def [symmetric] ff_def [symmetric] Let_def w)
    have ok: "d = copy_of plaintext manifest mapped info" if "e = None"
      using write_copy_files_ok [OF w [unfolded that]] by (simp add: copy_of_def)
    show thesis using that(3) [OF n] True r ok by (cases ff) auto
  qed
qed

lemma writeLocalCopy_can:
  assumes "\<And>x. fault x = None" "run_entry st name = None"
  shows "fst (writeLocalCopy fault name plaintext manifest mapped info st) = None"
proof -
  have "name \<notin> fst ` set (case sd_runs st of None \<Rightarrow> [] | Some l \<Rightarrow> l)"
    using assms(2) by (auto simp: run_entry_def map_of_eq_None_iff split: option.splits)
  moreover have "fst (write_copy_files fault (copy_files plaintext manifest mapped info) []) = None"
    by (rule write_copy_files_can) (simp_all add: assms(1) copy_files_def)
  ultimately show ?thesis by (simp add: writeLocalCopy_def assms(1) first_fault_def Let_def case_prod_beta)
qed

text \<open>C38. Writing a local copy never touches another one: whatever fails on the way, every directory that was there, one of the same name included, stays as it was;
  the call succeeds only for a name that was free, and then the directory has the four files with the text, the manifest, the mapping and the run, all
  read-only; and with a free name and no failing operation it does succeed.\<close>

theorem writeLocalCopy_exclusive:
  assumes "writeLocalCopy fault name plaintext manifest mapped info st = (err, st')"
  shows "sd_sessions st' = sd_sessions st \<and>
    (\<forall>n. n \<noteq> name \<or> run_entry st n \<noteq> None \<longrightarrow> run_entry st' n = run_entry st n) \<and>
    (err = None \<longrightarrow> run_entry st name = None \<and> run_entry st' name = Some (SubDir (copy_of plaintext manifest mapped info))) \<and>
    ((\<forall>x. fault x = None) \<and> run_entry st name = None \<longrightarrow> err = None)"
proof -
  have "err = None" if "\<forall>x. fault x = None" "run_entry st name = None"
    using writeLocalCopy_can [of fault st name plaintext manifest mapped info] that assms by simp
  moreover have "sd_sessions st' = sd_sessions st \<and> (\<forall>n. n \<noteq> name \<or> run_entry st n \<noteq> None \<longrightarrow> run_entry st' n = run_entry st n) \<and>
    (err = None \<longrightarrow> run_entry st name = None \<and> run_entry st' name = Some (SubDir (copy_of plaintext manifest mapped info)))"
    using assms
  proof (cases rule: writeLocalCopy_cases)
    case (3 d)
    let ?runs = "case sd_runs st of None \<Rightarrow> [] | Some l \<Rightarrow> l"
    have m: "map_of ?runs = run_entry st" by (auto simp: run_entry_def fun_eq_iff split: option.splits)
    have e: "run_entry st' = (\<lambda>n. if n = name then Some (SubDir d) else run_entry st n)"
    proof
      fix n
      have "run_entry st' n = map_of (?runs @ [(name, SubDir d)]) n" unfolding 3(2) by (simp add: run_entry_def)
      then show "run_entry st' n = (if n = name then Some (SubDir d) else run_entry st n)" using 3(1) m by (auto simp: map_add_def split: option.splits)
    qed
    have "sd_sessions st' = sd_sessions st" using 3(2) by simp
    then show ?thesis using e 3(1,3) by simp
  qed (auto simp: run_entry_def split: option.splits)
  ultimately show ?thesis by blast
qed

theorem writeLocalCopy_exclusive_witness:
  "fst (writeLocalCopy (\<lambda>_. None) ''a'' [1] [2] [3] [4] \<lparr>sd_runs = Some [(''b'', PlainFile)], sd_sessions = None\<rparr>) = None \<and>
   run_entry (snd (writeLocalCopy (\<lambda>_. None) ''a'' [1] [2] [3] [4] \<lparr>sd_runs = Some [(''b'', PlainFile)], sd_sessions = None\<rparr>)) ''b'' = Some PlainFile"
  using writeLocalCopy_exclusive [of "\<lambda>_. None" "''a''" "[1]" "[2]" "[3]" "[4]" "\<lparr>sd_runs = Some [(''b'', PlainFile)], sd_sessions = None\<rparr>", OF surjective_pairing]
  by (simp add: run_entry_def)

section \<open>Pruning removes what is old\<close>

lemma prune_loop_spec:
  "prune_loop stamp remove olderThan xs = (e, ys) \<Longrightarrow>
   set ys \<subseteq> set xs \<and> (\<forall>x \<in> set xs. \<not> prunes stamp olderThan x \<longrightarrow> x \<in> set ys) \<and> (e = None \<longrightarrow> (\<forall>y \<in> set ys. \<not> prunes stamp olderThan y)) \<and>
   ((\<forall>n. remove n = None) \<longrightarrow> e = None)"
proof (induction xs arbitrary: e ys)
  case (Cons x xs)
  obtain e' ys' where r: "prune_loop stamp remove olderThan xs = (e', ys')" by (rule prod.exhaust)
  show ?case
  proof (cases "prunes stamp olderThan x")
    case True
    with Cons(1) [OF r] Cons(2) r show ?thesis by (cases "remove (fst x)") auto
  next
    case False
    with Cons(1) [OF r] Cons(2) r show ?thesis by auto
  qed
qed simp

text \<open>Pruning deletes the local copies that are older than the retention and nothing else: of the entries of the directory exactly those go whose name starts with a
  time before the limit; files, short names and names that start with no time stay, and so does every newer copy, even when removing one fails; a copy written
  at \<open>created\<close> is spared by a limit at or before the second it was created in, and gone after a successful pruning with a later limit. The layout of the
  time in the name is a hypothesis.\<close>

lemma Prune_exact:
  assumes "Prune_copies stamp remove unreadable olderThan (Some l) = (err, Some l')"
    and "length (fmt created) = 16" "stamp (fmt created) = Some (created div second * second)"
  shows "set l' \<subseteq> set l \<and> (\<forall>x \<in> set l. \<not> prunes stamp olderThan x \<longrightarrow> x \<in> set l') \<and>
    (err = None \<longrightarrow> set l' = {x \<in> set l. \<not> prunes stamp olderThan x}) \<and>
    ((\<forall>n. remove n = None) \<and> unreadable = None \<longrightarrow> err = None) \<and>
    ((run_name fmt created i, SubDir d) \<in> set l \<longrightarrow>
       (olderThan \<le> created div second * second \<longrightarrow> (run_name fmt created i, SubDir d) \<in> set l') \<and>
       (err = None \<and> created div second * second < olderThan \<longrightarrow> (run_name fmt created i, SubDir d) \<notin> set l'))"
proof -
  have p: "prunes stamp olderThan (run_name fmt created i, SubDir d) \<longleftrightarrow> created div second * second < olderThan"
    using assms(2,3) by (simp add: prunes_def run_name_def)
  have "set l' \<subseteq> set l \<and> (\<forall>x \<in> set l. \<not> prunes stamp olderThan x \<longrightarrow> x \<in> set l') \<and> (err = None \<longrightarrow> (\<forall>y \<in> set l'. \<not> prunes stamp olderThan y)) \<and>
    ((\<forall>n. remove n = None) \<and> unreadable = None \<longrightarrow> err = None)"
  proof (cases unreadable)
    case None
    then have "prune_loop stamp remove olderThan (sort_key fst l) = (err, l')" using assms(1) by (auto simp: Prune_copies_def map_prod_def split: prod.splits)
    from prune_loop_spec [OF this] show ?thesis by simp
  next
    case (Some e)
    then show ?thesis using assms(1) by (auto simp: Prune_copies_def)
  qed
  then show ?thesis using p by (auto simp: not_less)
qed

lemma Prune_exact_witness:
  "let stamp = (\<lambda>s. if s = ''20260921T101500Z'' then Some (5 * second) else None); fmt = (\<lambda>_. ''20260921T101500Z''); x = (run_name fmt (5 * second) [], SubDir []) in
   x \<notin> set (the (snd (Prune_copies stamp (\<lambda>_. None) None (6 * second) (Some [x, (''x'', PlainFile)])))) \<and>
   x \<in> set (the (snd (Prune_copies stamp (\<lambda>_. None) None (5 * second) (Some [x, (''x'', PlainFile)]))))"
proof -
  let ?stamp = "\<lambda>s. if s = ''20260921T101500Z'' then Some (5 * second) else None" and ?fmt = "\<lambda>_ :: time. ''20260921T101500Z''"
  define x where "x = (run_name ?fmt (5 * second) [], SubDir [])"
  define p where "p t = Prune_copies ?stamp (\<lambda>_. None) None t (Some [x, (''x'', PlainFile)])" for t
  have e: "Prune_copies ?stamp (\<lambda>_. None) None t (Some [x, (''x'', PlainFile)]) = (fst (p t), Some (the (snd (p t))))" for t
    unfolding p_def by (simp add: Prune_copies_def case_prod_beta)
  have s: "5 * second < (6 * second :: int)" "5 * second div second * second = (5 * second :: int)" by (simp_all add: second_def)
  have f: "length (?fmt (5 * second)) = 16" "?stamp (?fmt (5 * second)) = Some (5 * second div second * second)" unfolding s(2) by simp_all
  note k = Prune_exact [OF e f, of _ "[]" "[]", folded x_def, unfolded s(2)]
  have x: "x \<in> set [x, (''x'', PlainFile)]" by simp
  have n: "fst (p (6 * second)) = None" using k [of "6 * second"] by blast
  have "x \<notin> set (the (snd (p (6 * second))))" using k [of "6 * second"] x n s(1) by blast
  moreover have "x \<in> set (the (snd (p (5 * second))))" using k [of "5 * second"] x by blast
  ultimately show ?thesis unfolding p_def x_def Let_def by blast
qed

section \<open>Revealing undoes the redaction\<close>


















end
