(* ===== verification/Review.thy ===== *)
theory Review
  imports Screen Collect_Proofs
begin

text \<open>
  The review screen of a collection (\<^verbatim>\<open>internal/collect/review.go\<close>): what it lists, its loop over the reviewer's keys, and the run with it. The
  summary it draws first is in \<open>Review_Summary\<close>.
\<close>

section \<open>What the reviewer can view\<close>

record screenSource =
  ss_name :: string
  ss_lines :: "string list"
  ss_flags :: "flag list"

text \<open>The sources of the screen, in the loop of \<^verbatim>\<open>Run\<close> over the sources.\<close>

fun screen_sources :: "(string \<Rightarrow> bool) \<Rightarrow> (string \<Rightarrow> bool) \<Rightarrow> engine \<Rightarrow> log_source list \<Rightarrow> screenSource list" where
  "screen_sources addr high e [] = []"
| "screen_sources addr high e (src # srcs) =
     (case Redact addr high e (s_Lines src) of (res, e') \<Rightarrow>
        \<lparr>ss_name = s_Name src, ss_lines = rd_Lines res, ss_flags = rd_Flags res\<rparr> # screen_sources addr high e' srcs)"

definition flagged_lines :: "flag list \<Rightarrow> nat set" where
  "flagged_lines fs = set (map flag_Line (filter (\<lambda>f. \<not> flag_IDShaped f) fs))"

definition review_line :: "(nat \<Rightarrow> bool) \<Rightarrow> string \<Rightarrow> nat \<Rightarrow> bool \<Rightarrow> string \<Rightarrow> bytes" where
  "review_line is_graphic name n flagged line =
     string_bytes name @ [58] @ string_bytes (show_nat n) @ [32, if flagged then 33 else 124, 32] @ Visible is_graphic (string_bytes line)"

definition source_lines :: "(nat \<Rightarrow> bool) \<Rightarrow> bool \<Rightarrow> screenSource \<Rightarrow> bytes list" where
  "source_lines is_graphic flaggedOnly src =
     (let flagged = flagged_lines (ss_flags src) in
      map (\<lambda>(i, line). review_line is_graphic (ss_name src) (Suc i) (Suc i \<in> flagged) line)
        (filter (\<lambda>(i, _). \<not> (flaggedOnly \<and> Suc i \<notin> flagged)) (enumerate 0 (ss_lines src))))"

definition review_lines :: "(nat \<Rightarrow> bool) \<Rightarrow> bool \<Rightarrow> screenSource list \<Rightarrow> bytes list" where
  "review_lines is_graphic flaggedOnly srcs = concat (map (source_lines is_graphic flaggedOnly) srcs)"

section \<open>The loop\<close>

text \<open>The keys: s send, v view everything, f view flagged lines, a abort; q quits a dry run.\<close>

definition reviewChoices :: "bool \<Rightarrow> nat list" where
  "reviewChoices dryRun = (if dryRun then [118, 102, 113] else [115, 118, 102, 97])"

function review ::
  "(nat \<Rightarrow> bool) \<Rightarrow> screenSource list \<Rightarrow> bool \<Rightarrow> int \<Rightarrow> keyInput \<Rightarrow> (string + nat) \<times> keyInput" where
  "review is_graphic srcs dryRun pageLines q =
     (case Input_Ask (reviewChoices dryRun) q of
        (Inl e, q1) \<Rightarrow> (if e = errInterrupted then Inr 97 else Inl e, q1)
      | (Inr key, q1) \<Rightarrow>
          if key = 115 \<or> key = 97 \<or> key = 113 then (Inr key, q1)
          else if key = 118 \<or> key = 102 then
            let flaggedOnly = (key = 102); lines = review_lines is_graphic flaggedOnly srcs in
            if flaggedOnly \<and> lines = [] then review is_graphic srcs dryRun pageLines q1
            else (case Input_Page pageLines lines q1 of
                    (Some e, q2) \<Rightarrow> (if e = errInterrupted then Inr 97 else Inl e, q2)
                  | (None, q2) \<Rightarrow> review is_graphic srcs dryRun pageLines q2)
          else review is_graphic srcs dryRun pageLines q1)"
  by pat_completeness auto
termination
proof (relation "measure (\<lambda>(_, _, _, _, q). input_size q)", goal_cases)
  case (3 g srcs dryRun pageLines q x q1 key fo lines y q2)
  then show ?case
    using Input_Ask_size [of "reviewChoices dryRun" q key q1] Input_Page_size [of pageLines lines q1 q2] by auto
qed (auto dest: Input_Ask_size [OF sym])

declare review.simps [simp del]

text \<open>
  The run of \<^verbatim>\<open>Run\<close> whose choice is made on this screen: what is reviewed is what the rules and the sources of the run give.
\<close>

definition review_choice ::
  "(string \<Rightarrow> bool) \<Rightarrow> (string \<Rightarrow> bool) \<Rightarrow> (nat \<Rightarrow> bool) \<Rightarrow> int \<Rightarrow> options \<Rightarrow> run_env \<Rightarrow> keyInput \<Rightarrow> string + char" where
  "review_choice addr high is_graphic pageLines op E q =
     (case (re_rules E, re_sources E) of
        (Inr rules, Inr sources) \<Rightarrow>
          (case fst (review is_graphic (screen_sources addr high (lr_engine rules) sources) (o_DryRun op) pageLines q) of
             Inl e \<Rightarrow> Inl e
           | Inr k \<Rightarrow> Inr (char_of k))
      | _ \<Rightarrow> Inl [])"

definition run_reviewed ::
  "(string \<Rightarrow> url option) \<Rightarrow> (string \<Rightarrow> bool) \<Rightarrow> (string \<Rightarrow> bool) \<Rightarrow> (string \<Rightarrow> bool) \<Rightarrow> (time \<Rightarrow> string) \<Rightarrow> (nat \<Rightarrow> bool) \<Rightarrow> int \<Rightarrow>
   options \<Rightarrow> run_env \<Rightarrow> keyInput \<Rightarrow> run_outcome" where
  "run_reviewed parse isLoopback addr high fmt is_graphic pageLines op E q =
     collect_Run parse isLoopback addr high fmt op (E\<lparr>re_choice := review_choice addr high is_graphic pageLines op E q\<rparr>)"

section \<open>What the review guarantees\<close>

lemma screen_sources_lines: "map ss_lines (screen_sources addr high e srcs) = redacted_lines addr high e srcs"
  by (induction srcs arbitrary: e) (auto simp: case_prod_beta)

lemma review_key: "fst (review g srcs dryRun pageLines q) = Inr k \<Longrightarrow> k = 97 \<or> k = (if dryRun then 113 else 115)"
proof (induction g srcs dryRun pageLines q rule: review.induct)
  case (1 g srcs dryRun pageLines q)
  obtain x q1 where a: "Input_Ask (reviewChoices dryRun) q = (x, q1)" by (rule prod.exhaust)
  show ?case
  proof (cases x)
    case (Inl e)
    with 1(4) a show ?thesis by (auto simp: review.simps [of g srcs dryRun pageLines q] split: if_splits)
  next
    case (Inr key)
    have c: "key \<in> set (reviewChoices dryRun)" using Input_Ask_choice a Inr by simp
    then have c: "key = 115 \<Longrightarrow> \<not> dryRun" "key = 113 \<Longrightarrow> dryRun" by (auto simp: reviewChoices_def split: if_splits)
    let ?lines = "review_lines g (key = 102) srcs"
    obtain y q2 where p: "Input_Page pageLines ?lines q1 = (y, q2)" by (rule prod.exhaust)
    show ?thesis
      using 1(4) a Inr c p 1(1) [OF a [symmetric] Inr _ _ refl refl] 1(2) [OF a [symmetric] Inr _ _ refl refl _ p [symmetric]] 1(3) [OF a [symmetric] Inr]
      by (auto simp: review.simps [of g srcs dryRun pageLines q] Let_def split: if_splits option.splits)
  qed
qed

lemma review_from: "fst (review g srcs dryRun pageLines q) = Inr 115 \<Longrightarrow> in_keys q \<Longrightarrow> 115 \<in> coming_bytes q"
proof (induction g srcs dryRun pageLines q rule: review.induct)
  case (1 g srcs dryRun pageLines q)
  obtain x q1 where a: "Input_Ask (reviewChoices dryRun) q = (x, q1)" by (rule prod.exhaust)
  note f = Input_Ask_from [OF a 1(5)]
  then have k: "in_keys q1" using 1(5) by (simp add: reads_on_def)
  show ?case
  proof (cases x)
    case (Inl e)
    with 1(4) a show ?thesis by (auto simp: review.simps [of g srcs dryRun pageLines q] split: if_splits)
  next
    case (Inr key)
    let ?lines = "review_lines g (key = 102) srcs"
    obtain y q2 where p: "Input_Page pageLines ?lines q1 = (y, q2)" by (rule prod.exhaust)
    have f2: "reads_on q q2" using reads_on_trans [of q q1 q2] f page_loop_from [OF _ k] p unfolding Input_Page_def by blast
    then have k2: "in_keys q2" using 1(5) by (simp add: reads_on_def)
    have sub: "coming_bytes q1 \<subseteq> coming_bytes q" "coming_bytes q2 \<subseteq> coming_bytes q" using f f2 by (auto simp: reads_on_def)
    show ?thesis
    proof (cases "key = 115")
      case True
      with f Inr show ?thesis by fastforce
    next
      case False
      then show ?thesis
        using 1(4) a Inr p k k2 sub 1(1) [OF a [symmetric] Inr _ _ refl refl] 1(2) [OF a [symmetric] Inr _ _ refl refl _ p [symmetric]]
          1(3) [OF a [symmetric] Inr]
        by (auto simp: review.simps [of g srcs dryRun pageLines q] Let_def split: if_splits option.splits)
    qed
  qed
qed

lemma collect_Run_Upload:
  assumes "collect_Run parse isLoopback addr high fmt op E = Upload info col m"
  shows "\<not> o_DryRun op \<and> re_interactive E \<and> (\<exists>rules sources choice. re_rules E = Inr rules \<and> re_sources E = Inr sources \<and> re_choice E = Inr choice \<and>
    choice \<noteq> CHR ''a'' \<and> build addr high fmt (re_created E) (o_Collector op) (lr_engine rules) sources = Inr (col, m))"
  using assms unfolding collect_Run_def
  by (auto split: option.splits if_splits sum.splits prod.splits)

lemma collect_text: "col_text (fold (collect_source addr high fmt) srcs col) = col_text col @ concat (map text_of (redacted_lines addr high (col_eng col) srcs))"
  by (induction srcs arbitrary: col) (simp_all add: collect_source_simps(1,2))

definition shows_line :: "(nat \<Rightarrow> bool) \<Rightarrow> bytes \<Rightarrow> string \<Rightarrow> bool" where
  "shows_line is_graphic shown line \<longleftrightarrow> (\<exists>pre. shown = pre @ Visible is_graphic (string_bytes line))"

lemma source_lines_all: "list_all2 (shows_line g) (source_lines g False src) (ss_lines src)"
proof -
  let ?f = "\<lambda>(i, line). review_line g (ss_name src) (Suc i) (Suc i \<in> flagged_lines (ss_flags src)) line"
  have e: "source_lines g False src = map ?f (enumerate 0 (ss_lines src))" by (simp add: source_lines_def Let_def case_prod_beta)
  have "shows_line g (review_line g n i b l) l" for n i b l
    unfolding shows_line_def review_line_def by (rule exI [of _ "string_bytes n @ [58] @ string_bytes (show_nat i) @ [32, if b then 33 else 124, 32]"]) simp
  then show ?thesis unfolding e list_all2_conv_all_nth by (simp add: nth_enumerate_eq)
qed

lemma review_lines_all: "list_all2 (shows_line g) (review_lines g False srcs) (concat (map ss_lines srcs))"
  unfolding review_lines_def by (induction srcs) (simp_all add: list_all2_appendI source_lines_all)

text \<open>C9. What is uploaded is what the review can show in full, and only the key \<^verbatim>\<open>s\<close> sends it: a run on a terminal that hands over single keys and goes on to the upload is no dry run,
  the key that ended the review was \<^verbatim>\<open>s\<close>, that byte was read from the terminal after the review began and not taken from what was buffered before (it may
  have been queued in the terminal earlier), and the text to upload is exactly the lines of the screen's sources, of which the full listing shows every one, in order and none else.\<close>

theorem upload_reviewed:
  assumes "run_reviewed parse isLoopback addr high fmt is_graphic pageLines op E q = Upload info col m" and "in_keys q"
  shows "\<not> o_DryRun op \<and> 115 \<in> coming_bytes q \<and>
    (\<exists>rules sources srcs. re_rules E = Inr rules \<and> re_sources E = Inr sources \<and> srcs = screen_sources addr high (lr_engine rules) sources \<and>
      fst (review is_graphic srcs False pageLines q) = Inr 115 \<and> col_text col = concat (map (text_of \<circ> ss_lines) srcs) \<and>
      list_all2 (shows_line is_graphic) (review_lines is_graphic False srcs) (concat (map ss_lines srcs)))"
proof -
  let ?E = "E\<lparr>re_choice := review_choice addr high is_graphic pageLines op E q\<rparr>"
  from collect_Run_Upload [OF assms(1) [unfolded run_reviewed_def]] obtain rules sources choice where
    d: "\<not> o_DryRun op" and r: "re_rules E = Inr rules" and s: "re_sources E = Inr sources" and c: "re_choice ?E = Inr choice" "choice \<noteq> CHR ''a''"
    and b: "build addr high fmt (re_created E) (o_Collector op) (lr_engine rules) sources = Inr (col, m)" by auto
  let ?srcs = "screen_sources addr high (lr_engine rules) sources"
  from c(1) d r s obtain k where k: "fst (review is_graphic ?srcs False pageLines q) = Inr k" "choice = char_of k"
    by (auto simp: review_choice_def split: sum.splits)
  have "char_of (97 :: nat) = CHR ''a''" by code_simp
  with k c(2) review_key [OF k(1)] have k115: "k = 115" by auto
  have "col_text col = concat (map (text_of \<circ> ss_lines) ?srcs)"
    using build_Inr(1) [OF b] collect_text [of addr high fmt sources "collect_start (lr_engine rules)"]
    by (simp add: collect_start_def screen_sources_lines [symmetric])
  with k(1) k115 d r s review_lines_all review_from [OF _ assms(2)] show ?thesis by blast
qed

definition sample_options :: options where
  "sample_options = \<lparr>o_Units = [], o_Containers = [], o_Files = [''/var/log/a''], o_Globs = [], o_Since = 0, o_Until = 1, o_Tail = 0, o_Allow = [],
     o_Keep = [], o_KeepCategories = [], o_RulesFile = '''', o_TTL = 1, o_RelayURL = ''https://r'', o_DryRun = False, o_Retention = 0, o_Collector = ''''\<rparr>"

definition sample_url :: url where
  "sample_url = \<lparr>u_Scheme = ''https'', u_Hostname = ''r'', u_hasUser = False, u_RawQuery = '''', u_ForceQuery = False, u_Fragment = '''', u_Path = '''',
     u_String = ''https://r''\<rparr>"

definition sample_run_env :: "relay_info \<Rightarrow> run_env" where
  "sample_run_env info = \<lparr>re_interactive = True, re_info = Inr info,
     re_rules = Inr \<lparr>lr_engine = sample_engine, lr_merged = sample_rules, lr_path = '''', lr_defaults = 1, lr_extras = 0\<rparr>, re_prune = None,
     re_sources = Inr sample_logs, re_choice = Inl [], re_created = 0\<rparr>"

definition sample_input :: keyInput where
  "sample_input = \<lparr>in_keys = True, in_buffer = [97], in_error = None, in_coming = [Inr [115]], in_raw = []\<rparr>"

lemma sample_valid: "collect_validate (\<lambda>_. Some sample_url) (\<lambda>_. False) sample_options = None"
proof -
  have "NewRelayClient (\<lambda>_. Some sample_url) (\<lambda>_. False) ''https://r'' (replicate 32 0) \<noteq> None" by (simp add: NewRelayClient_def sample_url_def)
  moreover have "ValidateKeepCategories [] = None" by (simp add: ValidateKeepCategories_def)
  moreover have "(1 :: duration) \<le> MaxTTL" by (simp add: MaxTTL_def hour_def minute_def second_def)
  ultimately show ?thesis by (simp add: collect_validate_def sample_options_def)
qed

lemma sample_build: "\<exists>col m. build (\<lambda>_. True) (\<lambda>_. False) (\<lambda>_. '''') 0 '''' sample_engine sample_logs = Inr (col, m)"
proof -
  let ?build = "build (\<lambda>_. True) (\<lambda>_. False) (\<lambda>_. '''') 0 '''' sample_engine sample_logs"
  have "length (col_text (fold (collect_source (\<lambda>_. True) (\<lambda>_. False) (\<lambda>_. '''')) sample_logs (collect_start sample_engine))) = 14"
    "col_lines (fold (collect_source (\<lambda>_. True) (\<lambda>_. False) (\<lambda>_. '''')) sample_logs (collect_start sample_engine)) = 2"
    by code_simp+
  then have "isl ?build = False" by (simp add: build_def Let_def ChunkCount_def MaxChunkCount_def ChunkSize_def)
  then show ?thesis by (cases ?build) auto
qed

lemma sample_review: "fst (review g srcs False n sample_input) = Inr 115"
proof -
  let ?q = "\<lparr>in_keys = True, in_buffer = [], in_error = None, in_coming = [Inr [115]], in_raw = []\<rparr>"
  have "Input_Ask [115, 118, 102, 97] sample_input = (Inr 115, \<lparr>in_keys = True, in_buffer = [], in_error = None, in_coming = [], in_raw = []\<rparr>)"
    using read_rune_fill [of ?q]
    by (simp add: sample_input_def Input_Ask_def ask_loop.simps Input_Key_def key_rune_def input_fill_def read_rune_ascii)
  then show ?thesis by (simp add: review.simps [of g srcs] reviewChoices_def)
qed

theorem upload_reviewed_witness:
  "\<exists>info col m. run_reviewed (\<lambda>_. Some sample_url) (\<lambda>_. False) (\<lambda>_. True) (\<lambda>_. False) (\<lambda>_. '''') (\<lambda>_. True) 40 sample_options (sample_run_env info)
      sample_input = Upload (Some info) col m \<and> 115 \<in> coming_bytes sample_input"
proof -
  fix info
  obtain col m where b: "build (\<lambda>_. True) (\<lambda>_. False) (\<lambda>_. '''') 0 '''' sample_engine sample_logs = Inr (col, m)" using sample_build by blast
  have c: "review_choice (\<lambda>_. True) (\<lambda>_. False) (\<lambda>_. True) 40 sample_options (sample_run_env info) sample_input = Inr (CHR ''s'')"
  proof -
    have "char_of (115 :: nat) = CHR ''s''" by code_simp
    then show ?thesis using sample_review [of "\<lambda>_. True" "screen_sources (\<lambda>_. True) (\<lambda>_. False) sample_engine sample_logs" 40]
      by (simp add: review_choice_def sample_run_env_def sample_options_def)
  qed
  have u: "run_reviewed (\<lambda>_. Some sample_url) (\<lambda>_. False) (\<lambda>_. True) (\<lambda>_. False) (\<lambda>_. '''') (\<lambda>_. True) 40 sample_options (sample_run_env info)
      sample_input = Upload (Some info) col m"
    unfolding run_reviewed_def c collect_Run_def using sample_valid b by (simp add: sample_run_env_def sample_options_def)
  have "in_keys sample_input" by (simp add: sample_input_def)
  from upload_reviewed [OF u this] u show ?thesis by blast
qed

text \<open>A source's name is listed as it is: an escape byte in the name of a file reaches the terminal.\<close>

lemma review_name_raw: "27 \<in> set (string_bytes name) \<Longrightarrow> 27 \<in> set (review_line is_graphic name n flagged line)"
  by (simp add: review_line_def)

end
