(* ===== verification/Commands.thy ===== *)
theory Commands
  imports Mcp_Tools Review
begin

text \<open>
  The commands (\<^verbatim>\<open>cmd/aken/main.go\<close>, \<^verbatim>\<open>cmd/aken-mcp/main.go\<close>): which command runs, the checks of the flags once they are parsed, the times on the command line
  (\<^verbatim>\<open>ParseTime\<close> of \<^verbatim>\<open>internal/collect/options.go\<close>), the checks of a live session's options (\<^verbatim>\<open>internal/serve/options.go\<close>), and joining and ending a
  session from the reader's terminal. Parsing of flags, durations and dates are parameters.
\<close>

section \<open>Dispatch\<close>

datatype aken_command =
    UsageError
  | Help
  | Version
  | RunServe "string list"
  | RunCollect "string list"
  | RunReveal "string list"
  | UnknownCommand string

definition aken_main :: "string list \<Rightarrow> aken_command" where
  "aken_main args =
     (case args of
        [] \<Rightarrow> UsageError
      | a # r \<Rightarrow>
          if a = ''help'' \<or> a = ''-h'' \<or> a = ''--help'' then
            (if a = ''help'' \<and> r = [''collect''] then RunCollect [''collect'', ''--help'']
             else if a = ''help'' \<and> r = [''serve''] then RunServe [''serve'', ''--help'']
             else Help)
          else if a = ''version'' \<or> a = ''--version'' \<or> a = ''-V'' then Version
          else if a = ''serve'' then RunServe args
          else if a = ''collect'' then RunCollect args
          else if a = ''reveal'' then RunReveal args
          else UnknownCommand a)"

datatype mcp_command =
    McpUsageError
  | McpHelp
  | McpVersion
  | McpVersionArguments
  | McpRun string "string list"
  | McpUnknown string

text \<open>\<^verbatim>\<open>help x\<close> runs \<^verbatim>\<open>x --help\<close>, for any \<^verbatim>\<open>x\<close>, \<^verbatim>\<open>help\<close> included.\<close>

function mcp_main :: "string list \<Rightarrow> mcp_command" where
  "mcp_main args =
     (case args of
        [] \<Rightarrow> McpUsageError
      | a # r \<Rightarrow>
          if a = ''help'' \<or> a = ''-h'' \<or> a = ''--help'' then
            (if a = ''help'' \<and> r \<noteq> [] then mcp_main (r @ [''--help'']) else McpHelp)
          else if a = ''version'' \<or> a = ''--version'' \<or> a = ''-V'' then (if r = [] then McpVersion else McpVersionArguments)
          else if a \<in> {''join'', ''serve'', ''status'', ''end''} then McpRun a r
          else McpUnknown a)"
  by pat_completeness auto
termination
proof (relation "measure (\<lambda>args. length (takeWhile (\<lambda>a. a = ''help'') args))")
  fix args :: "string list" and a r
  assume "args = a # r" "a = ''help'' \<or> a = ''-h'' \<or> a = ''--help''" "a = ''help'' \<and> r \<noteq> []"
  moreover have "takeWhile (\<lambda>a. a = ''help'') (r @ [''--help'']) = takeWhile (\<lambda>a. a = ''help'') r" by (induction r) auto
  ultimately show "(r @ [''--help''], args) \<in> measure (\<lambda>args. length (takeWhile (\<lambda>a. a = ''help'') args))" by simp
qed simp

declare mcp_main.simps [simp del]

section \<open>Times on the command line\<close>

text \<open>\<^verbatim>\<open>strconv.ParseInt(s, 10, 64)\<close>.\<close>

definition parse_int64 :: "string \<Rightarrow> int option" where
  "parse_int64 s =
     (let neg = has_prefix s ''-'' in
      case parse_digits (if neg \<or> has_prefix s ''+'' then tl s else s) of
        None \<Rightarrow> None
      | Some n \<Rightarrow> let v = (if neg then - int n else int n) in if - (2 ^ 63) \<le> v \<and> v < 2 ^ 63 then Some v else None)"

definition maxDays :: int where "maxDays = (2 ^ 63 - 1) div (24 * hour)"

definition day_count :: "string \<Rightarrow> int option" where
  "day_count s =
     (if has_suffix s ''d''
      then (case parse_int64 (trim_suffix s ''d'') of
              None \<Rightarrow> None
            | Some days \<Rightarrow> if days \<ge> 0 \<and> days \<le> maxDays then Some days else None)
      else None)"

definition ParseTime :: "(string \<Rightarrow> duration option) \<Rightarrow> (string \<Rightarrow> time option) \<Rightarrow> (string \<Rightarrow> time option) list \<Rightarrow> string \<Rightarrow> time \<Rightarrow> time option" where
  "ParseTime parse_duration parse_rfc3339 layouts s now =
     (case day_count s of
        Some days \<Rightarrow> Some (now + wrap64 (wrap64 (- days * 24) * hour))
      | None \<Rightarrow>
          (case (case parse_duration s of None \<Rightarrow> None | Some d \<Rightarrow> if d \<ge> 0 then Some d else None) of
             Some d \<Rightarrow> Some (now + wrap64 (- d))
           | None \<Rightarrow>
               (case parse_rfc3339 s of
                  Some t \<Rightarrow> Some t
                | None \<Rightarrow> (case List.find (\<lambda>p. p s \<noteq> None) layouts of None \<Rightarrow> None | Some p \<Rightarrow> p s))))"

section \<open>Checks of the flags\<close>

datatype flag_outcome = Usage string | RefuseRoot | NoTerminal | Go

text \<open>\<^verbatim>\<open>runCollect\<close> after parsing: the positional arguments, the two times, and who runs it.\<close>

definition collect_checks ::
  "(string \<Rightarrow> url option) \<Rightarrow> (string \<Rightarrow> bool) \<Rightarrow> nat \<Rightarrow> time option \<Rightarrow> time option \<Rightarrow> nat \<Rightarrow> options \<Rightarrow> flag_outcome" where
  "collect_checks parse isLoopback nargs since until uid op =
     (if nargs \<noteq> 0 then Usage ''unexpected positional arguments''
      else if length (o_Units op) + length (o_Containers op) + length (o_Files op) + length (o_Globs op) = 0 then Usage ''source''
      else if since = None then Usage ''--since''
      else if until = None then Usage ''--until''
      else if \<not> o_Since op < o_Until op then Usage ''--since must be before --until''
      else if o_Tail op < 0 then Usage ''--tail''
      else if o_TTL op \<le> 0 \<or> o_TTL op > MaxTTL then Usage ''--ttl''
      else if o_Retention op < 0 then Usage ''--retention''
      else if \<not> list_all ValidateUnit (o_Units op) then Usage ''unit''
      else if \<not> list_all ValidateContainer (o_Containers op) then Usage ''container''
      else if \<not> list_all IsAbs (o_Allow op) then Usage ''--allow''
      else if NewRelayClient parse isLoopback (o_RelayURL op) (replicate 32 0) = None then Usage ''relay''
      else if ValidateKeepCategories (o_KeepCategories op) \<noteq> None then Usage ''category''
      else if uid = 0 then RefuseRoot
      else Go)"

text \<open>The options of \<^verbatim>\<open>aken serve\<close> that are checked, their checks in the package, and those of the command.\<close>

record serve_options =
  so_Level :: int
  so_TTL :: duration
  so_RelayURL :: string
  so_Allow :: "string list"
  so_KeepCategories :: "string list"
  so_Retention :: duration

definition serve_validate :: "(string \<Rightarrow> url option) \<Rightarrow> (string \<Rightarrow> bool) \<Rightarrow> serve_options \<Rightarrow> string option" where
  "serve_validate parse isLoopback op =
     (if so_Level op \<noteq> 0 \<and> so_Level op \<noteq> 1 then Some ''--level''
      else if so_TTL op \<le> 0 \<or> so_TTL op > MaxTTL then Some ''--ttl''
      else if so_Retention op < 0 then Some ''--retention''
      else if \<not> list_all IsAbs (so_Allow op) then Some ''--allow''
      else if ValidateKeepCategories (so_KeepCategories op) \<noteq> None then Some ''category''
      else if NewRelayClient parse isLoopback (so_RelayURL op) (replicate 32 0) = None then Some ''relay''
      else None)"

definition serve_checks :: "(string \<Rightarrow> url option) \<Rightarrow> (string \<Rightarrow> bool) \<Rightarrow> nat \<Rightarrow> nat \<Rightarrow> bool \<Rightarrow> serve_options \<Rightarrow> flag_outcome" where
  "serve_checks parse isLoopback nargs uid terminal op =
     (if nargs \<noteq> 0 then Usage ''unexpected positional arguments''
      else if so_Level op \<noteq> 0 \<and> so_Level op \<noteq> 1 then Usage ''--level''
      else if so_TTL op \<le> 0 \<or> so_TTL op > MaxTTL then Usage ''--ttl''
      else if so_Retention op < 0 then Usage ''--retention''
      else if \<not> list_all IsAbs (so_Allow op) then Usage ''--allow''
      else if NewRelayClient parse isLoopback (so_RelayURL op) (replicate 32 0) = None then Usage ''relay''
      else if ValidateKeepCategories (so_KeepCategories op) \<noteq> None then Usage ''category''
      else if uid = 0 then RefuseRoot
      else if \<not> terminal then NoTerminal
      else Go)"

section \<open>The reader's commands\<close>

datatype cli_error =
    CLI_NoToken
  | CLI_Unreadable
  | CLI_Capitals
  | CLI_BadToken
  | CLI_Tool tool_error

definition cli :: "('n, 'a) tool \<Rightarrow> 'n mcp_world \<Rightarrow> (cli_error + 'a) \<times> 'n mcp_world" where
  "cli f w = apfst (map_sum CLI_Tool id) (f w)"

text \<open>\<^verbatim>\<open>aken-mcp join\<close> with the text of the token as read, if it could be read.\<close>

definition cli_join_token :: "'n mcp_env \<Rightarrow> string \<Rightarrow> token \<Rightarrow> ('n, session) tool" where
  "cli_join_token E relay t =
     tool_bind (check_join E t) (\<lambda>_.
       (case me_client E relay (RelayCredential (me_crypto E) t) of
          None \<Rightarrow> pure (Inl TE_BadClient)
        | Some client \<Rightarrow> (\<lambda>w.
            case Client_Session (me_net E) (me_js E) client (SessionID (me_crypto E) t) (mw_rest w) of
              (Inl e, n) \<Rightarrow> (Inl (if IsNotFound e then TE_NoArtifact (BaseURL client) else RelayLimitHint e), w\<lparr>mw_rest := n\<rparr>)
            | (Inr info, n) \<Rightarrow>
                tool_bind (join_relay E client t info ''cli'') (\<lambda>stored. tool_bind (save_session E stored) (\<lambda>_. pure (Inr stored))) (w\<lparr>mw_rest := n\<rparr>))))"

definition cli_join :: "'n mcp_env \<Rightarrow> (string \<Rightarrow> string) \<Rightarrow> string \<Rightarrow> string option \<Rightarrow> 'n mcp_world \<Rightarrow> (cli_error + session) \<times> 'n mcp_world" where
  "cli_join E lower relay given w =
     (case given of
        None \<Rightarrow> (Inl CLI_Unreadable, w)
      | Some s \<Rightarrow>
          if s = '''' then (Inl CLI_NoToken, w)
          else (case ParseToken (io_upper (me_io E)) s of
                  None \<Rightarrow> (Inl (if ParseToken (io_upper (me_io E)) (lower s) \<noteq> None then CLI_Capitals else CLI_BadToken), w)
                | Some t \<Rightarrow> cli (cli_join_token E relay t) w))"

definition cli_status :: "'n mcp_env \<Rightarrow> ('n, session \<times> bool) tool" where
  "cli_status E = tool_bind (stored_session E) (\<lambda>stored. tool_bind (read_clock E) (\<lambda>now. pure (Inr (stored, Expired stored now))))"

text \<open>\<^verbatim>\<open>aken-mcp end\<close>: whether the relay still had the session.\<close>

definition remove_session :: "'n mcp_env \<Rightarrow> ('n, unit) tool" where
  "remove_session E w =
     (case Session_Remove (me_io E) (mw_file w, mw_rest w) of
        (r, (content, n)) \<Rightarrow> (case r of Some e \<Rightarrow> Inl (TE_Stored e) | None \<Rightarrow> Inr (), w\<lparr>mw_file := content, mw_rest := n\<rparr>))"

definition cli_end :: "'n mcp_env \<Rightarrow> ('n, session \<times> bool) tool" where
  "cli_end E =
     tool_bind (stored_session E) (\<lambda>stored.
       (case ParsedToken (io_upper (me_io E)) stored of
          None \<Rightarrow> pure (Inl TE_Token)
        | Some t \<Rightarrow>
            (case me_client E (ss_Relay stored) (RelayCredential (me_crypto E) t) of
               None \<Rightarrow> pure (Inl TE_BadClient)
             | Some client \<Rightarrow> (\<lambda>w.
                 case Client_DeleteSession (me_net E) (me_js E) client (SessionID (me_crypto E) t) (mw_rest w) of
                   (err, n) \<Rightarrow>
                     (case err of
                        Some e \<Rightarrow>
                          if IsNotFound e then tool_bind (remove_session E) (\<lambda>_. pure (Inr (stored, False))) (w\<lparr>mw_rest := n\<rparr>)
                          else (Inl (TE_Relay e), w\<lparr>mw_rest := n\<rparr>)
                      | None \<Rightarrow> tool_bind (remove_session E) (\<lambda>_. pure (Inr (stored, True))) (w\<lparr>mw_rest := n\<rparr>))))))"

section \<open>What the commands guarantee\<close>

lemma check_steps:
  "(if P then Usage e else x) = Go \<longleftrightarrow> \<not> P \<and> x = Go" "(if P then RefuseRoot else x) = Go \<longleftrightarrow> \<not> P \<and> x = Go"
  "(if P then NoTerminal else x) = Go \<longleftrightarrow> \<not> P \<and> x = Go" "(if P then Some a else y) = None \<longleftrightarrow> \<not> P \<and> y = None"
  by simp_all

text \<open>The checks on the command line and those of the packages agree: \<^verbatim>\<open>aken collect\<close> goes on to the run exactly when there are no positional arguments, both times parse,
  the user is not root and the options pass the validation the run starts with; likewise \<^verbatim>\<open>aken serve\<close>, which also needs a terminal. So no run that was
  started from the command line ends at its validation, and the command refuses nothing the package would take.\<close>

lemma flags_validate:
  "(collect_checks parse isLoopback nargs since until uid op = Go \<longleftrightarrow>
      nargs = 0 \<and> since \<noteq> None \<and> until \<noteq> None \<and> uid \<noteq> 0 \<and> collect_validate parse isLoopback op = None) \<and>
   (serve_checks parse isLoopback nargs uid terminal sop = Go \<longleftrightarrow>
      nargs = 0 \<and> uid \<noteq> 0 \<and> terminal \<and> serve_validate parse isLoopback sop = None)"
proof -
  have v: "collect_validate parse isLoopback op = None \<longleftrightarrow> \<not> (length (o_Units op) + length (o_Containers op) + length (o_Files op) + length (o_Globs op) = 0) \<and>
      list_all ValidateUnit (o_Units op) \<and> list_all ValidateContainer (o_Containers op) \<and> o_Since op < o_Until op \<and> \<not> (o_TTL op \<le> 0 \<or> o_TTL op > MaxTTL) \<and>
      \<not> o_Tail op < 0 \<and> \<not> o_Retention op < 0 \<and> list_all IsAbs (o_Allow op) \<and> ValidateKeepCategories (o_KeepCategories op) = None \<and>
      NewRelayClient parse isLoopback (o_RelayURL op) (replicate 32 0) \<noteq> None"
    unfolding collect_validate_def check_steps by (cases "ValidateKeepCategories (o_KeepCategories op)") (simp_all only: check_steps option.case option.distinct simp_thms not_not)
  show ?thesis unfolding v collect_checks_def serve_checks_def serve_validate_def check_steps by (simp only: conj_ac not_not simp_thms)
qed

lemma maxDays_eq: "maxDays = 106751"
  by (simp add: maxDays_def hour_def minute_def second_def)

lemma day_count_show: "day_count (show_nat n @ ''d'') = (if int n \<le> maxDays then Some (int n) else None)"
proof -
  let ?s = "show_nat n @ ''d''"
  have d: "list_all is_digit (show_nat n)" by (rule show_nat_digits)
  have p: "\<not> has_prefix (show_nat n) ''-''" "\<not> has_prefix (show_nat n) ''+''"
    using d by (cases "show_nat n"; auto simp: has_prefix_def is_digit_def)+
  have t: "has_suffix ?s ''d''" "trim_suffix ?s ''d'' = show_nat n" by (simp_all add: has_suffix_def trim_suffix_def)
  have "parse_int64 (show_nat n) = (if int n < 2 ^ 63 then Some (int n) else None)" by (simp add: parse_int64_def p)
  then show ?thesis using t by (simp add: day_count_def maxDays_eq)
qed

text \<open>Days on the command line: \<^verbatim>\<open>Nd\<close> is the time \<open>N\<close> days ago for every \<open>N\<close> up to 106751, the most whose nanoseconds fit in 64 bits, so the multiplication
  never wraps around; a larger \<open>N\<close> is not taken as days but left to the other formats.\<close>

lemma ParseTime_days:
  assumes "\<forall>x. parse_duration (x @ ''d'') = None"
  shows "(n \<le> 106751 \<longrightarrow> ParseTime parse_duration parse_rfc3339 layouts (show_nat n @ ''d'') now = Some (now - int n * 24 * hour)) \<and>
    (n > 106751 \<and> parse_rfc3339 (show_nat n @ ''d'') = None \<and> layouts = [] \<longrightarrow>
      ParseTime parse_duration parse_rfc3339 layouts (show_nat n @ ''d'') now = None)"
proof (intro conjI impI)
  assume n: "n \<le> 106751"
  have h: "hour = 3600000000000" by (simp add: hour_def minute_def second_def)
  have a: "wrap64 (- int n * 24) = - int n * 24" using n by (intro wrap64_id) simp
  have b: "- (2 ^ 63) \<le> - int n * 24 * hour" "- int n * 24 * hour < 2 ^ 63" using n by (simp_all add: h)
  have "wrap64 (- int n * 24 * hour) = - int n * 24 * hour" unfolding wrap64_def using b by (subst mod_pos_pos_trivial) simp_all
  with a n show "ParseTime parse_duration parse_rfc3339 layouts (show_nat n @ ''d'') now = Some (now - int n * 24 * hour)"
    by (simp add: ParseTime_def day_count_show maxDays_eq)
next
  assume "n > 106751 \<and> parse_rfc3339 (show_nat n @ ''d'') = None \<and> layouts = []"
  with assms show "ParseTime parse_duration parse_rfc3339 layouts (show_nat n @ ''d'') now = None"
    by (simp add: ParseTime_def day_count_show maxDays_eq)
qed

lemma ParseTime_days_witness:
  "ParseTime (\<lambda>_. None) (\<lambda>_. None) [] (show_nat 3 @ ''d'') 0 = Some (- 72 * hour) \<and> ParseTime (\<lambda>_. None) (\<lambda>_. None) [] (show_nat 106752 @ ''d'') 0 = None"
  using ParseTime_days [of "\<lambda>_. None" 3 "\<lambda>_. None" "[]" 0] ParseTime_days [of "\<lambda>_. None" 106752 "\<lambda>_. None" "[]" 0] by simp

lemma check_join_file: "mw_file (snd (check_join E t w)) = mw_file w"
  by (auto simp: check_join_def CheckJoin_def Session_Load_def split: prod.splits option.splits sum.splits)

lemma stored_session_file: "mw_file (snd (stored_session E w)) = mw_file w"
  by (auto simp: stored_session_def Session_Load_def split: prod.splits option.splits sum.splits)

lemma join_relay_file: "mw_file (snd (join_relay E client t info via w)) = mw_file w"
  by (auto simp: join_relay_def split: prod.splits)

lemma save_session_file:
  "case save_session E s w of
     (Inl _, w') \<Rightarrow> mw_file w' = mw_file w
   | (Inr _, w') \<Rightarrow> \<exists>data. io_enc (me_io E) (normal_session s) = Some data \<and> mw_file w' = Some data"
  by (auto simp: save_session_def Session_Save_def split: prod.splits option.splits sum.splits)

lemma remove_session_file:
  "case remove_session E w of (Inl _, w') \<Rightarrow> mw_file w' = mw_file w | (Inr _, w') \<Rightarrow> mw_file w' = None"
  by (auto simp: remove_session_def Session_Remove_def split: prod.splits option.splits sum.splits)

definition saved :: "'n mcp_env \<Rightarrow> session \<Rightarrow> 'n mcp_world \<Rightarrow> bool" where
  "saved E s w \<longleftrightarrow> (\<exists>data. io_enc (me_io E) (normal_session s) = Some data \<and> mw_file w = Some data)"

definition file_kept :: "'n mcp_world \<Rightarrow> ('n mcp_world \<Rightarrow> 'a \<Rightarrow> bool) \<Rightarrow> ('e + 'a) \<times> 'n mcp_world \<Rightarrow> bool" where
  "file_kept w done' r \<longleftrightarrow> (case r of (Inl _, w') \<Rightarrow> mw_file w' = mw_file w | (Inr x, w') \<Rightarrow> done' w' x)"

lemma kept_bind:
  assumes "mw_file (snd (f w)) = mw_file w" and "\<And>x w1. f w = (Inr x, w1) \<Longrightarrow> file_kept w1 P (g x w1)"
  shows "file_kept w P (tool_bind f g w)"
proof -
  obtain r w1 where r: "f w = (r, w1)" by (rule prod.exhaust)
  with assms show ?thesis by (cases r) (auto simp: file_kept_def tool_bind_def split: prod.splits sum.splits)
qed

lemma kept_pure: "file_kept w P (pure (Inl e) w)"
  by (simp add: file_kept_def pure_def)

lemma kept_rest: "file_kept (w\<lparr>mw_rest := n\<rparr>) P r \<longleftrightarrow> file_kept w P r"
  by (auto simp: file_kept_def split: prod.splits sum.splits)

lemma cli_join_token_kept: "file_kept w (\<lambda>w' s. saved E s w') (cli_join_token E relay t w)"
  unfolding cli_join_token_def
proof (rule kept_bind [OF check_join_file])
  fix w1 :: "'a mcp_world" and u :: unit
  show "file_kept w1 (\<lambda>w' s. saved E s w') ((case me_client E relay (RelayCredential (me_crypto E) t) of None \<Rightarrow> pure (Inl TE_BadClient)
      | Some client \<Rightarrow> (\<lambda>w. case Client_Session (me_net E) (me_js E) client (SessionID (me_crypto E) t) (mw_rest w) of
              (Inl e, n) \<Rightarrow> (Inl (if IsNotFound e then TE_NoArtifact (BaseURL client) else RelayLimitHint e), w\<lparr>mw_rest := n\<rparr>)
            | (Inr info, n) \<Rightarrow>
                tool_bind (join_relay E client t info ''cli'') (\<lambda>stored. tool_bind (save_session E stored) (\<lambda>_. pure (Inr stored))) (w\<lparr>mw_rest := n\<rparr>))) w1)"
  proof (cases "me_client E relay (RelayCredential (me_crypto E) t)")
    case None
    then show ?thesis by (simp add: kept_pure)
  next
    case (Some client)
    obtain r n where s: "Client_Session (me_net E) (me_js E) client (SessionID (me_crypto E) t) (mw_rest w1) = (r, n)" by (rule prod.exhaust)
    have j: "file_kept w2 (\<lambda>w' s. saved E s w') (tool_bind (join_relay E client t info ''cli'') (\<lambda>stored. tool_bind (save_session E stored) (\<lambda>_. pure (Inr stored))) w2)" for info w2
    proof (rule kept_bind [OF join_relay_file])
      fix stored w3
      show "file_kept w3 (\<lambda>w' s. saved E s w') (tool_bind (save_session E stored) (\<lambda>_. pure (Inr stored)) w3)"
        using save_session_file [where E = E and s = stored and w = w3] by (auto simp: file_kept_def tool_bind_def pure_def saved_def split: prod.splits sum.splits)
    qed
    show ?thesis using Some s j [where ?w2.0 = "w1\<lparr>mw_rest := n\<rparr>"] by (cases r) (simp_all add: kept_rest, simp add: file_kept_def)
  qed
qed

definition relay_deleted :: "'n mcp_env \<Rightarrow> session \<Rightarrow> bool \<Rightarrow> bool" where
  "relay_deleted E s was \<longleftrightarrow>
     (\<exists>t client n err n'. ParsedToken (io_upper (me_io E)) s = Some t \<and> me_client E (ss_Relay s) (RelayCredential (me_crypto E) t) = Some client \<and>
        Client_DeleteSession (me_net E) (me_js E) client (SessionID (me_crypto E) t) n = (err, n') \<and>
        (if was then err = None else \<exists>e. err = Some e \<and> IsNotFound e))"

lemma remove_bind: "P \<Longrightarrow> file_kept w (\<lambda>w' x. mw_file w' = None \<and> (x = y \<and> P)) (tool_bind (remove_session E) (\<lambda>_. pure (Inr y)) w)"
  using remove_session_file [where E = E and w = w] by (auto simp: file_kept_def tool_bind_def pure_def split: prod.splits sum.splits)

lemma kept_mono: "file_kept w P r \<Longrightarrow> (\<And>w' x. P w' x \<Longrightarrow> Q w' x) \<Longrightarrow> file_kept w Q r"
  by (auto simp: file_kept_def split: prod.splits sum.splits)

lemma cli_end_kept: "file_kept w (\<lambda>w' (s, was). mw_file w' = None \<and> relay_deleted E s was) (cli_end E w)"
  unfolding cli_end_def
proof (rule kept_bind [OF stored_session_file])
  fix stored and w1 :: "'a mcp_world"
  let ?Q = "\<lambda>w' (s, was). mw_file w' = None \<and> relay_deleted E s was"
  show "file_kept w1 ?Q ((case ParsedToken (io_upper (me_io E)) stored of None \<Rightarrow> pure (Inl TE_Token)
        | Some t \<Rightarrow> (case me_client E (ss_Relay stored) (RelayCredential (me_crypto E) t) of None \<Rightarrow> pure (Inl TE_BadClient)
             | Some client \<Rightarrow> (\<lambda>w. case Client_DeleteSession (me_net E) (me_js E) client (SessionID (me_crypto E) t) (mw_rest w) of
                   (err, n) \<Rightarrow> (case err of
                        Some e \<Rightarrow> if IsNotFound e then tool_bind (remove_session E) (\<lambda>_. pure (Inr (stored, False))) (w\<lparr>mw_rest := n\<rparr>)
                          else (Inl (TE_Relay e), w\<lparr>mw_rest := n\<rparr>)
                      | None \<Rightarrow> tool_bind (remove_session E) (\<lambda>_. pure (Inr (stored, True))) (w\<lparr>mw_rest := n\<rparr>))))) w1)"
  proof (cases "\<exists>t client. ParsedToken (io_upper (me_io E)) stored = Some t \<and> me_client E (ss_Relay stored) (RelayCredential (me_crypto E) t) = Some client")
    case False
    then show ?thesis by (auto simp: kept_pure split: option.splits)
  next
    case True
    then obtain t client where tc: "ParsedToken (io_upper (me_io E)) stored = Some t" "me_client E (ss_Relay stored) (RelayCredential (me_crypto E) t) = Some client" by blast
    obtain err n where d: "Client_DeleteSession (me_net E) (me_js E) client (SessionID (me_crypto E) t) (mw_rest w1) = (err, n)" by (rule prod.exhaust)
    have x: "relay_deleted E stored was" if "if was then err = None else \<exists>e. err = Some e \<and> IsNotFound e" for was
      unfolding relay_deleted_def using tc d that by blast
    have k: "file_kept w1 ?Q (tool_bind (remove_session E) (\<lambda>_. pure (Inr (stored, was))) (w1\<lparr>mw_rest := n\<rparr>))"
      if "if was then err = None else \<exists>e. err = Some e \<and> IsNotFound e" for was
      using kept_mono [OF remove_bind [OF x [OF that], of "w1\<lparr>mw_rest := n\<rparr>" "(stored, was)" E]] by (auto simp: kept_rest)
    show ?thesis
    proof (cases err)
      case None
      then show ?thesis using tc d k [of True] by simp
    next
      case (Some e)
      then show ?thesis using tc d k [of False] by (cases "IsNotFound e") (simp_all add: file_kept_def)
    qed
  qed
qed

text \<open>C28. The commands of the reader's terminal that change the stored session do all or nothing: a join that fails, at whatever step, leaves the file as it was, and one that
  succeeds leaves exactly the session it reports; \<^verbatim>\<open>end\<close> forgets the session only after the relay has deleted it or has answered that it has no such
  session, and every other failure keeps the file, so that the token is not lost while the artifact is still on the relay.\<close>

theorem mcp_commands_atomic:
  "(case cli_join E lower relay given w of (Inl e, w') \<Rightarrow> mw_file w' = mw_file w | (Inr s, w') \<Rightarrow> saved E s w') \<and>
   (case cli_end E w of (Inl e, w') \<Rightarrow> mw_file w' = mw_file w | (Inr (s, was), w') \<Rightarrow> mw_file w' = None \<and> relay_deleted E s was)"
proof
  have "file_kept w (\<lambda>w' s. saved E s w') (cli_join E lower relay given w)"
  proof (cases "\<exists>s t. given = Some s \<and> s \<noteq> '''' \<and> ParseToken (io_upper (me_io E)) s = Some t")
    case True
    then obtain s t where s: "given = Some s" "s \<noteq> ''''" "ParseToken (io_upper (me_io E)) s = Some t" by blast
    have "file_kept w (\<lambda>w' s. saved E s w') (cli (cli_join_token E relay t) w)"
      using cli_join_token_kept [of w E relay t] by (auto simp: file_kept_def cli_def apfst_def map_prod_def split: prod.splits sum.splits)
    with s show ?thesis by (simp add: cli_join_def)
  next
    case False
    then show ?thesis by (auto simp: cli_join_def file_kept_def split: option.splits)
  qed
  then show "case cli_join E lower relay given w of (Inl e, w') \<Rightarrow> mw_file w' = mw_file w | (Inr s, w') \<Rightarrow> saved E s w'"
    unfolding file_kept_def .
  show "case cli_end E w of (Inl e, w') \<Rightarrow> mw_file w' = mw_file w | (Inr (s, was), w') \<Rightarrow> mw_file w' = None \<and> relay_deleted E s was"
    using cli_end_kept [of w E] unfolding file_kept_def by (auto split: prod.splits sum.splits)
qed

end
