(* ===== verification/Serve_Run.thy ===== *)
theory Serve_Run
  imports Serve_Proofs Commands
begin

text \<open>
  The whole run of \<^verbatim>\<open>aken serve\<close> (\<^verbatim>\<open>Run\<close> of \<^verbatim>\<open>internal/serve/run.go\<close>, \<^verbatim>\<open>newAudit\<close> of \<^verbatim>\<open>audit.go\<close>): opening a session on the relay and its local copy, the join and the loop of
  \<open>Serve\<close>, and the steps that end it. What happens on the network while the session lives, and when and why its context ends, are parameters.
\<close>

section \<open>The local copy\<close>

datatype audit_step = AuditMkdirAll | AuditMkdir | AuditMkdirResults | AuditOpenRoot | AuditOpenLog | AuditWriteSession

definition first_session :: "serve_options \<Rightarrow> string list \<Rightarrow> time \<Rightarrow> session_json" where
  "first_session op scope expires =
     \<lparr>sj_Level = so_Level op, sj_ExpiresAt = expires, sj_JoinedAt = 0, sj_JoinedVia = '''', sj_Scope = scope, sj_EndedAt = 0\<rparr>"

definition newAudit :: "(audit_step \<Rightarrow> string option) \<Rightarrow> serve_options \<Rightarrow> string list \<Rightarrow> time \<Rightarrow> string + audit" where
  "newAudit fails op scope expires =
     (case List.find (\<lambda>x. fails x \<noteq> None)
             [AuditMkdirAll, AuditMkdir, AuditMkdirResults, AuditOpenRoot, AuditOpenLog, AuditWriteSession] of
        Some x \<Rightarrow> Inl (the (fails x))
      | None \<Rightarrow> Inr \<lparr>au_log = [], au_results = [], au_session = first_session op scope expires,
                      au_written = Some (first_session op scope expires), au_mapping = [], au_mappingSize = -1\<rparr>)"

section \<open>Opening\<close>

text \<open>
  What a run meets: the network, the rules, pruning, the token and the private key drawn, the steps of the local copy; then the answers to its waits
  for a join, the answers to its polls and how many envelopes it takes of them, the keys pressed, what the network becomes meanwhile, what other than polling
  ended the context of the session, if anything did, which errors are answers of the relay with a status, whether the lifetime ran out or the process was told to
  stop, the clock when the error is told and when the end is recorded, and closing the log.
\<close>

record 'n serve_run =
  sr_net :: "'n client_env"
  sr_js :: client_json
  sr_rules :: "collect_error + engine"
  sr_prune :: "string option"
  sr_token :: token
  sr_private :: bytes
  sr_audit :: "audit_step \<Rightarrow> string option"
  sr_joins :: "(string + joinInfo option) list"
  sr_polls :: "(string + envelope list) list"
  sr_taken :: nat
  sr_pressed :: "keystroke list"
  sr_during :: "'n \<Rightarrow> 'n"
  sr_cause :: "string option"
  sr_status :: "string \<Rightarrow> nat option"
  sr_deadline :: bool
  sr_stopped :: bool
  sr_checked :: time
  sr_ended :: time
  sr_close :: "string option"

definition serve_open ::
  "(string \<Rightarrow> url option) \<Rightarrow> (string \<Rightarrow> bool) \<Rightarrow> crypto \<Rightarrow> 'n serve_run \<Rightarrow> serve_options \<Rightarrow> 'n \<Rightarrow> (unit + relayClient \<times> keyPair \<times> engine \<times> sessionInfo) \<times> 'n" where
  "serve_open parse isLoopback C R op n =
     (case serve_validate parse isLoopback op of
        Some e \<Rightarrow> (Inl (), n)
      | None \<Rightarrow>
          (case NewRelayClient parse isLoopback (so_RelayURL op) (replicate 32 0) of
             None \<Rightarrow> (Inl (), n)
           | Some c0 \<Rightarrow>
               (case Client_Info (sr_net R) (sr_js R) c0 n of
                  (Inl e, n1) \<Rightarrow> (Inl (), n1)
                | (Inr info, n1) \<Rightarrow>
                    if SessionTTLDefaultSeconds (in_Caps info) = 0 then (Inl (), n1)
                    else (case (sr_rules R, if so_Retention op > 0 then sr_prune R else None) of
                            (Inr engine, None) \<Rightarrow>
                              (case (NewRelayClient parse isLoopback (so_RelayURL op) (RelayCredential C (sr_token R)), KeyPairFromPrivate (sr_private R)) of
                                 (Some c, Inr pair) \<Rightarrow>
                                   let i = SessionID C (sr_token R); exchange = ExchangeKey C (sr_token R); public = Public C pair in
                                   (case Client_CreatePersistentSession (sr_net R) (sr_js R) c i (so_TTL op) public (CollectorMAC C exchange i public) n1 of
                                      (Inl e, n2) \<Rightarrow> (Inl (), n2)
                                    | (Inr remote, n2) \<Rightarrow> (Inr (c, pair, engine, remote), n2))
                               | _ \<Rightarrow> (Inl (), n1))
                          | _ \<Rightarrow> (Inl (), n1)))))"

definition serve_scope :: "serve_options \<Rightarrow> string list" where
  "serve_scope op = ''/var/log'' # map Clean (so_Allow op)"

definition open_session :: "serve_options \<Rightarrow> engine \<Rightarrow> audit \<Rightarrow> keystroke list \<Rightarrow> serve_session" where
  "open_session op engine a keys =
     \<lparr>sv_Level = so_Level op, sv_files = \<lparr>f_Allowed = serve_scope op, f_Paths = [], f_Tail = 0, f_ModifiedAfter = 0\<rparr>,
      sv_keys = \<lparr>sk_job = replicate 32 0, sk_result = replicate 32 0\<rparr>, sv_engine = engine, sv_audit = a, sv_input = keys, sv_posted = [],
      sv_nextJob = 1, sv_nextResult = 1, sv_jobs = 0, sv_sent = 0, sv_denied = 0, sv_rejected = 0, sv_tick = 0\<rparr>"

section \<open>Living and ending\<close>

text \<open>A loop that stops at the last sequence number ends without an error.\<close>

definition numbers_used :: "serve_session \<Rightarrow> bool" where
  "numbers_used s \<longleftrightarrow> unat (sv_nextJob s) > MaxSessionSeq \<or> unat (sv_nextResult s) > MaxSessionSeq"

text \<open>
  \<^verbatim>\<open>poll\<close> hands the answers of the relay on, envelope by envelope, until one is an error, which ends the context of the session; the loop may be told of
  the end while envelopes still wait, so that it has taken the first of them only.
\<close>

fun poll :: "(string + envelope list) list \<Rightarrow> envelope list \<times> string option" where
  "poll [] = ([], None)"
| "poll (Inl e # answers) = ([], Some e)"
| "poll (Inr messages # answers) = (case poll answers of (envs, cause) \<Rightarrow> (messages @ envs, cause))"

definition context_cause :: "'n serve_run \<Rightarrow> string" where
  "context_cause R =
     (case sr_cause R of
        Some c \<Rightarrow> c
      | None \<Rightarrow> (case snd (poll (sr_polls R)) of Some e \<Rightarrow> e | None \<Rightarrow> ''context canceled''))"

definition serve_work :: "serve_env \<Rightarrow> 'n serve_run \<Rightarrow> keyPair \<Rightarrow> bytes \<Rightarrow> serve_session \<Rightarrow> string option \<times> serve_session" where
  "serve_work E R pair exchange s =
     (case serve_join E pair exchange (sr_joins R) s of
        (Inl e, s1) \<Rightarrow> (Some e, s1)
      | (Inr _, s1) \<Rightarrow>
          (case serve_loop E (take (sr_taken R) (fst (poll (sr_polls R)))) s1 of
             (Inl e, s2) \<Rightarrow> (Some e, s2)
           | (Inr _, s2) \<Rightarrow> (if numbers_used s2 then None else Some (context_cause R), s2)))"

datatype session_end = EndedClean | SessionExpired | EndedOnRelay | EndedError string

definition relay_ended :: "'n serve_run \<Rightarrow> string \<Rightarrow> bool" where
  "relay_ended R err =
     ((case sr_status R (context_cause R) of None \<Rightarrow> sr_status R err | Some x \<Rightarrow> Some x) \<in> {Some 404, Some 409})"

definition session_end :: "'n serve_run \<Rightarrow> time \<Rightarrow> string option \<Rightarrow> session_end" where
  "session_end R expires err0 =
     (case (if err0 = Some errInterrupted then None else err0) of
        None \<Rightarrow> EndedClean
      | Some err \<Rightarrow>
          if sr_stopped R then EndedClean
          else if sr_deadline R \<or> (relay_ended R err \<and> \<not> sr_checked R < expires) then SessionExpired
          else if relay_ended R err then EndedOnRelay
          else EndedError err)"

definition raise_code :: "int \<Rightarrow> 'a option \<Rightarrow> int" where
  "raise_code code err = (if err = None then code else 1)"

definition act_error :: "string + unit \<Rightarrow> string option" where
  "act_error r = (case r of Inl e \<Rightarrow> Some e | Inr _ \<Rightarrow> None)"

text \<open>The last steps. Each of them is taken, whatever failed before it.\<close>

definition serve_finish ::
  "serve_env \<Rightarrow> 'n serve_run \<Rightarrow> relayClient \<Rightarrow> int \<Rightarrow> serve_session \<Rightarrow> 'n \<Rightarrow> int \<times> serve_session \<times> 'n" where
  "serve_finish E R c code0 s n =
     (case Client_DeleteSession (sr_net R) (sr_js R) c (ev_id E) n of (err, n1) \<Rightarrow>
        let code1 = raise_code code0 (case err of None \<Rightarrow> None | Some e \<Rightarrow> if IsNotFound e then None else Some e) in
        (case audit_mapping E (Mapping (sv_engine s)) s of (r2, s2) \<Rightarrow>
           (case writeSession E (upd_audit (\<lambda>a. a\<lparr>au_session := (au_session a)\<lparr>sj_EndedAt := sr_ended R\<rparr>\<rparr>) s2) of (r3, s3) \<Rightarrow>
              (raise_code (raise_code (raise_code code1 (act_error r2)) (act_error r3)) (sr_close R), s3, n1))))"

definition serve_live ::
  "serve_env \<Rightarrow> 'n serve_run \<Rightarrow> serve_options \<Rightarrow> relayClient \<Rightarrow> keyPair \<Rightarrow> engine \<Rightarrow> sessionInfo \<Rightarrow> 'n \<Rightarrow> int \<times> serve_session option \<times> 'n" where
  "serve_live E R op c pair engine remote n =
     (case newAudit (sr_audit R) op (serve_scope op) (si_expiresAt remote) of
        Inl e \<Rightarrow> (case Client_DeleteSession (sr_net R) (sr_js R) c (ev_id E) n of (_, n1) \<Rightarrow> (1, None, n1))
      | Inr a \<Rightarrow>
          (case serve_work E R pair (ExchangeKey (ev_crypto E) (sr_token R)) (open_session op engine a (sr_pressed R)) of (err, s1) \<Rightarrow>
             (case serve_finish E R c (if session_end R (si_expiresAt remote) err = EndedClean then 0 else 1) s1 (sr_during R n) of
                (code, s2, n2) \<Rightarrow> (code, Some s2, n2))))"

definition serve_Run ::
  "(string \<Rightarrow> url option) \<Rightarrow> (string \<Rightarrow> bool) \<Rightarrow> serve_env \<Rightarrow> 'n serve_run \<Rightarrow> serve_options \<Rightarrow> 'n \<Rightarrow> int \<times> serve_session option \<times> 'n" where
  "serve_Run parse isLoopback E0 R op n =
     (let C = ev_crypto E0; E = E0\<lparr>ev_id := SessionID C (sr_token R)\<rparr> in
      case serve_open parse isLoopback C R op n of
        (Inl _, n1) \<Rightarrow> (1, None, n1)
      | (Inr (c, pair, engine, remote), n1) \<Rightarrow> serve_live E R op c pair engine remote n1)"

section \<open>The mapping on record\<close>

lemma values_ok_snd:
  assumes "values_ok c vs"
  shows "distinct (map snd vs)" and "p \<in> snd ` set vs \<Longrightarrow> \<exists>n. p = placeholder_text c n"
proof -
  have c: "category_ok c" and m: "map snd vs = map (placeholder_text c) [1..<Suc (length vs)]" using assms by (simp_all only: values_ok_def)
  have "inj (placeholder_text c)" using placeholder_text_inj(2) [OF c c] by (auto intro: injI)
  then show "distinct (map snd vs)" unfolding m by (simp add: distinct_map inj_on_def del: upt_Suc)
  show "\<exists>n. p = placeholder_text c n" if "p \<in> snd ` set vs"
  proof -
    have "p \<in> set (map snd vs)" using that by simp
    then show ?thesis unfolding m by auto
  qed
qed

lemma placeholders_distinct:
  "distinct (map fst xs) \<Longrightarrow> (\<And>c vs. (c, vs) \<in> set xs \<Longrightarrow> values_ok c vs) \<Longrightarrow> distinct (concat (map (\<lambda>(_, vs). map snd vs) xs))"
proof (induction xs)
  case (Cons x xs)
  obtain c vs where x: "x = (c, vs)" by (rule prod.exhaust)
  have ok: "values_ok c vs" using Cons.prems(2) x by simp
  have "p \<notin> set (concat (map (\<lambda>(_, vs). map snd vs) xs))" if p: "p \<in> snd ` set vs" for p
  proof
    assume "p \<in> set (concat (map (\<lambda>(_, vs). map snd vs) xs))"
    then obtain d ws where dw: "(d, ws) \<in> set xs" "p \<in> snd ` set ws" by auto
    have okd: "values_ok d ws" using Cons.prems(2) dw(1) by simp
    from values_ok_snd(2) [OF ok p] values_ok_snd(2) [OF okd dw(2)] obtain m n where "p = placeholder_text c m" "p = placeholder_text d n" by blast
    with ok okd have "c = d" using placeholder_text_inj(1) by (auto simp: values_ok_def)
    with Cons.prems(1) x dw(1) show False by force
  qed
  moreover have "distinct (concat (map (\<lambda>(_, vs). map snd vs) xs))" using Cons by simp
  ultimately show ?case using values_ok_snd(1) [OF ok] x by auto
qed simp

lemma Mapping_distinct: "engine_inv e \<Longrightarrow> distinct (map fst (Mapping e))"
proof -
  assume e: "engine_inv e"
  have "map fst (Mapping e) = concat (map (\<lambda>(_, vs). map snd vs) (eng_values e))"
    by (simp add: Mapping_def map_concat comp_def case_prod_unfold)
  then show ?thesis using placeholders_distinct [of "eng_values e"] e by (simp add: engine_inv_def)
qed

lemma Mapping_grows:
  assumes "engine_inv e" "grows e e'"
  shows "map_of (Mapping e) \<subseteq>\<^sub>m map_of (Mapping e')" and "length (Mapping e') = length (Mapping e) \<Longrightarrow> map_of (Mapping e') = map_of (Mapping e)"
proof -
  have i: "engine_inv e'" and k: "known e c v p \<Longrightarrow> known e' c v p" for c v p using assms(2) by (auto simp: grows_def)
  have some: "map_of (Mapping e') p = Some v" if "map_of (Mapping e) p = Some v" for p v
    using that k Mapping_known [OF assms(1)] Mapping_known [OF i] by blast
  then show le: "map_of (Mapping e) \<subseteq>\<^sub>m map_of (Mapping e')" by (auto simp: map_le_def)
  assume "length (Mapping e') = length (Mapping e)"
  then have "card (dom (map_of (Mapping e'))) = card (dom (map_of (Mapping e)))"
    using distinct_card [OF Mapping_distinct [OF assms(1)]] distinct_card [OF Mapping_distinct [OF i]] by (simp add: dom_map_of_conv_image_fst)
  then have "dom (map_of (Mapping e)) = dom (map_of (Mapping e'))"
    using card_subset_eq [OF finite_dom_map_of map_le_implies_dom_le [OF le]] by simp
  then show "map_of (Mapping e') = map_of (Mapping e)" using le by (intro map_le_antisym) (auto simp: map_le_def)
qed

text \<open>
  The mapping on record is that of the engine at some earlier time, and its size tells whether it is still complete.
\<close>

definition mapping_ok :: "serve_session \<Rightarrow> bool" where
  "mapping_ok s \<longleftrightarrow>
     (au_mappingSize (sv_audit s) = -1 \<and> au_mapping (sv_audit s) = []) \<or>
     (\<exists>e. engine_inv e \<and> grows e (sv_engine s) \<and> au_mapping (sv_audit s) = Mapping e \<and> au_mappingSize (sv_audit s) = int (length (Mapping e)))"

definition recorded :: "serve_session \<Rightarrow> serve_session \<Rightarrow> bool" where
  "recorded s s' \<longleftrightarrow> (engine_ready (sv_engine s) \<longrightarrow> grows (sv_engine s) (sv_engine s') \<and> (mapping_ok s \<longrightarrow> mapping_ok s'))"

lemma recorded_same:
  "sv_engine s' = sv_engine s \<Longrightarrow> au_mapping (sv_audit s') = au_mapping (sv_audit s) \<Longrightarrow> au_mappingSize (sv_audit s') = au_mappingSize (sv_audit s) \<Longrightarrow>
   recorded s s'"
  by (auto simp: recorded_def mapping_ok_def engine_ready_def grows_refl)

lemma recorded_engine:
  assumes "Redact addr high (sv_engine s) ls = (rd, e)"
  shows "recorded s (s\<lparr>sv_engine := e\<rparr>)"
  unfolding recorded_def
proof (intro impI conjI)
  assume r: "engine_ready (sv_engine s)"
  have g: "grows (sv_engine s) e" using Redact_ok(1) [OF r assms] .
  then show "grows (sv_engine s) (sv_engine (s\<lparr>sv_engine := e\<rparr>))" by simp
  assume "mapping_ok s"
  then show "mapping_ok (s\<lparr>sv_engine := e\<rparr>)" unfolding mapping_ok_def using grows_trans [OF _ g] by auto
qed

interpretation recorded: wide_frame recorded
proof unfold_locales
  show "recorded a c" if "recorded a b" "recorded b c" for a b c
    using that grows_trans grows_ready unfolding recorded_def by blast
  show "recorded s (upd_audit (\<lambda>a. a\<lparr>au_mapping := Mapping (sv_engine s), au_mappingSize := int (length (Mapping (sv_engine s)))\<rparr>) s)" for s
    by (auto simp: recorded_def mapping_ok_def upd_audit_def engine_ready_def grows_refl)
  show "Redact addr high (sv_engine s) ls = (rd, e) \<Longrightarrow> recorded s (s\<lparr>sv_engine := e\<rparr>)" for addr high s ls rd e by (rule recorded_engine)
qed (auto intro!: recorded_same simp: upd_audit_def count_result_def)

lemma written_recorded:
  assumes "writeSession E (upd_audit g t') = (y, s')" "sv_engine t' = sv_engine t" "sv_audit t' = sv_audit t"
    "\<And>a. au_mapping (g a) = au_mapping a \<and> au_mappingSize (g a) = au_mappingSize a"
  shows "recorded t s'"
  using assms by (auto intro!: recorded_same simp: writeSession_def effect_def upd_audit_def Let_def split: option.splits)

lemma serve_join_recorded: "serve_join E pair exchange answers s = (x, s') \<Longrightarrow> recorded s s'"
proof (induction answers)
  case (Cons a answers)
  show ?case
  proof (cases "\<exists>j key mac. a = Inr (Some j) \<and> DecodeKey (ji_mcpKey j) = Some key \<and> DecodeKey (ji_mcpMAC j) = Some mac \<and>
      VerifyMCPMAC (ev_crypto E) exchange (ev_id E) (Public (ev_crypto E) pair) key mac")
    case True
    then obtain j key mac where k: "a = Inr (Some j)" "DecodeKey (ji_mcpKey j) = Some key" "DecodeKey (ji_mcpMAC j) = Some mac"
      "VerifyMCPMAC (ev_crypto E) exchange (ev_id E) (Public (ev_crypto E) pair) key mac" by blast
    show ?thesis
    proof (cases "ContentRoot (ev_crypto E) pair key (ev_id E) (Public (ev_crypto E) pair) key")
      case (Inl e)
      with k Cons.prems show ?thesis by (simp add: Let_def recorded.R_refl)
    next
      case (Inr root)
      with k Cons.prems show ?thesis by (simp add: Let_def) (erule written_recorded, simp_all)
    qed
  next
    case False
    show ?thesis
    proof (cases a)
      case (Inl e)
      with Cons.prems show ?thesis by (simp add: recorded.R_refl)
    next
      case (Inr o')
      have "serve_join E pair exchange (a # answers) s = serve_join E pair exchange answers s"
      proof (cases o')
        case (Some j)
        with False Inr show ?thesis by (cases "DecodeKey (ji_mcpKey j)"; cases "DecodeKey (ji_mcpMAC j)") (auto simp: Let_def)
      qed (simp add: Inr)
      with Cons show ?thesis by simp
    qed
  qed
qed (simp add: recorded.R_refl)

lemma serve_loop_recorded: "serve_loop E envs s = (x, s') \<Longrightarrow> recorded s s'"
proof (induction E envs s arbitrary: x s' rule: serve_loop.induct)
  case (2 E env envs s)
  show ?case
  proof (cases "OpenJob (ev_crypto E) (sv_keys s) env (ev_id E) (sv_nextJob s)")
    case (Inl e)
    with 2 show ?thesis by simp
  next
    case (Inr data)
    let ?s = "s\<lparr>sv_nextJob := sv_nextJob s + 1\<rparr>"
    have n: "recorded s ?s" by (rule recorded_same) simp_all
    from 2(3) Inr have "and_then (handle E env data) (\<lambda>_ s1. if unat (e_seq env) = MaxSessionSeq \<or> unat (sv_nextResult s1) > MaxSessionSeq then (Inr (), s1)
            else serve_loop E envs s1) ?s = (x, s')" by simp
    then show ?thesis
    proof (cases rule: and_then_cases)
      case (fails e)
      with recorded.R_trans [OF n recorded.handle_R] show ?thesis by blast
    next
      case (goes u s1)
      have h: "recorded s s1" by (rule recorded.R_trans [OF n recorded.handle_R [OF goes(1)]])
      show ?thesis
      proof (cases "unat (e_seq env) = MaxSessionSeq \<or> unat (sv_nextResult s1) > MaxSessionSeq")
        case True
        with goes(2) h show ?thesis by simp
      next
        case False
        with goes(2) have "serve_loop E envs s1 = (x, s')" by simp
        from recorded.R_trans [OF h 2(2) [OF Inr False this]] show ?thesis .
      qed
    qed
  qed
qed (simp add: recorded.R_refl)

lemma serve_work_recorded:
  assumes "serve_work E R pair exchange s = (err, s')"
  shows "recorded s s'"
proof -
  obtain x s1 where j: "serve_join E pair exchange (sr_joins R) s = (x, s1)" by (rule prod.exhaust)
  obtain y s2 where l: "serve_loop E (take (sr_taken R) (fst (poll (sr_polls R)))) s1 = (y, s2)" by (rule prod.exhaust)
  have "s' = s1 \<or> s' = s2" using assms j l by (auto simp: serve_work_def split: sum.splits)
  then show ?thesis using serve_join_recorded [OF j] recorded.R_trans [OF _ serve_loop_recorded [OF l]] by blast
qed

lemma audit_mapping_complete:
  assumes "audit_mapping E (Mapping (sv_engine s)) s = (Inr (), s')" "mapping_ok s" "engine_inv (sv_engine s)"
  shows "map_of (au_mapping (sv_audit s')) = map_of (Mapping (sv_engine s)) \<and> sv_engine s' = sv_engine s"
proof (cases "int (length (Mapping (sv_engine s))) = au_mappingSize (sv_audit s)")
  case True
  then obtain e where e: "engine_inv e" "grows e (sv_engine s)" "au_mapping (sv_audit s) = Mapping e" "length (Mapping (sv_engine s)) = length (Mapping e)"
    using assms(2) unfolding mapping_ok_def by auto
  from True assms(1) have "s' = s" by (simp add: audit_mapping_def)
  with Mapping_grows(2) [OF e(1,2,4)] e(3) show ?thesis by simp
next
  case False
  with assms(1) show ?thesis by (auto simp: audit_mapping_def effect_def upd_audit_def Let_def split: option.splits)
qed

lemma raise_code_0: "raise_code code err = 0 \<longleftrightarrow> code = 0 \<and> err = None"
  by (simp add: raise_code_def)

lemma serve_finish_ends:
  assumes f: "serve_finish E R c code0 s n = (code, s', n')" and m: "mapping_ok s" "engine_inv (sv_engine s)"
  shows "(\<exists>err. Client_DeleteSession (sr_net R) (sr_js R) c (ev_id E) n = (err, n') \<and> (code = 0 \<longrightarrow> err = None \<or> (\<exists>e. err = Some e \<and> IsNotFound e))) \<and>
    (code = 0 \<longrightarrow> code0 = 0 \<and> sv_engine s' = sv_engine s \<and> map_of (au_mapping (sv_audit s')) = map_of (Mapping (sv_engine s)) \<and>
      (\<exists>j. au_written (sv_audit s') = Some j \<and> sj_EndedAt j = sr_ended R))"
proof -
  obtain err n1 where d: "Client_DeleteSession (sr_net R) (sr_js R) c (ev_id E) n = (err, n1)" by (rule prod.exhaust)
  obtain r2 s2 where a: "audit_mapping E (Mapping (sv_engine s)) s = (r2, s2)" by (rule prod.exhaust)
  let ?s2 = "upd_audit (\<lambda>a. a\<lparr>au_session := (au_session a)\<lparr>sj_EndedAt := sr_ended R\<rparr>\<rparr>) s2"
  obtain r3 s3 where w: "writeSession E ?s2 = (r3, s3)" by (rule prod.exhaust)
  define gone where "gone = (case err of None \<Rightarrow> None | Some e \<Rightarrow> if IsNotFound e then None else Some e)"
  have e: "code = raise_code (raise_code (raise_code (raise_code code0 gone) (act_error r2)) (act_error r3)) (sr_close R)" "s' = s3" "n' = n1"
    using f by (simp_all add: serve_finish_def d a w gone_def Let_def)
  show ?thesis
  proof (cases "code = 0")
    case True
    then have z: "code0 = 0" "gone = None" "act_error r2 = None" "act_error r3 = None" unfolding e(1) raise_code_0 by blast+
    from z(3) have r2: "r2 = Inr ()" by (cases r2) (simp_all add: act_error_def)
    from z(4) have r3: "r3 = Inr ()" by (cases r3) (simp_all add: act_error_def)
    have "s3 = upd_audit (\<lambda>a. a\<lparr>au_written := Some (au_session a)\<rparr>) (?s2\<lparr>sv_tick := sv_tick ?s2 + 1\<rparr>)"
      using w r3 by (auto simp: writeSession_def effect_def Let_def split: option.splits)
    then have s3: "sv_engine s3 = sv_engine s2" "au_mapping (sv_audit s3) = au_mapping (sv_audit s2)"
      "\<exists>j. au_written (sv_audit s3) = Some j \<and> sj_EndedAt j = sr_ended R" by (simp_all add: upd_audit_def)
    have g: "err = None \<or> (\<exists>e. err = Some e \<and> IsNotFound e)" using z(2) by (cases err) (auto simp: gone_def split: if_splits)
    from audit_mapping_complete [OF a [unfolded r2] m] s3 z(1) g d e(2,3) show ?thesis by simp
  next
    case False
    with d e(3) show ?thesis by simp
  qed
qed

section \<open>How a session ends\<close>

lemma newAudit_mapping: "newAudit fails op scope expires = Inr a \<Longrightarrow> mapping_ok (open_session op engine a keys)"
  by (auto simp: newAudit_def mapping_ok_def open_session_def split: option.splits)

text \<open>C11. A live session leaves nothing behind on the relay and everything on the host: once the session was created, whatever happens then (the local copy cannot be made, no
  join, a refused job, an error, an interrupt, expiry), the run's last act on the network is the deletion of that session; when the run exits with 0 the relay
  has deleted it or no longer had it, and the local copy has the end of the session on record and the complete mapping, so that every
  placeholder that was sent can be revealed.\<close>

theorem serve_ends:
  assumes "serve_open parse isLoopback (ev_crypto E) R op n = (Inr (c, pair, engine, remote), n1)" and "engine_ready engine"
  shows "case serve_Run parse isLoopback E R op n of (code, left, n') \<Rightarrow>
    (\<exists>m err. Client_DeleteSession (sr_net R) (sr_js R) c (SessionID (ev_crypto E) (sr_token R)) m = (err, n') \<and>
      (code = 0 \<longrightarrow> err = None \<or> (\<exists>e. err = Some e \<and> IsNotFound e))) \<and>
    (code = 0 \<longrightarrow> (\<exists>s j. left = Some s \<and> grows engine (sv_engine s) \<and> map_of (au_mapping (sv_audit s)) = map_of (Mapping (sv_engine s)) \<and>
      au_written (sv_audit s) = Some j \<and> sj_EndedAt j = sr_ended R))"
proof -
  let ?E = "E\<lparr>ev_id := SessionID (ev_crypto E) (sr_token R)\<rparr>"
  have run: "serve_Run parse isLoopback E R op n = serve_live ?E R op c pair engine remote n1" by (simp add: serve_Run_def assms(1) Let_def)
  show ?thesis
  proof (cases "newAudit (sr_audit R) op (serve_scope op) (si_expiresAt remote)")
    case (Inl e)
    obtain err n2 where d: "Client_DeleteSession (sr_net R) (sr_js R) c (ev_id ?E) n1 = (err, n2)" by (rule prod.exhaust)
    then have "serve_Run parse isLoopback E R op n = (1, None, n2)" unfolding run by (simp add: serve_live_def Inl)
    then show ?thesis using d by auto
  next
    case (Inr a)
    let ?s0 = "open_session op engine a (sr_pressed R)"
    obtain err s1 where w: "serve_work ?E R pair (ExchangeKey (ev_crypto ?E) (sr_token R)) ?s0 = (err, s1)" by (rule prod.exhaust)
    let ?code = "if session_end R (si_expiresAt remote) err = EndedClean then 0 else 1"
    obtain code s2 n2 where f: "serve_finish ?E R c ?code s1 (sr_during R n1) = (code, s2, n2)" by (rule prod_cases3)
    have r: "serve_Run parse isLoopback E R op n = (code, Some s2, n2)" unfolding run serve_live_def Inr sum.case w prod.case f by simp
    have "recorded ?s0 s1" by (rule serve_work_recorded [OF w])
    moreover have "sv_engine ?s0 = engine" by (simp add: open_session_def)
    ultimately have g: "grows engine (sv_engine s1)" and m: "mapping_ok s1" using assms(2) newAudit_mapping [OF Inr] by (auto simp: recorded_def)
    have i: "engine_inv (sv_engine s1)" using g by (simp add: grows_def)
    have id: "ev_id ?E = SessionID (ev_crypto E) (sr_token R)" by simp
    note fin = serve_finish_ends [OF f m i, unfolded id]
    show ?thesis unfolding r prod.case
    proof (rule conjI)
      from fin show "\<exists>m err. Client_DeleteSession (sr_net R) (sr_js R) c (SessionID (ev_crypto E) (sr_token R)) m = (err, n2) \<and>
          (code = 0 \<longrightarrow> err = None \<or> (\<exists>e. err = Some e \<and> IsNotFound e))" by blast
      from fin g show "code = 0 \<longrightarrow> (\<exists>s j. Some s2 = Some s \<and> grows engine (sv_engine s) \<and>
          map_of (au_mapping (sv_audit s)) = map_of (Mapping (sv_engine s)) \<and> au_written (sv_audit s) = Some j \<and> sj_EndedAt j = sr_ended R)"
        by (metis (no_types))
    qed
  qed
qed

text \<open>A relay that answers every request, and a host told to stop before anybody joins: the state counts the exchanges.\<close>

definition steady_env :: "nat client_env" where
  "steady_env = \<lparr>env_build = (\<lambda>_. True), env_context = (\<lambda>_. None),
     env_send = (\<lambda>q n. (Inr \<lparr>cs_status = 200, cs_retryAfter = '''', cs_body = \<lparr>body_data = [7], body_failed = False\<rparr>\<rparr>, Suc n)),
     env_pause = (\<lambda>_ n. (False, n))\<rparr>"

definition steady_info :: relay_info where
  "steady_info = \<lparr>in_ProtocolVersions = Some [1], in_Caps = DefaultCaps\<rparr>"

definition steady_remote :: sessionInfo where
  "steady_remote = \<lparr>si_mode = ''session'', si_joined = False, si_collectorKey = '''', si_collectorMAC = '''', si_sessionID = '''', si_expiresAt = 100,
     si_chunkCount = 0, si_chunksStored = 0, si_manifestStored = False\<rparr>"

definition steady_run :: "nat serve_run" where
  "steady_run = \<lparr>sr_net = steady_env, sr_js = no_json\<lparr>dec_info := \<lambda>_. Some steady_info, dec_session := \<lambda>_. Some steady_remote\<rparr>,
     sr_rules = Inr sample_engine, sr_prune = None, sr_token = Token (replicate 32 1), sr_private = replicate 32 2, sr_audit = (\<lambda>_. None), sr_joins = [],
     sr_polls = [], sr_taken = 0, sr_pressed = [], sr_during = id, sr_cause = None, sr_status = (\<lambda>_. None), sr_deadline = False, sr_stopped = True,
     sr_checked = 8, sr_ended = 9, sr_close = None\<rparr>"

definition steady_options :: serve_options where
  "steady_options = \<lparr>so_Level = 0, so_TTL = 1, so_RelayURL = ''https://r'', so_Allow = [], so_KeepCategories = [], so_Retention = 0\<rparr>"

lemma steady_request: "client_request steady_env js c meth path ctype body json_limit n = (Inr [7], Suc n)"
  by (simp add: client_request_def client_do.simps client_attempt_def steady_env_def readRelayBody_def json_limit_def)

lemma steady_valid: "serve_validate (\<lambda>_. Some sample_url) (\<lambda>_. False) steady_options = None"
  by (simp add: serve_validate_def steady_options_def NewRelayClient_def sample_url_def ValidateKeepCategories_def MaxTTL_def hour_def minute_def second_def)

lemma steady_opens:
  "\<exists>c pair. serve_open (\<lambda>_. Some sample_url) (\<lambda>_. False) toy_crypto steady_run steady_options 0 = (Inr (c, pair, sample_engine, steady_remote), 2)"
proof -
  have "NewRelayClient (\<lambda>_. Some sample_url) (\<lambda>_. False) (so_RelayURL steady_options) k \<noteq> None" for k
    by (simp add: NewRelayClient_def sample_url_def steady_options_def)
  then obtain c0 c where c: "NewRelayClient (\<lambda>_. Some sample_url) (\<lambda>_. False) (so_RelayURL steady_options) (replicate 32 0) = Some c0"
    "NewRelayClient (\<lambda>_. Some sample_url) (\<lambda>_. False) (so_RelayURL steady_options) (RelayCredential toy_crypto (sr_token steady_run)) = Some c"
    by blast
  have net: "sr_net steady_run = steady_env" by (simp add: steady_run_def)
  have i: "Client_Info (sr_net steady_run) (sr_js steady_run) c0 0 = (Inr steady_info, 1)"
    unfolding Client_Info_def net steady_request by (simp add: steady_run_def steady_info_def)
  have k: "Client_CreatePersistentSession (sr_net steady_run) (sr_js steady_run) c i ttl p q (Suc 0) = (Inr steady_remote, 2)" for i ttl p q
    unfolding Client_CreatePersistentSession_def net steady_request by (simp add: steady_run_def decoded_def decodeRelayJSON_def)
  have x: "sr_rules steady_run = Inr sample_engine" "\<not> so_Retention steady_options > 0" "KeyPairFromPrivate (sr_private steady_run) = Inr (Some (replicate 32 2))"
    "SessionTTLDefaultSeconds (in_Caps steady_info) \<noteq> 0"
    by (simp_all add: steady_run_def steady_options_def steady_info_def KeyPairFromPrivate_def DefaultCaps_def)
  show ?thesis by (simp add: serve_open_def steady_valid c i k x Let_def)
qed

lemma steady_exits: "\<exists>s. serve_Run (\<lambda>_. Some sample_url) (\<lambda>_. False) sample_env steady_run steady_options 0 = (0, Some s, 3)"
proof -
  obtain c pair where o': "serve_open (\<lambda>_. Some sample_url) (\<lambda>_. False) toy_crypto steady_run steady_options 0 = (Inr (c, pair, sample_engine, steady_remote), 2)"
    using steady_opens by blast
  have d: "Client_DeleteSession (sr_net steady_run) (sr_js steady_run) c i 2 = (None, 3)" for i
    unfolding Client_DeleteSession_def by (simp add: steady_run_def steady_request failure_def)
  have x: "sr_audit steady_run = (\<lambda>_. None)" "sr_joins steady_run = []" "sr_during steady_run = id" "sr_stopped steady_run" "sr_close steady_run = None"
    by (simp_all add: steady_run_def)
  show ?thesis
    by (simp add: serve_Run_def o' sample_env_def serve_live_def newAudit_def x serve_work_def session_end_def serve_finish_def d act_error_def raise_code_def
        audit_mapping_def writeSession_def effect_def upd_audit_def open_session_def Let_def)
qed

theorem serve_ends_witness:
  "\<exists>s j. serve_Run (\<lambda>_. Some sample_url) (\<lambda>_. False) sample_env steady_run steady_options 0 = (0, Some s, 3) \<and>
     map_of (au_mapping (sv_audit s)) = map_of (Mapping (sv_engine s)) \<and> au_written (sv_audit s) = Some j \<and> sj_EndedAt j = 9"
proof -
  obtain c pair where o': "serve_open (\<lambda>_. Some sample_url) (\<lambda>_. False) (ev_crypto sample_env) steady_run steady_options 0 =
      (Inr (c, pair, sample_engine, steady_remote), 2)" using steady_opens by (auto simp: sample_env_def)
  obtain s where s: "serve_Run (\<lambda>_. Some sample_url) (\<lambda>_. False) sample_env steady_run steady_options 0 = (0, Some s, 3)" using steady_exits by blast
  have t: "sr_ended steady_run = 9" by (simp add: steady_run_def)
  from serve_ends [OF o' Compile_ready [OF sample_re_ok sample_compiles]] show ?thesis unfolding s t by auto
qed

end
