(* ===== verification/Relay_Limits.thy ===== *)
theory Relay_Limits
  imports Relay_Handler
begin

text \<open>
  The limits in front of the relay (\<^verbatim>\<open>internal/relayserver/limits/limits.go\<close>): a request bucket and a create bucket for each
  address, the capacity, and the anonymous allowance of servers for each address. A request goes through in two parts with
  the relay's own work in between, as in \<open>Relay_Handler\<close>, so that requests may overlap. The buckets of \<^verbatim>\<open>golang.org/x/time/rate\<close> and
  the parsing of addresses are parameters.
\<close>

section \<open>State\<close>

record limits_config =
  lc_RequestsPerMinute :: int
  lc_CreatesPerHour :: int
  lc_MaxLiveSessions :: int
  lc_BehindCloudflare :: bool
  lc_AllowanceMode :: string
  lc_AllowanceServers :: int
  lc_AllowanceWindow :: duration

text \<open>\<^verbatim>\<open>rate.Limit(n / 60)\<close> and \<^verbatim>\<open>rate.Every(d)\<close>.\<close>

datatype rate_limit = PerMinute int | Every duration

record 'b rate_pkg =
  rt_new :: "rate_limit \<Rightarrow> int \<Rightarrow> 'b"
  rt_allow :: "'b \<Rightarrow> time \<Rightarrow> bool \<times> 'b"
  rt_seconds :: "'b \<Rightarrow> time \<Rightarrow> int"  \<comment> \<open>seconds to the next token, rounded up\<close>

record net_pkg =
  nt_host :: "string \<Rightarrow> string"
  nt_parse :: "string \<Rightarrow> string option"  \<comment> \<open>the address as \<^verbatim>\<open>net.IP.String\<close> writes it\<close>
  nt_is4 :: "string \<Rightarrow> bool"
  nt_net64 :: "string \<Rightarrow> string"

definition ClientIP :: "net_pkg \<Rightarrow> bool \<Rightarrow> string \<Rightarrow> string \<Rightarrow> string" where
  "ClientIP N behindCloudflare connecting remote =
     (case nt_parse N (if behindCloudflare then connecting else nt_host N remote) of Some ip \<Rightarrow> ip | None \<Rightarrow> ''unknown'')"

record 'b buckets =
  bk_requests :: 'b
  bk_creates :: 'b
  bk_lastSeen :: time

record creator =
  ct_key :: string
  ct_at :: time

text \<open>The pairs of an address are a list with one entry for each server.\<close>

record 'b limiter =
  lm_ips :: "string \<rightharpoonup> 'b buckets"
  lm_live :: int
  lm_creators :: "sessionID \<rightharpoonup> creator"
  lm_paired :: "string \<Rightarrow> (string \<times> time) list"

definition New_Limiter :: "'b limiter" where
  "New_Limiter = \<lparr>lm_ips = Map.empty, lm_live = 0, lm_creators = Map.empty, lm_paired = (\<lambda>_. [])\<rparr>"

definition SetLiveSessions :: "int \<Rightarrow> 'b limiter \<Rightarrow> 'b limiter" where
  "SetLiveSessions n l = l\<lparr>lm_live := n\<rparr>"

definition fresh_pairs :: "limits_config \<Rightarrow> time \<Rightarrow> (string \<times> time) list \<Rightarrow> (string \<times> time) list" where
  "fresh_pairs cfg now pairs = filter (\<lambda>(server, final). final > now - lc_AllowanceWindow cfg) pairs"

definition Prune :: "limits_config \<Rightarrow> time \<Rightarrow> 'b limiter \<Rightarrow> 'b limiter" where
  "Prune cfg now l =
     l\<lparr>lm_ips := (\<lambda>ip. case lm_ips l ip of None \<Rightarrow> None | Some b \<Rightarrow> if now - bk_lastSeen b > hour then None else Some b),
       lm_creators := (\<lambda>i. case lm_creators l i of
          None \<Rightarrow> None
        | Some c \<Rightarrow> if now - ct_at c > TTLMaxSeconds DefaultCaps * second + hour then None else Some c),
       lm_paired := (\<lambda>dev. fresh_pairs cfg now (lm_paired l dev))\<rparr>"

section \<open>Rates and capacity\<close>

definition new_buckets :: "'b rate_pkg \<Rightarrow> limits_config \<Rightarrow> 'b buckets" where
  "new_buckets R cfg = \<lparr>bk_requests = rt_new R (PerMinute (lc_RequestsPerMinute cfg)) 60,
     bk_creates = rt_new R (Every (hour div lc_CreatesPerHour cfg)) (lc_CreatesPerHour cfg), bk_lastSeen = 0\<rparr>"

definition buckets_of :: "'b rate_pkg \<Rightarrow> limits_config \<Rightarrow> 'b limiter \<Rightarrow> string \<Rightarrow> 'b buckets" where
  "buckets_of R cfg l ip = (case lm_ips l ip of Some b \<Rightarrow> b | None \<Rightarrow> new_buckets R cfg)"

text \<open>\<^verbatim>\<open>check\<close>: the status, 0 for a request that passes, and the seconds to wait.\<close>

definition limiter_check ::
  "'b rate_pkg \<Rightarrow> limits_config \<Rightarrow> time \<Rightarrow> string \<Rightarrow> bool \<Rightarrow> 'b limiter \<Rightarrow> (nat \<times> int) \<times> 'b limiter" where
  "limiter_check R cfg now ip create l =
     (let b = (buckets_of R cfg l ip)\<lparr>bk_lastSeen := now\<rparr>; put = (\<lambda>b. l\<lparr>lm_ips := (lm_ips l)(ip \<mapsto> b)\<rparr>) in
      case rt_allow R (bk_requests b) now of (ok, rq) \<Rightarrow>
        let b1 = b\<lparr>bk_requests := rq\<rparr> in
        if \<not> ok then ((429, max 1 (rt_seconds R rq now)), put b1)
        else if \<not> create then ((0, 0), put b1)
        else if lm_live l \<ge> lc_MaxLiveSessions cfg then ((503, 0), put b1)
        else (case rt_allow R (bk_creates b1) now of (ok2, cr) \<Rightarrow>
                (if \<not> ok2 then (429, max 1 (rt_seconds R cr now)) else (0, 0), put (b1\<lparr>bk_creates := cr\<rparr>))))"

section \<open>The allowance\<close>

text \<open>
  What a request that passes leaves to do after the relay has answered it: record the creator, record a first use of a server,
  or nothing. A use of a known server is renewed at once.
\<close>

datatype after =
    Free
  | Created sessionID string time
  | Known string string time
  | First string string time

record limit_response =
  lr_status :: nat
  lr_retryAfter :: "int option"
  lr_code :: string

datatype decision = Refuse limit_response | Pass after

definition put_pair :: "string \<Rightarrow> time \<Rightarrow> (string \<times> time) list \<Rightarrow> (string \<times> time) list" where
  "put_pair server now pairs = (server, now) # filter (\<lambda>(s, _). s \<noteq> server) pairs"

definition oldest_pair :: "(string \<times> time) list \<Rightarrow> time" where
  "oldest_pair pairs = foldl (\<lambda>oldest (s, final). if oldest = 0 \<or> final < oldest then final else oldest) 0 pairs"

definition ceil_seconds :: "duration \<Rightarrow> int" where
  "ceil_seconds d = - ((- d) div second)"

definition sessions_prefix :: string where "sessions_prefix = ''/v0/sessions/''"

definition path_session :: "string \<Rightarrow> sessionID option" where
  "path_session path =
     (if has_prefix path sessions_prefix
      then ParseSessionID (fst (cut_at (CHR ''/'') (drop (length sessions_prefix) path))) else None)"

definition client_key :: "net_pkg \<Rightarrow> string \<Rightarrow> string" where
  "client_key N ip = (if nt_is4 N ip then ip else nt_net64 N ip)"

definition allowance_begin ::
  "net_pkg \<Rightarrow> limits_config \<Rightarrow> time \<Rightarrow> string \<Rightarrow> bool \<Rightarrow> string \<Rightarrow> 'b limiter \<Rightarrow> decision \<times> 'b limiter" where
  "allowance_begin N cfg now ip create path l =
     (if lc_AllowanceMode cfg = '''' \<or> lc_AllowanceMode cfg = ''off'' then (Pass Free, l)
      else if nt_parse N ip = None then (Pass Free, l)
      else (case path_session path of
              None \<Rightarrow> (Pass Free, l)
            | Some i \<Rightarrow>
                let key = client_key N ip in
                if create then (Pass (Created i key now), l)
                else (case lm_creators l i of
                        None \<Rightarrow> (Pass Free, l)
                      | Some c \<Rightarrow>
                          if ct_key c = key then (Pass Free, l)
                          else
                            let server = ct_key c; pairs = fresh_pairs cfg now (lm_paired l key);
                                put = (\<lambda>pairs. l\<lparr>lm_paired := (lm_paired l)(key := pairs)\<rparr>) in
                            if map_of pairs server \<noteq> None then (Pass (Known key server now), put (put_pair server now pairs))
                            else if int (length pairs) \<ge> lc_AllowanceServers cfg \<and> lc_AllowanceMode cfg = ''enforce''
                            then (Refuse \<lparr>lr_status = 429,
                                          lr_retryAfter = Some (max 1 (ceil_seconds (oldest_pair pairs + lc_AllowanceWindow cfg - now))),
                                          lr_code = ''server_limit''\<rparr>, put pairs)
                            else (Pass (First key server now), put pairs))))"

definition allowance_end :: "after \<Rightarrow> nat \<Rightarrow> 'b limiter \<Rightarrow> 'b limiter" where
  "allowance_end a status l =
     (case a of
        Created i key now \<Rightarrow> if status = 201 then l\<lparr>lm_creators := (lm_creators l)(i \<mapsto> \<lparr>ct_key = key, ct_at = now\<rparr>)\<rparr> else l
      | First key server now \<Rightarrow>
          if status < 400 then l\<lparr>lm_paired := (lm_paired l)(key := put_pair server now (lm_paired l key))\<rparr> else l
      | _ \<Rightarrow> l)"

text \<open>
  \<^verbatim>\<open>Middleware\<close> up to the call of the relay; the clock is read once for the rates and once for the allowance.
\<close>

definition is_create :: "string \<Rightarrow> string \<Rightarrow> bool" where
  "is_create meth path \<longleftrightarrow>
     meth = ''PUT'' \<and> has_prefix path sessions_prefix \<and> drop (length sessions_prefix) path \<noteq> '''' \<and>
     CHR ''/'' \<notin> set (drop (length sessions_prefix) path)"

definition middleware_begin ::
  "'b rate_pkg \<Rightarrow> net_pkg \<Rightarrow> limits_config \<Rightarrow> time \<times> time \<Rightarrow> string \<Rightarrow> string \<Rightarrow> string \<Rightarrow> string \<Rightarrow> 'b limiter \<Rightarrow> decision \<times> 'b limiter" where
  "middleware_begin R N cfg clock meth path connecting remote l =
     (if path = ''/healthz'' then (Pass Free, l)
      else
        let create = is_create meth path; ip = ClientIP N (lc_BehindCloudflare cfg) connecting remote in
        (case limiter_check R cfg (fst clock) ip create l of
           ((status, retry), l1) \<Rightarrow>
             if status = 0 then allowance_begin N cfg (snd clock) ip create path l1
             else (Refuse \<lparr>lr_status = status, lr_retryAfter = (if status = 429 then Some retry else None),
                           lr_code = (if status = 429 then ''rate_limited'' else ''over_capacity'')\<rparr>, l1)))"

end
