(* ===== verification/Relay_Limits_Proofs.thy ===== *)
theory Relay_Limits_Proofs
  imports Relay_Limits
begin

text \<open>
  Properties of the limits: a run of overlapping requests, prunes and sweeps as a step relation with the bound on the servers that one
  address reaches, and the independence of the rates of different addresses, also of pruning.
\<close>

section \<open>Runs\<close>

text \<open>The limiter, the requests that the relay is working on, the last time read, and the uses of a session of another address.\<close>

record 'b limit_state =
  ls_limiter :: "'b limiter"
  ls_open :: "after list"
  ls_now :: time
  ls_reached :: "(string \<times> string \<times> time) list"

definition use_of :: "after \<Rightarrow> (string \<times> string \<times> time) list" where
  "use_of a = (case a of Known key server now \<Rightarrow> [(key, server, now)] | First key server now \<Rightarrow> [(key, server, now)] | _ \<Rightarrow> [])"

inductive limit_step ::
  "'b rate_pkg \<Rightarrow> net_pkg \<Rightarrow> limits_config \<Rightarrow> 'b limit_state \<Rightarrow> 'b limit_state \<Rightarrow> bool" for R N cfg where
  arrive: "middleware_begin R N cfg (t1, t2) meth path connecting remote (ls_limiter s) = (d, l) \<Longrightarrow> ls_now s \<le> t1 \<Longrightarrow> t1 \<le> t2 \<Longrightarrow>
    limit_step R N cfg s (s\<lparr>ls_limiter := l, ls_now := t2, ls_open := (case d of Refuse _ \<Rightarrow> ls_open s | Pass a \<Rightarrow> a # ls_open s)\<rparr>)"
| answer: "ls_open s = before @ a # behind \<Longrightarrow>
    limit_step R N cfg s (s\<lparr>ls_limiter := allowance_end a status (ls_limiter s), ls_open := before @ behind,
      ls_reached := (if status < 400 then use_of a else []) @ ls_reached s\<rparr>)"
| prune: "ls_now s \<le> t \<Longrightarrow> limit_step R N cfg s (s\<lparr>ls_limiter := Prune cfg t (ls_limiter s), ls_now := t\<rparr>)"
| count_live: "limit_step R N cfg s (s\<lparr>ls_limiter := SetLiveSessions n (ls_limiter s)\<rparr>)"

definition first_uses :: "string \<Rightarrow> after list \<Rightarrow> after list" where
  "first_uses key as = filter (\<lambda>a. case a of First k _ _ \<Rightarrow> k = key | _ \<Rightarrow> False) as"

text \<open>Runs in which the first uses of one address do not overlap; everything else may.\<close>

inductive orderly :: "'b rate_pkg \<Rightarrow> net_pkg \<Rightarrow> limits_config \<Rightarrow> string \<Rightarrow> 'b limit_state \<Rightarrow> bool" for R N cfg key where
  start: "orderly R N cfg key \<lparr>ls_limiter = New_Limiter, ls_open = [], ls_now = t, ls_reached = []\<rparr>"
| step: "orderly R N cfg key s \<Longrightarrow> limit_step R N cfg s s' \<Longrightarrow> length (first_uses key (ls_open s')) \<le> 1 \<Longrightarrow> orderly R N cfg key s'"

section \<open>The allowance\<close>

definition pairs_of :: "string \<Rightarrow> 'b limit_state \<Rightarrow> (string \<times> time) list" where
  "pairs_of key s = lm_paired (ls_limiter s) key"

text \<open>A use is remembered with at least its time, until it is older than the window.\<close>

definition remembered :: "limits_config \<Rightarrow> time \<Rightarrow> (string \<times> time) list \<Rightarrow> string \<Rightarrow> time \<Rightarrow> bool" where
  "remembered cfg now pairs server t \<longleftrightarrow>
     t \<le> now \<and> ((\<exists>t' \<ge> t. (server, t') \<in> set pairs) \<or> t \<le> now - lc_AllowanceWindow cfg)"

definition allowance_inv :: "limits_config \<Rightarrow> string \<Rightarrow> 'b limit_state \<Rightarrow> bool" where
  "allowance_inv cfg key s \<longleftrightarrow>
     distinct (map fst (pairs_of key s)) \<and>
     (\<forall>server t. (key, server, t) \<in> set (ls_reached s) \<or> Known key server t \<in> set (ls_open s) \<longrightarrow>
        remembered cfg (ls_now s) (pairs_of key s) server t) \<and>
     (\<forall>server t. First key server t \<in> set (ls_open s) \<longrightarrow> t \<le> ls_now s \<and> server \<notin> fst ` set (pairs_of key s)) \<and>
     int (length (fresh_pairs cfg (ls_now s) (pairs_of key s)) + length (first_uses key (ls_open s))) \<le> lc_AllowanceServers cfg"

lemma fresh_pairs_twice: "now \<le> now' \<Longrightarrow> fresh_pairs cfg now' (fresh_pairs cfg now p) = fresh_pairs cfg now' p"
  by (auto simp: fresh_pairs_def intro!: filter_cong)

lemma fresh_pairs_shrink: "now \<le> now' \<Longrightarrow> length (fresh_pairs cfg now' p) \<le> length (fresh_pairs cfg now p)"
  by (metis fresh_pairs_twice fresh_pairs_def length_filter_le)

lemma distinct_pairs:
  assumes "distinct (map fst p)"
  shows "distinct (map fst (fresh_pairs cfg now p))" "distinct (map fst (put_pair server now p))"
  using assms by (induction p) (auto simp: fresh_pairs_def put_pair_def)

lemma remembered_fresh: "now \<le> now' \<Longrightarrow> remembered cfg now p server t \<Longrightarrow> remembered cfg now' (fresh_pairs cfg now' p) server t"
  by (auto simp: remembered_def fresh_pairs_def)

lemma remembered_later: "now \<le> now' \<Longrightarrow> remembered cfg now p server t \<Longrightarrow> remembered cfg now' p server t"
  by (auto simp: remembered_def)

lemma remembered_put:
  assumes "remembered cfg now p server t" "t \<le> u \<or> server' \<notin> fst ` set p"
  shows "remembered cfg now (put_pair server' u p) server t"
proof (cases "server = server'")
  case True
  then have "(\<exists>t' \<ge> t. (server, t') \<in> set p) \<Longrightarrow> t \<le> u" using assms(2) by force
  with assms(1) True show ?thesis by (auto simp: remembered_def put_pair_def)
qed (use assms(1) in \<open>auto simp: remembered_def put_pair_def\<close>)

lemma remembered_new: "t \<le> now \<Longrightarrow> remembered cfg now (put_pair server t p) server t"
  by (auto simp: remembered_def put_pair_def)

text \<open>What the arrival of a request does to the pairs of an address.\<close>

definition pass_other :: "string \<Rightarrow> decision \<Rightarrow> bool" where
  "pass_other key d \<longleftrightarrow> (\<forall>server t. d \<noteq> Pass (Known key server t) \<and> d \<noteq> Pass (First key server t))"

lemma begin_pairs:
  assumes "allowance_begin N cfg now ip create path l = (d, l')" "lc_AllowanceMode cfg = ''enforce''"
  shows "pass_other key d \<and> (lm_paired l' key = lm_paired l key \<or> lm_paired l' key = fresh_pairs cfg now (lm_paired l key)) \<or>
    (\<exists>server. d = Pass (Known key server now) \<and> lm_paired l' key = put_pair server now (fresh_pairs cfg now (lm_paired l key)) \<and>
       map_of (fresh_pairs cfg now (lm_paired l key)) server \<noteq> None) \<or>
    (\<exists>server. d = Pass (First key server now) \<and> lm_paired l' key = fresh_pairs cfg now (lm_paired l key) \<and>
       map_of (lm_paired l' key) server = None \<and> int (length (lm_paired l' key)) < lc_AllowanceServers cfg)"
  using assms
  by (auto simp: allowance_begin_def pass_other_def Let_def split: if_splits option.splits)

lemma check_pairs: "limiter_check R cfg now ip create l = (x, l') \<Longrightarrow> lm_paired l' = lm_paired l \<and> lm_creators l' = lm_creators l"
  by (auto simp: limiter_check_def Let_def split: prod.splits if_splits)

lemma arrive_pairs:
  assumes "middleware_begin R N cfg (t1, t2) meth path connecting remote l = (d, l')" "lc_AllowanceMode cfg = ''enforce''"
  shows "pass_other key d \<and> (lm_paired l' key = lm_paired l key \<or> lm_paired l' key = fresh_pairs cfg t2 (lm_paired l key)) \<or>
    (\<exists>server. d = Pass (Known key server t2) \<and> lm_paired l' key = put_pair server t2 (fresh_pairs cfg t2 (lm_paired l key)) \<and>
       map_of (fresh_pairs cfg t2 (lm_paired l key)) server \<noteq> None) \<or>
    (\<exists>server. d = Pass (First key server t2) \<and> lm_paired l' key = fresh_pairs cfg t2 (lm_paired l key) \<and>
       map_of (lm_paired l' key) server = None \<and> int (length (lm_paired l' key)) < lc_AllowanceServers cfg)"
proof -
  let ?ip = "ClientIP N (lc_BehindCloudflare cfg) connecting remote" and ?c = "is_create meth path"
  obtain st rt l1 where c: "limiter_check R cfg t1 ?ip ?c l = ((st, rt), l1)" by (metis prod.exhaust)
  note p = check_pairs [OF c]
  have m: "middleware_begin R N cfg (t1, t2) meth path connecting remote l = (if path = ''/healthz'' then (Pass Free, l)
      else if st = 0 then allowance_begin N cfg t2 ?ip ?c path l1
      else (Refuse \<lparr>lr_status = st, lr_retryAfter = (if st = 429 then Some rt else None),
                    lr_code = (if st = 429 then ''rate_limited'' else ''over_capacity'')\<rparr>, l1))"
    by (simp only: middleware_begin_def Let_def c fst_conv snd_conv prod.case)
  show ?thesis
  proof (cases "path \<noteq> ''/healthz'' \<and> st = 0")
    case True
    with m assms(1) have "allowance_begin N cfg t2 ?ip ?c path l1 = (d, l')" by presburger
    from begin_pairs [OF this assms(2), of key] p show ?thesis by simp
  next
    case False
    with m assms(1) have "(d = Pass Free \<and> l' = l) \<or> (\<exists>r. d = Refuse r \<and> l' = l1)" by (metis Pair_inject)
    with p have "pass_other key d" "lm_paired l' key = lm_paired l key" by (auto simp: pass_other_def)
    then show ?thesis by simp
  qed
qed

lemma first_uses_simps:
  "first_uses key [] = []" "first_uses key (a # as) = (case a of First k _ _ \<Rightarrow> if k = key then a # first_uses key as else first_uses key as | _ \<Rightarrow> first_uses key as)"
  "first_uses key (as @ bs) = first_uses key as @ first_uses key bs"
  by (auto simp: first_uses_def split: after.splits)

lemma fresh_put_length:
  assumes "distinct (map fst p)" "map_of p server \<noteq> None"
  shows "length (put_pair server now p) = length p"
proof -
  have absent: "filter (\<lambda>(s, _). s \<noteq> server) p = p" if "server \<notin> fst ` set p" for p :: "(string \<times> time) list"
    using that by (intro filter_True) force
  from assms show ?thesis
  proof (induction p)
    case (Cons x p)
    then show ?case
      by (cases "fst x = server") (auto simp: put_pair_def absent split: prod.splits if_splits)
  qed simp
qed

lemma fresh_le: "length (fresh_pairs cfg now p) \<le> length p"
  by (simp add: fresh_pairs_def)

lemma allowance_invD:
  assumes "allowance_inv cfg key s"
  shows "distinct (map fst (pairs_of key s))"
    and "(key, server, t) \<in> set (ls_reached s) \<or> Known key server t \<in> set (ls_open s) \<Longrightarrow> remembered cfg (ls_now s) (pairs_of key s) server t"
    and "First key server t \<in> set (ls_open s) \<Longrightarrow> t \<le> ls_now s \<and> server \<notin> fst ` set (pairs_of key s)"
    and "int (length (fresh_pairs cfg (ls_now s) (pairs_of key s)) + length (first_uses key (ls_open s))) \<le> lc_AllowanceServers cfg"
  using assms unfolding allowance_inv_def by auto

lemma fresh_subset: "fst ` set (fresh_pairs cfg now p) \<subseteq> fst ` set p"
  by (auto simp: fresh_pairs_def)

lemma arrive_inv:
  assumes inv: "allowance_inv cfg key s" and enforce: "lc_AllowanceMode cfg = ''enforce''"
    and "middleware_begin R N cfg (t1, t2) meth path connecting remote (ls_limiter s) = (d, l)" and t: "ls_now s \<le> t2"
    and alone: "length (first_uses key (case d of Refuse _ \<Rightarrow> ls_open s | Pass a \<Rightarrow> a # ls_open s)) \<le> 1"
  shows "allowance_inv cfg key (s\<lparr>ls_limiter := l, ls_now := t2, ls_open := (case d of Refuse _ \<Rightarrow> ls_open s | Pass a \<Rightarrow> a # ls_open s)\<rparr>)"
proof -
  let ?p = "pairs_of key s" and ?f = "fresh_pairs cfg t2 (pairs_of key s)" and ?q = "lm_paired l key"
  note i = allowance_invD [OF inv]
  have d: "distinct (map fst ?p)" "distinct (map fst ?f)" using i(1) distinct_pairs(1) [OF i(1)] by auto
  have r: "remembered cfg t2 ?p server u \<and> remembered cfg t2 ?f server u"
    if "(key, server, u) \<in> set (ls_reached s) \<or> Known key server u \<in> set (ls_open s)" for server u
    using remembered_later [OF t i(2) [OF that]] remembered_fresh [OF t i(2) [OF that]] by simp
  have f: "u \<le> t2 \<and> server \<notin> fst ` set ?p \<and> server \<notin> fst ` set ?f" if "First key server u \<in> set (ls_open s)" for server u
    using i(3) [OF that] t fresh_subset [of cfg t2 ?p] by auto
  have n: "int (length ?f + length (first_uses key (ls_open s))) \<le> lc_AllowanceServers cfg"
    using i(4) fresh_pairs_shrink [OF t, of cfg ?p] by linarith
  have ff: "fresh_pairs cfg t2 ?f = ?f" by (rule fresh_pairs_twice) simp
  from arrive_pairs [OF assms(3) enforce, of key] consider
      (other) "pass_other key d" "?q = ?p \<or> ?q = ?f"
    | (known) server where "d = Pass (Known key server t2)" "?q = put_pair server t2 ?f" "map_of ?f server \<noteq> None"
    | (new) server where "d = Pass (First key server t2)" "?q = ?f" "map_of ?f server = None" "int (length ?f) < lc_AllowanceServers cfg"
    by (auto simp: pairs_of_def)
  then show ?thesis
  proof cases
    case other
    then have "distinct (map fst ?q)" "fresh_pairs cfg t2 ?q = ?f" using d ff by auto
    moreover have "first_uses key (case d of Refuse _ \<Rightarrow> ls_open s | Pass a \<Rightarrow> a # ls_open s) = first_uses key (ls_open s)"
      using other(1) by (auto simp: pass_other_def first_uses_simps split: decision.splits after.splits)
    moreover have "remembered cfg t2 ?q server u" if "(key, server, u) \<in> set (ls_reached s) \<or> Known key server u \<in> set (ls_open s)" for server u
      using other(2) r [OF that] by auto
    moreover have "u \<le> t2 \<and> server \<notin> fst ` set ?q" if "First key server u \<in> set (ls_open s)" for server u
      using other(2) f [OF that] by auto
    ultimately show ?thesis using n other(1) unfolding allowance_inv_def
      by (auto simp: pairs_of_def pass_other_def split: decision.splits)
  next
    case known
    have m: "server \<in> fst ` set ?f" using known(3) by (metis map_of_eq_None_iff)
    have "length (fresh_pairs cfg t2 ?q) \<le> length ?f"
      using fresh_le [of cfg t2 ?q] fresh_put_length [OF d(2) known(3), of t2] known(2) by simp
    moreover have "distinct (map fst ?q)" using known(2) distinct_pairs(2) [OF d(2)] by simp
    moreover have "remembered cfg t2 ?q server' u"
      if "(key, server', u) \<in> set (ls_reached s) \<or> Known key server' u \<in> set (ls_open s)" for server' u
      unfolding known(2) using r [OF that] by (intro remembered_put) (auto simp: remembered_def)
    moreover have "remembered cfg t2 ?q server t2" unfolding known(2) by (rule remembered_new) simp
    moreover have "u \<le> t2 \<and> server' \<notin> fst ` set ?q" if "First key server' u \<in> set (ls_open s)" for server' u
      using f [OF that] m unfolding known(2) by (auto simp: put_pair_def)
    ultimately show ?thesis using n known(1) unfolding allowance_inv_def
      by (auto simp: pairs_of_def first_uses_simps)
  next
    case new
    have "first_uses key (ls_open s) = []" using alone new(1) by (simp add: first_uses_simps)
    moreover have "server \<notin> fst ` set ?q" using new(2,3) by (metis map_of_eq_None_iff)
    moreover have "distinct (map fst ?q)" using new(2) d by simp
    moreover have "remembered cfg t2 ?q server' u"
      if "(key, server', u) \<in> set (ls_reached s) \<or> Known key server' u \<in> set (ls_open s)" for server' u
      unfolding new(2) using r [OF that] by simp
    moreover have "u \<le> t2 \<and> server' \<notin> fst ` set ?q" if "First key server' u \<in> set (ls_open s)" for server' u
      using f [OF that] unfolding new(2) by simp
    ultimately show ?thesis using new(1,2,4) ff unfolding allowance_inv_def
      by (auto simp: pairs_of_def first_uses_simps)
  qed
qed

lemma answer_inv:
  assumes inv: "allowance_inv cfg key s" and o: "ls_open s = before @ a # behind"
    and alone: "length (first_uses key (ls_open s)) \<le> 1"
  shows "allowance_inv cfg key (s\<lparr>ls_limiter := allowance_end a status (ls_limiter s), ls_open := before @ behind,
      ls_reached := (if status < 400 then use_of a else []) @ ls_reached s\<rparr>)"
proof -
  let ?p = "pairs_of key s" and ?now = "ls_now s"
  note i = allowance_invD [OF inv]
  show ?thesis
  proof (cases "(\<exists>server t. a = First key server t) \<and> status < 400")
    case True
    then obtain server t where a: "a = First key server t" and st: "status < 400" by blast
    let ?q = "put_pair server t ?p"
    have q: "lm_paired (allowance_end a status (ls_limiter s)) key = ?q" using a st by (simp add: allowance_end_def pairs_of_def)
    have s: "t \<le> ?now" "server \<notin> fst ` set ?p" using i(3) [of server t] o a by auto
    have others: "first_uses key before = []" "first_uses key behind = []" using alone o a by (auto simp: first_uses_simps)
    have no: "First key server' u \<notin> set (before @ behind)" for server' u
      using others by (auto simp: first_uses_def filter_empty_conv)
    have "filter (\<lambda>(s, _). s \<noteq> server) ?p = ?p" using s(2) by (intro filter_True) force
    then have "length (fresh_pairs cfg ?now ?q) \<le> Suc (length (fresh_pairs cfg ?now ?p))" by (simp add: put_pair_def fresh_pairs_def)
    moreover have "length (first_uses key (ls_open s)) = 1" "first_uses key (before @ behind) = []" using o a others by (simp_all add: first_uses_simps)
    moreover have "remembered cfg ?now ?q server' u" if "(key, server', u) \<in> set (ls_reached s) \<or> Known key server' u \<in> set (ls_open s)" for server' u
      using remembered_put [OF i(2) [OF that], of t server] s(2) by simp
    moreover have "remembered cfg ?now ?q server t" by (rule remembered_new [OF s(1)])
    ultimately show ?thesis unfolding allowance_inv_def
      using q a st i(4) distinct_pairs(2) [OF i(1)] no o by (auto simp: pairs_of_def use_of_def)
  next
    case False
    then have q: "lm_paired (allowance_end a status (ls_limiter s)) key = ?p"
      by (auto simp: allowance_end_def pairs_of_def split: after.splits)
    have u: "(key, server, t) \<in> set (if status < 400 then use_of a else []) \<Longrightarrow> a = Known key server t" for server t
      using False by (auto simp: use_of_def split: after.splits if_splits)
    have "length (first_uses key (before @ behind)) \<le> length (first_uses key (ls_open s))" using o by (auto simp: first_uses_simps split: after.splits)
    with i(4) have n: "int (length (fresh_pairs cfg ?now ?p) + length (first_uses key (before @ behind))) \<le> lc_AllowanceServers cfg" by linarith
    have r: "remembered cfg ?now ?p server t"
      if "(key, server, t) \<in> set ((if status < 400 then use_of a else []) @ ls_reached s) \<or> Known key server t \<in> set (before @ behind)" for server t
      using that u [of server t] i(2) [of server t] o by auto
    have f: "t \<le> ?now \<and> server \<notin> fst ` set ?p" if "First key server t \<in> set (before @ behind)" for server t using that i(3) [of server t] o by auto
    show ?thesis unfolding allowance_inv_def using i(1) r f n q by (simp add: pairs_of_def)
  qed
qed

lemma prune_inv:
  assumes inv: "allowance_inv cfg key s" and t: "ls_now s \<le> t"
  shows "allowance_inv cfg key (s\<lparr>ls_limiter := Prune cfg t (ls_limiter s), ls_now := t\<rparr>)"
proof -
  let ?p = "pairs_of key s"
  note i = allowance_invD [OF inv]
  have q: "lm_paired (Prune cfg t (ls_limiter s)) key = fresh_pairs cfg t ?p" by (simp add: Prune_def pairs_of_def)
  have "fresh_pairs cfg t (fresh_pairs cfg t ?p) = fresh_pairs cfg t ?p" by (rule fresh_pairs_twice) simp
  moreover have "int (length (fresh_pairs cfg t ?p) + length (first_uses key (ls_open s))) \<le> lc_AllowanceServers cfg"
    using i(4) fresh_pairs_shrink [OF t, of cfg ?p] by linarith
  moreover have "remembered cfg t (fresh_pairs cfg t ?p) server u"
    if "(key, server, u) \<in> set (ls_reached s) \<or> Known key server u \<in> set (ls_open s)" for server u
    by (rule remembered_fresh [OF t i(2) [OF that]])
  moreover have "u \<le> t \<and> server \<notin> fst ` set (fresh_pairs cfg t ?p)" if "First key server u \<in> set (ls_open s)" for server u
    using i(3) [OF that] t fresh_subset [of cfg t ?p] by auto
  ultimately show ?thesis unfolding allowance_inv_def using distinct_pairs(1) [OF i(1)] q by (simp add: pairs_of_def)
qed

lemma orderly_inv:
  assumes "orderly R N cfg key s" "lc_AllowanceMode cfg = ''enforce''" "0 \<le> lc_AllowanceServers cfg"
  shows "allowance_inv cfg key s \<and> length (first_uses key (ls_open s)) \<le> 1"
  using assms(1)
proof induction
  case (start t)
  show ?case using assms(3) by (simp add: allowance_inv_def pairs_of_def New_Limiter_def fresh_pairs_def first_uses_def)
next
  case (step s s')
  then have inv: "allowance_inv cfg key s" "length (first_uses key (ls_open s)) \<le> 1" by auto
  from step.hyps(2) have "allowance_inv cfg key s'"
  proof cases
    case (arrive t1 t2 meth path connecting remote d l)
    with arrive_inv [OF inv(1) assms(2), of R N t1 t2 meth path connecting remote d l] step.hyps(3) show ?thesis by simp
  next
    case (answer before a behind status)
    with answer_inv [OF inv(1) _ inv(2)] show ?thesis by simp
  next
    case (prune t)
    with prune_inv [OF inv(1)] show ?thesis by simp
  next
    case (count_live n)
    with inv(1) show ?thesis by (simp add: allowance_inv_def pairs_of_def SetLiveSessions_def)
  qed
  with step.hyps(3) show ?case by simp
qed

text \<open>
  C21. The anonymous allowance holds: in a run of the relay that enforces it, with requests of all addresses overlapping as they like, an
  address whose first uses of servers do not overlap each other has had, in any window, successful requests to sessions of at most as many
  other addresses as allowed.
\<close>

theorem allowance_enforced:
  assumes "orderly R N cfg key s" and "lc_AllowanceMode cfg = ''enforce''" and "0 \<le> lc_AllowanceServers cfg" and "ls_now s \<le> now"
  shows "int (card {server. \<exists>t > now - lc_AllowanceWindow cfg. (key, server, t) \<in> set (ls_reached s)}) \<le> lc_AllowanceServers cfg"
proof -
  let ?f = "fresh_pairs cfg (ls_now s) (pairs_of key s)"
  from orderly_inv [OF assms(1-3)] have inv: "allowance_inv cfg key s" by simp
  note i = allowance_invD [OF inv]
  have "server \<in> fst ` set ?f" if u: "(key, server, t) \<in> set (ls_reached s)" "t > now - lc_AllowanceWindow cfg" for server t
  proof -
    have "remembered cfg (ls_now s) (pairs_of key s) server t" using i(2) u(1) by blast
    then obtain t' where "t' \<ge> t" "(server, t') \<in> set (pairs_of key s)" using u(2) assms(4) by (auto simp: remembered_def)
    then have "(server, t') \<in> set ?f" using u(2) assms(4) by (auto simp: fresh_pairs_def)
    then show ?thesis by force
  qed
  then have "{server. \<exists>t > now - lc_AllowanceWindow cfg. (key, server, t) \<in> set (ls_reached s)} \<subseteq> fst ` set ?f" by blast
  from card_mono [OF _ this] card_length [of "map fst ?f"] i(4) show ?thesis by simp
qed

section \<open>Rates\<close>

text \<open>
  A bucket after some uses, and the behaviour of the rate package that pruning relies on: both buckets are full again an
  hour after their last use, so that they answer like new ones.
\<close>

definition used :: "'b rate_pkg \<Rightarrow> 'b \<Rightarrow> time list \<Rightarrow> 'b" where
  "used R b ts = foldl (\<lambda>b t. snd (rt_allow R b t)) b ts"

definition seen :: "'b rate_pkg \<Rightarrow> 'b \<Rightarrow> time \<Rightarrow> 'b \<Rightarrow> bool" where
  "seen R new t b \<longleftrightarrow> (\<exists>ts. b = used R new ts \<and> sorted ts \<and> (\<forall>u \<in> set ts. u \<le> t))"

definition idle :: "'b rate_pkg \<Rightarrow> 'b \<Rightarrow> time \<Rightarrow> 'b \<Rightarrow> bool" where
  "idle R new now b \<longleftrightarrow> (\<exists>t. seen R new t b \<and> hour < now - t)"

definition refills :: "'b rate_pkg \<Rightarrow> limits_config \<Rightarrow> bool" where
  "refills R cfg \<longleftrightarrow>
     (\<forall>now b. idle R (bk_requests (new_buckets R cfg)) now b \<longrightarrow> rt_allow R b now = rt_allow R (bk_requests (new_buckets R cfg)) now) \<and>
     (\<forall>now b. idle R (bk_creates (new_buckets R cfg)) now b \<longrightarrow> rt_allow R b now = rt_allow R (bk_creates (new_buckets R cfg)) now)"

datatype rate_event = RE_Check time string bool | RE_Prune time | RE_Live int

fun rate_run :: "'b rate_pkg \<Rightarrow> limits_config \<Rightarrow> rate_event list \<Rightarrow> 'b limiter \<Rightarrow> (string \<times> nat \<times> int) list" where
  "rate_run R cfg [] l = []"
| "rate_run R cfg (RE_Check now ip create # es) l =
     (case limiter_check R cfg now ip create l of (a, l') \<Rightarrow> (ip, a) # rate_run R cfg es l')"
| "rate_run R cfg (RE_Prune now # es) l = rate_run R cfg es (Prune cfg now l)"
| "rate_run R cfg (RE_Live n # es) l = rate_run R cfg es (SetLiveSessions n l)"

definition own_event :: "string \<Rightarrow> rate_event \<Rightarrow> bool" where
  "own_event ip e = (case e of RE_Check _ x _ \<Rightarrow> x = ip | RE_Prune _ \<Rightarrow> False | RE_Live _ \<Rightarrow> True)"

definition event_times :: "rate_event list \<Rightarrow> time list" where
  "event_times es = concat (map (\<lambda>e. case e of RE_Check t _ _ \<Rightarrow> [t] | RE_Prune t \<Rightarrow> [t] | RE_Live _ \<Rightarrow> []) es)"

lemma seen_new: "seen R new t new"
  by (auto simp: seen_def used_def intro!: exI [of _ "[]"])

lemma seen_mono: "seen R new t b \<Longrightarrow> t \<le> u \<Longrightarrow> seen R new u b"
  unfolding seen_def by fastforce

lemma seen_allow: "seen R new t b \<Longrightarrow> t \<le> u \<Longrightarrow> seen R new u (snd (rt_allow R b u))"
proof -
  assume "seen R new t b" "t \<le> u"
  then obtain ts where "b = used R new ts" "sorted ts" "\<forall>x \<in> set ts. x \<le> t" by (auto simp: seen_def)
  with \<open>t \<le> u\<close> show ?thesis by (fastforce simp: seen_def used_def sorted_append intro!: exI [of _ "ts @ [u]"])
qed

lemma idle_new: "idle R new now new"
  unfolding idle_def by (rule exI [of _ "now - hour - 1"]) (simp add: seen_new)

definition alike :: "'b rate_pkg \<Rightarrow> 'b \<Rightarrow> time \<Rightarrow> 'b \<Rightarrow> 'b \<Rightarrow> bool" where
  "alike R new now b b' \<longleftrightarrow> b = b' \<or> idle R new now b \<and> idle R new now b'"

lemma alike_mono: "alike R new now b b' \<Longrightarrow> now \<le> now' \<Longrightarrow> alike R new now' b b'"
  unfolding alike_def idle_def by fastforce

text \<open>The limiter of a whole run and one that only saw the requests of an address, compared at that address.\<close>

definition same_for :: "'b rate_pkg \<Rightarrow> limits_config \<Rightarrow> string \<Rightarrow> time \<Rightarrow> 'b limiter \<Rightarrow> 'b limiter \<Rightarrow> bool" where
  "same_for R cfg ip now l l0 \<longleftrightarrow>
     lm_live l = lm_live l0 \<and>
     (\<forall>b. lm_ips l ip = Some b \<longrightarrow> seen R (bk_requests (new_buckets R cfg)) (bk_lastSeen b) (bk_requests b) \<and>
        seen R (bk_creates (new_buckets R cfg)) (bk_lastSeen b) (bk_creates b) \<and> bk_lastSeen b \<le> now) \<and>
     alike R (bk_requests (new_buckets R cfg)) now (bk_requests (buckets_of R cfg l ip)) (bk_requests (buckets_of R cfg l0 ip)) \<and>
     alike R (bk_creates (new_buckets R cfg)) now (bk_creates (buckets_of R cfg l ip)) (bk_creates (buckets_of R cfg l0 ip))"

lemma alike_allow:
  assumes "refills R cfg" "now \<le> t"
  shows "alike R (bk_requests (new_buckets R cfg)) now b b' \<Longrightarrow> rt_allow R b t = rt_allow R b' t"
    and "alike R (bk_creates (new_buckets R cfg)) now b b' \<Longrightarrow> rt_allow R b t = rt_allow R b' t"
  using assms alike_mono [OF _ assms(2)] unfolding alike_def refills_def by metis+

lemma same_check:
  assumes r: "refills R cfg" and s: "same_for R cfg ip now l l0" and t: "now \<le> t"
    and "limiter_check R cfg t ip create l = (a, l')" "limiter_check R cfg t ip create l0 = (a0, l0')"
  shows "a = a0 \<and> same_for R cfg ip t l' l0'"
proof -
  let ?q = "bk_requests (new_buckets R cfg)" and ?c = "bk_creates (new_buckets R cfg)" and ?b = "buckets_of R cfg l ip" and ?bo = "buckets_of R cfg l0 ip"
  have live: "lm_live l = lm_live l0" and al: "alike R ?q now (bk_requests ?b) (bk_requests ?bo)" "alike R ?c now (bk_creates ?b) (bk_creates ?bo)"
    using s by (auto simp: same_for_def)
  obtain ok rq where q: "rt_allow R (bk_requests ?b) t = (ok, rq)" by (rule prod.exhaust)
  have q0: "rt_allow R (bk_requests ?bo) t = (ok, rq)" using alike_allow(1) [OF r t al(1)] q by simp
  obtain ok2 cr where c: "rt_allow R (bk_creates ?b) t = (ok2, cr)" by (rule prod.exhaust)
  have c0: "rt_allow R (bk_creates ?bo) t = (ok2, cr)" using alike_allow(2) [OF r t al(2)] c by simp
  have sn: "seen R ?q t (bk_requests ?b)" "seen R ?c t (bk_creates ?b)"
    using s t seen_new [of R _ t] by (auto simp: same_for_def buckets_of_def split: option.splits intro: seen_mono)
  have sq: "seen R ?q t rq" "seen R ?c t cr" using seen_allow [OF sn(1), of t] seen_allow [OF sn(2), of t] q c by simp_all
  have ac: "alike R ?c t (bk_creates ?b) (bk_creates ?bo)" by (rule alike_mono [OF al(2) t])
  show ?thesis using assms(4,5) q q0 c c0 sn(2) sq live ac
    by (auto simp: limiter_check_def same_for_def Let_def buckets_of_def [of _ _ "limiter.lm_ips_update _ _"] alike_def split: if_splits)
qed

lemma same_other:
  assumes "same_for R cfg ip now l l0" "now \<le> t" "x \<noteq> ip" "limiter_check R cfg t x create l = (a, l')"
  shows "same_for R cfg ip t l' l0"
proof -
  have "lm_ips l' ip = lm_ips l ip" "lm_live l' = lm_live l" using assms(3,4) by (auto simp: limiter_check_def Let_def split: prod.splits if_splits)
  with assms(1,2) show ?thesis by (auto simp: same_for_def buckets_of_def intro: alike_mono)
qed

lemma same_prune:
  assumes "same_for R cfg ip now l l0" "now \<le> t"
  shows "same_for R cfg ip t (Prune cfg t l) l0"
proof (cases "\<exists>b. lm_ips l ip = Some b \<and> hour < t - bk_lastSeen b")
  case True
  then obtain b where b: "lm_ips l ip = Some b" "hour < t - bk_lastSeen b" by blast
  let ?q = "bk_requests (new_buckets R cfg)" and ?c = "bk_creates (new_buckets R cfg)"
  have i: "idle R ?q t (bk_requests b)" "idle R ?c t (bk_creates b)" using assms(1) b by (auto simp: same_for_def idle_def)
  have "alike R ?q t (bk_requests b) (bk_requests (buckets_of R cfg l0 ip))" "alike R ?c t (bk_creates b) (bk_creates (buckets_of R cfg l0 ip))"
    using assms b(1) alike_mono [OF _ assms(2)] by (auto simp: same_for_def buckets_of_def)
  with i have "idle R ?q t (bk_requests (buckets_of R cfg l0 ip))" "idle R ?c t (bk_creates (buckets_of R cfg l0 ip))" by (auto simp: alike_def)
  with b assms(1) show ?thesis by (simp add: same_for_def Prune_def buckets_of_def alike_def idle_new)
next
  case False
  then have "lm_ips (Prune cfg t l) ip = lm_ips l ip" "lm_live (Prune cfg t l) = lm_live l" by (auto simp: Prune_def split: option.splits)
  with assms show ?thesis by (auto simp: same_for_def buckets_of_def intro: alike_mono)
qed

lemma rate_run_same:
  assumes "refills R cfg" "same_for R cfg ip now l l0" "sorted (now # event_times es)"
  shows "filter (\<lambda>(x, _). x = ip) (rate_run R cfg es l) = rate_run R cfg (filter (own_event ip) es) l0"
  using assms(2,3)
proof (induction es arbitrary: now l l0)
  case (Cons e es)
  show ?case
  proof (cases e)
    case (RE_Check t x create)
    obtain a l' where c: "limiter_check R cfg t x create l = (a, l')" by (rule prod.exhaust)
    obtain a0 l0' where c0: "limiter_check R cfg t x create l0 = (a0, l0')" by (rule prod.exhaust)
    have t: "now \<le> t" "sorted (t # event_times es)" using Cons.prems(2) RE_Check by (simp_all add: event_times_def)
    show ?thesis
    proof (cases "x = ip")
      case True
      with same_check [OF assms(1) Cons.prems(1) t(1)] c c0 Cons.IH [OF _ t(2)] RE_Check show ?thesis by (simp add: own_event_def)
    next
      case False
      with same_other [OF Cons.prems(1) t(1) False c] c Cons.IH [OF _ t(2)] RE_Check show ?thesis by (simp add: own_event_def)
    qed
  next
    case (RE_Prune t)
    have t: "now \<le> t" "sorted (t # event_times es)" using Cons.prems(2) RE_Prune by (simp_all add: event_times_def)
    with same_prune [OF Cons.prems(1) t(1)] Cons.IH [OF _ t(2)] RE_Prune show ?thesis by (simp add: own_event_def)
  next
    case (RE_Live n)
    have "same_for R cfg ip now (SetLiveSessions n l) (SetLiveSessions n l0)"
      using Cons.prems(1) by (simp add: same_for_def SetLiveSessions_def buckets_of_def)
    with Cons.IH Cons.prems(2) RE_Live show ?thesis by (simp add: own_event_def event_times_def)
  qed
qed simp

text \<open>
  C22. Rates are per address: what an address is answered in a run of requests of all addresses, with pruning at any time, is
  what it would be answered alone on a relay that never prunes. It relies on buckets that are full after an hour.
\<close>

theorem rates_per_address:
  assumes "refills R cfg" and "sorted (event_times es)"
  shows "filter (\<lambda>(x, _). x = ip) (rate_run R cfg es New_Limiter) = rate_run R cfg (filter (own_event ip) es) New_Limiter"
proof (cases "event_times es")
  case Nil
  have "same_for R cfg ip 0 New_Limiter New_Limiter" by (simp add: same_for_def New_Limiter_def alike_def)
  with rate_run_same [OF assms(1) this, of es] Nil show ?thesis by simp
next
  case (Cons t ts)
  have "same_for R cfg ip t New_Limiter New_Limiter" by (simp add: same_for_def New_Limiter_def alike_def)
  with rate_run_same [OF assms(1) this, of es] Cons assms(2) show ?thesis by simp
qed

section \<open>A small relay\<close>

text \<open>Buckets that remember the uses of the last hour.\<close>

definition window_rate :: "(int \<times> time list) rate_pkg" where
  "window_rate = \<lparr>rt_new = (\<lambda>_ n. (n, [])),
     rt_allow = (\<lambda>(n, ts) t. let kept = filter (\<lambda>u. t - u \<le> hour) ts in
        if int (length kept) < n then (True, (n, t # kept)) else (False, (n, kept))),
     rt_seconds = (\<lambda>_ _. 1)\<rparr>"

definition sample_net :: net_pkg where
  "sample_net = \<lparr>nt_host = id, nt_parse = Some, nt_is4 = (\<lambda>_. True), nt_net64 = id\<rparr>"

definition sample_limits :: limits_config where
  "sample_limits = \<lparr>lc_RequestsPerMinute = 60, lc_CreatesPerHour = 1, lc_MaxLiveSessions = 9, lc_BehindCloudflare = False,
     lc_AllowanceMode = ''enforce'', lc_AllowanceServers = 1, lc_AllowanceWindow = 100\<rparr>"

lemma window_used: "\<exists>us. used window_rate (n, []) ts = (n, us) \<and> set us \<subseteq> set ts"
proof (induction ts rule: rev_induct)
  case (snoc t ts)
  then obtain us where "used window_rate (n, []) ts = (n, us)" "set us \<subseteq> set ts" by blast
  then show ?case by (auto simp: used_def window_rate_def Let_def)
qed (simp add: used_def)

lemma window_refills: "refills window_rate cfg"
proof -
  have "rt_allow window_rate b now = rt_allow window_rate (n, []) now" if "idle window_rate (n, []) now b" for b n now
  proof -
    from that obtain ts t where ts: "b = used window_rate (n, []) ts" "\<forall>u \<in> set ts. u \<le> t" "hour < now - t"
      by (auto simp: idle_def seen_def)
    obtain us where us: "b = (n, us)" "set us \<subseteq> set ts" using window_used [of n ts] ts(1) by auto
    have "filter (\<lambda>u. now - u \<le> hour) us = []" using us(2) ts(2,3) by (fastforce simp: filter_empty_conv)
    with us(1) show ?thesis by (simp add: window_rate_def)
  qed
  then show ?thesis by (simp add: refills_def new_buckets_def window_rate_def)
qed

theorem rates_per_address_witness:
  "filter (\<lambda>(x, _). x = ''a'') (rate_run window_rate sample_limits [RE_Check 1 ''a'' True, RE_Check 2 ''b'' True, RE_Prune 3, RE_Check 4 ''a'' True] New_Limiter) =
   [(''a'', 0, 0), (''a'', 429, 1)]"
proof -
  have "sorted (event_times [RE_Check 1 ''a'' True, RE_Check 2 ''b'' True, RE_Prune 3, RE_Check 4 ''a'' True])" by (simp add: event_times_def)
  from rates_per_address [OF window_refills this, where cfg = sample_limits and ip = "''a''"] show ?thesis
    by (simp add: own_event_def limiter_check_def window_rate_def new_buckets_def buckets_of_def New_Limiter_def sample_limits_def Let_def hour_def minute_def second_def)
qed

text \<open>Two first requests of one address that overlap both pass, although the allowance is one server.\<close>

lemma no_slash: "length i = 16 \<Longrightarrow> CHR ''/'' \<notin> set (SessionID_String i)"
  using lower_hex_letters [OF SessionID_String_lower] by (fastforce simp: hex_letters_def)

lemma path_session_String: "length i = 16 \<Longrightarrow> path_session (sessions_prefix @ SessionID_String i) = Some i"
proof -
  assume i: "length i = 16"
  show ?thesis using i no_slash [OF i] by (simp add: path_session_def cut_at_absent codec_simps)
qed

definition sample_path :: "byte \<Rightarrow> string" where
  "sample_path x = sessions_prefix @ SessionID_String (replicate 16 x)"

lemma sample_path_session: "path_session (sample_path x) = Some (replicate 16 x)"
  unfolding sample_path_def by (rule path_session_String) simp

definition sample_creators :: "'b limiter" where
  "sample_creators = New_Limiter\<lparr>lm_creators := [replicate 16 1 \<mapsto> \<lparr>ct_key = ''b'', ct_at = 0\<rparr>, replicate 16 2 \<mapsto> \<lparr>ct_key = ''c'', ct_at = 0\<rparr>]\<rparr>"

lemma overlap_exceeds:
  "\<exists>l1 l2. allowance_begin sample_net sample_limits 1 ''a'' False (sample_path 1) sample_creators = (Pass (First ''a'' ''b'' 1), l1) \<and>
     allowance_begin sample_net sample_limits 2 ''a'' False (sample_path 2) l1 = (Pass (First ''a'' ''c'' 2), l2) \<and>
     map fst (lm_paired (allowance_end (First ''a'' ''c'' 2) 200 (allowance_end (First ''a'' ''b'' 1) 200 l2)) ''a'') = [''c'', ''b'']"
proof -
  have "replicate 16 (2 :: byte) \<noteq> replicate 16 1" by simp
  then show ?thesis
    by (simp add: allowance_begin_def sample_path_session sample_creators_def sample_limits_def sample_net_def client_key_def fresh_pairs_def New_Limiter_def
        allowance_end_def put_pair_def Let_def)
qed

lemma sample_create: "is_create ''PUT'' (sample_path x)" "\<not> is_create ''GET'' (sample_path x)" "sample_path x \<noteq> ''/healthz''"
proof -
  have "SessionID_String (replicate 16 x) \<noteq> []" using SessionID_String_lower [of "replicate 16 x"] by (auto simp: lowerHex_def)
  then show "is_create ''PUT'' (sample_path x)" using no_slash [of "replicate 16 x"] by (simp add: is_create_def sample_path_def)
qed (simp_all add: is_create_def sample_path_def sessions_prefix_def)

theorem allowance_enforced_witness:
  "\<exists>s. orderly window_rate sample_net sample_limits ''a'' s \<and> ls_reached s = [(''a'', ''b'', 2)] \<and>
     int (card {server. \<exists>t > 2 - 100. (''a'', server, t) \<in> set (ls_reached s)}) \<le> 1"
proof -
  let ?S = "orderly window_rate sample_net sample_limits ''a''" and ?step = "limit_step window_rate sample_net sample_limits"
  let ?b = "\<lambda>t rq cr. \<lparr>bk_requests = (60 :: int, rq), bk_creates = (1 :: int, cr), bk_lastSeen = t\<rparr>"
  let ?l1 = "New_Limiter\<lparr>lm_ips := [''b'' \<mapsto> ?b 1 [1] [1]]\<rparr>"
  let ?l2 = "?l1\<lparr>lm_creators := [replicate 16 1 \<mapsto> \<lparr>ct_key = ''b'', ct_at = 1\<rparr>]\<rparr>"
  let ?l3 = "?l2\<lparr>lm_ips := [''b'' \<mapsto> ?b 1 [1] [1], ''a'' \<mapsto> ?b 2 [2] []], lm_paired := (\<lambda>_. [])(''a'' := [])\<rparr>"
  let ?l4 = "?l3\<lparr>lm_paired := (\<lambda>_. [])(''a'' := [(''b'', 2)])\<rparr>"
  let ?s = "\<lambda>l as t r. \<lparr>ls_limiter = l, ls_open = as, ls_now = t, ls_reached = r\<rparr>"
  note defs = middleware_begin_def ClientIP_def sample_net_def limiter_check_def window_rate_def buckets_of_def new_buckets_def New_Limiter_def
    allowance_begin_def client_key_def fresh_pairs_def sample_path_session sample_create sample_limits_def Let_def
  have m1: "middleware_begin window_rate sample_net sample_limits (1, 1) ''PUT'' (sample_path 1) '''' ''b'' New_Limiter = (Pass (Created (replicate 16 1) ''b'' 1), ?l1)"
    by (simp add: defs)
  have m2: "middleware_begin window_rate sample_net sample_limits (2, 2) ''GET'' (sample_path 1) '''' ''a'' ?l2 = (Pass (First ''a'' ''b'' 2), ?l3)"
    by (simp add: defs)
  have "?S (?s New_Limiter [] 0 [])" by (rule orderly.start)
  moreover have "?step (?s New_Limiter [] 0 []) (?s ?l1 [Created (replicate 16 1) ''b'' 1] 1 [])"
    using limit_step.arrive [of window_rate sample_net sample_limits 1 1 "''PUT''" "sample_path 1" "''''" "''b''" "?s New_Limiter [] 0 []"] m1 by simp
  ultimately have "?S (?s ?l1 [Created (replicate 16 1) ''b'' 1] 1 [])" by (rule orderly.step) (simp add: first_uses_def)
  moreover have "?step (?s ?l1 [Created (replicate 16 1) ''b'' 1] 1 []) (?s ?l2 [] 1 [])"
    using limit_step.answer [of "?s ?l1 [Created (replicate 16 1) ''b'' 1] 1 []" "[]" "Created (replicate 16 1) ''b'' 1" "[]" window_rate sample_net sample_limits 201]
    by (simp add: allowance_end_def use_of_def New_Limiter_def)
  ultimately have "?S (?s ?l2 [] 1 [])" by (rule orderly.step) (simp add: first_uses_def)
  moreover have "?step (?s ?l2 [] 1 []) (?s ?l3 [First ''a'' ''b'' 2] 2 [])"
    using limit_step.arrive [of window_rate sample_net sample_limits 2 2 "''GET''" "sample_path 1" "''''" "''a''" "?s ?l2 [] 1 []"] m2 by simp
  ultimately have "?S (?s ?l3 [First ''a'' ''b'' 2] 2 [])" by (rule orderly.step) (simp add: first_uses_def)
  moreover have "?step (?s ?l3 [First ''a'' ''b'' 2] 2 []) (?s ?l4 [] 2 [(''a'', ''b'', 2)])"
    using limit_step.answer [of "?s ?l3 [First ''a'' ''b'' 2] 2 []" "[]" "First ''a'' ''b'' 2" "[]" window_rate sample_net sample_limits 200]
    by (simp add: allowance_end_def put_pair_def use_of_def New_Limiter_def)
  ultimately have s: "?S (?s ?l4 [] 2 [(''a'', ''b'', 2)])" by (rule orderly.step) (simp add: first_uses_def)
  from allowance_enforced [OF s, of 2] show ?thesis using s by (intro exI conjI) (assumption, simp, simp add: sample_limits_def)
qed

end
