(* ===== verification/R2_Store.thy ===== *)
theory R2_Store
  imports Relay_Store Wire
begin

text \<open>
  The relay's store in an object bucket (\<^verbatim>\<open>internal/relayserver/r2/store.go\<close>). The bucket of \<^verbatim>\<open>aws-sdk-go-v2\<close> is a parameter: what
  each request returns in a state of the bucket, and the state after it. \<open>bucket_ok\<close> states what the service documents for requests
  that do not fail. The JSON form of the metadata is a parameter.
\<close>

section \<open>The bucket\<close>

datatype s3_error = NoSuchKey | HTTPStatus nat | S3Other string

text \<open>
  A put carries \<^verbatim>\<open>If-None-Match: *\<close>; a get returns the body and the error of reading it; listings come in pages; a delete returns how many
  objects could not be deleted.
\<close>

record 'o s3_client =
  s3_put :: "string \<Rightarrow> bytes \<Rightarrow> 'o \<Rightarrow> s3_error option \<times> 'o"
  s3_get :: "string \<Rightarrow> 'o \<Rightarrow> s3_error + bytes \<times> s3_error option"
  s3_head :: "string \<Rightarrow> 'o \<Rightarrow> s3_error option"
  s3_pages :: "string \<Rightarrow> 'o \<Rightarrow> (s3_error + (string \<times> time option) list) list"
  s3_prefixes :: "'o \<Rightarrow> (s3_error + string list) list"
  s3_delete :: "string list \<Rightarrow> 'o \<Rightarrow> (s3_error + nat) \<times> 'o"

record r2_metadata =
  md_Mode :: string
  md_CollectorKey :: string
  md_CollectorMAC :: string
  md_CredentialHash :: string
  md_ExpiresAt :: time
  md_ChunkCount :: u32
  md_CreatedAt :: time

record r2_json =
  rj_enc :: "r2_metadata \<Rightarrow> bytes option"
  rj_dec :: "bytes \<Rightarrow> r2_metadata option"

section \<open>Operations\<close>

definition r2_prefix :: "sessionID \<Rightarrow> string" where
  "r2_prefix i = ''sessions/'' @ SessionID_String i @ ''/''"

definition pad5 :: "nat \<Rightarrow> string" where
  "pad5 n = replicate (5 - length (show_nat n)) (CHR ''0'') @ show_nat n"

definition chunkKey :: "sessionID \<Rightarrow> u64 \<Rightarrow> string" where
  "chunkKey i index = r2_prefix i @ ''chunks/'' @ pad5 (unat index)"

definition storeError :: "string \<Rightarrow> s3_error \<Rightarrow> store_error" where
  "storeError opn e =
     (case e of
        NoSuchKey \<Rightarrow> ErrNotFound
      | HTTPStatus n \<Rightarrow> if n = 404 then ErrNotFound else if n = 412 then ErrExists else ErrOther (''r2 '' @ opn)
      | S3Other m \<Rightarrow> ErrOther (''r2 '' @ opn @ '': '' @ m))"

definition R2_put :: "'o s3_client \<Rightarrow> string \<Rightarrow> bytes \<Rightarrow> 'o \<Rightarrow> store_error option \<times> 'o" where
  "R2_put S key body st = (case s3_put S key body st of (e, st') \<Rightarrow> (map_option (storeError ''put object'') e, st'))"

definition R2_get :: "'o s3_client \<Rightarrow> string \<Rightarrow> 'o \<Rightarrow> store_error + bytes" where
  "R2_get S key st =
     (case s3_get S key st of
        Inl e \<Rightarrow> Inl (storeError ''get object'' e)
      | Inr (body, Some e) \<Rightarrow> Inl (storeError ''read object'' e)
      | Inr (body, None) \<Rightarrow> Inr body)"

definition R2_head :: "'o s3_client \<Rightarrow> string \<Rightarrow> 'o \<Rightarrow> store_error option" where
  "R2_head S key st = map_option (storeError ''head object'') (s3_head S key st)"

definition metadata_for :: "sessionMeta \<Rightarrow> time \<Rightarrow> r2_metadata" where
  "metadata_for meta created =
     \<lparr>md_Mode = Mode meta, md_CollectorKey = EncodeKey (meta_CollectorKey meta), md_CollectorMAC = EncodeKey (meta_CollectorMAC meta),
      md_CredentialHash = hex_encode (CredentialHash meta), md_ExpiresAt = ExpiresAt meta, md_ChunkCount = meta_ChunkCount meta, md_CreatedAt = created\<rparr>"

definition R2_CreateSession ::
  "'o s3_client \<Rightarrow> r2_json \<Rightarrow> time \<Rightarrow> 'o \<Rightarrow> sessionID \<Rightarrow> sessionMeta \<Rightarrow> store_error option \<times> 'o" where
  "R2_CreateSession S J created st i meta =
     (case rj_enc J (metadata_for meta created) of
        None \<Rightarrow> (Some (ErrOther ''r2 encode metadata''), st)
      | Some body \<Rightarrow> R2_put S (r2_prefix i @ ''meta.json'') body st)"

definition key_or_zero :: "string \<Rightarrow> bytes" where
  "key_or_zero s = (case DecodeKey s of Some k \<Rightarrow> k | None \<Rightarrow> replicate 32 0)"

text \<open>The checks of \<^verbatim>\<open>readMeta\<close> on the body of the object. A key that may be missing is the zero array.\<close>

definition meta_of :: "r2_json \<Rightarrow> bytes \<Rightarrow> store_error + sessionMeta" where
  "meta_of J body =
     (case rj_dec J body of
        None \<Rightarrow> Inl (ErrOther ''r2 decode metadata'')
      | Some m \<Rightarrow>
          (case hex_decode (md_CredentialHash m) of
             None \<Rightarrow> Inl (ErrOther ''r2 decode metadata: invalid credential hash'')
           | Some hash \<Rightarrow>
               if length hash \<noteq> 32 \<or> md_CredentialHash m \<noteq> map ascii_lower (md_CredentialHash m)
               then Inl (ErrOther ''r2 decode metadata: invalid credential hash'')
               else if (md_Mode m = ''session'' \<or> md_CollectorKey m \<noteq> '''') \<and> DecodeKey (md_CollectorKey m) = None
               then Inl (ErrOther ''r2 decode metadata: invalid collector key'')
               else if (md_Mode m = ''session'' \<or> md_CollectorMAC m \<noteq> '''') \<and> DecodeKey (md_CollectorMAC m) = None
               then Inl (ErrOther ''r2 decode metadata: invalid collector MAC'')
               else Inr \<lparr>Mode = md_Mode m, meta_CollectorKey = key_or_zero (md_CollectorKey m), meta_CollectorMAC = key_or_zero (md_CollectorMAC m),
                         CredentialHash = hash, ExpiresAt = md_ExpiresAt m, meta_ChunkCount = md_ChunkCount m, ChunksStored = 0,
                         ManifestStored = False\<rparr>))"

definition R2_readMeta :: "'o s3_client \<Rightarrow> r2_json \<Rightarrow> 'o \<Rightarrow> sessionID \<Rightarrow> store_error + sessionMeta" where
  "R2_readMeta S J st i = (case R2_get S (r2_prefix i @ ''meta.json'') st of Inl e \<Rightarrow> Inl e | Inr body \<Rightarrow> meta_of J body)"

fun join_pages :: "(s3_error + 'a list) list \<Rightarrow> s3_error + 'a list" where
  "join_pages [] = Inr []"
| "join_pages (Inl e # ps) = Inl e"
| "join_pages (Inr xs # ps) = (case join_pages ps of Inl e \<Rightarrow> Inl e | Inr ys \<Rightarrow> Inr (xs @ ys))"

definition R2_objects :: "'o s3_client \<Rightarrow> string \<Rightarrow> 'o \<Rightarrow> store_error + (string \<times> time option) list" where
  "R2_objects S keyPrefix st = map_sum (storeError ''list objects'') id (join_pages (s3_pages S keyPrefix st))"

definition R2_Session :: "'o s3_client \<Rightarrow> r2_json \<Rightarrow> 'o \<Rightarrow> sessionID \<Rightarrow> store_error + sessionMeta" where
  "R2_Session S J st i =
     (case R2_readMeta S J st i of
        Inl e \<Rightarrow> Inl e
      | Inr meta \<Rightarrow>
          (case R2_objects S (r2_prefix i @ ''chunks/'') st of
             Inl e \<Rightarrow> Inl e
           | Inr objs \<Rightarrow>
               let meta1 = meta\<lparr>ChunksStored := foldl (\<lambda>n _. n + 1) (ChunksStored meta) objs\<rparr> in
               (case R2_head S (r2_prefix i @ ''manifest'') st of
                  None \<Rightarrow> Inr (meta1\<lparr>ManifestStored := True\<rparr>)
                | Some ErrNotFound \<Rightarrow> Inr (meta1\<lparr>ManifestStored := False\<rparr>)
                | Some e \<Rightarrow> Inl e)))"

definition R2_PutChunk :: "'o s3_client \<Rightarrow> 'o \<Rightarrow> sessionID \<Rightarrow> u64 \<Rightarrow> bytes \<Rightarrow> store_error option \<times> 'o" where
  "R2_PutChunk S st i index ciphertext =
     (case R2_head S (r2_prefix i @ ''meta.json'') st of
        Some e \<Rightarrow> (Some e, st)
      | None \<Rightarrow> R2_put S (chunkKey i index) ciphertext st)"

definition R2_GetChunk :: "'o s3_client \<Rightarrow> 'o \<Rightarrow> sessionID \<Rightarrow> u64 \<Rightarrow> store_error + bytes" where
  "R2_GetChunk S st i index = R2_get S (chunkKey i index) st"

definition R2_PutManifest :: "'o s3_client \<Rightarrow> 'o \<Rightarrow> sessionID \<Rightarrow> bytes \<Rightarrow> store_error option \<times> 'o" where
  "R2_PutManifest S st i ciphertext =
     (case R2_head S (r2_prefix i @ ''meta.json'') st of
        Some e \<Rightarrow> (Some e, st)
      | None \<Rightarrow> R2_put S (r2_prefix i @ ''manifest'') ciphertext st)"

definition R2_GetManifest :: "'o s3_client \<Rightarrow> 'o \<Rightarrow> sessionID \<Rightarrow> store_error + bytes" where
  "R2_GetManifest S st i = R2_get S (r2_prefix i @ ''manifest'') st"

text \<open>Objects are deleted 1000 at a time.\<close>

function delete_batches :: "'o s3_client \<Rightarrow> string list \<Rightarrow> 'o \<Rightarrow> store_error option \<times> 'o" where
  "delete_batches S keys st =
     (if keys = [] then (None, st)
      else (case s3_delete S (take 1000 keys) st of
              (Inl e, st1) \<Rightarrow> (Some (storeError ''delete objects'' e), st1)
            | (Inr failed, st1) \<Rightarrow>
                if failed \<noteq> 0 then (Some (ErrOther ''r2 delete objects: object deletion failed''), st1)
                else delete_batches S (drop 1000 keys) st1))"
  by pat_completeness auto
termination by (relation "measure (\<lambda>(_, keys, _). length keys)") auto

declare delete_batches.simps [simp del]

definition R2_DeleteSession :: "'o s3_client \<Rightarrow> 'o \<Rightarrow> sessionID \<Rightarrow> store_error option \<times> 'o" where
  "R2_DeleteSession S st i =
     (case R2_objects S (r2_prefix i) st of
        Inl e \<Rightarrow> (Some e, st)
      | Inr objs \<Rightarrow> if objs = [] then (Some ErrNotFound, st) else delete_batches S (map fst objs) st)"

section \<open>The sweep\<close>

definition newest_object :: "(string \<times> time option) list \<Rightarrow> time" where
  "newest_object objs = foldl (\<lambda>newest (k, t). case t of Some u \<Rightarrow> if u > newest then u else newest | None \<Rightarrow> newest) 0 objs"

definition prefix_session :: "string \<Rightarrow> sessionID option" where
  "prefix_session p =
     (let p1 = (if has_prefix p ''sessions/'' then drop 9 p else p);
          p2 = (if p1 \<noteq> [] \<and> last p1 = CHR ''/'' then butlast p1 else p1)
      in ParseSessionID p2)"

text \<open>
  What \<^verbatim>\<open>scan\<close> decides on one session: an error that ends it, whether to remove the session, and whether it counts as alive. A session without
  metadata is removed when its newest object is older than an hour.
\<close>

definition scan_verdict :: "'o s3_client \<Rightarrow> r2_json \<Rightarrow> time \<Rightarrow> bool \<Rightarrow> sessionID \<Rightarrow> 'o \<Rightarrow> store_error + bool \<times> bool" where
  "scan_verdict S J now sweep i st =
     (case R2_readMeta S J st i of
        Inl ErrNotFound \<Rightarrow>
          if \<not> sweep then Inr (False, False)
          else (case R2_objects S (r2_prefix i) st of
                  Inl e \<Rightarrow> Inl e
                | Inr objs \<Rightarrow> let newest = newest_object objs in Inr (newest \<noteq> 0 \<and> newest < now - 3600 * second, False))
      | Inl e \<Rightarrow> Inl e
      | Inr meta \<Rightarrow> if ExpiresAt meta > now then Inr (False, True) else Inr (True, False))"

fun scan_prefixes ::
  "'o s3_client \<Rightarrow> r2_json \<Rightarrow> time \<Rightarrow> bool \<Rightarrow> string list \<Rightarrow> nat \<times> nat \<Rightarrow> 'o \<Rightarrow> (store_error option \<times> nat \<times> nat) \<times> 'o" where
  "scan_prefixes S J now sweep [] (deleted, live) st = ((None, deleted, live), st)"
| "scan_prefixes S J now sweep (p # ps) (deleted, live) st =
     (case prefix_session p of
        None \<Rightarrow> scan_prefixes S J now sweep ps (deleted, live) st
      | Some i \<Rightarrow>
          (case scan_verdict S J now sweep i st of
             Inl e \<Rightarrow> ((Some e, deleted, live), st)
           | Inr (remove, alive) \<Rightarrow>
               if sweep \<and> remove then
                 (case R2_DeleteSession S st i of
                    (None, st1) \<Rightarrow> scan_prefixes S J now sweep ps (deleted + 1, live) st1
                  | (Some ErrNotFound, st1) \<Rightarrow> scan_prefixes S J now sweep ps (deleted, live) st1
                  | (Some e, st1) \<Rightarrow> ((Some e, deleted, live), st1))
               else scan_prefixes S J now sweep ps (deleted, live + (if alive then 1 else 0)) st))"

text \<open>The loop over the pages of the listing, which are those of the bucket at the start.\<close>

fun scan_pages ::
  "'o s3_client \<Rightarrow> r2_json \<Rightarrow> time \<Rightarrow> bool \<Rightarrow> (s3_error + string list) list \<Rightarrow> nat \<times> nat \<Rightarrow> 'o \<Rightarrow> (store_error option \<times> nat \<times> nat) \<times> 'o" where
  "scan_pages S J now sweep [] (deleted, live) st = ((None, deleted, live), st)"
| "scan_pages S J now sweep (Inl e # pages) (deleted, live) st = ((Some (storeError ''list sessions'' e), deleted, live), st)"
| "scan_pages S J now sweep (Inr ps # pages) (deleted, live) st =
     (case scan_prefixes S J now sweep ps (deleted, live) st of
        ((Some e, d, l), st1) \<Rightarrow> ((Some e, d, l), st1)
      | ((None, d, l), st1) \<Rightarrow> scan_pages S J now sweep pages (d, l) st1)"

definition R2_scan :: "'o s3_client \<Rightarrow> r2_json \<Rightarrow> time \<Rightarrow> bool \<Rightarrow> 'o \<Rightarrow> (store_error option \<times> nat \<times> nat) \<times> 'o" where
  "R2_scan S J now sweep st = scan_pages S J now sweep (s3_prefixes S st) (0, 0) st"

definition R2_Sweep :: "'o s3_client \<Rightarrow> r2_json \<Rightarrow> time \<Rightarrow> 'o \<Rightarrow> (store_error option \<times> nat \<times> nat) \<times> 'o" where
  "R2_Sweep S J now st = R2_scan S J now True st"

definition R2_LiveSessions :: "'o s3_client \<Rightarrow> r2_json \<Rightarrow> time \<Rightarrow> 'o \<Rightarrow> store_error option \<times> nat" where
  "R2_LiveSessions S J now st = (case R2_scan S J now False st of ((e, d, live), _) \<Rightarrow> (e, live))"

definition r2_ops :: "'o s3_client \<Rightarrow> r2_json \<Rightarrow> time \<Rightarrow> 'o store_ops" where
  "r2_ops S J created = \<lparr>op_CreateSession = R2_CreateSession S J created, op_Session = R2_Session S J, op_PutChunk = R2_PutChunk S,
     op_GetChunk = R2_GetChunk S, op_PutManifest = R2_PutManifest S, op_GetManifest = R2_GetManifest S,
     op_DeleteSession = R2_DeleteSession S\<rparr>"

end
