(* ===== verification/R2_Proofs.thy ===== *)
theory R2_Proofs
  imports R2_Store
begin

text \<open>
  The store in a bucket keeps the contract of \<open>Relay_Store\<close>, as long as the bucket does what its service documents and the requests
  are those that the relay's handler makes.
\<close>

section \<open>What the bucket promises\<close>

text \<open>\<open>view\<close> is the content of the bucket: the body and the time of every key. One call deletes at most 1000 objects.\<close>

definition bucket_ok :: "'o s3_client \<Rightarrow> ('o \<Rightarrow> string \<rightharpoonup> bytes \<times> time) \<Rightarrow> bool" where
  "bucket_ok S view \<longleftrightarrow>
     (\<forall>k b st. view st k = None \<longrightarrow> (\<exists>t st'. s3_put S k b st = (None, st') \<and> view st' = (view st)(k \<mapsto> (b, t)))) \<and>
     (\<forall>k b st. view st k \<noteq> None \<longrightarrow> (\<exists>st'. s3_put S k b st = (Some (HTTPStatus 412), st') \<and> view st' = view st)) \<and>
     (\<forall>k st. s3_get S k st = (case view st k of None \<Rightarrow> Inl NoSuchKey | Some (b, t) \<Rightarrow> Inr (b, None))) \<and>
     (\<forall>k st. s3_head S k st = (case view st k of None \<Rightarrow> Some (HTTPStatus 404) | Some _ \<Rightarrow> None)) \<and>
     (\<forall>p st. \<exists>pages. s3_pages S p st = map Inr pages \<and> distinct (map fst (concat pages)) \<and>
        fst ` set (concat pages) = {k. view st k \<noteq> None \<and> has_prefix k p}) \<and>
     (\<forall>ks st. length ks \<le> 1000 \<longrightarrow> (\<exists>st'. s3_delete S ks st = (Inr 0, st') \<and> view st' = view st |` (- set ks))) \<and>
     (\<forall>st. \<exists>pages. s3_prefixes S st = map Inr pages \<and>
        set (concat pages) = {''sessions/'' @ seg @ ''/'' | seg x. CHR ''/'' \<notin> set seg \<and> view st (''sessions/'' @ seg @ ''/'' @ x) \<noteq> None})"

lemma bucket_okD:
  assumes "bucket_ok S view"
  shows "view st k = None \<Longrightarrow> \<exists>t st'. s3_put S k b st = (None, st') \<and> view st' = (view st)(k \<mapsto> (b, t))"
    and "view st k \<noteq> None \<Longrightarrow> \<exists>st'. s3_put S k b st = (Some (HTTPStatus 412), st') \<and> view st' = view st"
    and "s3_get S k st = (case view st k of None \<Rightarrow> Inl NoSuchKey | Some (b, t) \<Rightarrow> Inr (b, None))"
    and "s3_head S k st = (case view st k of None \<Rightarrow> Some (HTTPStatus 404) | Some _ \<Rightarrow> None)"
    and "\<exists>pages. s3_pages S p st = map Inr pages \<and> distinct (map fst (concat pages)) \<and>
        fst ` set (concat pages) = {k. view st k \<noteq> None \<and> has_prefix k p}"
    and "length ks \<le> 1000 \<Longrightarrow> \<exists>st'. s3_delete S ks st = (Inr 0, st') \<and> view st' = view st |` (- set ks)"
    and "\<exists>pages. s3_prefixes S st = map Inr pages \<and>
        set (concat pages) = {''sessions/'' @ seg @ ''/'' | seg x. CHR ''/'' \<notin> set seg \<and> view st (''sessions/'' @ seg @ ''/'' @ x) \<noteq> None}"
  using assms unfolding bucket_ok_def by - (elim conjE, metis)+

definition metadata_json :: "r2_json \<Rightarrow> r2_metadata \<Rightarrow> bool" where
  "metadata_json J m \<longleftrightarrow> (\<exists>b. rj_enc J m = Some b \<and> rj_dec J b = Some m)"

text \<open>The arrays of a session's metadata have their Go types.\<close>

definition meta_wf :: "sessionMeta \<Rightarrow> bool" where
  "meta_wf m \<longleftrightarrow> length (meta_CollectorKey m) = 32 \<and> length (meta_CollectorMAC m) = 32 \<and> length (CredentialHash m) = 32"

section \<open>Names of objects\<close>

definition chunk_name :: "nat \<Rightarrow> string" where
  "chunk_name n = ''chunks/'' @ pad5 n"

lemma chunkKey_name: "chunkKey i index = r2_prefix i @ chunk_name (unat index)"
  by (simp add: chunkKey_def chunk_name_def)

lemma foldl_zeros: "foldl (\<lambda>a c. 10 * a + digit_val c) 0 (replicate n (CHR ''0'') @ s) = foldl (\<lambda>a c. 10 * a + digit_val c) 0 s"
  by (induction n) (simp_all add: digit_val_def)

lemma pad5_inj: "pad5 m = pad5 n \<longleftrightarrow> m = n"
proof -
  have "foldl (\<lambda>a c. 10 * a + digit_val c) 0 (pad5 k) = k" for k by (simp only: pad5_def foldl_zeros show_nat_value)
  then show ?thesis by metis
qed

lemma names_differ:
  "chunk_name m = chunk_name n \<longleftrightarrow> m = n" "chunk_name n \<noteq> ''meta.json''" "chunk_name n \<noteq> ''manifest''" "''meta.json'' \<noteq> chunk_name n"
  "''manifest'' \<noteq> chunk_name n"
  by (simp_all add: chunk_name_def pad5_inj)

lemma length_SessionID_String: "length i = 16 \<Longrightarrow> length (SessionID_String i) = 32"
  by (simp add: SessionID_String_def)

lemma prefix_inj:
  assumes "length i = 16" "length j = 16"
  shows "r2_prefix i @ x = r2_prefix j @ y \<longleftrightarrow> i = j \<and> x = y"
proof -
  have "SessionID_String i = SessionID_String j \<Longrightarrow> i = j" using assms ParseSessionID_String by (metis option.inject)
  then show ?thesis using assms by (auto simp: r2_prefix_def length_SessionID_String)
qed

lemma has_prefix_session: "has_prefix k (r2_prefix i) \<longleftrightarrow> (\<exists>x. k = r2_prefix i @ x)"
  by (simp add: has_prefix_iff)

section \<open>Abstraction\<close>

text \<open>The objects of one session by their names, and the session they stand for.\<close>

definition session_objects :: "(string \<rightharpoonup> bytes \<times> time) \<Rightarrow> sessionID \<Rightarrow> string \<rightharpoonup> bytes" where
  "session_objects V i x = map_option fst (V (r2_prefix i @ x))"

definition objects_abs :: "r2_json \<Rightarrow> (string \<rightharpoonup> bytes) \<Rightarrow> asession option" where
  "objects_abs J f =
     (case f ''meta.json'' of
        None \<Rightarrow> None
      | Some b \<Rightarrow>
          (case meta_of J b of
             Inl _ \<Rightarrow> None
           | Inr m \<Rightarrow> Some \<lparr>as_meta = m, as_chunks = (\<lambda>k. f (chunk_name k)), as_manifest = f ''manifest''\<rparr>))"

definition r2_abs :: "r2_json \<Rightarrow> ('o \<Rightarrow> string \<rightharpoonup> bytes \<times> time) \<Rightarrow> 'o \<Rightarrow> aspec" where
  "r2_abs J view st i = (if length i = 16 then objects_abs J (session_objects (view st) i) else None)"

definition name_ok :: "asession \<Rightarrow> string \<Rightarrow> bool" where
  "name_ok a x \<longleftrightarrow> x = ''meta.json'' \<or> x = ''manifest'' \<or> (\<exists>n < unat (meta_ChunkCount (as_meta a)). x = chunk_name n)"

definition r2_inv :: "r2_json \<Rightarrow> ('o \<Rightarrow> string \<rightharpoonup> bytes \<times> time) \<Rightarrow> 'o \<Rightarrow> bool" where
  "r2_inv J view st \<longleftrightarrow>
     (\<forall>i x b. length i = 16 \<longrightarrow> session_objects (view st) i x = Some b \<longrightarrow> (\<exists>a. r2_abs J view st i = Some a \<and> name_ok a x))"

lemma session_objects_upd:
  assumes "length i = 16" "length j = 16"
  shows "session_objects (V(r2_prefix i @ x \<mapsto> v)) j = (if i = j then (session_objects V i)(x \<mapsto> fst v) else session_objects V j)"
  using prefix_inj [OF assms] prefix_inj [OF assms(2,1)] by (auto simp: session_objects_def fun_eq_iff)

lemma meta_of_fields:
  assumes "meta_of J b = Inr m"
  shows "ChunksStored m = 0" "\<not> ManifestStored m"
  using assms by (auto simp: meta_of_def split: option.splits if_splits)

lemma ascii_lower_hex: "map ascii_lower (hex_encode b) = hex_encode b"
proof -
  have "ascii_lower c = c" if "c \<in> set (hex_encode b)" for c
  proof -
    have "c \<in> set hex_letters" using that hex.set_encode [of b] by (auto simp: hex_encode_def)
    then show ?thesis by (auto simp: hex_letters_def ascii_lower_def)
  qed
  then show ?thesis by (simp add: map_idI)
qed

section \<open>Reading\<close>

lemma R2_get_view:
  assumes "bucket_ok S view"
  shows "R2_get S (r2_prefix i @ x) st = (case session_objects (view st) i x of None \<Rightarrow> Inl ErrNotFound | Some b \<Rightarrow> Inr b)"
    and "R2_head S (r2_prefix i @ x) st = (case session_objects (view st) i x of None \<Rightarrow> Some ErrNotFound | Some _ \<Rightarrow> None)"
  by (auto simp: R2_get_def R2_head_def bucket_okD(3,4) [OF assms] session_objects_def storeError_def split: option.splits)

lemma join_pages_Inr: "join_pages (map Inr pages) = Inr (concat pages)"
  by (induction pages) auto

lemma R2_objects_view:
  assumes "bucket_ok S view"
  shows "\<exists>objs. R2_objects S p st = Inr objs \<and> distinct (map fst objs) \<and> fst ` set objs = {k. view st k \<noteq> None \<and> has_prefix k p}"
  using bucket_okD(5) [OF assms, of p st] by (auto simp: R2_objects_def join_pages_Inr)

lemma inv_meta:
  assumes "r2_inv J view st" "length i = 16"
  shows "session_objects (view st) i x = None \<Longrightarrow> x = ''meta.json'' \<Longrightarrow> r2_abs J view st i = None"
    and "r2_abs J view st i = None \<Longrightarrow> session_objects (view st) i = Map.empty"
  using assms by (auto simp: r2_abs_def objects_abs_def r2_inv_def fun_eq_iff)

lemma abs_Some:
  assumes "r2_abs J view st i = Some a"
  shows "\<exists>b. length i = 16 \<and> session_objects (view st) i ''meta.json'' = Some b \<and> meta_of J b = Inr (as_meta a)"
    and "as_chunks a k = session_objects (view st) i (chunk_name k)" "as_manifest a = session_objects (view st) i ''manifest''"
  using assms by (auto simp: r2_abs_def objects_abs_def split: if_splits option.splits sum.splits)

lemma readMeta_view:
  assumes "bucket_ok S view" "r2_inv J view st" "length i = 16"
  shows "R2_readMeta S J st i = (case r2_abs J view st i of None \<Rightarrow> Inl ErrNotFound | Some a \<Rightarrow> Inr (as_meta a))"
proof (cases "r2_abs J view st i")
  case None
  then show ?thesis using inv_meta(2) [OF assms(2,3)] by (simp add: R2_readMeta_def R2_get_view(1) [OF assms(1)])
next
  case (Some a)
  then show ?thesis using abs_Some(1) [OF Some] by (auto simp: R2_readMeta_def R2_get_view(1) [OF assms(1)])
qed

lemma chunk_bound:
  assumes "r2_inv J view st" "r2_abs J view st i = Some a" "as_chunks a k \<noteq> None"
  shows "k < unat (meta_ChunkCount (as_meta a))"
proof -
  have i: "length i = 16" using abs_Some(1) [OF assms(2)] by blast
  from assms(3) abs_Some(2) [OF assms(2)] obtain b where "session_objects (view st) i (chunk_name k) = Some b" by auto
  with assms(1,2) i have "name_ok a (chunk_name k)" unfolding r2_inv_def by fastforce
  then show ?thesis by (auto simp: name_ok_def names_differ)
qed

lemma chunk_objects:
  assumes "bucket_ok S view" "r2_inv J view st" "r2_abs J view st i = Some a"
  shows "\<exists>objs. R2_objects S (r2_prefix i @ ''chunks/'') st = Inr objs \<and> length objs = card (dom (as_chunks a))"
proof -
  let ?key = "\<lambda>k. r2_prefix i @ chunk_name k"
  have i: "length i = 16" using abs_Some(1) [OF assms(3)] by blast
  obtain objs where o: "R2_objects S (r2_prefix i @ ''chunks/'') st = Inr objs" "distinct (map fst objs)"
      "fst ` set objs = {k. view st k \<noteq> None \<and> has_prefix k (r2_prefix i @ ''chunks/'')}"
    using R2_objects_view [OF assms(1)] by blast
  have "fst ` set objs = ?key ` dom (as_chunks a)"
  proof (intro set_eqI iffI)
    fix k assume "k \<in> fst ` set objs"
    then obtain y where y: "k = r2_prefix i @ ''chunks/'' @ y" "view st k \<noteq> None" using o(3) by (auto simp: has_prefix_iff)
    then obtain b where b: "session_objects (view st) i (''chunks/'' @ y) = Some b" by (auto simp: session_objects_def)
    then have "name_ok a (''chunks/'' @ y)" using assms(2,3) i unfolding r2_inv_def by fastforce
    then obtain n where n: "''chunks/'' @ y = chunk_name n" by (auto simp: name_ok_def)
    with b have "as_chunks a n = Some b" using abs_Some(2) [OF assms(3)] by simp
    with n y(1) show "k \<in> ?key ` dom (as_chunks a)" by (auto intro!: image_eqI [of _ _ n])
  next
    fix k assume "k \<in> ?key ` dom (as_chunks a)"
    then obtain n b where "k = ?key n" "session_objects (view st) i (chunk_name n) = Some b" using abs_Some(2) [OF assms(3)] by auto
    then show "k \<in> fst ` set objs" unfolding o(3) by (auto simp: session_objects_def chunk_name_def has_prefix_iff)
  qed
  moreover have "inj_on ?key (dom (as_chunks a))" by (auto simp: inj_on_def names_differ)
  ultimately have "card (fst ` set objs) = card (dom (as_chunks a))" by (simp add: card_image)
  with o(2) have "length objs = card (dom (as_chunks a))" by (metis distinct_card length_map set_map)
  with o(1) show ?thesis by blast
qed

lemma foldl_count: "foldl (\<lambda>n _. n + 1) (m :: u32) xs = m + of_nat (length xs)"
  by (induction xs arbitrary: m) (simp_all add: algebra_simps)

lemma r2_session:
  assumes "bucket_ok S view" "r2_inv J view st" "length i = 16"
  shows "R2_Session S J st i = spec_session (r2_abs J view st) i"
proof (cases "r2_abs J view st i")
  case None
  then show ?thesis by (simp add: R2_Session_def readMeta_view [OF assms] spec_session_def)
next
  case (Some a)
  obtain b where "meta_of J b = Inr (as_meta a)" using abs_Some(1) [OF Some] by blast
  note m = meta_of_fields [OF this]
  obtain objs where "R2_objects S (r2_prefix i @ ''chunks/'') st = Inr objs" "length objs = card (dom (as_chunks a))"
    using chunk_objects [OF assms(1,2) Some] by blast
  with Some m show ?thesis
    by (simp add: R2_Session_def readMeta_view [OF assms] spec_session_def as_view_def R2_get_view(2) [OF assms(1)] abs_Some(3) [OF Some] foldl_count Let_def
        split: option.splits)
qed

lemma r2_getChunk:
  assumes "bucket_ok S view" "r2_inv J view st" "length i = 16"
  shows "R2_GetChunk S st i index = spec_getChunk (r2_abs J view st) i index"
proof (cases "r2_abs J view st i")
  case None
  then show ?thesis using inv_meta(2) [OF assms(2,3)]
    by (simp add: R2_GetChunk_def chunkKey_name R2_get_view(1) [OF assms(1)] spec_getChunk_def)
next
  case (Some a)
  have "as_chunks a (unat index) = None" if "index \<ge> ucast (meta_ChunkCount (as_meta a))"
    using chunk_bound [OF assms(2) Some, of "unat index"] that by (cases "as_chunks a (unat index)") (auto simp: word_le_nat_alt)
  with Some show ?thesis
    by (auto simp: R2_GetChunk_def chunkKey_name R2_get_view(1) [OF assms(1)] spec_getChunk_def abs_Some(2) [OF Some] split: option.splits)
qed

lemma r2_getManifest:
  assumes "bucket_ok S view" "r2_inv J view st" "length i = 16"
  shows "R2_GetManifest S st i = spec_getManifest (r2_abs J view st) i"
proof (cases "r2_abs J view st i")
  case None
  then show ?thesis using inv_meta(2) [OF assms(2,3)]
    by (simp add: R2_GetManifest_def R2_get_view(1) [OF assms(1)] spec_getManifest_def)
next
  case (Some a)
  then show ?thesis by (simp add: R2_GetManifest_def R2_get_view(1) [OF assms(1)] spec_getManifest_def abs_Some(3) [OF Some])
qed

section \<open>Writing\<close>

lemma R2_put_view:
  assumes "bucket_ok S view"
  shows "session_objects (view st) i x = None \<Longrightarrow>
      \<exists>t st'. R2_put S (r2_prefix i @ x) b st = (None, st') \<and> view st' = (view st)(r2_prefix i @ x \<mapsto> (b, t))"
    and "session_objects (view st) i x \<noteq> None \<Longrightarrow> \<exists>st'. R2_put S (r2_prefix i @ x) b st = (Some ErrExists, st') \<and> view st' = view st"
proof -
  assume "session_objects (view st) i x = None"
  then have "view st (r2_prefix i @ x) = None" by (simp add: session_objects_def)
  from bucket_okD(1) [OF assms this, of b] show "\<exists>t st'. R2_put S (r2_prefix i @ x) b st = (None, st') \<and> view st' = (view st)(r2_prefix i @ x \<mapsto> (b, t))"
    by (auto simp: R2_put_def)
next
  assume "session_objects (view st) i x \<noteq> None"
  then have "view st (r2_prefix i @ x) \<noteq> None" by (simp add: session_objects_def)
  from bucket_okD(2) [OF assms this, of b] show "\<exists>st'. R2_put S (r2_prefix i @ x) b st = (Some ErrExists, st') \<and> view st' = view st"
    by (auto simp: R2_put_def storeError_def)
qed

lemma same_view:
  assumes "view st' = view st"
  shows "r2_abs J view st' = r2_abs J view st" "r2_inv J view st' = r2_inv J view st"
proof -
  show "r2_abs J view st' = r2_abs J view st" by (rule ext) (simp add: r2_abs_def assms)
  then show "r2_inv J view st' = r2_inv J view st" by (simp add: r2_inv_def assms)
qed

text \<open>A new object of a session changes that session only; the invariant asks that its name is one of the session's.\<close>

lemma put_object:
  assumes inv: "r2_inv J view st" and i: "length i = 16" and v: "view st' = (view st)(r2_prefix i @ x \<mapsto> (b, t))"
    and a: "objects_abs J ((session_objects (view st) i)(x \<mapsto> b)) = Some a" "name_ok a x"
    and old: "r2_abs J view st i = None \<or> (\<exists>a0. r2_abs J view st i = Some a0 \<and> meta_ChunkCount (as_meta a0) = meta_ChunkCount (as_meta a))"
  shows "r2_abs J view st' = (r2_abs J view st)(i \<mapsto> a)" "r2_inv J view st'"
proof -
  have o: "session_objects (view st') j = (if i = j then (session_objects (view st) i)(x \<mapsto> b) else session_objects (view st) j)" if "length j = 16" for j
    using session_objects_upd [OF i that, of "view st" x "(b, t)"] v by simp
  show abs: "r2_abs J view st' = (r2_abs J view st)(i \<mapsto> a)"
    by (rule ext) (use a(1) i o in \<open>auto simp: r2_abs_def\<close>)
  show "r2_inv J view st'" unfolding r2_inv_def
  proof (intro allI impI)
    fix j y c assume j: "length j = 16" and c: "session_objects (view st') j y = Some c"
    show "\<exists>a'. r2_abs J view st' j = Some a' \<and> name_ok a' y"
    proof (cases "i = j")
      case False
      with c o [OF j] inv j have "\<exists>a'. r2_abs J view st j = Some a' \<and> name_ok a' y" unfolding r2_inv_def by auto
      with False show ?thesis by (simp add: abs)
    next
      case True
      have "name_ok a y"
      proof (cases "y = x")
        case False
        with c o [OF j] True have "session_objects (view st) i y = Some c" by simp
        with inv i obtain a0 where "r2_abs J view st i = Some a0" "name_ok a0 y" unfolding r2_inv_def by blast
        with old show ?thesis by (auto simp: name_ok_def)
      qed (simp add: a(2))
      with True show ?thesis by (simp add: abs)
    qed
  qed
qed

lemma refines_same:
  assumes "view st' = view st" "r2_inv J view st" "fst r = e" "snd r = r2_abs J view st"
  shows "refines_op (r2_abs J view) (r2_inv J view) (e, st') r"
  using assms same_view [OF assms(1)] by (simp add: refines_op_def)

lemma meta_of_encoded:
  assumes "rj_dec J b = Some (metadata_for m created)" "meta_wf m"
  shows "meta_of J b = Inr (m\<lparr>ChunksStored := 0, ManifestStored := False\<rparr>)"
proof -
  have "DecodeKey (EncodeKey (meta_CollectorKey m)) = Some (meta_CollectorKey m)" "DecodeKey (EncodeKey (meta_CollectorMAC m)) = Some (meta_CollectorMAC m)"
    "length (CredentialHash m) = 32" using assms(2) by (simp_all add: meta_wf_def codec_simps)
  with assms(1) show ?thesis by (simp add: meta_of_def metadata_for_def key_or_zero_def hex_decode_encode ascii_lower_hex)
qed

lemma r2_create:
  assumes "bucket_ok S view" "metadata_json J (metadata_for m created)" "r2_inv J view st" "length i = 16" "meta_wf m"
  shows "refines_op (r2_abs J view) (r2_inv J view) (R2_CreateSession S J created st i m) (spec_create (r2_abs J view st) i m)"
proof -
  obtain b where b: "rj_enc J (metadata_for m created) = Some b" "rj_dec J b = Some (metadata_for m created)"
    using assms(2) unfolding metadata_json_def by blast
  note mo = meta_of_encoded [OF b(2) assms(5)]
  have c: "R2_CreateSession S J created st i m = R2_put S (r2_prefix i @ ''meta.json'') b st" by (simp add: R2_CreateSession_def b(1))
  show ?thesis
  proof (cases "r2_abs J view st i")
    case None
    then have e: "session_objects (view st) i = Map.empty" by (rule inv_meta(2) [OF assms(3,4)])
    then obtain t st' where st': "R2_put S (r2_prefix i @ ''meta.json'') b st = (None, st')" "view st' = (view st)(r2_prefix i @ ''meta.json'' \<mapsto> (b, t))"
      using R2_put_view(1) [OF assms(1), of st i "''meta.json''" b] by auto
    have "objects_abs J ((session_objects (view st) i)(''meta.json'' \<mapsto> b)) = Some (fresh_session m)"
      using e mo by (simp add: objects_abs_def fresh_session_def names_differ fun_eq_iff)
    from put_object [OF assms(3,4) st'(2) this] None have "r2_abs J view st' = (r2_abs J view st)(i \<mapsto> fresh_session m)" "r2_inv J view st'"
      by (auto simp: name_ok_def)
    with None st'(1) c show ?thesis by (simp add: refines_op_def spec_create_def)
  next
    case (Some a)
    then have "session_objects (view st) i ''meta.json'' \<noteq> None" using abs_Some(1) [OF Some] by auto
    then obtain st' where "R2_put S (r2_prefix i @ ''meta.json'') b st = (Some ErrExists, st')" "view st' = view st"
      using R2_put_view(2) [OF assms(1)] by blast
    with Some c show ?thesis by (simp add: refines_same assms(3) spec_create_def)
  qed
qed

text \<open>A write behind the check that the session is there.\<close>

lemma guarded_put:
  assumes "bucket_ok S view" "r2_inv J view st" "length i = 16" "r2_abs J view st i = Some a" "name_ok a x" "x \<noteq> ''meta.json''"
    and "objects_abs J ((session_objects (view st) i)(x \<mapsto> c)) = Some a'" "as_meta a' = as_meta a"
    and "session_objects (view st) i x = None"
  shows "\<exists>st'. R2_put S (r2_prefix i @ x) c st = (None, st') \<and> r2_abs J view st' = (r2_abs J view st)(i \<mapsto> a') \<and> r2_inv J view st'"
proof -
  obtain t st' where st': "R2_put S (r2_prefix i @ x) c st = (None, st')" "view st' = (view st)(r2_prefix i @ x \<mapsto> (c, t))"
    using R2_put_view(1) [OF assms(1,9)] by blast
  have "name_ok a' x" using assms(5,8) by (simp add: name_ok_def)
  from put_object [OF assms(2,3) st'(2) assms(7) this] assms(4,8) st'(1) show ?thesis by auto
qed

lemma objects_put:
  assumes "r2_abs J view st i = Some a"
  shows "objects_abs J ((session_objects (view st) i)(chunk_name k \<mapsto> c)) = Some (a\<lparr>as_chunks := (as_chunks a)(k \<mapsto> c)\<rparr>)"
    and "objects_abs J ((session_objects (view st) i)(''manifest'' \<mapsto> c)) = Some (a\<lparr>as_manifest := Some c\<rparr>)"
  using abs_Some [OF assms] by (auto simp: objects_abs_def names_differ fun_eq_iff)

lemma r2_putChunk:
  assumes "bucket_ok S view" "r2_inv J view st" "length i = 16"
    and bound: "\<And>a. r2_abs J view st i = Some a \<Longrightarrow> index < ucast (meta_ChunkCount (as_meta a))"
  shows "refines_op (r2_abs J view) (r2_inv J view) (R2_PutChunk S st i index c) (spec_putChunk (r2_abs J view st) i index c)"
proof (cases "r2_abs J view st i")
  case None
  then have "session_objects (view st) i = Map.empty" by (rule inv_meta(2) [OF assms(2,3)])
  with None show ?thesis by (simp add: R2_PutChunk_def R2_get_view(2) [OF assms(1)] refines_same assms(2) spec_putChunk_def)
next
  case (Some a)
  have h: "R2_head S (r2_prefix i @ ''meta.json'') st = None" using abs_Some(1) [OF Some] by (auto simp: R2_get_view(2) [OF assms(1)])
  have n: "name_ok a (chunk_name (unat index))" "\<not> index \<ge> ucast (meta_ChunkCount (as_meta a))"
    using bound [OF Some] by (auto simp: name_ok_def word_less_nat_alt word_le_nat_alt)
  show ?thesis
  proof (cases "as_chunks a (unat index)")
    case None
    from guarded_put [OF assms(1-3) Some n(1) names_differ(2) objects_put(1) [OF Some]] None abs_Some(2) [OF Some] obtain st' where
      "R2_put S (r2_prefix i @ chunk_name (unat index)) c st = (None, st')"
      "r2_abs J view st' = (r2_abs J view st)(i \<mapsto> a\<lparr>as_chunks := (as_chunks a)(unat index \<mapsto> c)\<rparr>)" "r2_inv J view st'" by auto
    with h None Some n(2) show ?thesis by (simp add: R2_PutChunk_def chunkKey_name refines_op_def spec_putChunk_def)
  next
    case (Some c0)
    then obtain st' where "R2_put S (r2_prefix i @ chunk_name (unat index)) c st = (Some ErrExists, st')" "view st' = view st"
      using R2_put_view(2) [OF assms(1), of st i "chunk_name (unat index)" c] abs_Some(2) [OF \<open>r2_abs J view st i = Some a\<close>] by auto
    with h Some n(2) \<open>r2_abs J view st i = Some a\<close> show ?thesis
      by (simp add: R2_PutChunk_def chunkKey_name refines_same assms(2) spec_putChunk_def)
  qed
qed

lemma r2_putManifest:
  assumes "bucket_ok S view" "r2_inv J view st" "length i = 16"
  shows "refines_op (r2_abs J view) (r2_inv J view) (R2_PutManifest S st i c) (spec_putManifest (r2_abs J view st) i c)"
proof (cases "r2_abs J view st i")
  case None
  then have "session_objects (view st) i = Map.empty" by (rule inv_meta(2) [OF assms(2,3)])
  with None show ?thesis by (simp add: R2_PutManifest_def R2_get_view(2) [OF assms(1)] refines_same assms(2) spec_putManifest_def)
next
  case (Some a)
  have h: "R2_head S (r2_prefix i @ ''meta.json'') st = None" using abs_Some(1) [OF Some] by (auto simp: R2_get_view(2) [OF assms(1)])
  have n: "name_ok a ''manifest''" by (simp add: name_ok_def)
  show ?thesis
  proof (cases "as_manifest a")
    case None
    from guarded_put [OF assms(1-3) Some n _ objects_put(2) [OF Some]] None abs_Some(3) [OF Some] obtain st' where
      "R2_put S (r2_prefix i @ ''manifest'') c st = (None, st')"
      "r2_abs J view st' = (r2_abs J view st)(i \<mapsto> a\<lparr>as_manifest := Some c\<rparr>)" "r2_inv J view st'" by auto
    with h None Some show ?thesis by (simp add: R2_PutManifest_def refines_op_def spec_putManifest_def)
  next
    case (Some c0)
    then obtain st' where "R2_put S (r2_prefix i @ ''manifest'') c st = (Some ErrExists, st')" "view st' = view st"
      using R2_put_view(2) [OF assms(1), of st i "''manifest''" c] abs_Some(3) [OF \<open>r2_abs J view st i = Some a\<close>] by auto
    with h Some \<open>r2_abs J view st i = Some a\<close> show ?thesis
      by (simp add: R2_PutManifest_def refines_same assms(2) spec_putManifest_def)
  qed
qed

section \<open>Removing\<close>

lemma delete_batches_view:
  assumes "bucket_ok S view"
  shows "\<exists>st'. delete_batches S ks st = (None, st') \<and> view st' = view st |` (- set ks)"
proof (induction "length ks" arbitrary: ks st rule: less_induct)
  case less
  show ?case
  proof (cases "ks = []")
    case False
    obtain st1 where st1: "s3_delete S (take 1000 ks) st = (Inr 0, st1)" "view st1 = view st |` (- set (take 1000 ks))"
      using bucket_okD(6) [OF assms, of "take 1000 ks"] by auto
    obtain st2 where st2: "delete_batches S (drop 1000 ks) st1 = (None, st2)" "view st2 = view st1 |` (- set (drop 1000 ks))"
      using less [of "drop 1000 ks" st1] False by auto
    have "set ks = set (take 1000 ks) \<union> set (drop 1000 ks)" by (metis append_take_drop_id set_append)
    with st1 st2 False show ?thesis by (auto simp: delete_batches.simps [of S ks st] restrict_map_def fun_eq_iff)
  qed (simp add: delete_batches.simps restrict_map_def)
qed

lemma delete_prefix:
  assumes "bucket_ok S view" "r2_inv J view st" "length i = 16"
  shows "\<exists>r st'. R2_DeleteSession S st i = (r, st') \<and> r = (if r2_abs J view st i = None then Some ErrNotFound else None) \<and>
    r2_abs J view st' = (r2_abs J view st)(i := None) \<and> r2_inv J view st'"
proof -
  obtain objs where o: "R2_objects S (r2_prefix i) st = Inr objs" "fst ` set objs = {k. view st k \<noteq> None \<and> has_prefix k (r2_prefix i)}"
    using R2_objects_view [OF assms(1)] by blast
  have empty: "objs = [] \<longleftrightarrow> r2_abs J view st i = None"
  proof
    assume "objs = []"
    then have "r2_prefix i @ ''meta.json'' \<notin> {k. view st k \<noteq> None \<and> has_prefix k (r2_prefix i)}" unfolding o(2) [symmetric] by simp
    then have "view st (r2_prefix i @ ''meta.json'') = None" by (cases "view st (r2_prefix i @ ''meta.json'')") auto
    then show "r2_abs J view st i = None" using inv_meta(1) [OF assms(2,3)] by (simp add: session_objects_def)
  next
    assume "r2_abs J view st i = None"
    then have "view st (r2_prefix i @ x) = None" for x using inv_meta(2) [OF assms(2,3)] by (simp add: session_objects_def fun_eq_iff)
    then have "fst ` set objs = {}" using o(2) by (auto simp: has_prefix_session)
    then show "objs = []" by simp
  qed
  show ?thesis
  proof (cases "objs = []")
    case True
    with o(1) empty assms(2) show ?thesis by (auto simp: R2_DeleteSession_def fun_upd_idem)
  next
    case False
    obtain st' where st': "delete_batches S (map fst objs) st = (None, st')" "view st' = view st |` (- set (map fst objs))"
      using delete_batches_view [OF assms(1)] by blast
    have v: "session_objects (view st') j = (if j = i then Map.empty else session_objects (view st) j)" if "length j = 16" for j
    proof
      fix x
      have "r2_prefix j @ x \<in> fst ` set objs \<longleftrightarrow> j = i \<and> view st (r2_prefix i @ x) \<noteq> None"
        unfolding o(2) using prefix_inj [OF that assms(3)] by (auto simp: has_prefix_session)
      then show "session_objects (view st') j x = (if j = i then Map.empty else session_objects (view st) j) x"
        using st'(2) by (auto simp: session_objects_def restrict_map_def)
    qed
    have abs: "r2_abs J view st' = (r2_abs J view st)(i := None)" by (rule ext) (simp add: r2_abs_def v objects_abs_def)
    have "r2_inv J view st'" unfolding r2_inv_def
    proof (intro allI impI)
      fix j x b assume j: "length j = 16" and b: "session_objects (view st') j x = Some b"
      then have "j \<noteq> i" "session_objects (view st) j x = Some b" using v [OF j] by (auto split: if_splits)
      with assms(2) j abs show "\<exists>a. r2_abs J view st' j = Some a \<and> name_ok a x" by (simp add: r2_inv_def)
    qed
    with st'(1) o(1) False empty abs show ?thesis by (auto simp: R2_DeleteSession_def)
  qed
qed

lemma r2_delete:
  assumes "bucket_ok S view" "r2_inv J view st" "length i = 16"
  shows "refines_op (r2_abs J view) (r2_inv J view) (R2_DeleteSession S st i) (spec_delete (r2_abs J view st) i)"
  using delete_prefix [OF assms] by (auto simp: refines_op_def spec_delete_def fun_upd_idem)

section \<open>The sweep\<close>

definition swept :: "time \<Rightarrow> sessionID set \<Rightarrow> aspec \<Rightarrow> aspec" where
  "swept now is A i = (case A i of None \<Rightarrow> None | Some a \<Rightarrow> if i \<in> is \<and> \<not> ExpiresAt (as_meta a) > now then None else Some a)"

lemma scan_verdict_view:
  assumes "bucket_ok S view" "r2_inv J view st" "length i = 16"
  shows "scan_verdict S J now True i st =
    (case r2_abs J view st i of None \<Rightarrow> Inr (False, False) | Some a \<Rightarrow> if ExpiresAt (as_meta a) > now then Inr (False, True) else Inr (True, False))"
proof (cases "r2_abs J view st i")
  case None
  obtain objs where o: "R2_objects S (r2_prefix i) st = Inr objs" "fst ` set objs = {k. view st k \<noteq> None \<and> has_prefix k (r2_prefix i)}"
    using R2_objects_view [OF assms(1)] by blast
  have "view st (r2_prefix i @ x) = None" for x using inv_meta(2) [OF assms(2,3) None] by (simp add: session_objects_def fun_eq_iff)
  then have "fst ` set objs = {}" using o(2) by (auto simp: has_prefix_session)
  with o(1) None show ?thesis by (simp add: scan_verdict_def readMeta_view [OF assms] newest_object_def Let_def)
next
  case (Some a)
  then show ?thesis by (simp add: scan_verdict_def readMeta_view [OF assms])
qed

lemma swept_insert: "swept now (insert i is) A = swept now is (if A i \<noteq> None \<and> \<not> ExpiresAt (as_meta (the (A i))) > now then A(i := None) else A)"
  by (auto simp: swept_def fun_eq_iff split: option.splits)

lemma scan_prefixes_view:
  assumes "bucket_ok S view" "r2_inv J view st"
  shows "\<exists>d' l' st'. scan_prefixes S J now True ps (d, l) st = ((None, d', l'), st') \<and> r2_inv J view st' \<and>
    r2_abs J view st' = swept now {i. \<exists>p \<in> set ps. prefix_session p = Some i} (r2_abs J view st)"
  using assms(2)
proof (induction ps arbitrary: d l st)
  case Nil
  have "swept now {} A = A" for A by (auto simp: swept_def fun_eq_iff split: option.splits)
  with Nil show ?case by simp
next
  case (Cons p ps)
  show ?case
  proof (cases "prefix_session p")
    case None
    then have "{i. \<exists>q \<in> set (p # ps). prefix_session q = Some i} = {i. \<exists>q \<in> set ps. prefix_session q = Some i}" by auto
    with None Cons show ?thesis by simp
  next
    case (Some i)
    have i: "length i = 16" using Some by (auto simp: prefix_session_def Let_def dest: ParseSessionID_Some(1))
    have ids: "{j. \<exists>q \<in> set (p # ps). prefix_session q = Some j} = insert i {j. \<exists>q \<in> set ps. prefix_session q = Some j}" using Some by auto
    show ?thesis
    proof (cases "r2_abs J view st i \<noteq> None \<and> \<not> ExpiresAt (as_meta (the (r2_abs J view st i))) > now")
      case True
      obtain st1 where st1: "R2_DeleteSession S st i = (None, st1)" "r2_abs J view st1 = (r2_abs J view st)(i := None)" "r2_inv J view st1"
        using delete_prefix [OF assms(1) Cons.prems i] True by auto
      have eq: "scan_prefixes S J now True (p # ps) (d, l) st = scan_prefixes S J now True ps (d + 1, l) st1"
        using Some True st1(1) by (auto simp: scan_verdict_view [OF assms(1) Cons.prems i])
      have e: "swept now (insert i is) (r2_abs J view st) = swept now is (r2_abs J view st1)" for "is"
        unfolding swept_insert st1(2) if_P [OF True] ..
      show ?thesis unfolding ids eq e by (rule Cons.IH [OF st1(3)])
    next
      case False
      have "\<exists>l1. scan_prefixes S J now True (p # ps) (d, l) st = scan_prefixes S J now True ps (d, l1) st"
        using Some False by (auto simp: scan_verdict_view [OF assms(1) Cons.prems i] split: option.splits)
      then obtain l1 where eq: "scan_prefixes S J now True (p # ps) (d, l) st = scan_prefixes S J now True ps (d, l1) st" by blast
      have e: "swept now (insert i is) (r2_abs J view st) = swept now is (r2_abs J view st)" for "is"
        unfolding swept_insert if_not_P [OF False] ..
      show ?thesis unfolding ids eq e by (rule Cons.IH [OF Cons.prems])
    qed
  qed
qed

lemma scan_pages_view:
  assumes "bucket_ok S view" "r2_inv J view st"
  shows "\<exists>d' l' st'. scan_pages S J now True (map Inr pages) (d, l) st = ((None, d', l'), st') \<and> r2_inv J view st' \<and>
    r2_abs J view st' = swept now {i. \<exists>p \<in> set (concat pages). prefix_session p = Some i} (r2_abs J view st)"
  using assms(2)
proof (induction pages arbitrary: d l st)
  case Nil
  have "swept now {} A = A" for A by (auto simp: swept_def fun_eq_iff split: option.splits)
  with Nil show ?case by simp
next
  case (Cons ps pages)
  obtain d1 l1 st1 where s1: "scan_prefixes S J now True ps (d, l) st = ((None, d1, l1), st1)" "r2_inv J view st1"
      "r2_abs J view st1 = swept now {i. \<exists>p \<in> set ps. prefix_session p = Some i} (r2_abs J view st)"
    using scan_prefixes_view [OF assms(1) Cons.prems] by blast
  have eq: "scan_pages S J now True (map Inr (ps # pages)) (d, l) st = scan_pages S J now True (map Inr pages) (d1, l1) st1" using s1(1) by simp
  have "swept now I (swept now I' A) = swept now (I' \<union> I) A" for I I' A by (auto simp: swept_def fun_eq_iff split: option.splits)
  moreover have "{i. \<exists>p \<in> set (concat (ps # pages)). prefix_session p = Some i} =
      {i. \<exists>p \<in> set ps. prefix_session p = Some i} \<union> {i. \<exists>p \<in> set (concat pages). prefix_session p = Some i}" by auto
  ultimately show ?case unfolding eq using Cons.IH [OF s1(2), of d1 l1] s1(3) by simp
qed

lemma prefix_session_prefix: "length i = 16 \<Longrightarrow> prefix_session (r2_prefix i) = Some i"
proof -
  assume i: "length i = 16"
  have "drop 9 (r2_prefix i) = SessionID_String i @ ''/''" "has_prefix (r2_prefix i) ''sessions/''"
    by (simp_all add: r2_prefix_def has_prefix_def)
  then show ?thesis using i by (simp add: prefix_session_def Let_def codec_simps)
qed

lemma r2_sweep:
  assumes "bucket_ok S view" "r2_inv J view st"
  shows "\<exists>d l st'. R2_Sweep S J now st = ((None, d, l), st') \<and> r2_inv J view st' \<and>
    r2_abs J view st' i = (case r2_abs J view st i of None \<Rightarrow> None | Some a \<Rightarrow> if ExpiresAt (as_meta a) > now then Some a else None)"
proof -
  obtain pages where p: "s3_prefixes S st = map Inr pages"
      "set (concat pages) = {''sessions/'' @ seg @ ''/'' | seg x. CHR ''/'' \<notin> set seg \<and> view st (''sessions/'' @ seg @ ''/'' @ x) \<noteq> None}"
    using bucket_okD(7) [OF assms(1)] by blast
  obtain d l st' where s: "R2_Sweep S J now st = ((None, d, l), st')" "r2_inv J view st'"
      "r2_abs J view st' = swept now {i. \<exists>q \<in> set (concat pages). prefix_session q = Some i} (r2_abs J view st)"
    using scan_pages_view [OF assms, of now pages 0 0] p(1) by (auto simp: R2_Sweep_def R2_scan_def)
  have "\<exists>q \<in> set (concat pages). prefix_session q = Some i" if s: "r2_abs J view st i = Some a" for a
  proof -
    obtain b where i: "length i = 16" "session_objects (view st) i ''meta.json'' = Some b" using abs_Some(1) [OF s] by blast
    then have v: "view st (''sessions/'' @ SessionID_String i @ ''/'' @ ''meta.json'') \<noteq> None" by (auto simp: session_objects_def r2_prefix_def)
    have "CHR ''/'' \<notin> set (SessionID_String i)" using lower_hex_letters [OF SessionID_String_lower [OF i(1)]] by (fastforce simp: hex_letters_def)
    with v have "r2_prefix i \<in> set (concat pages)" unfolding p(2) r2_prefix_def by blast
    then show ?thesis using prefix_session_prefix [OF i(1)] by blast
  qed
  with s show ?thesis by (auto simp: swept_def split: option.splits)
qed

section \<open>Properties\<close>

text \<open>
  C20. The bucket store implements the same write-once contract as the other two, error by error, on a bucket that does what its service
  documents (one call deletes at most 1000 objects), provided that chunks come with an index below the session's chunk count, which the handler checks; and its sweep removes exactly the
  expired sessions.
\<close>

theorem R2Store_refines:
  assumes "bucket_ok S view" and "metadata_json J (metadata_for m created)" and "r2_inv J view st" and "length i = 16" and "meta_wf m"
    and "\<forall>a. r2_abs J view st i = Some a \<longrightarrow> index < ucast (meta_ChunkCount (as_meta a))"
  shows "refines_op (r2_abs J view) (r2_inv J view) (R2_CreateSession S J created st i m) (spec_create (r2_abs J view st) i m) \<and>
    refines_op (r2_abs J view) (r2_inv J view) (R2_PutChunk S st i index c) (spec_putChunk (r2_abs J view st) i index c) \<and>
    refines_op (r2_abs J view) (r2_inv J view) (R2_PutManifest S st i c) (spec_putManifest (r2_abs J view st) i c) \<and>
    refines_op (r2_abs J view) (r2_inv J view) (R2_DeleteSession S st i) (spec_delete (r2_abs J view st) i) \<and>
    R2_Session S J st i = spec_session (r2_abs J view st) i \<and>
    R2_GetChunk S st i any_index = spec_getChunk (r2_abs J view st) i any_index \<and>
    R2_GetManifest S st i = spec_getManifest (r2_abs J view st) i \<and>
    (\<exists>d l st'. R2_Sweep S J now st = ((None, d, l), st') \<and> r2_inv J view st' \<and>
       r2_abs J view st' i = (case r2_abs J view st i of None \<Rightarrow> None | Some a \<Rightarrow> if ExpiresAt (as_meta a) > now then Some a else None))"
proof -
  note a = assms(1,3,4)
  have "refines_op (r2_abs J view) (r2_inv J view) (R2_PutChunk S st i index c) (spec_putChunk (r2_abs J view st) i index c)"
    by (rule r2_putChunk [OF a]) (use assms(6) in blast)
  then show ?thesis using r2_create [OF assms(1-5)] r2_putManifest [OF a] r2_delete [OF a] r2_session [OF a] r2_getChunk [OF a] r2_getManifest [OF a]
      r2_sweep [OF assms(1,3)] by blast
qed

text \<open>Without the check of the handler a chunk with any index is stored; the other stores refuse it.\<close>

lemma R2_PutChunk_unchecked:
  assumes "bucket_ok S view" "r2_inv J view st" "r2_abs J view st i = Some a" "index \<ge> ucast (meta_ChunkCount (as_meta a))"
  shows "fst (R2_PutChunk S st i index c) = None" "fst (spec_putChunk (r2_abs J view st) i index c) = Some ErrNotFound"
proof -
  have h: "R2_head S (r2_prefix i @ ''meta.json'') st = None" using abs_Some(1) [OF assms(3)] by (auto simp: R2_get_view(2) [OF assms(1)])
  have "as_chunks a (unat index) = None"
    using chunk_bound [OF assms(2,3), of "unat index"] assms(4) by (cases "as_chunks a (unat index)") (auto simp: word_le_nat_alt)
  then have "session_objects (view st) i (chunk_name (unat index)) = None" using abs_Some(2) [OF assms(3)] by simp
  from R2_put_view(1) [OF assms(1) this, of c] h show "fst (R2_PutChunk S st i index c) = None" by (auto simp: R2_PutChunk_def chunkKey_name)
  show "fst (spec_putChunk (r2_abs J view st) i index c) = Some ErrNotFound" using assms(3,4) by (simp add: spec_putChunk_def)
qed

section \<open>A small bucket\<close>

definition list_view :: "(string \<times> bytes) list \<Rightarrow> string \<rightharpoonup> bytes \<times> time" where
  "list_view st k = map_option (\<lambda>b. (b, 1)) (map_of st k)"

definition key_prefixes :: "string \<Rightarrow> string list" where
  "key_prefixes k =
     (if has_prefix k ''sessions/''
      then (case cut_at (CHR ''/'') (drop 9 k) of (seg, x, found) \<Rightarrow> if found then [''sessions/'' @ seg @ ''/''] else [])
      else [])"

definition list_bucket :: "(string \<times> bytes) list s3_client" where
  "list_bucket = \<lparr>
     s3_put = (\<lambda>k b st. if map_of st k = None then (None, (k, b) # st) else (Some (HTTPStatus 412), st)),
     s3_get = (\<lambda>k st. case map_of st k of None \<Rightarrow> Inl NoSuchKey | Some b \<Rightarrow> Inr (b, None)),
     s3_head = (\<lambda>k st. case map_of st k of None \<Rightarrow> Some (HTTPStatus 404) | Some _ \<Rightarrow> None),
     s3_pages = (\<lambda>p st. [Inr (map (\<lambda>k. (k, Some 1)) (remdups (filter (\<lambda>k. has_prefix k p) (map fst st))))]),
     s3_prefixes = (\<lambda>st. [Inr (concat (map (key_prefixes \<circ> fst) st))]),
     s3_delete = (\<lambda>ks st. if length ks > 1000 then (Inl (HTTPStatus 400), st) else (Inr 0, filter (\<lambda>(k, _). k \<notin> set ks) st))\<rparr>"

lemma cut_at_found: "cut_at c s = (a, b, True) \<Longrightarrow> s = a @ c # b \<and> c \<notin> set a"
  by (induction s arbitrary: a) (auto split: if_splits prod.splits)

lemma key_prefixes_iff: "p \<in> set (key_prefixes k) \<longleftrightarrow> (\<exists>seg x. p = ''sessions/'' @ seg @ ''/'' \<and> CHR ''/'' \<notin> set seg \<and> k = ''sessions/'' @ seg @ ''/'' @ x)"
proof
  assume a: "p \<in> set (key_prefixes k)"
  obtain seg x found where c: "cut_at (CHR ''/'') (drop 9 k) = (seg, x, found)" by (rule prod_cases3)
  have e: "key_prefixes k = (if has_prefix k ''sessions/'' then (if found then [''sessions/'' @ seg @ ''/''] else []) else [])"
    unfolding key_prefixes_def c by simp
  have p: "has_prefix k ''sessions/''" using a unfolding e by (rule contrapos_pp) simp
  have f: "found" using a unfolding e by (rule contrapos_pp) simp
  have q: "p = ''sessions/'' @ seg @ ''/''" using a p f unfolding e by simp
  from p obtain r where r: "k = ''sessions/'' @ r" by (auto simp: has_prefix_iff)
  have "r = seg @ CHR ''/'' # x \<and> CHR ''/'' \<notin> set seg" using cut_at_found [of "CHR ''/''" r seg x] c f r by simp
  with r q show "\<exists>seg x. p = ''sessions/'' @ seg @ ''/'' \<and> CHR ''/'' \<notin> set seg \<and> k = ''sessions/'' @ seg @ ''/'' @ x" by auto
next
  assume "\<exists>seg x. p = ''sessions/'' @ seg @ ''/'' \<and> CHR ''/'' \<notin> set seg \<and> k = ''sessions/'' @ seg @ ''/'' @ x"
  then obtain seg x where k: "p = ''sessions/'' @ seg @ ''/''" "CHR ''/'' \<notin> set seg" "k = ''sessions/'' @ seg @ ''/'' @ x" by blast
  have "drop 9 k = seg @ CHR ''/'' # x" "has_prefix k ''sessions/''" unfolding k(3) by (simp, simp add: has_prefix_def)
  then show "p \<in> set (key_prefixes k)" using cut_at_append [OF k(2), of x] k(1) by (simp only: key_prefixes_def if_True prod.case) simp
qed

lemma map_of_filter_notin: "map_of (filter (\<lambda>(k, _). k \<notin> A) st) = map_of st |` (- A)"
  by (induction st) (auto simp: restrict_map_def fun_eq_iff)

lemma list_bucket_ok: "bucket_ok list_bucket list_view"
proof -
  have n: "list_view st k = None \<longleftrightarrow> k \<notin> fst ` set st" for st k by (simp add: list_view_def map_of_eq_None_iff)
  have pages: "distinct (map fst (map (\<lambda>k. (k, Some (1 :: time))) (remdups (filter (\<lambda>k. has_prefix k p) (map fst st)))))" for p st by (simp add: comp_def)
  have 7: "set (concat (map (key_prefixes \<circ> fst) st)) =
      {''sessions/'' @ seg @ ''/'' | seg x. CHR ''/'' \<notin> set seg \<and> list_view st (''sessions/'' @ seg @ ''/'' @ x) \<noteq> None}" for st
    unfolding n by (force simp: key_prefixes_iff)
  show ?thesis unfolding bucket_ok_def
  proof (intro conjI allI impI)
    fix k b st assume "list_view st k = None"
    then show "\<exists>t st'. s3_put list_bucket k b st = (None, st') \<and> list_view st' = (list_view st)(k \<mapsto> (b, t))"
      by (intro exI [of _ 1] exI [of _ "(k, b) # st"]) (auto simp: list_bucket_def list_view_def fun_eq_iff)
  next
    fix k b st assume "list_view st k \<noteq> None"
    then show "\<exists>st'. s3_put list_bucket k b st = (Some (HTTPStatus 412), st') \<and> list_view st' = list_view st" by (auto simp: list_bucket_def list_view_def)
  next
    fix p st
    show "\<exists>pages. s3_pages list_bucket p st = map Inr pages \<and> distinct (map fst (concat pages)) \<and>
        fst ` set (concat pages) = {k. list_view st k \<noteq> None \<and> has_prefix k p}"
      unfolding n by (intro exI [of _ "[map (\<lambda>k. (k, Some 1)) (remdups (filter (\<lambda>k. has_prefix k p) (map fst st)))]"])
        (force simp: list_bucket_def comp_def)
  next
    fix ks :: "string list" and st :: "(string \<times> bytes) list" assume "length ks \<le> 1000"
    then show "\<exists>st'. s3_delete list_bucket ks st = (Inr 0, st') \<and> list_view st' = list_view st |` (- set ks)"
      by (auto simp: list_bucket_def list_view_def map_of_filter_notin restrict_map_def fun_eq_iff)
  next
    fix st
    show "\<exists>pages. s3_prefixes list_bucket st = map Inr pages \<and>
        set (concat pages) = {''sessions/'' @ seg @ ''/'' | seg x. CHR ''/'' \<notin> set seg \<and> list_view st (''sessions/'' @ seg @ ''/'' @ x) \<noteq> None}"
      by (intro exI [of _ "[concat (map (key_prefixes \<circ> fst) st)]"]) (use 7 [of st] in \<open>simp add: list_bucket_def\<close>)
  qed (auto simp: list_bucket_def list_view_def split: option.splits)
qed

definition sample_r2_meta :: sessionMeta where
  "sample_r2_meta = \<lparr>Mode = ''blob'', meta_CollectorKey = replicate 32 0, meta_CollectorMAC = replicate 32 0, CredentialHash = replicate 32 7,
     ExpiresAt = 100, meta_ChunkCount = 1, ChunksStored = 0, ManifestStored = False\<rparr>"

definition sample_r2_json :: r2_json where
  "sample_r2_json = \<lparr>rj_enc = (\<lambda>_. Some [1]), rj_dec = (\<lambda>_. Some (metadata_for sample_r2_meta 5))\<rparr>"

theorem R2Store_refines_witness:
  "\<exists>st1 st2. R2_CreateSession list_bucket sample_r2_json 5 [] (replicate 16 0) sample_r2_meta = (None, st1) \<and>
     R2_PutChunk list_bucket st1 (replicate 16 0) 0 [9] = (None, st2)"
proof -
  let ?i = "replicate 16 0 :: sessionID" and ?J = sample_r2_json and ?m = sample_r2_meta and ?abs = "r2_abs sample_r2_json list_view"
  have j: "metadata_json ?J (metadata_for ?m 5)" by (simp add: metadata_json_def sample_r2_json_def)
  have wf: "meta_wf ?m" by (simp add: meta_wf_def sample_r2_meta_def)
  have i: "length ?i = 16" by simp
  have inv: "r2_inv ?J list_view []" by (simp add: r2_inv_def session_objects_def list_view_def)
  have n: "?abs [] ?i = None" by (simp add: r2_abs_def objects_abs_def session_objects_def list_view_def)
  obtain e st1 where c: "R2_CreateSession list_bucket ?J 5 [] ?i ?m = (e, st1)" by (rule prod.exhaust)
  have "refines_op ?abs (r2_inv ?J list_view) (e, st1) (spec_create (?abs []) ?i ?m)"
    unfolding c [symmetric] by (rule R2Store_refines [OF list_bucket_ok j inv i wf, of 0, THEN conjunct1]) (simp add: n)
  then have e: "e = None" "?abs st1 ?i = Some (fresh_session ?m)" "r2_inv ?J list_view st1" using n by (auto simp: refines_op_def spec_create_def)
  obtain e2 st2 where p: "R2_PutChunk list_bucket st1 ?i 0 [9] = (e2, st2)" by (rule prod.exhaust)
  have b: "\<forall>a. ?abs st1 ?i = Some a \<longrightarrow> 0 < ucast (meta_ChunkCount (as_meta a))" using e(2) by (simp add: fresh_session_def sample_r2_meta_def)
  have "refines_op ?abs (r2_inv ?J list_view) (e2, st2) (spec_putChunk (?abs st1) ?i 0 [9])"
    unfolding p [symmetric] by (rule R2Store_refines [OF list_bucket_ok j e(3) i wf b, THEN conjunct2, THEN conjunct1])
  then have "e2 = None" using e(2) by (simp add: refines_op_def spec_putChunk_def fresh_session_def sample_r2_meta_def)
  with c p e(1) show ?thesis by blast
qed
end
