(* ===== verification/Relay_Server.thy ===== *)
theory Relay_Server
  imports Relay_Limits_Proofs R2_Proofs Dir_Store
begin

text \<open>
  The relay as a server (\<^verbatim>\<open>internal/relayserver/serve.go\<close>): its three stores, the sweep over limiter, handler and store, and what
  it logs of a request; and the checks of the command line (\<^verbatim>\<open>cmd/aken-relay/main.go\<close>). Starting and stopping it is in \<open>Relay_Command\<close>.
\<close>

section \<open>The command line\<close>

record server_config =
  sc_Listen :: string
  sc_Store :: string
  sc_DataDir :: string
  sc_BehindCloudflare :: bool
  sc_Limits :: limits_config

definition serve_flags :: "server_config \<Rightarrow> string option" where
  "serve_flags cfg =
     (let l = sc_Limits cfg in
      if sc_Store cfg \<noteq> ''memory'' \<and> sc_Store cfg \<noteq> ''dir'' \<and> sc_Store cfg \<noteq> ''r2'' then Some ''--store must be memory, dir or r2''
      else if sc_Store cfg = ''dir'' \<and> sc_DataDir cfg = '''' then Some ''--data-dir is required with --store dir''
      else if sc_Store cfg \<noteq> ''dir'' \<and> sc_DataDir cfg \<noteq> '''' then Some ''--data-dir needs --store dir''
      else if lc_AllowanceMode l \<noteq> ''off'' \<and> lc_AllowanceMode l \<noteq> ''observe'' \<and> lc_AllowanceMode l \<noteq> ''enforce''
      then Some ''--allowance-mode must be off, observe or enforce''
      else if lc_RequestsPerMinute l \<le> 0 \<or> lc_CreatesPerHour l \<le> 0 \<or> lc_MaxLiveSessions l \<le> 0 \<or> lc_AllowanceServers l \<le> 0 \<or> lc_AllowanceWindow l \<le> 0
      then Some ''limits must be positive''
      else None)"

text \<open>The environment of the bucket: the values of the four variables, or those that are missing.\<close>

definition ConfigFromEnv :: "(string \<Rightarrow> string) \<Rightarrow> string list + string list" where
  "ConfigFromEnv getenv =
     (let names = [''AKEN_R2_ACCOUNT_ID'', ''AKEN_R2_BUCKET'', ''AKEN_R2_ACCESS_KEY_ID'', ''AKEN_R2_SECRET_ACCESS_KEY''];
          absent = filter (\<lambda>n. getenv n = '''') names
      in if absent \<noteq> [] then Inl absent else Inr (map getenv names))"

section \<open>The sweep\<close>

datatype 'o server_store = InMemory memoryStore | InDir fs | InBucket 'o

text \<open>
  The store's part: an error, the number of sessions alive where the store counts them, and the store after it.
\<close>

definition sweep_store ::
  "'o s3_client \<Rightarrow> r2_json \<Rightarrow> time \<Rightarrow> 'o server_store \<Rightarrow> store_error option \<times> nat option \<times> 'o server_store" where
  "sweep_store S J now store =
     (case store of
        InMemory m \<Rightarrow> (None, None, InMemory (Mem_Sweep now m))
      | InDir f \<Rightarrow> (case Dir_Sweep now f of (deleted, live, f') \<Rightarrow> (None, Some live, InDir f'))
      | InBucket st \<Rightarrow>
          (case R2_Sweep S J now st of
             ((Some e, deleted, live), st') \<Rightarrow> (Some e, None, InBucket st')
           | ((None, deleted, live), st') \<Rightarrow> (None, Some live, InBucket st')))"

definition server_sweep ::
  "'o s3_client \<Rightarrow> r2_json \<Rightarrow> 'o server_store store_ops \<Rightarrow> limits_config \<Rightarrow> time \<Rightarrow> sessionID list \<Rightarrow>
   'b limiter \<Rightarrow> 'o server_store relay \<Rightarrow> store_error option \<times> 'b limiter \<times> 'o server_store relay" where
  "server_sweep S J ops cfg now order l st =
     (let l1 = Prune cfg now l; st1 = Handler_Sweep ops now order st in
      case sweep_store S J now (rl_store st1) of
        (err, live, store) \<Rightarrow>
          (err, (case (err, live) of (None, Some n) \<Rightarrow> SetLiveSessions (int n) l1 | _ \<Rightarrow> l1), st1\<lparr>rl_store := store\<rparr>))"

section \<open>The log\<close>

definition logRoute :: "string \<Rightarrow> string \<times> string" where
  "logRoute path =
     (if path = ''/healthz'' \<or> path = ''/v0/info'' then (path, '''')
      else
        let parts = split_on (CHR ''/'') (if has_prefix path ''/'' then drop 1 path else path); n = length parts;
            pattern =
              (if n < 3 \<or> parts ! 0 \<noteq> ''v0'' \<or> parts ! 1 \<noteq> ''sessions'' then ''''
               else if n = 3 then ''/v0/sessions/{sid}''
               else if n = 4 \<and> (parts ! 3 = ''join'' \<or> parts ! 3 = ''jobs'' \<or> parts ! 3 = ''results'') then ''/v0/sessions/{sid}/'' @ parts ! 3
               else if n = 5 \<and> parts ! 3 = ''blob'' \<and> parts ! 4 = ''manifest'' then ''/v0/sessions/{sid}/blob/manifest''
               else if n = 6 \<and> parts ! 3 = ''blob'' \<and> parts ! 4 = ''chunks'' then ''/v0/sessions/{sid}/blob/chunks/{index}''
               else '''')
        in if pattern = '''' then (''/'', '''')
           else (pattern, case ParseSessionID (parts ! 2) of Some i \<Rightarrow> SessionID_String i | None \<Rightarrow> ''''))"

definition log_patterns :: "string list" where
  "log_patterns = [''/healthz'', ''/v0/info'', ''/'', ''/v0/sessions/{sid}'', ''/v0/sessions/{sid}/join'', ''/v0/sessions/{sid}/jobs'',
     ''/v0/sessions/{sid}/results'', ''/v0/sessions/{sid}/blob/manifest'', ''/v0/sessions/{sid}/blob/chunks/{index}'']"

section \<open>Properties\<close>

text \<open>
  What is logged of a request's path is one of nine fixed patterns and at most a well-formed session identifier, whatever the
  client sent; text of the client's choice never reaches the log through the path.
\<close>

lemma logRoute_closed:
  "fst (logRoute path) \<in> set log_patterns \<and> (snd (logRoute path) = '''' \<or> (\<exists>i. length i = 16 \<and> snd (logRoute path) = SessionID_String i))"
proof -
  have s: "(case ParseSessionID x of Some i \<Rightarrow> SessionID_String i | None \<Rightarrow> '''') = '''' \<or>
      (\<exists>i. length i = 16 \<and> (case ParseSessionID x of Some i \<Rightarrow> SessionID_String i | None \<Rightarrow> '''') = SessionID_String i)" for x
    by (cases "ParseSessionID x") (auto dest: ParseSessionID_Some(1))
  show ?thesis
  proof (cases "path = ''/healthz'' \<or> path = ''/v0/info''")
    case True
    then show ?thesis by (auto simp: logRoute_def log_patterns_def)
  next
    case False
    define parts where "parts = split_on (CHR ''/'') (if has_prefix path ''/'' then drop 1 path else path)"
    define pattern where "pattern =
      (if length parts < 3 \<or> parts ! 0 \<noteq> ''v0'' \<or> parts ! 1 \<noteq> ''sessions'' then ''''
       else if length parts = 3 then ''/v0/sessions/{sid}''
       else if length parts = 4 \<and> (parts ! 3 = ''join'' \<or> parts ! 3 = ''jobs'' \<or> parts ! 3 = ''results'') then ''/v0/sessions/{sid}/'' @ parts ! 3
       else if length parts = 5 \<and> parts ! 3 = ''blob'' \<and> parts ! 4 = ''manifest'' then ''/v0/sessions/{sid}/blob/manifest''
       else if length parts = 6 \<and> parts ! 3 = ''blob'' \<and> parts ! 4 = ''chunks'' then ''/v0/sessions/{sid}/blob/chunks/{index}''
       else '''')"
    have p: "pattern = '''' \<or> pattern \<in> set log_patterns" unfolding pattern_def log_patterns_def by auto
    have "logRoute path = (if pattern = '''' then (''/'', '''') else (pattern, case ParseSessionID (parts ! 2) of Some i \<Rightarrow> SessionID_String i | None \<Rightarrow> ''''))"
      using False unfolding logRoute_def Let_def parts_def [symmetric] pattern_def [symmetric] by (simp only: if_False)
    moreover have "''/'' \<in> set log_patterns" by (simp add: log_patterns_def)
    ultimately show ?thesis using p s [of "parts ! 2"] by (cases "pattern = ''''") (simp_all only: if_True if_False fst_conv snd_conv simp_thms)
  qed
qed

text \<open>Limits that the command line lets pass are those that the properties of the limits ask for.\<close>

lemma serve_flags_limits:
  "serve_flags cfg = None \<Longrightarrow> 0 < lc_AllowanceServers (sc_Limits cfg) \<and> 0 < lc_MaxLiveSessions (sc_Limits cfg) \<and> 0 < lc_CreatesPerHour (sc_Limits cfg)"
  by (auto simp: serve_flags_def Let_def split: if_splits)

end
