(* ===== verification/Relay_Command.thy ===== *)
theory Relay_Command
  imports Relay_Server
begin

text \<open>
  The relay's command (\<^verbatim>\<open>run\<close> of \<^verbatim>\<open>cmd/aken-relay/main.go\<close>), starting and stopping the server (\<^verbatim>\<open>Run\<close> of \<^verbatim>\<open>internal/relayserver/serve.go\<close>), and the writer that
  records for the log what a handler answers. The network, the parsing of flags and the requests served are parameters.
\<close>

section \<open>The log of a request\<close>

text \<open>What reaches the client's connection, and the recorder in front of it.\<close>

datatype sent = SentHeader nat | SentBody bytes

record responseWriter =
  rw_status :: nat
  rw_bytes :: nat
  rw_sent :: "sent list"

definition rw_WriteHeader :: "nat \<Rightarrow> responseWriter \<Rightarrow> responseWriter" where
  "rw_WriteHeader status w = (if rw_status w \<noteq> 0 then w else w\<lparr>rw_status := status, rw_sent := rw_sent w @ [SentHeader status]\<rparr>)"

text \<open>The connection takes \<open>n\<close> bytes of the body, all of them unless it fails.\<close>

definition rw_Write :: "bytes \<Rightarrow> nat \<Rightarrow> responseWriter \<Rightarrow> responseWriter" where
  "rw_Write body n w =
     (let w1 = (if rw_status w = 0 then rw_WriteHeader 200 w else w)
      in w1\<lparr>rw_bytes := rw_bytes w1 + n, rw_sent := rw_sent w1 @ [SentBody body]\<rparr>)"

datatype handler_call = CallHeader nat | CallWrite bytes nat

fun writer_call :: "handler_call \<Rightarrow> responseWriter \<Rightarrow> responseWriter" where
  "writer_call (CallHeader status) w = rw_WriteHeader status w"
| "writer_call (CallWrite body n) w = rw_Write body n w"

record log_entry =
  le_method :: string
  le_route :: string
  le_session_id :: string
  le_status :: nat
  le_bytes :: nat
  le_client_ip :: string

text \<open>A handler is the calls it makes on its writer. The time a request took is left out.\<close>

definition request_log ::
  "net_pkg \<Rightarrow> bool \<Rightarrow> string \<Rightarrow> string \<Rightarrow> string \<Rightarrow> string \<Rightarrow> handler_call list \<Rightarrow> sent list \<times> log_entry" where
  "request_log N behindCloudflare meth path connecting remote calls =
     (let recorded = fold writer_call calls \<lparr>rw_status = 0, rw_bytes = 0, rw_sent = []\<rparr>;
          status = (if rw_status recorded = 0 then 200 else rw_status recorded);
          (pattern, sid) = logRoute path
      in (rw_sent recorded,
          \<lparr>le_method = meth, le_route = pattern, le_session_id = sid, le_status = status, le_bytes = rw_bytes recorded,
           le_client_ip = ClientIP N behindCloudflare connecting remote\<rparr>))"














section \<open>The status the limiter sees\<close>

text \<open>The limiter has a recorder of its own (\<^verbatim>\<open>internal/relayserver/limits/limits.go\<close>), which starts at 200 and remembers whether a header was written.\<close>

record limitsWriter =
  lw_status :: nat
  lw_wroteHeader :: bool
  lw_sent :: "sent list"

definition lw_WriteHeader :: "nat \<Rightarrow> limitsWriter \<Rightarrow> limitsWriter" where
  "lw_WriteHeader status w =
     (if lw_wroteHeader w then w else w\<lparr>lw_status := status, lw_wroteHeader := True, lw_sent := lw_sent w @ [SentHeader status]\<rparr>)"

definition lw_Write :: "bytes \<Rightarrow> limitsWriter \<Rightarrow> limitsWriter" where
  "lw_Write body w =
     (let w1 = (if \<not> lw_wroteHeader w then lw_WriteHeader 200 w else w) in w1\<lparr>lw_sent := lw_sent w1 @ [SentBody body]\<rparr>)"

fun limits_call :: "handler_call \<Rightarrow> limitsWriter \<Rightarrow> limitsWriter" where
  "limits_call (CallHeader status) w = lw_WriteHeader status w"
| "limits_call (CallWrite body n) w = lw_Write body w"

definition recorders_agree :: "limitsWriter \<Rightarrow> responseWriter \<Rightarrow> bool" where
  "recorders_agree w v \<longleftrightarrow> lw_sent w = rw_sent v \<and> lw_wroteHeader w = (rw_status v \<noteq> 0) \<and> lw_status w = (if rw_status v = 0 then 200 else rw_status v)"

text \<open>
  The two recorders agree call by call: the limiter counts a pair by the status that the log has and the client is sent.
\<close>

lemma recorders_agree_call: "recorders_agree w v \<Longrightarrow> CallHeader 0 \<noteq> c \<Longrightarrow> recorders_agree (limits_call c w) (writer_call c v)"
  by (cases c) (auto simp: recorders_agree_def lw_WriteHeader_def lw_Write_def rw_WriteHeader_def rw_Write_def Let_def)

lemma limiter_sees_status:
  assumes "CallHeader 0 \<notin> set calls" and "request_log N behindCloudflare meth path connecting remote calls = (out, entry)"
  shows "lw_status (fold limits_call calls \<lparr>lw_status = 200, lw_wroteHeader = False, lw_sent = []\<rparr>) = le_status entry"
proof -
  have "recorders_agree w v \<Longrightarrow> recorders_agree (fold limits_call calls w) (fold writer_call calls v)" for w v
    using assms(1) by (induction calls arbitrary: w v) (auto intro: recorders_agree_call)
  then have "recorders_agree (fold limits_call calls \<lparr>lw_status = 200, lw_wroteHeader = False, lw_sent = []\<rparr>)
      (fold writer_call calls \<lparr>rw_status = 0, rw_bytes = 0, rw_sent = []\<rparr>)" by (simp add: recorders_agree_def)
  with assms(2) show ?thesis by (auto simp: request_log_def recorders_agree_def Let_def case_prod_unfold)
qed

section \<open>Starting and stopping\<close>

datatype server_error =
    SE_Store string
  | SE_UnknownStore string
  | SE_Address
  | SE_Listen string
  | SE_Sweep store_error
  | SE_Serve string

datatype server_event = WarnedProxy string | Listening | Serving | ShutDown | ServerClosed | SweeperStopped | ListenerClosed

text \<open>How serving ends: the server's own error, or the context and what shutting down returned.\<close>

datatype server_stop = ServeReturned string | ContextDone "string option"

record 'o server_world =
  sw_dir :: "string + fs"
  sw_bucket :: "string + 'o"
  sw_host :: "string \<Rightarrow> string option"
  sw_loopback :: "string \<Rightarrow> bool"
  sw_listen :: "string option"
  sw_now :: time
  sw_stop :: server_stop

definition http_ErrServerClosed :: string where "http_ErrServerClosed = ''http: Server closed''"

definition open_store :: "'o server_world \<Rightarrow> string \<Rightarrow> server_error + 'o server_store" where
  "open_store W name =
     (if name = ''memory'' then Inr (InMemory NewMemoryStore)
      else if name = ''dir'' then (case sw_dir W of Inl e \<Rightarrow> Inl (SE_Store e) | Inr f \<Rightarrow> Inr (InDir f))
      else if name = ''r2'' then (case sw_bucket W of Inl e \<Rightarrow> Inl (SE_Store e) | Inr st \<Rightarrow> Inr (InBucket st))
      else Inl (SE_UnknownStore name))"

definition server_stopped :: "server_stop \<Rightarrow> server_error option \<times> server_event list" where
  "server_stopped stop =
     (case stop of
        ServeReturned e \<Rightarrow> (if e = http_ErrServerClosed then None else Some (SE_Serve e), [])
      | ContextDone None \<Rightarrow> (None, [ShutDown])
      | ContextDone (Some e) \<Rightarrow> (Some (SE_Serve e), [ShutDown, ServerClosed]))"

text \<open>
  The error, what was done in order, and limiter and handler as serving begins. The deferred calls stop the sweeper first and close the listener last.
\<close>

definition server_Run ::
  "'o s3_client \<Rightarrow> r2_json \<Rightarrow> 'o server_store store_ops \<Rightarrow> 'o server_world \<Rightarrow> server_config \<Rightarrow>
   server_error option \<times> server_event list \<times> ('b limiter \<times> 'o server_store relay) option" where
  "server_Run S J ops W cfg =
     (case open_store W (sc_Store cfg) of
        Inl e \<Rightarrow> (Some e, [], None)
      | Inr store \<Rightarrow>
          (case sw_host W (sc_Listen cfg) of
             None \<Rightarrow> (Some SE_Address, [], None)
           | Some host \<Rightarrow>
               let warned = (if sc_BehindCloudflare cfg \<and> host \<noteq> ''localhost'' \<and> \<not> sw_loopback W host then [WarnedProxy (sc_Listen cfg)] else []) in
               (case sw_listen W of
                  Some e \<Rightarrow> (Some (SE_Listen e), warned, None)
                | None \<Rightarrow>
                    (case server_sweep S J ops ((sc_Limits cfg)\<lparr>lc_BehindCloudflare := sc_BehindCloudflare cfg\<rparr>) (sw_now W) [] New_Limiter (NewHandler store) of
                       (Some e, _) \<Rightarrow> (Some (SE_Sweep e), warned @ [Listening, ListenerClosed], None)
                     | (None, l, st) \<Rightarrow>
                         (case server_stopped (sw_stop W) of (err, stopping) \<Rightarrow>
                            (err, warned @ [Listening, Serving] @ stopping @ [SweeperStopped, ListenerClosed], Some (l, st)))))))"

definition server_abs :: "r2_json \<Rightarrow> ('o \<Rightarrow> string \<rightharpoonup> bytes \<times> time) \<Rightarrow> 'o server_store \<Rightarrow> aspec" where
  "server_abs J view store = (case store of InMemory m \<Rightarrow> mem_abs m | InDir f \<Rightarrow> dir_abs f | InBucket st \<Rightarrow> r2_abs J view st)"

definition server_inv :: "r2_json \<Rightarrow> ('o \<Rightarrow> string \<rightharpoonup> bytes \<times> time) \<Rightarrow> 'o server_store \<Rightarrow> bool" where
  "server_inv J view store = (case store of InMemory m \<Rightarrow> mem_inv m | InDir f \<Rightarrow> dir_inv f | InBucket st \<Rightarrow> r2_inv J view st)"

lemma sweep_store_exact:
  assumes "bucket_ok S view" "server_inv J view store"
  shows "\<exists>live store'. sweep_store S J now store = (None, live, store') \<and> server_inv J view store' \<and>
    server_abs J view store' i = (case server_abs J view store i of None \<Rightarrow> None | Some a \<Rightarrow> if expired now (ExpiresAt (as_meta a)) then None else Some a)"
proof (cases store)
  case (InMemory m)
  with assms(2) mem_sweep [of m now] show ?thesis by (simp add: sweep_store_def server_inv_def server_abs_def)
next
  case (InDir f)
  obtain d l f' where s: "Dir_Sweep now f = (d, l, f')" by (rule prod_cases3)
  from InDir assms(2) have "dir_inv f" by (simp add: server_inv_def)
  from dir_sweep [OF this, of now] s InDir show ?thesis by (simp add: sweep_store_def server_inv_def server_abs_def)
next
  case (InBucket st)
  with assms(2) have "r2_inv J view st" by (simp add: server_inv_def)
  from r2_sweep [OF assms(1) this, of now i] InBucket show ?thesis
    by (auto simp: sweep_store_def server_inv_def server_abs_def expired_def not_less split: option.splits)
qed

text \<open>
  The relay begins to serve only with its listener open and a store that was swept without error: no session in it has expired and no other is missing. Once it
  listens, the last thing it does is to close the listener, and it stops the sweeper before.
\<close>

lemma server_starts_clean:
  fixes left :: "('b limiter \<times> 'o server_store relay) option"
  assumes "server_Run S J ops W cfg = (err, events, left)" "bucket_ok S view" "open_store W (sc_Store cfg) = Inr store" "server_inv J view store"
  shows "(Serving \<in> set events \<longleftrightarrow> left \<noteq> None) \<and>
    (\<forall>l st. left = Some (l, st) \<longrightarrow> server_inv J view (rl_store st) \<and>
      (\<forall>i. server_abs J view (rl_store st) i =
        (case server_abs J view store i of None \<Rightarrow> None | Some a \<Rightarrow> if expired (sw_now W) (ExpiresAt (as_meta a)) then None else Some a))) \<and>
    (Listening \<in> set events \<longrightarrow> last events = ListenerClosed) \<and> (Serving \<in> set events \<longrightarrow> last (butlast events) = SweeperStopped)"
proof -
  let ?cfg = "(sc_Limits cfg)\<lparr>lc_BehindCloudflare := sc_BehindCloudflare cfg\<rparr>"
  obtain live store' where sw: "sweep_store S J (sw_now W) store = (None, live, store')" using sweep_store_exact [OF assms(2,4), of "sw_now W"] by blast
  have ex: "server_inv J view store' \<and> (\<forall>i. server_abs J view store' i =
      (case server_abs J view store i of None \<Rightarrow> None | Some a \<Rightarrow> if expired (sw_now W) (ExpiresAt (as_meta a)) then None else Some a))"
    using sweep_store_exact [OF assms(2,4), of "sw_now W"] sw by auto
  obtain l :: "'b limiter" and st where s: "server_sweep S J ops ?cfg (sw_now W) [] New_Limiter (NewHandler store) = (None, l, st)" and st: "rl_store st = store'"
    by (cases live) (simp_all add: server_sweep_def Handler_Sweep_def NewHandler_def sw Let_def)
  obtain e stopping where p: "server_stopped (sw_stop W) = (e, stopping)" by (rule prod.exhaust)
  have q: "Serving \<notin> set stopping \<and> Listening \<notin> set stopping"
    using p by (auto simp: server_stopped_def split: server_stop.splits option.splits)
  show ?thesis
  proof (cases "sw_host W (sc_Listen cfg)")
    case None
    then show ?thesis using assms(1) by (auto simp: server_Run_def assms(3))
  next
    case (Some host)
    define warned where "warned = (if sc_BehindCloudflare cfg \<and> host \<noteq> ''localhost'' \<and> \<not> sw_loopback W host then [WarnedProxy (sc_Listen cfg)] else [])"
    have w: "Serving \<notin> set warned \<and> Listening \<notin> set warned" by (simp add: warned_def)
    show ?thesis
    proof (cases "sw_listen W")
      case None
      have "server_Run S J ops W cfg = (e, warned @ [Listening, Serving] @ stopping @ [SweeperStopped, ListenerClosed], Some (l, st))"
        unfolding server_Run_def assms(3) Some None sum.case option.case Let_def s prod.case p warned_def ..
      then show ?thesis using assms(1) ex st by (auto simp: butlast_append)
    next
      case (Some e)
      with \<open>sw_host W (sc_Listen cfg) = Some host\<close> have "server_Run S J ops W cfg = (Some (SE_Listen e), warned, None :: ('b limiter \<times> 'o server_store relay) option)"
        unfolding server_Run_def assms(3) by (simp add: warned_def)
      then show ?thesis using assms(1) w by auto
    qed
  qed
qed

section \<open>The command\<close>

text \<open>What parsing the flags gave: help was asked for, an error, or the configuration and the number of arguments left.\<close>

datatype parsed_flags = FlagHelp | FlagError | Flags server_config nat

definition relay_serve ::
  "(string list \<Rightarrow> parsed_flags) \<Rightarrow> (string \<Rightarrow> string) \<Rightarrow> (server_config \<Rightarrow> server_error option) \<Rightarrow> string list \<Rightarrow> nat" where
  "relay_serve parse getenv serve args =
     (case parse args of
        FlagHelp \<Rightarrow> 0
      | FlagError \<Rightarrow> 2
      | Flags cfg nargs \<Rightarrow>
          if nargs \<noteq> 0 then 2
          else if serve_flags cfg \<noteq> None then 2
          else if sc_Store cfg = ''r2'' \<and> isl (ConfigFromEnv getenv) then 1
          else if serve cfg \<noteq> None then 1 else 0)"

definition relay_admin ::
  "(string \<Rightarrow> string) \<Rightarrow> (string list \<Rightarrow> bool) \<Rightarrow> 'o s3_client \<Rightarrow> string list \<Rightarrow> 'o \<Rightarrow> nat \<times> 'o" where
  "relay_admin getenv opens S args st =
     (if length args = 2 \<and> (args ! 1 = ''--help'' \<or> args ! 1 = ''-h'') then (0, st)
      else if length args \<noteq> 3 \<or> args ! 1 \<noteq> ''delete-session'' then (2, st)
      else (case ParseSessionID (args ! 2) of
              None \<Rightarrow> (2, st)
            | Some i \<Rightarrow>
                (case ConfigFromEnv getenv of
                   Inl missing \<Rightarrow> (1, st)
                 | Inr cfg \<Rightarrow>
                     if \<not> opens cfg then (1, st)
                     else (case R2_DeleteSession S st i of
                             (None, st') \<Rightarrow> (0, st')
                           | (Some e, st') \<Rightarrow> (if e = ErrNotFound then 0 else 1, st')))))"

definition relay_main ::
  "(string list \<Rightarrow> parsed_flags) \<Rightarrow> (string \<Rightarrow> string) \<Rightarrow> (server_config \<Rightarrow> server_error option) \<Rightarrow> (string list \<Rightarrow> bool) \<Rightarrow> 'o s3_client \<Rightarrow>
   string list \<Rightarrow> 'o \<Rightarrow> nat \<times> 'o" where
  "relay_main parse getenv serve opens S args st =
     (case args of
        [] \<Rightarrow> (2, st)
      | a # r \<Rightarrow>
          if a = ''help'' \<or> a = ''-h'' \<or> a = ''--help'' then (0, st)
          else if a = ''version'' \<or> a = ''--version'' \<or> a = ''-V'' then (0, st)
          else if a = ''serve'' then (relay_serve parse getenv serve r, st)
          else if a = ''admin'' then relay_admin getenv opens S args st
          else (2, st))"

text \<open>
  No command but \<^verbatim>\<open>admin delete-session\<close> touches the bucket itself, and that one removes the session it names and no other; exit with 0 means that the session is gone.
\<close>

lemma relay_main_deletes:
  assumes "bucket_ok S view" "r2_inv J view st" "relay_main parse getenv serve opens S args st = (code, st')"
  shows "r2_inv J view st' \<and>
    (r2_abs J view st' = r2_abs J view st \<or>
      (\<exists>i. ParseSessionID (args ! 2) = Some i \<and> args = [''admin'', ''delete-session'', args ! 2] \<and> r2_abs J view st' = (r2_abs J view st)(i := None))) \<and>
    (\<forall>x i. args = [''admin'', ''delete-session'', x] \<and> ParseSessionID x = Some i \<and> code = 0 \<longrightarrow> r2_abs J view st' i = None)"
proof (cases "\<exists>x i. args = [''admin'', ''delete-session'', x] \<and> ParseSessionID x = Some i")
  case True
  then obtain x i where a: "args = [''admin'', ''delete-session'', x]" "ParseSessionID x = Some i" by blast
  have l: "length i = 16" using ParseSessionID_Some(1) [OF a(2)] .
  obtain e st1 where d: "R2_DeleteSession S st i = (e, st1)" by (rule prod.exhaust)
  from r2_delete [OF assms(1,2) l] have r: "e = fst (spec_delete (r2_abs J view st) i)" "r2_abs J view st1 = snd (spec_delete (r2_abs J view st) i)" "r2_inv J view st1"
    by (simp_all add: refines_op_def d)
  show ?thesis
  proof (cases "\<exists>cfg. ConfigFromEnv getenv = Inr cfg \<and> opens cfg")
    case True
    then obtain cfg where c: "ConfigFromEnv getenv = Inr cfg" "opens cfg" by blast
    have "st' = st1" using assms(3) a c d by (auto simp: relay_main_def relay_admin_def split: option.splits)
    then show ?thesis using r a by (auto simp: spec_delete_def split: if_splits)
  next
    case False
    then have "st' = st \<and> code = 1" using assms(3) a by (cases "ConfigFromEnv getenv") (auto simp: relay_main_def relay_admin_def)
    then show ?thesis using assms(2) by simp
  qed
next
  case False
  have "st' = st" if "hd args = ''admin''" "args \<noteq> []"
  proof (cases "length args = 3 \<and> args ! 1 = ''delete-session''")
    case True
    then have "args = [''admin'', ''delete-session'', args ! 2]" using that by (cases args rule: list.exhaust) (auto simp: length_Suc_conv numeral_eq_Suc)
    with False have "ParseSessionID (args ! 2) = None" by (cases "ParseSessionID (args ! 2)") auto
    with assms(3) that show ?thesis by (cases args) (auto simp: relay_main_def relay_admin_def split: if_splits)
  next
    case False
    with assms(3) that show ?thesis by (cases args) (auto simp: relay_main_def relay_admin_def split: if_splits)
  qed
  then have "st' = st" using assms(3) by (cases args) (auto simp: relay_main_def split: if_splits)
  with False assms(2) show ?thesis by auto
qed

end
