(* ===== verification/Command_Lines.thy ===== *)
theory Command_Lines
  imports Commands Relay_Command "HOL-Library.Sublist"
begin

text \<open>
  The command lines: Go's package \<^verbatim>\<open>flag\<close> as the commands use it, the flags of \<^verbatim>\<open>aken collect\<close>, \<^verbatim>\<open>aken serve\<close> (\<^verbatim>\<open>cmd/aken/main.go\<close>) and \<^verbatim>\<open>aken-relay serve\<close>
  (\<^verbatim>\<open>cmd/aken-relay/main.go\<close>) with their defaults, and the loop of \<^verbatim>\<open>aken-mcp\<close> (\<^verbatim>\<open>cmd/aken-mcp/main.go\<close>), which takes flags before and after its
  arguments. Reading the text of an integer or a duration is a parameter.
\<close>

section \<open>Package flag\<close>

datatype flag_kind = FlagString | FlagList | FlagBool | FlagInt | FlagDuration

datatype flag_value = Text string | Truth bool | Number int | Span duration

record flag_pkg =
  fp_int :: "string \<Rightarrow> int option"
  fp_duration :: "string \<Rightarrow> duration option"

datatype flag_error =
    ErrHelp
  | BadSyntax string
  | NotDefined string
  | NeedsArgument string
  | InvalidValue string string

text \<open>\<^verbatim>\<open>strconv.ParseBool\<close>.\<close>

definition parse_bool :: "string \<Rightarrow> bool option" where
  "parse_bool s =
     (if s \<in> {''1'', ''t'', ''T'', ''TRUE'', ''true'', ''True''} then Some True
      else if s \<in> {''0'', ''f'', ''F'', ''FALSE'', ''false'', ''False''} then Some False else None)"

definition flag_value :: "flag_pkg \<Rightarrow> flag_kind \<Rightarrow> string \<Rightarrow> flag_value option" where
  "flag_value P k s =
     (case k of
        FlagString \<Rightarrow> Some (Text s)
      | FlagList \<Rightarrow> Some (Text s)
      | FlagBool \<Rightarrow> map_option Truth (parse_bool s)
      | FlagInt \<Rightarrow> map_option Number (fp_int P s)
      | FlagDuration \<Rightarrow> map_option Span (fp_duration P s))"

text \<open>\<^verbatim>\<open>parseOne\<close>: no more flags and what is left, an error, or one flag set and what is left.\<close>

datatype flag_step = NoFlag "string list" | FlagFails flag_error | FlagSet string flag_value "string list"

definition set_flag :: "flag_pkg \<Rightarrow> flag_kind \<Rightarrow> string \<Rightarrow> string \<Rightarrow> string list \<Rightarrow> flag_step" where
  "set_flag P k name s rest = (case flag_value P k s of None \<Rightarrow> FlagFails (InvalidValue name s) | Some v \<Rightarrow> FlagSet name v rest)"

definition flag_named :: "flag_pkg \<Rightarrow> (string \<Rightarrow> flag_kind option) \<Rightarrow> string \<Rightarrow> string option \<Rightarrow> string list \<Rightarrow> flag_step" where
  "flag_named P kinds name given rest =
     (case kinds name of
        None \<Rightarrow> FlagFails (if name = ''help'' \<or> name = ''h'' then ErrHelp else NotDefined name)
      | Some k \<Rightarrow>
          (case given of
             Some s \<Rightarrow> set_flag P k name s rest
           | None \<Rightarrow>
               if k = FlagBool then set_flag P k name ''true'' rest
               else (case rest of [] \<Rightarrow> FlagFails (NeedsArgument name) | s # rest' \<Rightarrow> set_flag P k name s rest')))"

definition parseOne :: "flag_pkg \<Rightarrow> (string \<Rightarrow> flag_kind option) \<Rightarrow> string list \<Rightarrow> flag_step" where
  "parseOne P kinds args =
     (case args of
        [] \<Rightarrow> NoFlag []
      | s # rest \<Rightarrow>
          if length s < 2 \<or> hd s \<noteq> CHR ''-'' then NoFlag args
          else if s = ''--'' then NoFlag rest
          else let text = (if s ! 1 = CHR ''-'' then drop 2 s else drop 1 s) in
            if text = '''' \<or> hd text = CHR ''-'' \<or> hd text = CHR ''='' then FlagFails (BadSyntax s)
            else (case cut_at (CHR ''='') text of (name, s', found) \<Rightarrow> flag_named P kinds name (if found then Some s' else None) rest))"

lemma parseOne_shorter: "parseOne P kinds args = FlagSet n v rest \<Longrightarrow> length rest < length args"
  by (auto simp: parseOne_def flag_named_def set_flag_def Let_def split: list.splits if_splits prod.splits option.splits)

lemma parseOne_stops: "parseOne P kinds args = NoFlag rest \<Longrightarrow> length rest \<le> length args"
  by (auto simp: parseOne_def flag_named_def set_flag_def Let_def split: list.splits if_splits prod.splits option.splits)

text \<open>\<^verbatim>\<open>FlagSet.Parse\<close>: the error or the arguments left, and the flags set on the way.\<close>

function flag_Parse :: "flag_pkg \<Rightarrow> (string \<Rightarrow> flag_kind option) \<Rightarrow> string list \<Rightarrow> (flag_error + string list) \<times> (string \<times> flag_value) list" where
  "flag_Parse P kinds args =
     (case parseOne P kinds args of
        NoFlag rest \<Rightarrow> (Inr rest, [])
      | FlagFails e \<Rightarrow> (Inl e, [])
      | FlagSet n v rest \<Rightarrow> (case flag_Parse P kinds rest of (r, sets) \<Rightarrow> (r, (n, v) # sets)))"
  by pat_completeness auto
termination by (relation "measure (\<lambda>(_, _, args). length args)") (auto intro: parseOne_shorter)

declare flag_Parse.simps [simp del]

lemma flag_Parse_left: "flag_Parse P kinds args = (Inr rest, sets) \<Longrightarrow> length rest \<le> length args"
proof (induction P kinds args arbitrary: rest sets rule: flag_Parse.induct)
  case (1 P kinds args)
  show ?case
  proof (cases "parseOne P kinds args")
    case (FlagSet n v rest')
    with 1(2) obtain sets' where "flag_Parse P kinds rest' = (Inr rest, sets')" by (auto simp: flag_Parse.simps [of P kinds args] split: prod.splits)
    from 1(1) [OF FlagSet this] parseOne_shorter [OF FlagSet] show ?thesis by simp
  qed (use 1(2) parseOne_stops in \<open>auto simp: flag_Parse.simps [of P kinds args]\<close>)
qed

section \<open>Flags anywhere\<close>

text \<open>The loop of \<^verbatim>\<open>aken-mcp\<close>: after each argument that is no flag, flags are parsed again.\<close>

function mcp_args :: "flag_pkg \<Rightarrow> (string \<Rightarrow> flag_kind option) \<Rightarrow> string list \<Rightarrow> (flag_error + string list) \<times> (string \<times> flag_value) list" where
  "mcp_args P kinds rest =
     (if rest = [] then (Inr [], [])
      else (case flag_Parse P kinds rest of
              (Inl e, sets) \<Rightarrow> (Inl e, sets)
            | (Inr [], sets) \<Rightarrow> (Inr [], sets)
            | (Inr (p # rest'), sets) \<Rightarrow> (case mcp_args P kinds rest' of (r, sets') \<Rightarrow> (map_sum id ((#) p) r, sets @ sets'))))"
  by pat_completeness auto
termination by (relation "measure (\<lambda>(_, _, args). length args)") (auto dest: flag_Parse_left [OF sym])

declare mcp_args.simps [simp del]

section \<open>The commands\<close>

definition DefaultRelayURL :: string where "DefaultRelayURL = ''https://relay.aken.dev''"

definition DefaultTTL :: duration where "DefaultTTL = 4 * hour"

definition DefaultSessionTTL :: duration where "DefaultSessionTTL = 8 * hour"

text \<open>How a command goes on: it exits, or it runs with what the flags gave.\<close>

datatype 'a command_start = Exits nat | Starts 'a

definition collect_kinds :: "string \<Rightarrow> flag_kind option" where
  "collect_kinds n =
     (if n \<in> {''unit'', ''container'', ''file'', ''glob'', ''allow'', ''keep'', ''keep-category''} then Some FlagList
      else if n \<in> {''since'', ''until'', ''rules'', ''relay'', ''state-dir''} then Some FlagString
      else if n = ''tail'' then Some FlagInt
      else if n = ''ttl'' \<or> n = ''retention'' then Some FlagDuration
      else if n = ''dry-run'' then Some FlagBool
      else None)"

text \<open>The options, with the texts of \<^verbatim>\<open>--since\<close> and \<^verbatim>\<open>--until\<close> beside them.\<close>

definition collect_defaults :: "options \<times> string \<times> string" where
  "collect_defaults =
     (\<lparr>o_Units = [], o_Containers = [], o_Files = [], o_Globs = [], o_Since = 0, o_Until = 0, o_Tail = 0, o_Allow = [], o_Keep = [], o_KeepCategories = [],
       o_RulesFile = '''', o_TTL = DefaultTTL, o_RelayURL = DefaultRelayURL, o_DryRun = False, o_Retention = 720 * hour, o_Collector = ''''\<rparr>, ''1h'', ''0s'')"

definition collect_set :: "string \<times> flag_value \<Rightarrow> options \<times> string \<times> string \<Rightarrow> options \<times> string \<times> string" where
  "collect_set = (\<lambda>(n, v) (op, since, until).
     case v of
       Text s \<Rightarrow>
         if n = ''unit'' then (op\<lparr>o_Units := o_Units op @ [s]\<rparr>, since, until)
         else if n = ''container'' then (op\<lparr>o_Containers := o_Containers op @ [s]\<rparr>, since, until)
         else if n = ''file'' then (op\<lparr>o_Files := o_Files op @ [s]\<rparr>, since, until)
         else if n = ''glob'' then (op\<lparr>o_Globs := o_Globs op @ [s]\<rparr>, since, until)
         else if n = ''allow'' then (op\<lparr>o_Allow := o_Allow op @ [s]\<rparr>, since, until)
         else if n = ''keep'' then (op\<lparr>o_Keep := o_Keep op @ [s]\<rparr>, since, until)
         else if n = ''keep-category'' then (op\<lparr>o_KeepCategories := o_KeepCategories op @ [s]\<rparr>, since, until)
         else if n = ''since'' then (op, s, until)
         else if n = ''until'' then (op, since, s)
         else if n = ''rules'' then (op\<lparr>o_RulesFile := s\<rparr>, since, until)
         else if n = ''relay'' then (op\<lparr>o_RelayURL := s\<rparr>, since, until)
         else (op, since, until)
     | Truth b \<Rightarrow> (op\<lparr>o_DryRun := b\<rparr>, since, until)
     | Number i \<Rightarrow> (op\<lparr>o_Tail := i\<rparr>, since, until)
     | Span d \<Rightarrow> (if n = ''ttl'' then op\<lparr>o_TTL := d\<rparr> else op\<lparr>o_Retention := d\<rparr>, since, until))"

text \<open>\<^verbatim>\<open>runCollect\<close>, up to the run: the version is what the collector calls itself, the directory of the local copies is left out.\<close>

definition runCollect ::
  "flag_pkg \<Rightarrow> (string \<Rightarrow> time option) \<Rightarrow> (string \<Rightarrow> url option) \<Rightarrow> (string \<Rightarrow> bool) \<Rightarrow> string \<Rightarrow> nat \<Rightarrow> string list \<Rightarrow> options command_start" where
  "runCollect P at parse isLoopback version uid args =
     (case flag_Parse P collect_kinds args of
        (Inl e, _) \<Rightarrow> Exits (if e = ErrHelp then 0 else 2)
      | (Inr rest, sets) \<Rightarrow>
          (case fold collect_set sets collect_defaults of
             (op, since, until) \<Rightarrow>
               let op1 = op\<lparr>o_Since := (case at since of Some t \<Rightarrow> t | None \<Rightarrow> 0), o_Until := (case at until of Some t \<Rightarrow> t | None \<Rightarrow> 0)\<rparr> in
               (case collect_checks parse isLoopback (length rest) (at since) (at until) uid op1 of
                  Usage e \<Rightarrow> Exits 2
                | Go \<Rightarrow> Starts (op1\<lparr>o_Collector := version\<rparr>)
                | _ \<Rightarrow> Exits 1)))"

definition serve_kinds :: "string \<Rightarrow> flag_kind option" where
  "serve_kinds n =
     (if n \<in> {''allow'', ''keep'', ''keep-category''} then Some FlagList
      else if n \<in> {''relay'', ''rules'', ''state-dir''} then Some FlagString
      else if n = ''level'' then Some FlagInt
      else if n = ''ttl'' \<or> n = ''retention'' then Some FlagDuration
      else None)"

definition serve_defaults :: serve_options where
  "serve_defaults = \<lparr>so_Level = 1, so_TTL = DefaultSessionTTL, so_RelayURL = DefaultRelayURL, so_Allow = [], so_KeepCategories = [], so_Retention = 720 * hour\<rparr>"

definition serve_set :: "string \<times> flag_value \<Rightarrow> serve_options \<Rightarrow> serve_options" where
  "serve_set = (\<lambda>(n, v) op.
     case v of
       Text s \<Rightarrow>
         if n = ''allow'' then op\<lparr>so_Allow := so_Allow op @ [s]\<rparr>
         else if n = ''keep-category'' then op\<lparr>so_KeepCategories := so_KeepCategories op @ [s]\<rparr>
         else if n = ''relay'' then op\<lparr>so_RelayURL := s\<rparr>
         else op
     | Truth b \<Rightarrow> op
     | Number i \<Rightarrow> op\<lparr>so_Level := i\<rparr>
     | Span d \<Rightarrow> if n = ''ttl'' then op\<lparr>so_TTL := d\<rparr> else op\<lparr>so_Retention := d\<rparr>)"

definition runServe ::
  "flag_pkg \<Rightarrow> (string \<Rightarrow> url option) \<Rightarrow> (string \<Rightarrow> bool) \<Rightarrow> nat \<Rightarrow> bool \<Rightarrow> string list \<Rightarrow> serve_options command_start" where
  "runServe P parse isLoopback uid terminal args =
     (case flag_Parse P serve_kinds args of
        (Inl e, _) \<Rightarrow> Exits (if e = ErrHelp then 0 else 2)
      | (Inr rest, sets) \<Rightarrow>
          let op = fold serve_set sets serve_defaults in
          (case serve_checks parse isLoopback (length rest) uid terminal op of
             Usage e \<Rightarrow> Exits 2
           | Go \<Rightarrow> Starts op
           | _ \<Rightarrow> Exits 1))"

definition relay_kinds :: "string \<Rightarrow> flag_kind option" where
  "relay_kinds n =
     (if n \<in> {''listen'', ''store'', ''data-dir'', ''allowance-mode''} then Some FlagString
      else if n = ''behind-cloudflare'' then Some FlagBool
      else if n \<in> {''requests-per-minute'', ''creates-per-hour'', ''max-live-sessions'', ''allowance-servers''} then Some FlagInt
      else if n = ''allowance-window'' then Some FlagDuration
      else None)"

definition relay_defaults :: server_config where
  "relay_defaults =
     \<lparr>sc_Listen = ''127.0.0.1:7788'', sc_Store = ''memory'', sc_DataDir = '''', sc_BehindCloudflare = False,
      sc_Limits = \<lparr>lc_RequestsPerMinute = 600, lc_CreatesPerHour = 10, lc_MaxLiveSessions = 200, lc_BehindCloudflare = False,
                   lc_AllowanceMode = ''off'', lc_AllowanceServers = 2, lc_AllowanceWindow = 24 * hour\<rparr>\<rparr>"

definition relay_set :: "string \<times> flag_value \<Rightarrow> server_config \<Rightarrow> server_config" where
  "relay_set = (\<lambda>(n, v) cfg.
     case v of
       Text s \<Rightarrow>
         if n = ''listen'' then cfg\<lparr>sc_Listen := s\<rparr>
         else if n = ''store'' then cfg\<lparr>sc_Store := s\<rparr>
         else if n = ''data-dir'' then cfg\<lparr>sc_DataDir := s\<rparr>
         else cfg\<lparr>sc_Limits := (sc_Limits cfg)\<lparr>lc_AllowanceMode := s\<rparr>\<rparr>
     | Truth b \<Rightarrow> cfg\<lparr>sc_BehindCloudflare := b\<rparr>
     | Number i \<Rightarrow>
         cfg\<lparr>sc_Limits := (if n = ''requests-per-minute'' then (sc_Limits cfg)\<lparr>lc_RequestsPerMinute := i\<rparr>
                           else if n = ''creates-per-hour'' then (sc_Limits cfg)\<lparr>lc_CreatesPerHour := i\<rparr>
                           else if n = ''max-live-sessions'' then (sc_Limits cfg)\<lparr>lc_MaxLiveSessions := i\<rparr>
                           else (sc_Limits cfg)\<lparr>lc_AllowanceServers := i\<rparr>)\<rparr>
     | Span d \<Rightarrow> cfg\<lparr>sc_Limits := (sc_Limits cfg)\<lparr>lc_AllowanceWindow := d\<rparr>\<rparr>)"

definition relay_flags :: "flag_pkg \<Rightarrow> string list \<Rightarrow> parsed_flags" where
  "relay_flags P args =
     (case flag_Parse P relay_kinds args of
        (Inl e, _) \<Rightarrow> (if e = ErrHelp then FlagHelp else FlagError)
      | (Inr rest, sets) \<Rightarrow> Flags (fold relay_set sets relay_defaults) (length rest))"

text \<open>
  \<^verbatim>\<open>aken-mcp\<close> from its flags to the choice of the command: an exit code with what is written to standard error, or the relay, whether the agent may join, and the
  arguments. The text of an error of the package is a parameter.
\<close>

definition mcp_kinds :: "string \<Rightarrow> string \<Rightarrow> flag_kind option" where
  "mcp_kinds command n =
     (if n = ''relay'' \<and> (command = ''join'' \<or> command = ''serve'') then Some FlagString
      else if n = ''allow-chat-join'' \<and> command = ''serve'' then Some FlagBool
      else None)"

record mcp_start =
  ms_relay :: string
  ms_allowChatJoin :: bool
  ms_positional :: "string list"

definition mcp_set :: "string \<times> flag_value \<Rightarrow> string \<times> bool \<Rightarrow> string \<times> bool" where
  "mcp_set = (\<lambda>(n, v) (relay, chat). case v of Text s \<Rightarrow> (s, chat) | Truth b \<Rightarrow> (relay, b) | _ \<Rightarrow> (relay, chat))"

definition mcp_flags :: "flag_pkg \<Rightarrow> (flag_error \<Rightarrow> string) \<Rightarrow> string \<Rightarrow> string list \<Rightarrow> nat \<times> string + mcp_start" where
  "mcp_flags P message command args =
     (case mcp_args P (mcp_kinds command) args of
        (Inl e, _) \<Rightarrow>
          if e = ErrHelp then Inl (0, '''')
          else Inl (2, if sublist ''akn1_'' (message e) then ''invalid flags'' else message e)
      | (Inr positional, sets) \<Rightarrow>
          if (command = ''join'' \<and> length positional > 1) \<or> (command \<noteq> ''join'' \<and> length positional > 0) then Inl (2, ''unexpected arguments'')
          else (case fold mcp_set sets (DefaultRelayURL, False) of
                  (relay, chat) \<Rightarrow> Inr \<lparr>ms_relay = relay, ms_allowChatJoin = chat, ms_positional = positional\<rparr>))"

section \<open>What is written is read\<close>

text \<open>The ways to write a flag on a command line: with one dash or two, its value in the same word or in the next, or none.\<close>

datatype spelling = Joined bool string string | Spaced bool string string | Alone bool string

definition dashes :: "bool \<Rightarrow> string" where "dashes two = (if two then ''--'' else ''-'')"

fun spell :: "spelling \<Rightarrow> string list" where
  "spell (Joined two n s) = [dashes two @ n @ ''='' @ s]"
| "spell (Spaced two n s) = [dashes two @ n, s]"
| "spell (Alone two n) = [dashes two @ n]"

definition flag_name :: "string \<Rightarrow> bool" where
  "flag_name n \<longleftrightarrow> n \<noteq> '''' \<and> hd n \<noteq> CHR ''-'' \<and> CHR ''='' \<notin> set n"

fun spelled :: "flag_pkg \<Rightarrow> (string \<Rightarrow> flag_kind option) \<Rightarrow> spelling \<Rightarrow> (string \<times> flag_value) option" where
  "spelled P kinds (Joined two n s) = (case kinds n of Some k \<Rightarrow> if flag_name n then map_option (Pair n) (flag_value P k s) else None | None \<Rightarrow> None)"
| "spelled P kinds (Spaced two n s) =
     (case kinds n of Some k \<Rightarrow> if flag_name n \<and> k \<noteq> FlagBool then map_option (Pair n) (flag_value P k s) else None | None \<Rightarrow> None)"
| "spelled P kinds (Alone two n) = (if flag_name n \<and> kinds n = Some FlagBool then Some (n, Truth True) else None)"

definition positional :: "string \<Rightarrow> bool" where
  "positional s \<longleftrightarrow> length s < 2 \<or> hd s \<noteq> CHR ''-''"

lemma dashed:
  assumes "n \<noteq> ''''" "hd n \<noteq> CHR ''-''"
  shows "\<not> (length (dashes two @ n) < 2 \<or> hd (dashes two @ n) \<noteq> CHR ''-'')" "dashes two @ n \<noteq> ''--''"
    "(if (dashes two @ n) ! 1 = CHR ''-'' then drop 2 (dashes two @ n) else drop 1 (dashes two @ n)) = n"
  using assms by (cases n; simp add: dashes_def)+

lemma parseOne_dashed:
  assumes "n \<noteq> ''''" "hd n \<noteq> CHR ''-''" "hd n \<noteq> CHR ''=''"
  shows "parseOne P kinds ((dashes two @ n) # rest) =
    (case cut_at (CHR ''='') n of (name, s', found) \<Rightarrow> flag_named P kinds name (if found then Some s' else None) rest)"
  unfolding parseOne_def list.case Let_def dashed(3) [OF assms(1,2)] using dashed(1,2) [OF assms(1,2), of two] assms by simp

lemma flag_name_parts: "flag_name n \<Longrightarrow> n \<noteq> '''' \<and> hd n \<noteq> CHR ''-'' \<and> hd n \<noteq> CHR ''=''"
  by (cases n) (auto simp: flag_name_def)

lemma parse_bool_true: "parse_bool ''true'' = Some True"
  by (simp add: parse_bool_def)

lemma parseOne_spell: "spelled P kinds x = Some (n, v) \<Longrightarrow> parseOne P kinds (spell x @ rest) = FlagSet n v rest"
proof (cases x)
  case (Joined two m s)
  assume a: "spelled P kinds x = Some (n, v)"
  then have m: "flag_name m" "kinds m = Some k \<Longrightarrow> m = n \<and> flag_value P k s = Some v" "kinds m \<noteq> None" for k
    using Joined by (auto split: option.splits if_splits)
  note p = flag_name_parts [OF m(1)]
  have c: "cut_at (CHR ''='') (m @ CHR ''='' # s) = (m, s, True)" using m(1) cut_at_append [of "CHR ''=''" m s] by (simp add: flag_name_def)
  have "m @ ''='' @ s \<noteq> ''''" "hd (m @ ''='' @ s) \<noteq> CHR ''-''" "hd (m @ ''='' @ s) \<noteq> CHR ''=''" using p by (simp_all add: hd_append)
  from parseOne_dashed [OF this] m(2,3) show ?thesis unfolding Joined spell.simps append.simps by (auto simp: c flag_named_def set_flag_def)
next
  case (Spaced two m s)
  assume a: "spelled P kinds x = Some (n, v)"
  then obtain k where m: "flag_name m" "kinds m = Some k" "k \<noteq> FlagBool" "m = n" "flag_value P k s = Some v"
    using Spaced by (auto split: option.splits if_splits)
  note p = flag_name_parts [OF m(1)]
  have c: "cut_at (CHR ''='') m = (m, [], False)" using m(1) cut_at_absent by (simp add: flag_name_def)
  from p parseOne_dashed [of m] c m show ?thesis unfolding Spaced spell.simps append.simps by (simp add: flag_named_def set_flag_def)
next
  case (Alone two m)
  assume a: "spelled P kinds x = Some (n, v)"
  then have m: "flag_name m" "kinds m = Some FlagBool" "m = n" "v = Truth True" using Alone by (auto split: if_splits)
  note p = flag_name_parts [OF m(1)]
  have c: "cut_at (CHR ''='') m = (m, [], False)" using m(1) cut_at_absent by (simp add: flag_name_def)
  from p parseOne_dashed [of m] c m parse_bool_true show ?thesis unfolding Alone spell.simps append.simps
    by (simp add: flag_named_def set_flag_def flag_value_def)
qed

lemma flag_Parse_spell:
  "spelled P kinds x = Some nv \<Longrightarrow> flag_Parse P kinds (spell x @ rest) = (case flag_Parse P kinds rest of (r, sets) \<Rightarrow> (r, nv # sets))"
  by (cases nv) (simp add: flag_Parse.simps [of P kinds "spell x @ rest"] parseOne_spell)

lemma flag_Parse_positional: "positional p \<Longrightarrow> flag_Parse P kinds (p # rest) = (Inr (p # rest), [])"
  by (auto simp: flag_Parse.simps [of P kinds "p # rest"] parseOne_def positional_def)

lemma flag_Parse_Nil: "flag_Parse P kinds [] = (Inr [], [])"
  by (simp add: flag_Parse.simps [of P kinds "[]"] parseOne_def)

text \<open>
  Every command line made of flags of the command, in any of their spellings and in any order, followed by nothing or by an argument that is no flag, is read as
  those flags in that order and the arguments left.
\<close>

lemma flags_read_back:
  assumes "list_all (\<lambda>x. spelled P kinds x \<noteq> None) xs" "rest = [] \<or> positional (hd rest)"
  shows "flag_Parse P kinds (concat (map spell xs) @ rest) = (Inr rest, map (the \<circ> spelled P kinds) xs)"
  using assms
proof (induction xs)
  case Nil
  then show ?case by (cases rest) (simp_all add: flag_Parse_Nil flag_Parse_positional)
next
  case (Cons x xs)
  then show ?case by (auto simp: flag_Parse_spell)
qed

lemma flags_read_back_witness:
  "flag_Parse \<lparr>fp_int = parse_int64, fp_duration = (\<lambda>_. None)\<rparr> collect_kinds [''-unit=ssh'', ''--tail'', ''5'', ''--dry-run''] =
     (Inr [], [(''unit'', Text ''ssh''), (''tail'', Number 5), (''dry-run'', Truth True)])"
proof -
  let ?P = "\<lparr>fp_int = parse_int64, fp_duration = (\<lambda>_. None)\<rparr>" and ?xs = "[Joined False ''unit'' ''ssh'', Spaced True ''tail'' ''5'', Alone True ''dry-run'']"
  have "spelled ?P collect_kinds (Joined False ''unit'' ''ssh'') = Some (''unit'', Text ''ssh'')"
    "spelled ?P collect_kinds (Spaced True ''tail'' ''5'') = Some (''tail'', Number 5)"
    "spelled ?P collect_kinds (Alone True ''dry-run'') = Some (''dry-run'', Truth True)" by code_simp+
  with flags_read_back [of ?P collect_kinds ?xs "[]"] show ?thesis by (simp add: dashes_def)
qed

lemma mcp_args_spell:
  assumes "spelled P kinds x = Some nv"
  shows "mcp_args P kinds (spell x @ rest) = (case mcp_args P kinds rest of (r, sets) \<Rightarrow> (r, nv # sets))"
proof -
  have n: "spell x @ rest \<noteq> []" by (cases x) simp_all
  obtain r sets where p: "flag_Parse P kinds rest = (r, sets)" by (rule prod.exhaust)
  then have q: "flag_Parse P kinds (spell x @ rest) = (r, nv # sets)" by (simp add: flag_Parse_spell [OF assms])
  show ?thesis
  proof (cases "rest = []")
    case True
    with p have "r = Inr []" "sets = []" by (simp_all add: flag_Parse_Nil)
    with q n True show ?thesis by (simp add: mcp_args.simps [of P kinds "spell x"] mcp_args.simps [of P kinds "[]"])
  next
    case False
    with p q n show ?thesis
      by (simp add: mcp_args.simps [of P kinds "spell x @ rest"] mcp_args.simps [of P kinds rest] split: sum.splits list.splits prod.splits)
  qed
qed

lemma mcp_args_positional:
  "positional p \<Longrightarrow> mcp_args P kinds (p # rest) = (case mcp_args P kinds rest of (r, sets) \<Rightarrow> (map_sum id ((#) p) r, sets))"
  by (simp add: mcp_args.simps [of P kinds "p # rest"] flag_Parse_positional)

lemma mcp_args_spells:
  "list_all (\<lambda>x. spelled P kinds x \<noteq> None) xs \<Longrightarrow>
   mcp_args P kinds (concat (map spell xs) @ rest) = (case mcp_args P kinds rest of (r, sets) \<Rightarrow> (r, map (the \<circ> spelled P kinds) xs @ sets))"
  by (induction xs) (auto simp: mcp_args_spell split: prod.splits)

text \<open>\<^verbatim>\<open>aken-mcp join\<close> takes its flags on either side of the token.\<close>

lemma mcp_join_order:
  assumes "list_all (\<lambda>x. spelled P (mcp_kinds ''join'') x \<noteq> None) (xs @ ys)" "positional t"
  shows "mcp_flags P message ''join'' (concat (map spell xs) @ t # concat (map spell ys)) =
    Inr \<lparr>ms_relay = fst (fold mcp_set (map (the \<circ> spelled P (mcp_kinds ''join'')) (xs @ ys)) (DefaultRelayURL, False)),
         ms_allowChatJoin = snd (fold mcp_set (map (the \<circ> spelled P (mcp_kinds ''join'')) (xs @ ys)) (DefaultRelayURL, False)), ms_positional = [t]\<rparr>"
proof -
  have "mcp_args P (mcp_kinds ''join'') (concat (map spell ys) @ []) = (Inr [], map (the \<circ> spelled P (mcp_kinds ''join'')) ys)"
    using assms(1) mcp_args_spells [of P "mcp_kinds ''join''" ys "[]"] by (simp add: mcp_args.simps [of P _ "[]"])
  then show ?thesis using assms by (simp add: mcp_flags_def mcp_args_spells mcp_args_positional case_prod_unfold)
qed

text \<open>What \<^verbatim>\<open>aken-mcp\<close> writes when it refuses a command line never has a token in it, however the flag package words its errors.\<close>

lemma mcp_flags_quiet: "mcp_flags P message command args = Inl (code, text) \<Longrightarrow> \<not> sublist ''akn1_'' text"
proof -
  have "\<not> sublist ''akn1_'' ''invalid flags''" "\<not> sublist ''akn1_'' ''unexpected arguments''" "\<not> sublist ''akn1_'' ''''" by code_simp+
  then show "mcp_flags P message command args = Inl (code, text) \<Longrightarrow> ?thesis"
    by (auto simp: mcp_flags_def split: sum.splits prod.splits if_splits)
qed

text \<open>What the commands start with has passed the validation of the run: no command line gets past the flags and is refused there.\<close>

lemma runCollect_valid:
  assumes "runCollect P at parse isLoopback version uid args = Starts op"
  shows "collect_validate parse isLoopback op = None \<and> uid \<noteq> 0 \<and> o_Collector op = version"
proof -
  obtain r sets where p: "flag_Parse P collect_kinds args = (r, sets)" by (rule prod.exhaust)
  obtain op0 since until where f: "fold collect_set sets collect_defaults = (op0, since, until)" by (rule prod_cases3)
  let ?op = "op0\<lparr>o_Since := (case at since of Some t \<Rightarrow> t | None \<Rightarrow> 0), o_Until := (case at until of Some t \<Rightarrow> t | None \<Rightarrow> 0)\<rparr>"
  obtain rest where r: "r = Inr rest" using assms by (cases r) (simp_all add: runCollect_def p)
  have c: "collect_checks parse isLoopback (length rest) (at since) (at until) uid ?op = Go" "op = ?op\<lparr>o_Collector := version\<rparr>"
    using assms by (simp_all add: runCollect_def p r f Let_def split: flag_outcome.splits)
  have "collect_validate parse isLoopback (?op\<lparr>o_Collector := version\<rparr>) = collect_validate parse isLoopback ?op" by (auto simp: collect_validate_def)
  with c flags_validate [THEN conjunct1, of parse isLoopback "length rest" "at since" "at until" uid ?op] show ?thesis by simp
qed

lemma runServe_valid:
  assumes "runServe P parse isLoopback uid terminal args = Starts op"
  shows "serve_validate parse isLoopback op = None \<and> uid \<noteq> 0 \<and> terminal"
proof -
  obtain r sets where p: "flag_Parse P serve_kinds args = (r, sets)" by (rule prod.exhaust)
  obtain rest where r: "r = Inr rest" using assms by (cases r) (simp_all add: runServe_def p)
  have "serve_checks parse isLoopback (length rest) uid terminal op = Go"
    using assms by (auto simp: runServe_def p r Let_def split: flag_outcome.splits)
  with flags_validate [THEN conjunct2, of parse isLoopback "length rest" uid terminal op] show ?thesis by simp
qed

text \<open>A relay started without flags is one the checks let pass.\<close>

lemma relay_defaults_pass: "relay_flags P [] = Flags relay_defaults 0 \<and> serve_flags relay_defaults = None"
  by (simp add: relay_flags_def flag_Parse_Nil serve_flags_def relay_defaults_def Let_def hour_def minute_def second_def)

end
