(* ===== verification/Review_Summary.thy ===== *)
theory Review_Summary
  imports Commands
begin

text \<open>
  The summary at the top of the review screen (\<^verbatim>\<open>renderScreen\<close> of \<^verbatim>\<open>internal/collect/review.go\<close>): the sources, what was redacted by category, the strings to
  inspect, and what would be uploaded where. The texts of a size, a duration and a number of days are parameters.
\<close>

section \<open>Rows\<close>

text \<open>Padding as \<^verbatim>\<open>fmt\<close> does it, by runes; the width of the names is counted in bytes.\<close>

definition rune_count :: "string \<Rightarrow> nat" where
  "rune_count s = length (text_runes (string_bytes s))"

definition pad_right :: "nat \<Rightarrow> string \<Rightarrow> string" where
  "pad_right n s = s @ replicate (n - rune_count s) (CHR '' '')"

definition pad_left :: "nat \<Rightarrow> string \<Rightarrow> string" where
  "pad_left n s = replicate (n - rune_count s) (CHR '' '') @ s"

record screenData =
  sd_sources :: "(manifestSource \<times> flag list) list"
  sd_manifest :: manifest
  sd_options :: options
  sd_defaultRules :: int
  sd_extraRules :: int
  sd_rulesPath :: string
  sd_categories :: "string list"
  sd_linesCollapsed :: int
  sd_idFlags :: int

definition screen_row :: "nat \<Rightarrow> manifestSource \<Rightarrow> string" where
  "screen_row width m =
     (let note = (if ms_since m \<noteq> '''' then ms_since m @ '' to '' @ ms_until m else ms_note m)
      in ''  '' @ pad_right (width + 2) (ms_name m) @ pad_left 4 (show_int (ms_lines m)) @ '' lines'' @
         (if note \<noteq> '''' then ''   '' @ note else '''') @ [newline])"

definition screen_rows :: "screenData \<Rightarrow> string" where
  "screen_rows s =
     (let width = foldl max 0 (map (length \<circ> ms_name \<circ> fst) (sd_sources s))
      in concat (map (screen_row width \<circ> fst) (sd_sources s)))"

definition screen_categories :: "string list" where
  "screen_categories = [''ip'', ''secret'', ''jwt'', ''key'', ''token'', ''email'', ''phone'', ''name'', ''address'']"

text \<open>The row of a category: the last three have one only where a rule of the run has them or they are switched off.\<close>

definition screen_category :: "screenData \<Rightarrow> string \<Rightarrow> string option" where
  "screen_category s c =
     (let n = (case map_of (rs_byCategory (m_redaction (sd_manifest s))) c of None \<Rightarrow> \<lparr>cc_Values = 0, cc_Lines = 0\<rparr> | Some n \<Rightarrow> n);
          off = (c \<in> set (o_KeepCategories (sd_options s)))
      in if c \<in> {''phone'', ''name'', ''address''} \<and> \<not> off \<and> c \<notin> set (sd_categories s) then None
         else if off then Some (''  '' @ pad_right 12 c @ '' off'' @ [newline])
         else if cc_Values n = 0 then Some (''  '' @ pad_right 12 c @ '' 0'' @ [newline])
         else Some (''  '' @ pad_right 10 c @ pad_left 4 (show_int (cc_Values n)) @ '' '' @ pad_right 6 (Plural (cc_Values n) ''value'' ''values'') @
                    '' in '' @ pad_left 4 (show_int (cc_Lines n)) @ '' '' @ Plural (cc_Lines n) ''line'' ''lines'' @
                    (if c = ''key'' \<and> sd_linesCollapsed s > 0 then '' ('' @ show_int (sd_linesCollapsed s) @ '' lines collapsed)'' else '''') @ [newline]))"

section \<open>Strings to inspect\<close>

text \<open>The loop over the flags of a source: the line numbers to show, at most 20, and every line seen.\<close>

definition flag_number :: "flag \<Rightarrow> nat list \<times> nat list \<Rightarrow> nat list \<times> nat list" where
  "flag_number f = (\<lambda>(nums, seen).
     if \<not> flag_IDShaped f \<and> flag_Line f \<notin> set seen
     then (if length nums < 20 then nums @ [flag_Line f] else nums, seen @ [flag_Line f])
     else (nums, seen))"

definition flag_location :: "string \<Rightarrow> flag list \<Rightarrow> string option" where
  "flag_location name fs =
     (case fold flag_number fs ([], []) of (nums, seen) \<Rightarrow>
        if nums = [] then None
        else Some (name @ '' lines '' @ join_with '', '' (map show_nat nums) @
                   (if length seen > 20 then '' and '' @ show_nat (length seen - 20) @ '' more'' else '''')))"

definition flag_locations :: "screenData \<Rightarrow> string list" where
  "flag_locations s = List.map_filter (\<lambda>(m, fs). flag_location (ms_name m) fs) (sd_sources s)"

definition screen_flags :: "screenData \<Rightarrow> string" where
  "screen_flags s =
     (let n = rs_flags (m_redaction (sd_manifest s)) in
      if n = 0 \<and> sd_idFlags s = 0 then ''none''
      else show_int n @ '' '' @ Plural n ''string'' ''strings'' @ '' to inspect'' @
           (if n > 0 then '': '' @ join_with ''; '' (flag_locations s) else '''') @
           (if sd_idFlags s > 0 then ''; '' @ show_int (sd_idFlags s) @ '' hex '' @ Plural (sd_idFlags s) ''id'' ''ids'' @ '' or hashes not listed'' else '''') @ ''.'' @
           (if n > 0 then '' Press f to view the lines to inspect.'' else ''''))"

section \<open>The screen\<close>

record text_pkg =
  tx_size :: "int \<Rightarrow> string"
  tx_duration :: "duration \<Rightarrow> string"
  tx_days :: "duration \<Rightarrow> string"

definition screen_rules :: "screenData \<Rightarrow> string" where
  "screen_rules s =
     ''Redaction   '' @ show_int (rs_rules (m_redaction (sd_manifest s))) @ '' rules ('' @ show_int (sd_defaultRules s) @ '' default'' @
     (if sd_rulesPath s \<noteq> '''' then '', '' @ show_int (sd_extraRules s) @ '' from '' @ sd_rulesPath s else '''') @ '')'' @
     (if o_Keep (sd_options s) \<noteq> [] then ''; kept: '' @ join_with '', '' (o_Keep (sd_options s)) else '''') @
     (if o_KeepCategories (sd_options s) \<noteq> [] then ''; off: '' @ join_with '', '' (o_KeepCategories (sd_options s)) else '''') @ [newline]"

text \<open>The legend of the keys. The keys are ASCII letters.\<close>

definition Choices :: "(nat \<times> string) list \<Rightarrow> string" where
  "Choices choices = join_with ''   '' (map (\<lambda>(key, label). ''['' @ [char_of key] @ ''] '' @ label) choices) @ [newline]"

definition review_labels :: "bool \<Rightarrow> (nat \<times> string) list" where
  "review_labels dryRun =
     (let view = (118, ''view everything''); flagged = (102, ''view flagged lines'')
      in if dryRun then [view, flagged, (113, ''quit'')] else [(115, ''send''), view, flagged, (97, ''abort'')])"

lemma review_labels_keys: "map fst (review_labels dryRun) = reviewChoices dryRun"
  by (simp add: review_labels_def reviewChoices_def Let_def)

definition renderScreen :: "text_pkg \<Rightarrow> string \<Rightarrow> screenData \<Rightarrow> string" where
  "renderScreen T dir s =
     (let op = sd_options s; m = sd_manifest s; lines = foldl (\<lambda>n src. wrap64 (n + ms_lines (fst src))) 0 (sd_sources s) in
      (if o_DryRun op then ''aken collect --dry-run: nothing will be uploaded'' else ''aken collect: review before anything leaves this machine'') @
      [newline, newline] @ ''Sources'' @ [newline] @ screen_rows s @ [newline] @ screen_rules s @
      concat (List.map_filter (screen_category s) screen_categories) @
      ''  '' @ show_int (rs_linesRedacted (m_redaction m)) @ '' of '' @ show_int lines @ '' lines changed'' @ [newline, newline] @
      ''Flags   '' @ screen_flags s @ [newline, newline] @ ''Upload   '' @ (if o_DryRun op then ''would upload '' else '''') @
      show_int lines @ '' lines, '' @ tx_size T (m_totalBytes m) @ '', '' @ show_nat (unat (m_chunkCount m)) @ '' '' @
      Plural (uint (m_chunkCount m)) ''chunk'' ''chunks'' @ '', TTL '' @ tx_duration T (o_TTL op) @ '', relay '' @ o_RelayURL op @ [newline] @
      ''Local    '' @ dir @ ''/ ('' @ (if o_Retention op > 0 then ''kept '' @ tx_days T (o_Retention op) @ '' days'' else ''kept forever'') @
      ''; includes the placeholder mapping)'' @ [newline, newline] @ Choices (review_labels (o_DryRun op)))"

section \<open>Nothing to inspect goes uncounted\<close>

lemma flag_numbers:
  "distinct seen \<Longrightarrow> nums = take 20 seen \<Longrightarrow> fold flag_number fs (nums, seen) = (nums', seen') \<Longrightarrow>
   nums' = take 20 seen' \<and> distinct seen' \<and> set seen' = set seen \<union> flagged_lines fs"
proof (induction fs arbitrary: nums seen)
  case (Cons f fs)
  obtain n1 s1 where f: "flag_number f (nums, seen) = (n1, s1)" by (rule prod.exhaust)
  have "distinct s1 \<and> n1 = take 20 s1 \<and> set s1 = set seen \<union> flagged_lines [f]"
    using f Cons.prems(1,2) by (auto simp: flag_number_def flagged_lines_def min_def split: if_splits)
  moreover have "flagged_lines (f # fs) = flagged_lines [f] \<union> flagged_lines fs" by (auto simp: flagged_lines_def)
  ultimately show ?case using Cons.IH [of s1 n1] Cons.prems(3) f by auto
qed (simp add: flagged_lines_def)

lemma take_join: "take 20 ls = [] \<longleftrightarrow> ls = []"
  by (cases ls) simp_all

text \<open>
  Every line with a string to inspect is on the summary of its source, by number or, beyond the first 20, in the count of those left; a source without such a line is not listed.
\<close>

lemma flags_accounted:
  "\<exists>ls. distinct ls \<and> set ls = flagged_lines fs \<and>
     flag_location name fs =
       (if ls = [] then None
        else Some (name @ '' lines '' @ join_with '', '' (map show_nat (take 20 ls)) @
                   (if length ls > 20 then '' and '' @ show_nat (length (drop 20 ls)) @ '' more'' else '''')))"
proof -
  obtain nums seen where f: "fold flag_number fs ([], []) = (nums, seen)" by (rule prod.exhaust)
  from flag_numbers [OF _ _ f] have "nums = take 20 seen" "distinct seen" "set seen = flagged_lines fs" by simp_all
  then show ?thesis by (intro exI [of _ seen]) (simp add: flag_location_def f take_join)
qed

text \<open>
  Every category a value was replaced for has its row, with its numbers, unless it is switched off: the rows that may be missing are those of categories that no
  enabled rule has.
\<close>

lemma categories_shown:
  assumes "(c, n) \<in> set (rs_byCategory (m_redaction (sd_manifest s)))" "distinct (map fst (rs_byCategory (m_redaction (sd_manifest s))))" "cc_Values n \<noteq> 0"
    "c \<in> set RedactionCategories" "c \<in> set (sd_categories s)" "c \<notin> set (o_KeepCategories (sd_options s))"
  shows "c \<in> set screen_categories \<and>
    (\<exists>rest. screen_category s c = Some (''  '' @ pad_right 10 c @ pad_left 4 (show_int (cc_Values n)) @ '' '' @ pad_right 6 (Plural (cc_Values n) ''value'' ''values'') @
      '' in '' @ pad_left 4 (show_int (cc_Lines n)) @ rest))"
proof -
  have "map_of (rs_byCategory (m_redaction (sd_manifest s))) c = Some n" using assms(1,2) by (simp add: map_of_is_SomeI)
  then have "screen_category s c = Some (''  '' @ pad_right 10 c @ pad_left 4 (show_int (cc_Values n)) @ '' '' @ pad_right 6 (Plural (cc_Values n) ''value'' ''values'') @
      '' in '' @ pad_left 4 (show_int (cc_Lines n)) @ ('' '' @ Plural (cc_Lines n) ''line'' ''lines'' @
      (if c = ''key'' \<and> sd_linesCollapsed s > 0 then '' ('' @ show_int (sd_linesCollapsed s) @ '' lines collapsed)'' else '''') @ [newline]))"
    using assms(3,5,6) by (simp add: screen_category_def Let_def)
  moreover have "c \<in> set screen_categories" using assms(4) by (auto simp: RedactionCategories_def screen_categories_def)
  ultimately show ?thesis by blast
qed

end
