(* ===== verification/Spec2Isabelle.thy ===== *)
theory Spec2Isabelle
  imports Relay_Properties Dir_Store Redact_Proofs Artifact Source_Proofs Collect_Proofs Live_Pairing Local_Copy Serve_Run Command_Lines Review_Summary
begin

text \<open>
  \<^bold>\<open>A verification library for aken.\<close> aken lets an investigator read the logs of a host without an account on it.
  A collector on the host (\<^verbatim>\<open>cmd/aken\<close>) reads journals, container logs and files, replaces secrets by
  placeholders, and hands the result over in one of two ways: \<^verbatim>\<open>aken collect\<close> uploads one encrypted artifact, \<^verbatim>\<open>aken serve\<close>
  answers jobs in a live session. A relay (\<^verbatim>\<open>relay\<close>, \<^verbatim>\<open>cmd/aken-relay\<close>) stores and forwards ciphertext only. The reader
  (\<^verbatim>\<open>cmd/aken-mcp\<close>) joins with a token, opens what the relay has and searches it. Each component below is modelled from
  its source; state is passed explicitly, errors are values, and the code's early returns are branches.

  \<^bold>\<open>Values and cryptography.\<close>
  \<^item> \<open>Prelude\<close>: strings, decimal numbers, splitting and joining, 64-bit wrap-around (\<open>wrap64\<close>), big-endian words.
  \<^item> \<open>Encoding\<close>: hexadecimal, base32 and base64 of Go's standard library, through the locale \<open>radix_codec\<close>, which is
    interpreted for each alphabet.
  \<^item> \<open>Crypto\<close>: HKDF, SHA-256, HMAC, AES-GCM and X25519 are a record of functions; \<open>crypto_ok\<close> names the documented facts
    that are used (lengths, opening inverts sealing, both ends of an exchange agree). No secrecy is claimed.
  \<^item> \<open>Token\<close>, \<open>Wire\<close>, \<open>Blob\<close>, \<open>Envelope\<close>: \<^verbatim>\<open>protocol/token.go\<close>, \<^verbatim>\<open>relayapi.go\<close> and \<^verbatim>\<open>jobs.go\<close>, \<^verbatim>\<open>blob.go\<close>, \<^verbatim>\<open>session.go\<close>. Shown: the
    parsers accept exactly what the printers write; chunks, manifests, jobs and results survive sealing; a validated
    manifest tiles its plaintext; the associated data of an envelope determines its header.

  \<^bold>\<open>The relay.\<close>
  \<^item> \<open>Relay_Store\<close> (\<^verbatim>\<open>relay/store.go\<close>, \<^verbatim>\<open>memory.go\<close>): the store interface is the record \<open>store_ops\<close> with its contract in the
    locale \<open>relay_store\<close> (extended by \<open>swept_store\<close>): every operation refines a map from identifiers to sessions. It is
    interpreted for the memory store here and for the directory store in \<open>Dir_Store\<close> (\<^verbatim>\<open>relay/dir.go\<close>), over a
    model of files, links and renames.
  \<^item> \<open>R2_Store\<close>, \<open>R2_Proofs\<close> (\<^verbatim>\<open>internal/relayserver/r2\<close>): the store over a bucket of objects. The bucket is a parameter with the
    documented behaviour of such a service (\<open>bucket_ok\<close>; one call deletes at most 1000 objects), shown to be possible by a bucket of lists; the store keeps the same contract
    for chunks whose index is below the count.
  \<^item> \<open>Relay_Live\<close> (\<^verbatim>\<open>relay/session.go\<close>): posting, polling and joining of live sessions, as two bounded queues.
  \<^item> \<open>Relay_Handler\<close> (\<^verbatim>\<open>relay/handler.go\<close>): routing, authentication and every handler, cut at the points where it waits
    for a body or for a message. A part between two such points is one atomic step of the model, while the code takes the
    store's and the registry's locks several times within it: in \<^verbatim>\<open>handleSession\<close> reading the session, finding the live object and the later call of
    the store, in \<^verbatim>\<open>create\<close> storing the session and registering it, in \<^verbatim>\<open>manifest\<close> reading the session and storing the manifest. For the last
    one \<open>Relay_Properties\<close> has both sides: \<open>manifest_gap\<close>, nothing that leaves the session alone does harm in between, and \<open>manifest_race\<close>, deleting
    and creating it again leaves a manifest without chunks.
  \<^item> \<open>Relay_System\<close>, \<open>Relay_Properties\<close>: requests, bodies, timers and sweeps in any order. The invariant and the
    survival of sessions are proved once in the context of \<open>relay_store\<close>, then read off for a store.
  \<^item> \<open>Relay_Limits\<close>, \<open>Relay_Limits_Proofs\<close> (\<^verbatim>\<open>internal/relayserver/limits\<close>): rates and the anonymous allowance in front of the relay, for
    requests that overlap. The token buckets are a parameter.
  \<^item> \<open>Relay_Server\<close>, \<open>Relay_Command\<close> (\<^verbatim>\<open>internal/relayserver/serve.go\<close>, \<^verbatim>\<open>cmd/aken-relay\<close>): the configuration, the sweep of the chosen store, starting and stopping the
    server, what is logged of a request, and deleting a session from the bucket. The server begins with a swept store, whichever it is.

  \<^bold>\<open>The host.\<close>
  \<^item> \<open>Redact\<close>, \<open>Redact_Proofs\<close> (\<^verbatim>\<open>internal/redact\<close>): rules, matching, placeholders, key blocks and flags. The regular-expression
    library, address parsing and the entropy measure are parameters. Shown: redaction can be undone with the mapping, hides
    what a rule accepts in the written line, and names values one to one.
  \<^item> \<open>Source_Path\<close>, \<open>Source_Files\<close>, \<open>Source_Proofs\<close>, \<open>Source_Journal\<close> (\<^verbatim>\<open>internal/source\<close>): the scope of a run, reading, tailing and
    searching files through a 64 KiB buffer, which on every stream, long lines and read errors included, is the plain scan, and journal commands. The file system and running commands are parameters.
  \<^item> \<open>Collect\<close>, \<open>Collect_Proofs\<close> (\<^verbatim>\<open>internal/collect\<close>): options, rules, sources, the plaintext with its manifest, and the
    upload; the round trip to \<open>Artifact\<close> is the last theorem.
  \<^item> \<open>Screen\<close> (\<^verbatim>\<open>internal/screen\<close>): keys and lines from a terminal, given as the list of what its reads return, prompts, paging, and
    showing text without letting it drive the terminal; UTF-8 as Go decodes and encodes it.
  \<^item> \<open>Review\<close> (\<^verbatim>\<open>internal/collect/review.go\<close>): the listing and the loop of the review screen, joined with the run of \<open>Collect\<close>: what is
    uploaded is what the full listing shows, and went out on a key read after the review began. \<open>Review_Summary\<close> is the text drawn first: no line to inspect and no category goes uncounted.
  \<^item> \<open>Local_Copy\<close> (\<^verbatim>\<open>internal/collect/local.go\<close>, \<^verbatim>\<open>options.go\<close>, \<^verbatim>\<open>cmd/aken/reveal.go\<close>): writing and pruning local copies with every operation of
    the file system able to fail, and revealing placeholders from them.
  \<^item> \<open>Serve_Jobs\<close>, \<open>Serve\<close>, \<open>Serve_Proofs\<close> (\<^verbatim>\<open>internal/serve\<close>): checking and running the jobs of the catalog, the approval and
    review screens over the keys pressed, grants, the audit copy, sending, and the loop over envelopes. Four locales
    (\<open>quiet_frame\<close>, \<open>session_frame\<close>, \<open>scope_frame\<close>, \<open>wide_frame\<close>) say which updates a step may make and carry the proofs from the
    single update to the whole handler; they are interpreted for what a job leaves alone (\<open>kept\<close>), what it
    only adds to (\<open>later\<close>) and what sends nothing (\<open>quiet\<close>).
  \<^item> \<open>Serve_Run\<close> (\<^verbatim>\<open>Run\<close> of \<^verbatim>\<open>internal/serve/run.go\<close>, \<^verbatim>\<open>newAudit\<close>): a whole run, from the checks and the creation of the session on the relay to the steps
    that end it, over the client of \<open>Relay_Client\<close>. The frames are interpreted once more, for the mapping on record (\<open>recorded\<close>).

  \<^bold>\<open>The reader.\<close>
  \<^item> \<open>Relay_Client\<close> (\<^verbatim>\<open>protocol/relayclient.go\<close>): every call with its retries over an environment for network and context.
  \<^item> \<open>Artifact\<close> (\<^verbatim>\<open>internal/artifact\<close>): loading with its checks, reads, and the paged search.
  \<^item> \<open>Stored_Session\<close> (\<^verbatim>\<open>internal/session\<close>): joining, and the session file with its checks, saved step by step.
  \<^item> \<open>Mcp_Tools\<close>, \<open>Mcp_Proofs\<close> (\<^verbatim>\<open>internal/mcp/tools.go\<close>, \<^verbatim>\<open>server.go\<close>): the tools over an artifact, with their text limit and cursors.
  \<^item> \<open>Mcp_Live\<close>, \<open>Mcp_Live_Proofs\<close> (\<^verbatim>\<open>internal/mcp/live.go\<close>): submitting jobs, waiting for their results, plans; numbering and termination.
  \<^item> \<open>Commands\<close> (\<^verbatim>\<open>cmd/aken\<close>, \<^verbatim>\<open>cmd/aken-mcp\<close>): dispatch, checks of flags, times, and join, status and end from the terminal.
  \<^item> \<open>Command_Lines\<close>: Go's package \<^verbatim>\<open>flag\<close>, and with it the flags and defaults of every command. Any spelling of flags is read back; \<^verbatim>\<open>aken-mcp\<close> takes them
    on both sides of the token; what a command starts with has passed the validation of its run.

  \<^bold>\<open>Across the parts.\<close>
  \<^item> \<open>Live_Path\<close>: the results of a live session from the collector through the relay's queue to the reader.
  \<^item> \<open>Live_Pairing\<close>: the key exchange through the relay, from the request the reader's join sends to the keys of the collector, and a job from the reader's tool to the collector.

  \<^bold>\<open>Numbers, bounds and fuel.\<close> Sequence numbers, chunk counts and indexes are words of the code's width; \<^verbatim>\<open>int\<close> and \<^verbatim>\<open>int64\<close> sums that
  involve a caller's number wrap around, the others are integers where the code's own limits keep them far below \<open>2 ^ 63\<close>
  (an artifact has at most 128 MiB; the theorems on searches ask for sizes below \<open>2 ^ 61\<close>). Loops are recursive functions with a
  termination proof. Some need more: the search over an artifact's lines and the wait for a result are \<open>partial_function\<close>s and their return is
  proved; \<open>key_extent\<close> looks at 64 lines as the code does; \<open>resolve_up\<close> has one turn more than the path has
  elements, and the code's loop stops at the root.

  \<^bold>\<open>Granularity.\<close> A call that asks the operating system sees one state of it; two calls may see different ones. Every write of the
  audit copy and every post may fail. Answers of the relay to a reader are functions of the request, one per call.

  \<^bold>\<open>Not modelled.\<close> What a live session and the commands write to the terminal, sizes, durations and usage texts; logging, apart from
  the entry of a request; HTTP framing, TLS and timeouts; JSON text (decoders and encoders are parameters, strictness included); the text of numbers,
  durations and dates, which the standard library parses; the registration of the tools with the protocol library (\<^verbatim>\<open>internal/mcp/server.go\<close>);
  version strings and the embedded rules.
\<close>

end
